(* ===== verification/Prelude.thy ===== *)
theory Prelude
  imports "HOL-Library.Word" "HOL-Library.List_Lexorder" "HOL-Library.Sublist"
begin

text \<open>
  Shared vocabulary of the development: byte strings, 64-bit counters, the error values of
  \<^verbatim>\<open>server/src/utils/error.rs\<close>, the byte-level helpers of \<^verbatim>\<open>server/src/utils/mod.rs\<close> and the
  slice operations of the Rust standard library that the database layer uses (\<open>split\<close>,
  \<open>rsplit\<close>, \<open>splitn\<close>, \<open>starts_with\<close>, UTF-8 checking, big-endian integers), together with
  the generic lemmas the component theories rest on.

  A Rust \<open>&str\<close>, \<open>String\<close> or ruma identifier is represented by its UTF-8 bytes.
  A \<open>u64\<close> is a 64-bit word: its arithmetic wraps, as in the server's release profile, which
  leaves overflow checks off.
\<close>

section \<open>Types\<close>

type_synonym byte = "8 word"
type_synonym bytes = "8 word list"
type_synonym str = "8 word list"
type_synonym u64 = "64 word"

named_theorems key_simps \<open>facts about composite keys and their separators\<close>
named_theorems kv_simps \<open>observations of key-value trees after an update\<close>
named_theorems kv_intros \<open>preservation of tree well-formedness\<close>

text \<open>The error kinds of ruma that the modelled code names.\<close>

datatype error_kind =
    InvalidParam
  | NotFound
  | Forbidden
  | Unrecognized
  | Unknown
  | MissingParam
  | MissingToken
  | UnknownToken
  | Exclusive
  | InvalidUsername
  | UserDeactivated
  | UserInUse
  | NotJson
  | ThreepidDenied
  | BadJson
  | Unauthorized

text \<open>
  \<open>Panicked\<close> is not a value of the Rust enum: it records that the code reached an
  \<open>unwrap\<close>, \<open>expect\<close>, \<open>assert!\<close> or slice index that aborts the request.
\<close>

datatype error =
    BadRequest error_kind string
  | BadDatabase string
  | BadServerResponse string
  | BadConfig string
  | Conflict string
  | AdminCommand string
  | RegexError
  | IoError string
  | Panicked string

type_synonym 'a result = "error + 'a"

abbreviation Ok :: "'a \<Rightarrow> 'a result" where
  "Ok \<equiv> Inr"

abbreviation Err :: "error \<Rightarrow> 'a result" where
  "Err \<equiv> Inl"

text \<open>Sequencing of fallible steps, the \<open>?\<close> operator, without and with a threaded state.\<close>

definition and_then :: "'a result \<Rightarrow> ('a \<Rightarrow> 'b result) \<Rightarrow> 'b result" where
  "and_then r f = (case r of Inl e \<Rightarrow> Inl e | Inr a \<Rightarrow> f a)"

definition step_then :: "'a result \<times> 's \<Rightarrow> ('a \<Rightarrow> 's \<Rightarrow> 'b result \<times> 's) \<Rightarrow> 'b result \<times> 's" where
  "step_then p f = (case p of (Inl e, s) \<Rightarrow> (Inl e, s) | (Inr a, s) \<Rightarrow> f a s)"

definition ok_or :: "error \<Rightarrow> 'a option \<Rightarrow> 'a result" where
  "ok_or e x = (case x of None \<Rightarrow> Inl e | Some a \<Rightarrow> Inr a)"

text \<open>\<open>Option<Result<T>>::transpose\<close> after a fallible map.\<close>

definition map_transpose :: "('a \<Rightarrow> 'b result) \<Rightarrow> 'a option \<Rightarrow> 'b option result" where
  "map_transpose f x =
     (case x of None \<Rightarrow> Inr None
      | Some a \<Rightarrow> (case f a of Inl e \<Rightarrow> Inl e | Inr b \<Rightarrow> Inr (Some b)))"

text \<open>\<open>iter.filter_map(|r| r.ok())\<close> and \<open>iter.collect::<Result<Vec<_>>>()\<close>.\<close>

definition oks :: "'a result list \<Rightarrow> 'a list" where
  "oks rs = List.map_filter (\<lambda>r. case r of Inl e \<Rightarrow> None | Inr a \<Rightarrow> Some a) rs"

fun collect_result :: "'a result list \<Rightarrow> 'a list result" where
  "collect_result [] = Inr []"
| "collect_result (r # rs) =
     (case r of Inl e \<Rightarrow> Inl e
      | Inr a \<Rightarrow> (case collect_result rs of Inl e \<Rightarrow> Inl e | Inr xs \<Rightarrow> Inr (a # xs)))"

text \<open>\<open>iter.map(|x| f(x)).collect::<Result<Vec<_>>>()\<close> where \<open>f\<close> changes a state.\<close>

fun traverse :: "('a \<Rightarrow> 's \<Rightarrow> 'b result \<times> 's) \<Rightarrow> 'a list \<Rightarrow> 's \<Rightarrow> 'b list result \<times> 's" where
  "traverse f [] s = (Inr [], s)"
| "traverse f (x # xs) s =
     step_then (f x s) (\<lambda>y s. step_then (traverse f xs s) (\<lambda>ys s. (Inr (y # ys), s)))"

section \<open>Slices\<close>

text \<open>\<open>slice.split(|&b| b == 0xff)\<close>: the pieces between separators, never an empty list.\<close>

abbreviation sep :: byte where
  "sep \<equiv> 255"

fun split_sep :: "bytes \<Rightarrow> bytes list" where
  "split_sep [] = [[]]"
| "split_sep (b # bs) =
     (if b = sep then [] # split_sep bs
      else (case split_sep bs of [] \<Rightarrow> [[b]] | p # ps \<Rightarrow> (b # p) # ps))"

text \<open>\<open>slice.rsplit(..)\<close> yields the same pieces from the back.\<close>

definition rsplit_sep :: "bytes \<Rightarrow> bytes list" where
  "rsplit_sep bs = rev (split_sep bs)"

text \<open>\<open>slice.splitn(n, ..)\<close>: at most \<open>n\<close> pieces, the last one unsplit.\<close>

fun splitn_sep :: "nat \<Rightarrow> bytes \<Rightarrow> bytes list" where
  "splitn_sep 0 bs = []"
| "splitn_sep (Suc 0) bs = [bs]"
| "splitn_sep (Suc (Suc n)) bs =
     (case dropWhile (\<lambda>b. b \<noteq> sep) bs of
        [] \<Rightarrow> [bs]
      | _ # rest \<Rightarrow> takeWhile (\<lambda>b. b \<noteq> sep) bs # splitn_sep (Suc n) rest)"

text \<open>\<open>slice.join(&0xff)\<close>.\<close>

fun join_sep :: "bytes list \<Rightarrow> bytes" where
  "join_sep [] = []"
| "join_sep [p] = p"
| "join_sep (p # q # ps) = p @ [sep] @ join_sep (q # ps)"

abbreviation starts_with :: "bytes \<Rightarrow> bytes \<Rightarrow> bool" where
  "starts_with k p \<equiv> prefix p k"

text \<open>ASCII literals \<open>b"..."\<close>.\<close>

definition ascii :: "string \<Rightarrow> bytes" where
  "ascii s = map of_char s"

section \<open>UTF-8\<close>

definition in_range :: "byte \<Rightarrow> byte \<Rightarrow> byte \<Rightarrow> bool" where
  "in_range lo hi b \<longleftrightarrow> lo \<le> b \<and> b \<le> hi"

abbreviation cont :: "byte \<Rightarrow> bool" where
  "cont b \<equiv> in_range 0x80 0xBF b"

text \<open>
  The well-formed byte sequences of UTF-8 (the table \<open>String::from_utf8\<close> follows): no
  overlong forms, no surrogates, nothing above U+10FFFF.
\<close>

fun utf8 :: "bytes \<Rightarrow> bool" where
  "utf8 [] = True"
| "utf8 (a # bs) =
     (if a \<le> 0x7F then utf8 bs
      else if in_range 0xC2 0xDF a then
        (case bs of b # cs \<Rightarrow> cont b \<and> utf8 cs | [] \<Rightarrow> False)
      else if in_range 0xE0 0xEF a then
        (case bs of
           b # c # ds \<Rightarrow>
             (if a = 0xE0 then in_range 0xA0 0xBF b
              else if a = 0xED then in_range 0x80 0x9F b else cont b) \<and> cont c \<and> utf8 ds
         | _ \<Rightarrow> False)
      else if in_range 0xF0 0xF4 a then
        (case bs of
           b # c # d # es \<Rightarrow>
             (if a = 0xF0 then in_range 0x90 0xBF b
              else if a = 0xF4 then in_range 0x80 0x8F b else cont b)
             \<and> cont c \<and> cont d \<and> utf8 es
         | _ \<Rightarrow> False)
      else False)"

text \<open>\<open>utils::string_from_bytes\<close>.\<close>

definition string_from_bytes :: "bytes \<Rightarrow> str option" where
  "string_from_bytes bs = (if utf8 bs then Some bs else None)"

section \<open>Big-endian integers\<close>

fun be_bytes :: "nat \<Rightarrow> nat \<Rightarrow> bytes" where
  "be_bytes 0 n = []"
| "be_bytes (Suc k) n = be_bytes k (n div 256) @ [of_nat (n mod 256)]"

definition be_val :: "bytes \<Rightarrow> nat" where
  "be_val bs = foldl (\<lambda>a b. a * 256 + unat b) 0 bs"

text \<open>\<open>u64::to_be_bytes\<close>, \<open>u64::from_be_bytes\<close> and \<open>utils::u64_from_bytes\<close>.\<close>

definition to_be_bytes :: "u64 \<Rightarrow> bytes" where
  "to_be_bytes n = be_bytes 8 (unat n)"

definition u64_from_bytes :: "bytes \<Rightarrow> u64 option" where
  "u64_from_bytes bs = (if length bs = 8 then Some (of_nat (be_val bs)) else None)"

text \<open>\<open>utils::increment\<close>: counters start at one; anything that is not eight bytes restarts them.\<close>

definition increment :: "bytes option \<Rightarrow> bytes option" where
  "increment old =
     (let number = (case old of
                      None \<Rightarrow> 1
                    | Some bs \<Rightarrow> (case u64_from_bytes bs of Some n \<Rightarrow> n + 1 | None \<Rightarrow> 1))
      in Some (to_be_bytes number))"

section \<open>Decimal numbers\<close>

text \<open>
  \<open>u64::to_string\<close> and \<open>str::parse::<u64>\<close>: the latter accepts a leading plus sign, wants at least one
  digit and refuses what does not fit.
\<close>

fun show_nat :: "nat \<Rightarrow> str" where
  "show_nat n = (if n < 10 then [48 + of_nat n] else show_nat (n div 10) @ [48 + of_nat (n mod 10)])"

declare show_nat.simps [simp del]

definition show_u64 :: "u64 \<Rightarrow> str" where
  "show_u64 n = show_nat (unat n)"

fun digits :: "str \<Rightarrow> nat \<Rightarrow> nat option" where
  "digits [] acc = Some acc"
| "digits (b # bs) acc =
     (if in_range 48 57 b then digits bs (acc * 10 + (unat b - 48)) else None)"

definition parse_u64 :: "str \<Rightarrow> u64 option" where
  "parse_u64 s =
     (let ds = (case s of b # bs \<Rightarrow> if b = 43 then bs else s | [] \<Rightarrow> [])
      in if ds = [] then None
         else (case digits ds 0 of
                 Some n \<Rightarrow> if n < 2 ^ 64 then Some (of_nat n) else None
               | None \<Rightarrow> None))"

text \<open>\<open>u64::MAX\<close>.\<close>

abbreviation u64_max :: u64 where
  "u64_max \<equiv> - 1"

section \<open>Third-party parameters\<close>

text \<open>
  The identifier grammar of the ruma crate: \<open>UserId::parse\<close> and its siblings accept a string or
  refuse it, \<open>StateEventType::from\<close> reads an event type (an event type is represented by the
  string \<open>to_string\<close> gives), \<open>server_name\<close> is the server part of a user or room id, and \<open>new_room_id_v2\<close>
  maps an event id to \<open>RoomId::new_v2\<close> of its local part.
\<close>

record ruma =
  valid_user_id :: "str \<Rightarrow> bool"
  valid_room_id :: "str \<Rightarrow> bool"
  valid_event_id :: "str \<Rightarrow> bool"
  valid_server_name :: "str \<Rightarrow> bool"
  valid_alias_id :: "str \<Rightarrow> bool"
  state_event_type :: "str \<Rightarrow> str"
  server_name_of :: "str \<Rightarrow> str"
  new_room_id_v2 :: "str \<Rightarrow> str option"

text \<open>A grammar that accepts everything, for concrete runs of the definitions.\<close>

definition accept_all :: ruma where
  "accept_all = \<lparr>valid_user_id = (\<lambda>_. True), valid_room_id = (\<lambda>_. True), valid_event_id = (\<lambda>_. True),
     valid_server_name = (\<lambda>_. True), valid_alias_id = (\<lambda>_. True), state_event_type = (\<lambda>s. s),
     server_name_of = (\<lambda>s. tl (dropWhile (\<lambda>b. b \<noteq> 58) s)), new_room_id_v2 = Some\<rparr>"

text \<open>
  The caches are \<open>LruCache\<close>s: the crate decides which entries an insertion drops. What it drops is
  an argument, and nothing is assumed of it; a cache is represented by its contents.
\<close>

type_synonym ('k, 'v) evict = "('k \<rightharpoonup> 'v) \<Rightarrow> 'k \<Rightarrow> 'k set"

definition lru_insert :: "('k, 'v) evict \<Rightarrow> 'k \<Rightarrow> 'v \<Rightarrow> ('k \<rightharpoonup> 'v) \<Rightarrow> ('k \<rightharpoonup> 'v)" where
  "lru_insert ev k v c = (c(k \<mapsto> v)) |` (- ev c k)"

section \<open>Generic lemmas\<close>

lemma and_then_simps [simp]:
  "and_then (Inl e) f = Inl e" "and_then (Inr a) f = f a"
  by (simp_all add: and_then_def)

lemma and_then_eq_Inr: "and_then r f = Inr b \<longleftrightarrow> (\<exists>a. r = Inr a \<and> f a = Inr b)"
  by (cases r) auto

lemma step_then_simps [simp]:
  "step_then (Inl e, s) f = (Inl e, s)" "step_then (Inr a, s) f = f a s"
  by (simp_all add: step_then_def)

lemma ok_or_simps [simp]: "ok_or e None = Inl e" "ok_or e (Some a) = Inr a"
  by (simp_all add: ok_or_def)

lemma map_transpose_simps [simp]:
  "map_transpose f None = Inr None"
  "f a = Inr b \<Longrightarrow> map_transpose f (Some a) = Inr (Some b)"
  "f a = Inl e \<Longrightarrow> map_transpose f (Some a) = Inl e"
  by (simp_all add: map_transpose_def)

lemma oks_simps [simp]:
  "oks [] = []" "oks (Inl e # rs) = oks rs" "oks (Inr a # rs) = a # oks rs"
  by (simp_all add: oks_def List.map_filter_def)

lemma oks_map_Inr: "(\<And>x. x \<in> set xs \<Longrightarrow> f x = Inr (g x)) \<Longrightarrow> oks (map f xs) = map g xs"
  by (induction xs) auto

lemma set_oks: "a \<in> set (oks rs) \<longleftrightarrow> Inr a \<in> set rs"
  by (induction rs rule: list.induct) (auto simp: oks_def List.map_filter_def split: sum.splits)

lemma collect_result_map_Inr:
  "(\<And>x. x \<in> set xs \<Longrightarrow> f x = Inr (g x)) \<Longrightarrow> collect_result (map f xs) = Inr (map g xs)"
  by (induction xs) auto

lemma lru_insert_Some: "lru_insert ev k v c k' = Some w \<Longrightarrow> (k' = k \<and> w = v) \<or> c k' = Some w"
  by (auto simp: lru_insert_def restrict_map_def split: if_splits)

text \<open>A counter below \<open>u64::MAX\<close> grows when it is incremented.\<close>

lemma unat_Suc: "unat (c :: u64) + 1 < 2 ^ 64 \<Longrightarrow> unat (c + 1) = Suc (unat c)"
  by (subst unat_word_ariths(1)) simp

lemma less_Suc_u64: "unat (c :: u64) + 1 < 2 ^ 64 \<Longrightarrow> n \<le> c \<Longrightarrow> n < c + 1"
  by (simp add: word_less_nat_alt word_le_nat_alt unat_Suc)

lemma unat_max_minus: "unat (u64_max - x) = 2 ^ 64 - 1 - unat x"
proof -
  have "unat (u64_max - x) = unat u64_max - unat x" by (rule unat_sub) simp
  moreover have "unat u64_max = 2 ^ 64 - 1"
    by (simp add: unsigned_minus_1_eq_mask mask_eq_exp_minus_1)
  ultimately show ?thesis by simp
qed

lemma max_minus_less [simp]: "u64_max - x < u64_max - y \<longleftrightarrow> y < x"
  using unsigned_less[of x, where ?'a = nat] unsigned_less[of y, where ?'a = nat]
  by (simp add: word_less_nat_alt unat_max_minus) linarith

lemma max_minus_inj [simp]: "u64_max - x = u64_max - y \<longleftrightarrow> x = y"
  by auto

lemma less_add_1_iff:
  assumes "x \<noteq> u64_max"
  shows "x + 1 \<le> y \<longleftrightarrow> x < (y :: u64)"
proof -
  have "unat x \<noteq> unat u64_max" using assms by (simp add: word_unat_eq_iff)
  moreover have "unat x < 2 ^ 64" using unsigned_less[of x, where ?'a = nat] by simp
  ultimately have "unat x + 1 < 2 ^ 64" using unat_max_minus[of 0] by simp
  then show ?thesis by (simp add: word_le_nat_alt word_less_nat_alt unat_Suc Suc_le_eq)
qed

lemma le_minus_1_iff:
  assumes "y \<noteq> 0"
  shows "x \<le> y - 1 \<longleftrightarrow> x < (y :: u64)"
proof -
  have "0 < unat y" using assms by (simp add: unat_gt_0)
  moreover from this have "unat (y - 1) = unat y - 1"
    by (subst unat_sub) (simp_all add: word_le_nat_alt)
  ultimately show ?thesis by (simp add: word_le_nat_alt word_less_nat_alt) linarith
qed

subsection \<open>Separators\<close>

lemma split_sep_not_Nil [simp]: "split_sep bs \<noteq> []"
  by (induction bs) (auto split: list.splits)

lemma split_sep_id [key_simps]: "sep \<notin> set bs \<Longrightarrow> split_sep bs = [bs]"
  by (induction bs) auto

lemma split_sep_append [key_simps]:
  "sep \<notin> set a \<Longrightarrow> split_sep (a @ sep # b) = a # split_sep b"
  by (induction a) auto

lemma split_sep_append_two: "\<exists>p ps. split_sep (a @ sep # b) = p # ps \<and> ps \<noteq> []
    \<and> last ps = last (split_sep b)"
  by (induction a) (auto split: list.splits)

lemma last_split_sep: "last (split_sep (a @ sep # b)) = last (split_sep b)"
  using split_sep_append_two[of a b] by auto

lemma rsplit_sep_not_Nil [simp]: "rsplit_sep bs \<noteq> []"
  by (simp add: rsplit_sep_def)

lemma hd_rsplit_sep [key_simps]: "sep \<notin> set b \<Longrightarrow> hd (rsplit_sep (a @ sep # b)) = b"
  by (simp add: rsplit_sep_def hd_rev last_split_sep split_sep_id)

lemma hd_rsplit_sep_id [key_simps]: "sep \<notin> set b \<Longrightarrow> hd (rsplit_sep b) = b"
  by (simp add: rsplit_sep_def split_sep_id)

lemma dropWhile_sep [key_simps]:
  "sep \<notin> set x \<Longrightarrow> dropWhile (\<lambda>b. b \<noteq> sep) (x @ sep # y) = sep # y"
  by (induction x) auto

lemma takeWhile_sep [key_simps]:
  "sep \<notin> set x \<Longrightarrow> takeWhile (\<lambda>b. b \<noteq> sep) (x @ sep # y) = x"
  by (induction x) auto

lemma splitn2_append [key_simps]:
  "sep \<notin> set a \<Longrightarrow> splitn_sep 2 (a @ sep # b) = [a, b]"
  by (simp add: numeral_2_eq_2 key_simps)

lemma splitn3_append [key_simps]:
  "sep \<notin> set a \<Longrightarrow> sep \<notin> set b \<Longrightarrow> splitn_sep 3 (a @ sep # b @ sep # c) = [a, b, c]"
  by (simp add: numeral_3_eq_3 key_simps)

lemma join_sep_Cons: "ps \<noteq> [] \<Longrightarrow> join_sep (p # ps) = p @ sep # join_sep ps"
  by (cases ps) auto

lemma split_join_sep:
  "ps \<noteq> [] \<Longrightarrow> \<forall>p \<in> set ps. sep \<notin> set p \<Longrightarrow> split_sep (join_sep ps) = ps"
  by (induction ps rule: join_sep.induct) (auto simp: key_simps)

lemma sep_append_inj [key_simps]:
  assumes "sep \<notin> set a" "sep \<notin> set c"
  shows "a @ sep # b = c @ sep # d \<longleftrightarrow> a = c \<and> b = d"
proof
  assume eq: "a @ sep # b = c @ sep # d"
  have "a = c" using arg_cong[OF eq, of "takeWhile (\<lambda>x. x \<noteq> sep)"] assms
    by (simp add: takeWhile_sep)
  then show "a = c \<and> b = d" using eq by simp
qed simp

lemma sep_prefix_iff [key_simps]:
  assumes "sep \<notin> set a" "sep \<notin> set c"
  shows "prefix (a @ [sep]) (c @ sep # d) \<longleftrightarrow> a = c"
proof
  assume "prefix (a @ [sep]) (c @ sep # d)"
  then obtain z where "c @ sep # d = a @ sep # z" by (auto simp: prefix_def)
  then show "a = c" using assms by (simp add: sep_append_inj)
qed (simp add: prefix_def)

lemma sep_prefix_append [key_simps]:
  assumes "sep \<notin> set a" "sep \<notin> set c"
  shows "prefix (a @ sep # b) (c @ sep # d) \<longleftrightarrow> a = c \<and> prefix b d"
proof -
  have "prefix (a @ sep # b) (c @ sep # d) \<longleftrightarrow> (\<exists>z. c @ sep # d = a @ sep # (b @ z))"
    by (auto simp: prefix_def)
  also have "\<dots> \<longleftrightarrow> a = c \<and> prefix b d"
    using assms by (auto simp: sep_append_inj prefix_def)
  finally show ?thesis .
qed

subsection \<open>UTF-8 text contains no separator\<close>

lemma utf8_no_sep [key_simps]: "utf8 bs \<Longrightarrow> sep \<notin> set bs"
proof (induction bs rule: length_induct)
  case (1 bs)
  then have IH: "\<And>cs. length cs < length bs \<Longrightarrow> utf8 cs \<Longrightarrow> sep \<notin> set cs" by blast
  show ?case
  proof (cases bs)
    case (Cons a cs)
    with "1.prems" IH show ?thesis
      by (auto simp: in_range_def split: if_splits list.splits)
  qed simp
qed

lemma string_from_bytes_utf8 [simp]: "utf8 bs \<Longrightarrow> string_from_bytes bs = Some bs"
  by (simp add: string_from_bytes_def)

lemma string_from_bytes_Some: "string_from_bytes bs = Some s \<longleftrightarrow> s = bs \<and> utf8 bs"
  by (auto simp: string_from_bytes_def)

lemma utf8_ascii_bytes: "\<forall>b \<in> set bs. b \<le> 0x7F \<Longrightarrow> utf8 bs"
  by (induction bs) auto

subsection \<open>Big-endian integers\<close>

lemma length_be_bytes [simp]: "length (be_bytes k n) = k"
  by (induction k arbitrary: n) auto

lemma be_val_snoc [simp]: "be_val (bs @ [b]) = be_val bs * 256 + unat b"
  by (simp add: be_val_def)

lemma be_val_Nil [simp]: "be_val [] = 0"
  by (simp add: be_val_def)

lemma unat_of_nat_256: "unat (of_nat (n mod 256) :: byte) = n mod 256"
  by (simp add: unat_of_nat)

lemma be_val_be_bytes: "be_val (be_bytes k n) = n mod 256 ^ k"
proof (induction k arbitrary: n)
  case (Suc k)
  have "n mod 256 ^ Suc k = n mod (256 * 256 ^ k)" by simp
  also have "\<dots> = 256 * (n div 256 mod 256 ^ k) + n mod 256" by (rule mod_mult2_eq)
  finally show ?case using Suc by (simp add: unat_of_nat_256)
qed simp

lemma be_bytes_be_val: "be_bytes (length bs) (be_val bs) = bs"
proof (induction bs rule: rev_induct)
  case (snoc b bs)
  have lt: "unat b < 256" using unsigned_less[of b, where ?'a = nat] by simp
  have "(be_val bs * 256 + unat b) div 256 = be_val bs" using lt by simp
  moreover have "(be_val bs * 256 + unat b) mod 256 = unat b" using lt by simp
  ultimately show ?case using snoc by simp
qed simp

lemma be_val_less: "be_val bs < 256 ^ length bs"
proof -
  have "be_val bs = be_val bs mod 256 ^ length bs"
    using be_val_be_bytes[of "length bs" "be_val bs"] by (simp add: be_bytes_be_val)
  then show ?thesis by (metis mod_less_divisor zero_less_numeral zero_less_power)
qed

lemma length_to_be_bytes [simp]: "length (to_be_bytes n) = 8"
  by (simp add: to_be_bytes_def)

lemma be_val_to_be_bytes [simp]: "be_val (to_be_bytes n) = unat n"
proof -
  have "unat n < 2 ^ 64" using unsigned_less[of n, where ?'a = nat] by simp
  then show ?thesis by (simp add: to_be_bytes_def be_val_be_bytes)
qed

lemma u64_round_trip [simp]: "u64_from_bytes (to_be_bytes n) = Some n"
  by (simp add: u64_from_bytes_def)

lemma u64_from_bytes_Some: "u64_from_bytes bs = Some n \<longleftrightarrow> bs = to_be_bytes n"
proof
  assume "u64_from_bytes bs = Some n"
  then have l: "length bs = 8" and n: "n = of_nat (be_val bs)"
    by (auto simp: u64_from_bytes_def split: if_splits)
  have "be_val bs < 2 ^ 64" using be_val_less[of bs] l by simp
  then have "unat n = be_val bs" using n by (simp add: unat_of_nat)
  then show "bs = to_be_bytes n" using be_bytes_be_val[of bs] l by (simp add: to_be_bytes_def)
qed simp

lemma to_be_bytes_inj [simp]: "to_be_bytes m = to_be_bytes n \<longleftrightarrow> m = n"
  by (metis option.inject u64_round_trip)

text \<open>Byte order of equally long keys is numeric order.\<close>

lemma be_val_append: "be_val (as @ bs) = be_val as * 256 ^ length bs + be_val bs"
proof (induction bs rule: rev_induct)
  case (snoc b bs)
  have "be_val (as @ bs @ [b]) = be_val ((as @ bs) @ [b])" by simp
  also have "\<dots> = be_val (as @ bs) * 256 + unat b" by (rule be_val_snoc)
  finally show ?case using snoc by (simp add: algebra_simps)
qed simp

lemma be_val_Cons: "be_val (b # bs) = unat b * 256 ^ length bs + be_val bs"
  using be_val_append[of "[b]" bs] be_val_snoc[of "[]" b] by simp

lemma be_val_less_iff:
  "length xs = length ys \<Longrightarrow> be_val xs < be_val ys \<longleftrightarrow> xs < ys"
proof (induction xs ys rule: list_induct2)
  case (Cons x xs y ys)
  define P :: nat where "P = 256 ^ length xs"
  have bx: "be_val xs < P" and b_y: "be_val ys < P"
    using be_val_less[of xs] be_val_less[of ys] Cons.hyps by (auto simp: P_def)
  have gt: "u * P + c < v * P + d" if "u < v" "c < P" for u v c d :: nat
  proof -
    have "Suc u * P \<le> v * P" using that(1) by (intro mult_le_mono1) simp
    then show ?thesis using that(2) by simp
  qed
  have "unat x * P + be_val xs < unat y * P + be_val ys \<longleftrightarrow>
      unat x < unat y \<or> unat x = unat y \<and> be_val xs < be_val ys"
    using gt[of "unat x" "unat y" "be_val xs" "be_val ys"]
      gt[of "unat y" "unat x" "be_val ys" "be_val xs"] bx b_y
    by (cases "unat x" "unat y" rule: linorder_cases) auto
  then show ?case
    using Cons by (simp add: be_val_Cons P_def word_less_nat_alt word_unat_eq_iff)
qed simp

lemma to_be_bytes_less [simp]: "to_be_bytes m < to_be_bytes n \<longleftrightarrow> m < n"
  using be_val_less_iff[of "to_be_bytes m" "to_be_bytes n"] by (simp add: word_less_nat_alt)

lemma to_be_bytes_le [simp]: "to_be_bytes m \<le> to_be_bytes n \<longleftrightarrow> m \<le> n"
  by (metis le_less to_be_bytes_inj to_be_bytes_less)

lemma to_be_bytes_eq_append [simp]:
  "to_be_bytes m @ a = to_be_bytes n @ b \<longleftrightarrow> m = n \<and> a = b"
  by auto

lemma prefix_to_be_bytes [simp]:
  "prefix (to_be_bytes m @ a) (to_be_bytes n @ b) \<longleftrightarrow> m = n \<and> prefix a b"
  by (auto simp: prefix_def)

lemma increment_Some [simp]: "increment old = Some (to_be_bytes
    (case old of None \<Rightarrow> 1 | Some bs \<Rightarrow> (case u64_from_bytes bs of Some n \<Rightarrow> n + 1 | None \<Rightarrow> 1)))"
  by (simp add: increment_def Let_def)

subsection \<open>Decimal numbers round-trip\<close>

lemma digits_append: "digits (xs @ ys) acc = Option.bind (digits xs acc) (digits ys)"
  by (induction xs arbitrary: acc) auto

lemma digit_byte: "d < 10 \<Longrightarrow> unat (48 + of_nat d :: byte) = 48 + d"
  by (subst unat_word_ariths(1)) (simp add: unat_of_nat)

lemma digits_one: "d < 10 \<Longrightarrow> digits [48 + of_nat d] acc = Some (acc * 10 + d)"
  using digit_byte[of d] by (simp add: in_range_def word_le_nat_alt)

lemma digits_show_nat: "digits (show_nat n) 0 = Some n"
proof (induction n rule: show_nat.induct)
  case (1 n)
  show ?case
  proof (cases "n < 10")
    case True
    then show ?thesis using digits_one[of n 0] by (subst show_nat.simps) simp
  next
    case False
    then show ?thesis
      using 1 digits_one[of "n mod 10" "n div 10"] by (subst show_nat.simps) (simp add: digits_append)
  qed
qed

lemma show_nat_hd: "\<exists>b bs. show_nat n = b # bs \<and> in_range 48 57 b"
proof (induction n rule: show_nat.induct)
  case (1 n)
  show ?case
  proof (cases "n < 10")
    case True
    then show ?thesis
      using digit_byte[of n] by (subst show_nat.simps) (auto simp: in_range_def word_le_nat_alt)
  next
    case False
    then show ?thesis using 1 by (subst show_nat.simps) auto
  qed
qed

lemma parse_show_u64 [simp]: "parse_u64 (show_u64 n) = Some n"
proof -
  obtain b bs where b: "show_nat (unat n) = b # bs" "in_range 48 57 b" using show_nat_hd by blast
  have "b \<noteq> 43" using b(2) by (auto simp: in_range_def)
  moreover have "unat n < 2 ^ 64" using unsigned_less[of n, where ?'a = nat] by simp
  ultimately show ?thesis
    using b digits_show_nat[of "unat n"] by (simp add: parse_u64_def show_u64_def Let_def)
qed

lemma show_u64_hd: "\<exists>b bs. show_u64 n = b # bs \<and> in_range 48 57 b"
  unfolding show_u64_def by (rule show_nat_hd)

subsection \<open>Byte order and common prefixes\<close>

lemma le_append_right [simp]: "(xs :: bytes) \<le> xs @ ys"
  by (induction xs) auto

lemma prefix_le: "prefix p (k :: bytes) \<Longrightarrow> p \<le> k"
  by (auto simp: prefix_def)

lemma append_less_append [simp]: "(xs :: bytes) @ ys < xs @ zs \<longleftrightarrow> ys < zs"
  by (induction xs) auto

lemma append_le_append [simp]: "(xs :: bytes) @ ys \<le> xs @ zs \<longleftrightarrow> ys \<le> zs"
  by (induction xs) auto

lemma append_less_same_length:
  "length a = length b \<Longrightarrow> a < (b :: bytes) \<Longrightarrow> a @ x < b @ y"
  by (induction a b rule: list_induct2) auto

text \<open>The keys with a common prefix form an interval of the key order.\<close>

lemma prefix_convex:
  "(a :: bytes) \<le> b \<Longrightarrow> b \<le> c \<Longrightarrow> prefix p a \<Longrightarrow> prefix p c \<Longrightarrow> prefix p b"
proof (induction p arbitrary: a b c)
  case (Cons x p)
  from Cons.prems(3,4) obtain a' c' where "a = x # a'" "c = x # c'" by (auto simp: prefix_def)
  moreover from this Cons.prems obtain b' where "b = x # b'" by (cases b) auto
  ultimately show ?case using Cons by auto
qed simp

text \<open>On a list whose elements satisfy \<open>P\<close> first, taking while \<open>P\<close> is filtering by \<open>P\<close>.\<close>

lemma takeWhile_sorted_filter:
  assumes "sorted_wrt R xs" "\<And>x y. R x y \<Longrightarrow> x \<in> set xs \<Longrightarrow> y \<in> set xs \<Longrightarrow> P y \<Longrightarrow> P x"
  shows "takeWhile P xs = filter P xs"
  using assms
proof (induction xs)
  case (Cons x xs)
  show ?case
  proof (cases "P x")
    case True
    then show ?thesis using Cons by auto
  next
    case False
    then have "\<forall>y \<in> set xs. \<not> P y" using Cons.prems by auto
    then show ?thesis using False by (simp add: filter_empty_conv)
  qed
qed simp

end
