(* ===== verification/KvTree.thy ===== *)
theory KvTree
  imports Prelude
begin

text \<open>
  The storage interface of \<^verbatim>\<open>server/src/database/abstraction.rs\<close> (trait \<open>KvTree\<close>) and its two
  providers. A table of the SQLite backend (\<^verbatim>\<open>abstraction/sqlite.rs\<close>) is a list of rows in
  ascending key order, with \<open>kv_wf\<close> as its well-formedness (the key column is a primary key);
  each SQL statement of the source becomes one function on rows. The RocksDB backend
  (\<^verbatim>\<open>abstraction/rocksdb.rs\<close>) calls a third-party engine, which is a parameter of its
  definitions. The locale \<open>kv_tree\<close> states what every client relies on; it is interpreted on
  both providers. \<^verbatim>\<open>abstraction/watchers.rs\<close> is modelled at the end.

  Failures of the storage engine itself (disk, connection) are outside the model: the
  operations here are total.
\<close>

section \<open>Tables of rows: the SQLite backend\<close>

type_synonym kvtree = "(bytes \<times> bytes) list"

definition kv_wf :: "kvtree \<Rightarrow> bool" where
  "kv_wf t \<longleftrightarrow> sorted_wrt (<) (map fst t)"

text \<open>\<open>SELECT value FROM t WHERE key = ?\<close>\<close>

definition kv_get :: "kvtree \<Rightarrow> bytes \<Rightarrow> bytes option" where
  "kv_get t k = map_of t k"

text \<open>\<open>INSERT OR REPLACE INTO t (key, value) VALUES (?, ?)\<close>\<close>

fun kv_insert :: "kvtree \<Rightarrow> bytes \<Rightarrow> bytes \<Rightarrow> kvtree" where
  "kv_insert [] k v = [(k, v)]"
| "kv_insert ((k', v') # t) k v =
     (if k < k' then (k, v) # (k', v') # t
      else if k = k' then (k, v) # t
      else (k', v') # kv_insert t k v)"

text \<open>\<open>DELETE FROM t WHERE key = ?\<close>\<close>

definition kv_remove :: "kvtree \<Rightarrow> bytes \<Rightarrow> kvtree" where
  "kv_remove t k = filter (\<lambda>(k', _). k' \<noteq> k) t"

text \<open>\<open>SELECT key, value FROM t ORDER BY key ASC\<close>\<close>

definition kv_iter :: "kvtree \<Rightarrow> (bytes \<times> bytes) list" where
  "kv_iter t = t"

text \<open>\<open>... WHERE key <= ? ORDER BY key DESC\<close> or \<open>... WHERE key >= ? ORDER BY key ASC\<close>\<close>

definition kv_iter_from :: "kvtree \<Rightarrow> bytes \<Rightarrow> bool \<Rightarrow> (bytes \<times> bytes) list" where
  "kv_iter_from t from backwards =
     (if backwards then rev (filter (\<lambda>(k, _). k \<le> from) t)
      else filter (\<lambda>(k, _). from \<le> k) t)"

definition kv_scan_prefix :: "kvtree \<Rightarrow> bytes \<Rightarrow> (bytes \<times> bytes) list" where
  "kv_scan_prefix t p = takeWhile (\<lambda>(k, _). starts_with k p) (kv_iter_from t p False)"

text \<open>\<open>increment\<close>: the stored counter after the step, and the table.\<close>

definition kv_increment :: "kvtree \<Rightarrow> bytes \<Rightarrow> bytes \<times> kvtree" where
  "kv_increment t k =
     (let old = kv_get t k; new = the (increment old)
      in (new, kv_insert t k new))"

definition kv_insert_batch :: "kvtree \<Rightarrow> (bytes \<times> bytes) list \<Rightarrow> kvtree" where
  "kv_insert_batch t kvs = fold (\<lambda>(k, v) t. kv_insert t k v) kvs t"

definition kv_increment_batch :: "kvtree \<Rightarrow> bytes list \<Rightarrow> kvtree" where
  "kv_increment_batch t ks = fold (\<lambda>k t. snd (kv_increment t k)) ks t"

text \<open>The trait's default \<open>clear\<close> removes row by row; SQLite overrides it by \<open>DELETE FROM t\<close>.\<close>

definition kv_clear :: "kvtree \<Rightarrow> kvtree" where
  "kv_clear t = fold (\<lambda>(k, _) t. kv_remove t k) (kv_iter t) t"

definition sqlite_clear :: "kvtree \<Rightarrow> kvtree" where
  "sqlite_clear t = []"

text \<open>
  The loop \<open>for (key, _) in tree.scan_prefix(p) { tree.remove(&key)?; }\<close>, which the database
  layer writes out wherever it forgets a family of rows.
\<close>

definition kv_remove_keys :: "kvtree \<Rightarrow> bytes list \<Rightarrow> kvtree" where
  "kv_remove_keys t ks = fold (\<lambda>k t. kv_remove t k) ks t"

definition kv_remove_prefix :: "kvtree \<Rightarrow> bytes \<Rightarrow> kvtree" where
  "kv_remove_prefix t p = kv_remove_keys t (map fst (kv_scan_prefix t p))"

section \<open>The RocksDB backend, over an engine\<close>

text \<open>
  The engine operations \<^verbatim>\<open>rocksdb.rs\<close> calls on a column family; \<open>iterator_from\<close> takes the
  start key and whether the direction is reverse, \<open>iterator_start\<close> begins at the first key.
\<close>

record 'db rocksdb_ops =
  get_cf :: "'db \<Rightarrow> bytes \<Rightarrow> bytes option"
  put_cf :: "'db \<Rightarrow> bytes \<Rightarrow> bytes \<Rightarrow> 'db"
  delete_cf :: "'db \<Rightarrow> bytes \<Rightarrow> 'db"
  iterator_from :: "'db \<Rightarrow> bytes \<Rightarrow> bool \<Rightarrow> (bytes \<times> bytes) list"
  iterator_start :: "'db \<Rightarrow> (bytes \<times> bytes) list"

definition rocks_get :: "'db rocksdb_ops \<Rightarrow> 'db \<Rightarrow> bytes \<Rightarrow> bytes option" where
  "rocks_get E db k = get_cf E db k"

definition rocks_insert :: "'db rocksdb_ops \<Rightarrow> 'db \<Rightarrow> bytes \<Rightarrow> bytes \<Rightarrow> 'db" where
  "rocks_insert E db k v = put_cf E db k v"

definition rocks_insert_batch :: "'db rocksdb_ops \<Rightarrow> 'db \<Rightarrow> (bytes \<times> bytes) list \<Rightarrow> 'db" where
  "rocks_insert_batch E db kvs = fold (\<lambda>(k, v) db. put_cf E db k v) kvs db"

definition rocks_remove :: "'db rocksdb_ops \<Rightarrow> 'db \<Rightarrow> bytes \<Rightarrow> 'db" where
  "rocks_remove E db k = delete_cf E db k"

definition rocks_iter :: "'db rocksdb_ops \<Rightarrow> 'db \<Rightarrow> (bytes \<times> bytes) list" where
  "rocks_iter E db = iterator_start E db"

definition rocks_iter_from ::
  "'db rocksdb_ops \<Rightarrow> 'db \<Rightarrow> bytes \<Rightarrow> bool \<Rightarrow> (bytes \<times> bytes) list" where
  "rocks_iter_from E db from backwards = iterator_from E db from backwards"

definition rocks_increment :: "'db rocksdb_ops \<Rightarrow> 'db \<Rightarrow> bytes \<Rightarrow> bytes \<times> 'db" where
  "rocks_increment E db k =
     (let old = get_cf E db k; new = the (increment old)
      in (new, put_cf E db k new))"

definition rocks_increment_batch :: "'db rocksdb_ops \<Rightarrow> 'db \<Rightarrow> bytes list \<Rightarrow> 'db" where
  "rocks_increment_batch E db ks =
     fold (\<lambda>k db. put_cf E db k (the (increment (get_cf E db k)))) ks db"

definition rocks_scan_prefix :: "'db rocksdb_ops \<Rightarrow> 'db \<Rightarrow> bytes \<Rightarrow> (bytes \<times> bytes) list" where
  "rocks_scan_prefix E db p =
     takeWhile (\<lambda>(k, _). starts_with k p) (iterator_from E db p False)"

section \<open>The interface\<close>

text \<open>Rows in strictly ascending order of their keys are determined by their set.\<close>

lemma sorted_rows_unique:
  fixes xs ys :: "(bytes \<times> bytes) list"
  assumes "sorted_wrt (<) (map fst xs)" "sorted_wrt (<) (map fst ys)" "set xs = set ys"
  shows "xs = ys"
proof -
  have "map fst xs = map fst ys"
    by (rule sorted_distinct_set_unique) (use assms in \<open>auto simp: strict_sorted_iff\<close>)
  moreover have "inj_on fst (set xs \<union> set ys)" using assms by (simp add: strict_sorted_iff distinct_map)
  ultimately show ?thesis by (rule map_inj_on)
qed

locale kv_tree =
  fixes get :: "'t \<Rightarrow> bytes \<Rightarrow> bytes option"
    and insert :: "'t \<Rightarrow> bytes \<Rightarrow> bytes \<Rightarrow> 't"
    and remove :: "'t \<Rightarrow> bytes \<Rightarrow> 't"
    and iter_from :: "'t \<Rightarrow> bytes \<Rightarrow> bool \<Rightarrow> (bytes \<times> bytes) list"
    and invar :: "'t \<Rightarrow> bool"
  assumes get_insert: "invar t \<Longrightarrow> get (insert t k v) = (get t)(k \<mapsto> v)"
    and get_remove: "invar t \<Longrightarrow> get (remove t k) = (get t)(k := None)"
    and set_forward: "invar t \<Longrightarrow>
      set (iter_from t from False) = {(k, v). get t k = Some v \<and> from \<le> k}"
    and sorted_forward: "invar t \<Longrightarrow> sorted_wrt (<) (map fst (iter_from t from False))"
    and set_backward: "invar t \<Longrightarrow>
      set (iter_from t from True) = {(k, v). get t k = Some v \<and> k \<le> from}"
    and sorted_backward: "invar t \<Longrightarrow> sorted_wrt (>) (map fst (iter_from t from True))"
    and invar_insert: "invar t \<Longrightarrow> invar (insert t k v)"
    and invar_remove: "invar t \<Longrightarrow> invar (remove t k)"
begin

lemma forward_prefix_filter:
  assumes "invar t"
  shows "takeWhile (\<lambda>(k, _). starts_with k p) (iter_from t p False) =
         filter (\<lambda>(k, _). starts_with k p) (iter_from t p False)"
proof (rule takeWhile_sorted_filter [where R = "\<lambda>x y. fst x < fst y"])
  show "sorted_wrt (\<lambda>x y. fst x < fst y) (iter_from t p False)"
    using sorted_forward [OF assms] by (simp add: sorted_wrt_map)
next
  fix x y assume "fst x < fst y" "x \<in> set (iter_from t p False)"
    "case y of (k, _) \<Rightarrow> starts_with k p"
  then show "case x of (k, _) \<Rightarrow> starts_with k p"
    using prefix_convex [of p "fst x" "fst y" p] set_forward [OF assms, of p]
    by (auto split: prod.splits)
qed

lemma set_scan_prefix:
  assumes "invar t"
  shows "set (takeWhile (\<lambda>(k, _). starts_with k p) (iter_from t p False)) =
         {(k, v). get t k = Some v \<and> starts_with k p}"
  using assms by (auto simp: forward_prefix_filter set_forward prefix_le)

lemma sorted_scan_prefix:
  assumes "invar t"
  shows "sorted_wrt (<) (map fst (takeWhile (\<lambda>(k, _). starts_with k p) (iter_from t p False)))"
  using sorted_forward [OF assms, of p]
  by (simp add: forward_prefix_filter assms sorted_wrt_map sorted_wrt_filter)

text \<open>A forward scan that starts inside the prefix family: what the \<open>*_since\<close> queries read.\<close>

lemma set_scan_since:
  assumes "invar t" "starts_with from p"
  shows "set (takeWhile (\<lambda>(k, _). starts_with k p) (iter_from t from False)) =
         {(k, v). get t k = Some v \<and> starts_with k p \<and> from \<le> k}"
proof -
  have "takeWhile (\<lambda>(k, _). starts_with k p) (iter_from t from False) =
        filter (\<lambda>(k, _). starts_with k p) (iter_from t from False)"
  proof (rule takeWhile_sorted_filter [where R = "\<lambda>x y. fst x < fst y"])
    show "sorted_wrt (\<lambda>x y. fst x < fst y) (iter_from t from False)"
      using sorted_forward [OF assms(1)] by (simp add: sorted_wrt_map)
  next
    fix x y assume "fst x < fst y" "x \<in> set (iter_from t from False)"
      "case y of (k, _) \<Rightarrow> starts_with k p"
    then show "case x of (k, _) \<Rightarrow> starts_with k p"
      using prefix_convex [of "from" "fst x" "fst y" p] set_forward [OF assms(1), of "from"] assms(2)
      by (auto split: prod.splits)
  qed
  then show ?thesis using assms(1) by (auto simp: set_forward)
qed

lemma sorted_scan_since:
  assumes "invar t"
  shows "sorted_wrt (<) (map fst (takeWhile (\<lambda>(k, _). starts_with k p) (iter_from t from False)))"
proof -
  have "sorted_wrt (<) (takeWhile P (map fst (iter_from t from False)))" for P
    using sorted_forward [OF assms, of "from"] by (metis sorted_wrt_append takeWhile_dropWhile_id)
  from this [of "\<lambda>k. starts_with k p"] show ?thesis by (simp add: takeWhile_map comp_def case_prod_beta')
qed

text \<open>A backward scan from an upper bound inside the family: newest first.\<close>

lemma backward_prefix_filter:
  assumes "invar t" "starts_with from p"
  shows "takeWhile (\<lambda>(k, _). starts_with k p) (iter_from t from True) =
         filter (\<lambda>(k, _). starts_with k p) (iter_from t from True)"
proof (rule takeWhile_sorted_filter [where R = "\<lambda>x y. fst x > fst y"])
  show "sorted_wrt (\<lambda>x y. fst x > fst y) (iter_from t from True)"
    using sorted_backward [OF assms(1)] by (simp add: sorted_wrt_map)
next
  fix x y assume "fst x > fst y" "x \<in> set (iter_from t from True)"
    "case y of (k, _) \<Rightarrow> starts_with k p"
  then show "case x of (k, _) \<Rightarrow> starts_with k p"
    using prefix_convex [of "fst y" "fst x" "from" p] set_backward [OF assms(1), of "from"] assms(2)
    by (auto split: prod.splits)
qed

lemma set_scan_until:
  assumes "invar t" "starts_with from p"
  shows "set (takeWhile (\<lambda>(k, _). starts_with k p) (iter_from t from True)) =
         {(k, v). get t k = Some v \<and> starts_with k p \<and> k \<le> from}"
  using assms by (auto simp: backward_prefix_filter set_backward)

lemma sorted_scan_until:
  assumes "invar t" "starts_with from p"
  shows "sorted_wrt (>) (map fst (takeWhile (\<lambda>(k, _). starts_with k p) (iter_from t from True)))"
  using sorted_backward [OF assms(1), of "from"]
  by (simp add: backward_prefix_filter assms sorted_wrt_map sorted_wrt_filter)

lemma invar_fold_remove: "invar t \<Longrightarrow> invar (fold (\<lambda>k t. remove t k) ks t)"
  by (induction ks arbitrary: t) (auto simp: invar_remove)

lemma get_fold_remove:
  "invar t \<Longrightarrow> get (fold (\<lambda>k t. remove t k) ks t) k = (if k \<in> set ks then None else get t k)"
  by (induction ks arbitrary: t) (auto simp: get_remove invar_remove)

text \<open>Two trees with the same contents iterate alike: iteration shows nothing but \<open>get\<close>.\<close>

lemma iter_from_determined:
  assumes "invar t" "set ys = {(k, v). get t k = Some v \<and> (if backwards then k \<le> from else from \<le> k)}"
    and "sorted_wrt (if backwards then (>) else (<)) (map fst ys)"
  shows "iter_from t from backwards = ys"
proof (cases backwards)
  case True
  have "rev (iter_from t from True) = rev ys"
    by (rule sorted_rows_unique)
      (use assms True in \<open>simp_all add: rev_map [symmetric] sorted_wrt_rev sorted_backward set_backward\<close>)
  then show ?thesis using True by simp
next
  case False
  have "iter_from t from False = ys"
    by (rule sorted_rows_unique) (use assms False in \<open>simp_all add: sorted_forward set_forward\<close>)
  then show ?thesis using False by simp
qed

lemma scan_prefix_determined:
  assumes "invar t" "set ys = {(k, v). get t k = Some v \<and> starts_with k p}"
    and "sorted_wrt (<) (map fst ys)"
  shows "takeWhile (\<lambda>(k, _). starts_with k p) (iter_from t p False) = ys"
  by (rule sorted_rows_unique) (use assms in \<open>simp_all add: set_scan_prefix sorted_scan_prefix\<close>)

end

section \<open>The SQLite tables implement the interface\<close>

lemma kv_wf_Nil [simp, kv_intros]: "kv_wf []"
  by (simp add: kv_wf_def)

lemma kv_wf_Cons: "kv_wf ((k, v) # t) \<longleftrightarrow> (\<forall>k' \<in> fst ` set t. k < k') \<and> kv_wf t"
  by (simp add: kv_wf_def)

lemma fst_set_kv_insert: "fst ` set (kv_insert t k v) = insert k (fst ` set t)"
  by (induction t k v rule: kv_insert.induct) auto

lemma kv_wf_insert [kv_intros]: "kv_wf t \<Longrightarrow> kv_wf (kv_insert t k v)"
  by (induction t k v rule: kv_insert.induct) (auto simp: kv_wf_Cons fst_set_kv_insert)

lemma kv_wf_remove [kv_intros]: "kv_wf t \<Longrightarrow> kv_wf (kv_remove t k)"
  by (simp add: kv_wf_def kv_remove_def sorted_wrt_map sorted_wrt_filter)

lemma kv_get_insert_map: "kv_wf t \<Longrightarrow> kv_get (kv_insert t k v) = (kv_get t)(k \<mapsto> v)"
  by (induction t k v rule: kv_insert.induct) (auto simp: kv_get_def kv_wf_Cons fun_eq_iff)

lemma kv_get_remove_map: "kv_get (kv_remove t k) = (kv_get t)(k := None)"
  by (induction t) (auto simp: kv_get_def kv_remove_def fun_eq_iff)

lemma kv_distinct: "kv_wf t \<Longrightarrow> distinct (map fst t)"
  by (simp add: kv_wf_def strict_sorted_iff)

lemma kv_get_in_set: "kv_wf t \<Longrightarrow> kv_get t k = Some v \<longleftrightarrow> (k, v) \<in> set t"
  by (simp add: kv_get_def kv_distinct map_of_eq_Some_iff)

interpretation kv: kv_tree kv_get kv_insert kv_remove kv_iter_from kv_wf
proof unfold_locales
  fix t :: kvtree and k v "from" :: bytes
  assume wf: "kv_wf t"
  show "kv_get (kv_insert t k v) = (kv_get t)(k \<mapsto> v)" using wf by (rule kv_get_insert_map)
  show "kv_get (kv_remove t k) = (kv_get t)(k := None)" by (rule kv_get_remove_map)
  show "set (kv_iter_from t from False) = {(k, v). kv_get t k = Some v \<and> from \<le> k}"
    and "set (kv_iter_from t from True) = {(k, v). kv_get t k = Some v \<and> k \<le> from}"
    using wf by (auto simp: kv_iter_from_def kv_get_in_set)
  show "sorted_wrt (<) (map fst (kv_iter_from t from False))"
    and "sorted_wrt (>) (map fst (kv_iter_from t from True))"
    using wf by (simp_all add: kv_wf_def kv_iter_from_def sorted_wrt_map sorted_wrt_rev sorted_wrt_filter)
  show "kv_wf (kv_insert t k v)" "kv_wf (kv_remove t k)" using wf by (simp_all add: kv_intros)
qed

text \<open>The observations of a table after an update, as the component proofs use them.\<close>

lemma kv_get_Nil [simp, kv_simps]: "kv_get [] k = None"
  by (simp add: kv_get_def)

lemma dom_kv_get_Nil [simp]: "dom (kv_get []) = {}"
  by (simp add: dom_def)

lemma kv_get_insert [kv_simps]:
  "kv_wf t \<Longrightarrow> kv_get (kv_insert t k v) k' = (if k' = k then Some v else kv_get t k')"
  by (simp add: kv.get_insert)

lemma kv_get_remove [kv_simps]:
  "kv_get (kv_remove t k) k' = (if k' = k then None else kv_get t k')"
  by (simp add: kv_get_remove_map)

lemma kv_scan_prefix_set [kv_simps]:
  "kv_wf t \<Longrightarrow> set (kv_scan_prefix t p) = {(k, v). kv_get t k = Some v \<and> starts_with k p}"
  by (simp add: kv_scan_prefix_def kv.set_scan_prefix)

lemma kv_scan_prefix_sorted: "kv_wf t \<Longrightarrow> sorted_wrt (<) (map fst (kv_scan_prefix t p))"
  by (simp add: kv_scan_prefix_def kv.sorted_scan_prefix)

lemma kv_wf_remove_keys [kv_intros]: "kv_wf t \<Longrightarrow> kv_wf (kv_remove_keys t ks)"
  by (simp add: kv_remove_keys_def kv.invar_fold_remove)

lemma kv_get_remove_keys [kv_simps]:
  "kv_wf t \<Longrightarrow> kv_get (kv_remove_keys t ks) k = (if k \<in> set ks then None else kv_get t k)"
  by (simp add: kv_remove_keys_def kv.get_fold_remove)

lemma kv_wf_remove_prefix [kv_intros]: "kv_wf t \<Longrightarrow> kv_wf (kv_remove_prefix t p)"
  by (simp add: kv_remove_prefix_def kv_intros)

lemma kv_get_remove_prefix [kv_simps]:
  assumes "kv_wf t"
  shows "kv_get (kv_remove_prefix t p) k = (if starts_with k p then None else kv_get t k)"
proof -
  have "k \<in> fst ` set (kv_scan_prefix t p) \<longleftrightarrow> kv_get t k \<noteq> None \<and> starts_with k p"
    using assms by (force simp: kv_scan_prefix_set image_iff)
  then show ?thesis using assms by (auto simp: kv_remove_prefix_def kv_simps)
qed

lemma kv_scan_prefix_remove_prefix:
  assumes "kv_wf t"
  shows "kv_scan_prefix (kv_remove_prefix t p) p = []"
proof -
  have "set (kv_scan_prefix (kv_remove_prefix t p) p) = {}"
    using assms by (auto simp: kv_simps kv_intros split: if_splits)
  then show ?thesis by simp
qed

lemma kv_increment_eq:
  "kv_increment t k =
     (let n = (case kv_get t k of None \<Rightarrow> 1
               | Some bs \<Rightarrow> (case u64_from_bytes bs of Some n \<Rightarrow> n + 1 | None \<Rightarrow> 1))
      in (to_be_bytes n, kv_insert t k (to_be_bytes n)))"
  by (simp add: kv_increment_def Let_def)

lemma kv_wf_increment [kv_intros]: "kv_wf t \<Longrightarrow> kv_wf (snd (kv_increment t k))"
  by (simp add: kv_increment_eq Let_def kv_intros)

lemma kv_get_increment [kv_simps]:
  "kv_wf t \<Longrightarrow> kv_get (snd (kv_increment t k)) k' =
     (if k' = k then Some (fst (kv_increment t k)) else kv_get t k')"
  by (simp add: kv_increment_eq Let_def kv_simps)

lemma kv_wf_insert_batch [kv_intros]: "kv_wf t \<Longrightarrow> kv_wf (kv_insert_batch t kvs)"
  unfolding kv_insert_batch_def by (induction kvs arbitrary: t) (auto simp: kv_intros)

lemma kv_get_insert_batch [kv_simps]:
  "kv_wf t \<Longrightarrow> kv_get (kv_insert_batch t kvs) k =
     (case map_of (rev kvs) k of Some v \<Rightarrow> Some v | None \<Rightarrow> kv_get t k)"
  unfolding kv_insert_batch_def
  by (induction kvs arbitrary: t) (auto simp: kv_intros kv_simps map_add_def split: option.splits)

lemma kv_wf_increment_batch [kv_intros]: "kv_wf t \<Longrightarrow> kv_wf (kv_increment_batch t ks)"
  unfolding kv_increment_batch_def by (induction ks arbitrary: t) (auto simp: kv_intros)

lemma kv_get_increment_batch_other [kv_simps]:
  "kv_wf t \<Longrightarrow> k \<notin> set ks \<Longrightarrow> kv_get (kv_increment_batch t ks) k = kv_get t k"
  unfolding kv_increment_batch_def
  by (induction ks arbitrary: t) (auto simp: kv_intros kv_simps)

text \<open>Row-by-row clearing empties the table, as the SQLite override does.\<close>

lemma kv_remove_keys_filter: "kv_remove_keys t ks = filter (\<lambda>(k, _). k \<notin> set ks) t"
proof (induction ks arbitrary: t)
  case (Cons k ks)
  have "kv_remove_keys t (k # ks) = kv_remove_keys (kv_remove t k) ks"
    by (simp add: kv_remove_keys_def)
  also have "\<dots> = filter (\<lambda>(k', _). k' \<notin> set ks) (kv_remove t k)" by (rule Cons)
  also have "\<dots> = filter (\<lambda>(k', _). k' \<notin> set (k # ks)) t"
    unfolding kv_remove_def filter_filter by (rule filter_cong) auto
  finally show ?case .
qed (simp add: kv_remove_keys_def)

lemma kv_clear_eq_sqlite_clear: "kv_clear t = sqlite_clear t"
proof -
  have "kv_clear t = kv_remove_keys t (map fst t)"
    by (simp add: kv_clear_def kv_iter_def kv_remove_keys_def fold_map comp_def case_prod_beta')
  also have "\<dots> = []" by (force simp: kv_remove_keys_filter filter_empty_conv)
  finally show ?thesis by (simp add: sqlite_clear_def)
qed

section \<open>Any engine with RocksDB's documented behaviour implements it too\<close>

text \<open>The simulation relation: a column family and a SQLite table hold the same rows.\<close>

definition same_rows :: "'db rocksdb_ops \<Rightarrow> ('db \<Rightarrow> bool) \<Rightarrow> 'db \<Rightarrow> kvtree \<Rightarrow> bool" where
  "same_rows E ok db t \<longleftrightarrow> ok db \<and> kv_wf t \<and> (\<forall>k. rocks_get E db k = kv_get t k)"

locale rocksdb_engine =
  fixes E :: "'db rocksdb_ops"
    and ok :: "'db \<Rightarrow> bool"
  assumes get_put: "ok db \<Longrightarrow> get_cf E (put_cf E db k v) = (get_cf E db)(k \<mapsto> v)"
    and get_delete: "ok db \<Longrightarrow> get_cf E (delete_cf E db k) = (get_cf E db)(k := None)"
    and forward_set: "ok db \<Longrightarrow>
      set (iterator_from E db from False) = {(k, v). get_cf E db k = Some v \<and> from \<le> k}"
    and forward_sorted: "ok db \<Longrightarrow> sorted_wrt (<) (map fst (iterator_from E db from False))"
    and reverse_set: "ok db \<Longrightarrow>
      set (iterator_from E db from True) = {(k, v). get_cf E db k = Some v \<and> k \<le> from}"
    and reverse_sorted: "ok db \<Longrightarrow> sorted_wrt (>) (map fst (iterator_from E db from True))"
    and ok_put: "ok db \<Longrightarrow> ok (put_cf E db k v)"
    and start_from: "ok db \<Longrightarrow> iterator_start E db = iterator_from E db [] False"
    and ok_delete: "ok db \<Longrightarrow> ok (delete_cf E db k)"
begin

sublocale tree: kv_tree "rocks_get E" "rocks_insert E" "rocks_remove E" "rocks_iter_from E" ok
  by unfold_locales
    (simp_all add: rocks_get_def [abs_def] rocks_insert_def rocks_remove_def rocks_iter_from_def
      get_put get_delete forward_set forward_sorted reverse_set reverse_sorted ok_put ok_delete)

text \<open>What a column family and the SQLite table with the same contents answer is the same.\<close>

lemma reads_eq_sqlite:
  assumes "same_rows E ok db t"
  shows "rocks_iter_from E db from backwards = kv_iter_from t from backwards"
    and "rocks_iter E db = kv_iter t"
    and "rocks_scan_prefix E db p = kv_scan_prefix t p"
proof -
  have a: "ok db" "kv_wf t" "\<And>k. rocks_get E db k = kv_get t k" using assms by (simp_all add: same_rows_def)
  show it: "rocks_iter_from E db from backwards = kv_iter_from t from backwards" for "from" backwards
    by (rule tree.iter_from_determined; cases backwards)
      (use a in \<open>simp_all add: kv.set_forward kv.set_backward kv.sorted_forward kv.sorted_backward\<close>)
  show "rocks_iter E db = kv_iter t"
    using it [of "[]" False] start_from [OF a(1)]
    by (simp add: rocks_iter_def rocks_iter_from_def kv_iter_def kv_iter_from_def)
  show "rocks_scan_prefix E db p = kv_scan_prefix t p"
    using it [of p False] by (simp add: rocks_scan_prefix_def kv_scan_prefix_def rocks_iter_from_def)
qed

lemma writes_eq_sqlite:
  assumes "same_rows E ok db t"
  shows "same_rows E ok (rocks_insert E db k v) (kv_insert t k v)"
    and "same_rows E ok (rocks_remove E db k) (kv_remove t k)"
    and "fst (rocks_increment E db k) = fst (kv_increment t k)"
    and "same_rows E ok (snd (rocks_increment E db k)) (snd (kv_increment t k))"
  using assms
  by (auto simp: same_rows_def rocks_insert_def rocks_remove_def rocks_increment_def kv_increment_def Let_def
      rocks_get_def get_put get_delete ok_put ok_delete kv_simps kv_intros)

lemma batches_eq_sqlite:
  assumes "same_rows E ok db t"
  shows "same_rows E ok (rocks_insert_batch E db kvs) (kv_insert_batch t kvs)"
    and "same_rows E ok (rocks_increment_batch E db ks) (kv_increment_batch t ks)"
proof -
  show "same_rows E ok (rocks_insert_batch E db kvs) (kv_insert_batch t kvs)"
    unfolding rocks_insert_batch_def kv_insert_batch_def using assms
    by (induction kvs arbitrary: db t) (auto simp: writes_eq_sqlite(1) [unfolded rocks_insert_def])
  show "same_rows E ok (rocks_increment_batch E db ks) (kv_increment_batch t ks)"
    unfolding rocks_increment_batch_def kv_increment_batch_def using assms
  proof (induction ks arbitrary: db t)
    case (Cons k ks)
    then show ?case using writes_eq_sqlite(4) [of db t k] by (simp add: rocks_increment_def Let_def)
  qed simp
qed

end

text \<open>
  The laws are those of an ordered table: the sorted rows themselves, seen as an engine,
  satisfy them.
\<close>

definition table_engine :: "kvtree rocksdb_ops" where
  "table_engine = \<lparr>get_cf = kv_get, put_cf = kv_insert, delete_cf = kv_remove,
                   iterator_from = kv_iter_from, iterator_start = kv_iter\<rparr>"

interpretation table: rocksdb_engine table_engine kv_wf
  by unfold_locales
    (simp_all add: table_engine_def kv.get_insert kv.get_remove kv.set_forward kv.sorted_forward
      kv.set_backward kv.sorted_backward kv_intros kv_iter_def kv_iter_from_def [of _ "[]"])

section \<open>Watchers\<close>

text \<open>
  \<^verbatim>\<open>watchers.rs\<close>: the map from watched prefixes to their channels. Its key set is the
  state; sending on a channel and dropping it is what \<open>wake\<close> returns.
\<close>

definition watch :: "bytes set \<Rightarrow> bytes \<Rightarrow> bytes set" where
  "watch W p = (if p \<in> W then W else insert p W)"

definition wake :: "bytes set \<Rightarrow> bytes \<Rightarrow> bytes list \<times> bytes set" where
  "wake W key =
     (let triggered = filter (\<lambda>p. p \<in> W) (map (\<lambda>n. take n key) [0..<Suc (length key)])
      in (triggered, if triggered \<noteq> [] then W - set triggered else W))"

text \<open>A table of the SQLite backend with its watchers; only \<open>insert\<close> wakes.\<close>

record sqlite_table =
  table_rows :: kvtree
  table_watchers :: "bytes set"

definition sqlite_insert :: "sqlite_table \<Rightarrow> bytes \<Rightarrow> bytes \<Rightarrow> bytes list \<times> sqlite_table" where
  "sqlite_insert t k v =
     (let rows = kv_insert (table_rows t) k v; (woken, W) = wake (table_watchers t) k
      in (woken, t\<lparr>table_rows := rows, table_watchers := W\<rparr>))"

definition sqlite_increment_batch :: "sqlite_table \<Rightarrow> bytes list \<Rightarrow> bytes list \<times> sqlite_table" where
  "sqlite_increment_batch t ks = ([], t\<lparr>table_rows := kv_increment_batch (table_rows t) ks\<rparr>)"

definition sqlite_watch_prefix :: "sqlite_table \<Rightarrow> bytes \<Rightarrow> sqlite_table" where
  "sqlite_watch_prefix t p = t\<lparr>table_watchers := watch (table_watchers t) p\<rparr>"

lemma set_takes: "set (map (\<lambda>n. take n key) [0..<Suc (length key)]) = {p. prefix p key}"
proof (intro set_eqI iffI)
  fix p assume "p \<in> {p. prefix p key}"
  then have "p = take (length p) key" "length p \<in> {0..<Suc (length key)}"
    by (auto simp: prefix_def)
  then show "p \<in> set (map (\<lambda>n. take n key) [0..<Suc (length key)])"
    unfolding set_map set_upt by (rule image_eqI)
qed (auto simp: take_is_prefix)

lemma wake_set: "set (fst (wake W key)) = {p \<in> W. prefix p key}"
proof -
  have "set (fst (wake W key)) = {p \<in> set (map (\<lambda>n. take n key) [0..<Suc (length key)]). p \<in> W}"
    unfolding wake_def Let_def fst_conv by (rule set_filter)
  then show ?thesis unfolding set_takes by auto
qed

lemma wake_distinct: "distinct (fst (wake W key))"
proof -
  have "inj_on (\<lambda>n. take n key) {0..<Suc (length key)}"
  proof (rule inj_onI)
    fix m n assume mn: "m \<in> {0..<Suc (length key)}" "n \<in> {0..<Suc (length key)}"
      and eq: "take m key = take n key"
    have "length (take m key) = length (take n key)" unfolding eq ..
    then show "m = n" using mn by (auto simp: min_def split: if_splits)
  qed
  then have "distinct (map (\<lambda>n. take n key) [0..<Suc (length key)])"
    unfolding distinct_map set_upt by simp
  then show ?thesis unfolding wake_def Let_def fst_conv by (rule distinct_filter)
qed

lemma wake_rest: "snd (wake W key) = {p \<in> W. \<not> prefix p key}"
proof -
  have "snd (wake W key) = W - set (fst (wake W key))"
    unfolding wake_def Let_def fst_conv snd_conv by (simp del: upt_Suc set_filter)
  then show ?thesis by (auto simp: wake_set)
qed

section \<open>Properties\<close>

text \<open>
  A prefix scan of a table returns exactly the rows whose key starts with the prefix, each
  once, in ascending key order.
\<close>

theorem kv_scan_prefix_exact:
  assumes "kv_wf t"
  shows "set (kv_scan_prefix t p) = {(k, v). kv_get t k = Some v \<and> starts_with k p}
    \<and> sorted_wrt (<) (map fst (kv_scan_prefix t p))"
  using assms by (simp add: kv_scan_prefix_set kv_scan_prefix_sorted)

theorem kv_scan_prefix_exact_witness:
  "set (kv_scan_prefix [([1], [10]), ([1, 2], [20]), ([3], [30])] [1]) =
     {(k, v). kv_get [([1], [10]), ([1, 2], [20]), ([3], [30])] k = Some v \<and> starts_with k [1]}"
  by (rule conjunct1 [OF kv_scan_prefix_exact]) (simp add: kv_wf_def)

text \<open>
  C23: the RocksDB backend implements the SQLite backend. With any storage engine that behaves as RocksDB
  documents, if a column family holds the rows of a table then every read of the tree (a lookup, the
  whole iteration, an iteration from a key in either direction, a prefix scan) and the answer of a counter
  increment are those of the table, and every write (insertion, removal, increment and both batches)
  leaves the column family with the rows of the table after the same write.
\<close>

theorem rocksdb_refines_sqlite:
  assumes "rocksdb_engine E ok" "same_rows E ok db t"
  shows "rocks_get E db k = kv_get t k
    \<and> rocks_iter E db = kv_iter t
    \<and> rocks_iter_from E db from backwards = kv_iter_from t from backwards
    \<and> rocks_scan_prefix E db p = kv_scan_prefix t p
    \<and> fst (rocks_increment E db k) = fst (kv_increment t k)
    \<and> same_rows E ok (rocks_insert E db k v) (kv_insert t k v)
    \<and> same_rows E ok (rocks_remove E db k) (kv_remove t k)
    \<and> same_rows E ok (snd (rocks_increment E db k)) (snd (kv_increment t k))
    \<and> same_rows E ok (rocks_insert_batch E db kvs) (kv_insert_batch t kvs)
    \<and> same_rows E ok (rocks_increment_batch E db ks) (kv_increment_batch t ks)"
  using rocksdb_engine.reads_eq_sqlite [OF assms] rocksdb_engine.writes_eq_sqlite [OF assms]
    rocksdb_engine.batches_eq_sqlite [OF assms] assms(2)
  by (simp add: same_rows_def)

theorem rocksdb_refines_sqlite_witness:
  "rocks_iter_from table_engine [([1], [10]), ([1, 2], [20])] [1, 1] True =
     kv_iter_from [([1], [10]), ([1, 2], [20])] [1, 1] True
   \<and> same_rows table_engine kv_wf (rocks_remove table_engine [([1], [10]), ([1, 2], [20])] [1]) (kv_remove [([1], [10]), ([1, 2], [20])] [1])"
proof -
  have "same_rows table_engine kv_wf [([1], [10]), ([1, 2], [20])] [([1], [10]), ([1, 2], [20])]"
    by (simp add: same_rows_def kv_wf_def rocks_get_def table_engine_def)
  from rocksdb_refines_sqlite [OF table.rocksdb_engine_axioms this] show ?thesis by simp
qed

text \<open>
  C25: inserting a row into a table wakes exactly the watchers registered on a prefix of its key,
  each once, and they are then no longer registered; other watchers stay; the row is stored.
\<close>

theorem insert_wakes_watchers:
  assumes "kv_wf (table_rows t)"
  shows "set (fst (sqlite_insert t k v)) = {p \<in> table_watchers t. starts_with k p}
    \<and> distinct (fst (sqlite_insert t k v))
    \<and> table_watchers (snd (sqlite_insert t k v)) = {p \<in> table_watchers t. \<not> starts_with k p}
    \<and> kv_get (table_rows (snd (sqlite_insert t k v))) k = Some v"
proof -
  have "sqlite_insert t k v = (fst (wake (table_watchers t) k),
      t\<lparr>table_rows := kv_insert (table_rows t) k v, table_watchers := snd (wake (table_watchers t) k)\<rparr>)"
    by (simp add: sqlite_insert_def case_prod_beta)
  then show ?thesis by (simp add: wake_set wake_distinct wake_rest kv_get_insert assms)
qed

theorem insert_wakes_watchers_witness:
  "set (fst (sqlite_insert \<lparr>table_rows = [], table_watchers = {[1], [2]}\<rparr> [1, 5] [0])) = {[1]}"
proof -
  have "set (fst (sqlite_insert \<lparr>table_rows = [], table_watchers = {[1], [2]}\<rparr> [1, 5] [0])) =
      {p \<in> {[1], [2]}. starts_with [1, 5] p}"
    using insert_wakes_watchers [of "\<lparr>table_rows = [], table_watchers = {[1], [2]}\<rparr>" "[1, 5]" "[0]"] by simp
  also have "\<dots> = {[1]}" by auto
  finally show ?thesis .
qed

end
