(* ===== verification/Globals.thy ===== *)
theory Globals
  imports KvTree
begin

text \<open>
  \<^verbatim>\<open>server/src/database/key_value/globals.rs\<close>: the database-wide counter from which every
  component draws its stream positions, the update-check and schema-version cells, the server's
  key pair and the signing keys learnt from other servers. The record \<open>globals_db\<close> holds the
  trees this code uses; the records of the other components extend it, so that all of them share
  one counter. \<open>Ed25519KeyPair::from_der\<close>, the random material of \<open>utils::generate_keypair\<close> and the
  JSON form of signing keys are parameters.
\<close>

record globals_db =
  global :: kvtree
  server_signingkeys :: kvtree

definition globals_wf :: "'a globals_db_scheme \<Rightarrow> bool" where
  "globals_wf db \<longleftrightarrow> kv_wf (global db) \<and> kv_wf (server_signingkeys db)"

definition COUNTER :: bytes where
  "COUNTER = ascii ''c''"

definition LAST_CHECK_FOR_UPDATES_COUNT :: bytes where
  "LAST_CHECK_FOR_UPDATES_COUNT = ascii ''u''"

section \<open>The counter\<close>

definition next_count :: "'a globals_db_scheme \<Rightarrow> u64 result \<times> 'a globals_db_scheme" where
  "next_count db =
     (let (new, t) = kv_increment (global db) COUNTER
      in (ok_or (BadDatabase ''Count has invalid bytes.'') (u64_from_bytes new),
          db\<lparr>global := t\<rparr>))"

definition current_count :: "'a globals_db_scheme \<Rightarrow> u64 result" where
  "current_count db =
     (case kv_get (global db) COUNTER of
        None \<Rightarrow> Ok 0
      | Some bs \<Rightarrow> ok_or (BadDatabase ''Count has invalid bytes.'') (u64_from_bytes bs))"

definition last_check_for_updates_id :: "'a globals_db_scheme \<Rightarrow> u64 result" where
  "last_check_for_updates_id db =
     (case kv_get (global db) LAST_CHECK_FOR_UPDATES_COUNT of
        None \<Rightarrow> Ok 0
      | Some bs \<Rightarrow> ok_or (BadDatabase ''last check for updates count has invalid bytes.'')
                        (u64_from_bytes bs))"

definition update_check_for_updates_id :: "'a globals_db_scheme \<Rightarrow> u64 \<Rightarrow> 'a globals_db_scheme" where
  "update_check_for_updates_id db n =
     db\<lparr>global := kv_insert (global db) LAST_CHECK_FOR_UPDATES_COUNT (to_be_bytes n)\<rparr>"

definition database_version :: "'a globals_db_scheme \<Rightarrow> u64 result" where
  "database_version db =
     (case kv_get (global db) (ascii ''version'') of
        None \<Rightarrow> Ok 0
      | Some bs \<Rightarrow> ok_or (BadDatabase ''Database version id is invalid.'') (u64_from_bytes bs))"

definition bump_database_version :: "'a globals_db_scheme \<Rightarrow> u64 \<Rightarrow> 'a globals_db_scheme" where
  "bump_database_version db v =
     db\<lparr>global := kv_insert (global db) (ascii ''version'') (to_be_bytes v)\<rparr>"

section \<open>The server's key pair\<close>

text \<open>
  \<open>utils::generate_keypair\<close>: a random version string of eight characters, the separator, and
  the DER bytes of a fresh key. Both random parts are arguments.
\<close>

definition generate_keypair :: "str \<Rightarrow> bytes \<Rightarrow> bytes" where
  "generate_keypair version der = version @ [sep] @ der"

definition load_keypair ::
  "(bytes \<Rightarrow> str \<Rightarrow> 'key option) \<Rightarrow> str \<Rightarrow> bytes \<Rightarrow> 'a globals_db_scheme
     \<Rightarrow> 'key result \<times> 'a globals_db_scheme" where
  "load_keypair from_der version der db =
     (let (keypair_bytes, db) =
        (case kv_get (global db) (ascii ''keypair'') of
           None \<Rightarrow> (let keypair = generate_keypair version der
                    in (keypair, db\<lparr>global := kv_insert (global db) (ascii ''keypair'') keypair\<rparr>))
         | Some s \<Rightarrow> (s, db));
      parts = splitn_sep 2 keypair_bytes
      in (case parts of
            [] \<Rightarrow> Err (Panicked ''splitn always returns at least one element'')
          | v # rest \<Rightarrow>
              and_then (ok_or (BadDatabase ''Invalid version bytes in keypair.'') (string_from_bytes v))
                (\<lambda>version.
              and_then (case rest of
                          [] \<Rightarrow> Err (BadDatabase ''Invalid keypair format in database.'')
                        | key # _ \<Rightarrow> Ok (version, key))
                (\<lambda>(version, key).
                 ok_or (BadDatabase ''Private or public keys are invalid.'') (from_der key version))),
          db))"

definition remove_keypair :: "'a globals_db_scheme \<Rightarrow> 'a globals_db_scheme" where
  "remove_keypair db = db\<lparr>global := kv_remove (global db) (ascii ''keypair'')\<rparr>"

section \<open>Signing keys of other servers\<close>

text \<open>
  The fields of ruma's \<open>ServerSigningKeys\<close> that the code reads; \<open>'r\<close> is the rest of the
  document (server name, signatures), which is stored and never inspected. A \<open>BTreeMap\<close> is a
  finite map, and \<open>extend\<close> is map override.
\<close>

record old_verify_key =
  expired_ts :: u64
  old_key :: bytes

record 'r server_signing_keys =
  verify_keys :: "str \<rightharpoonup> bytes"
  old_verify_keys :: "str \<rightharpoonup> old_verify_key"
  valid_until_ts :: u64
  other_fields :: 'r

record signing_keys =
  sk_verify_keys :: "str \<rightharpoonup> bytes"
  sk_old_verify_keys :: "str \<rightharpoonup> old_verify_key"
  sk_valid_until_ts :: u64

definition signing_keys_from :: "'r server_signing_keys \<Rightarrow> signing_keys" where
  "signing_keys_from k = \<lparr>sk_verify_keys = verify_keys k, sk_old_verify_keys = old_verify_keys k,
                          sk_valid_until_ts = valid_until_ts k\<rparr>"

text \<open>\<open>enc\<close> and \<open>dec\<close> are \<open>serde_json::to_vec\<close> and \<open>serde_json::from_slice\<close> at this type.\<close>

definition merge_trusted :: "'r server_signing_keys \<Rightarrow> 'r server_signing_keys \<Rightarrow> 'r server_signing_keys" where
  "merge_trusted prev new =
     (let p = prev\<lparr>verify_keys := verify_keys prev ++ verify_keys new,
                   old_verify_keys := old_verify_keys prev ++ old_verify_keys new\<rparr>
      in if valid_until_ts new > valid_until_ts p
         then p\<lparr>valid_until_ts := valid_until_ts new\<rparr> else p)"

definition merge_origin :: "'r server_signing_keys \<Rightarrow> 'r server_signing_keys \<Rightarrow> 'r server_signing_keys" where
  "merge_origin prev new =
     (let moved = (\<lambda>key_id. case verify_keys prev key_id of
                     Some key \<Rightarrow> (if verify_keys new key_id = None
                                 then Some \<lparr>expired_ts = valid_until_ts prev, old_key = key\<rparr>
                                 else None)
                   | None \<Rightarrow> None)
      in prev\<lparr>verify_keys := verify_keys new,
              old_verify_keys := (old_verify_keys prev ++ moved) ++ old_verify_keys new,
              valid_until_ts := valid_until_ts new\<rparr>)"

definition add_signing_key_from_trusted_server ::
  "('r server_signing_keys \<Rightarrow> bytes) \<Rightarrow> (bytes \<Rightarrow> 'r server_signing_keys option) \<Rightarrow> str
     \<Rightarrow> 'r server_signing_keys \<Rightarrow> 'a globals_db_scheme \<Rightarrow> signing_keys \<times> 'a globals_db_scheme" where
  "add_signing_key_from_trusted_server enc dec origin new_keys db =
     (let prev_keys = Option.bind (kv_get (server_signingkeys db) origin) dec;
          keys = (case prev_keys of Some prev \<Rightarrow> merge_trusted prev new_keys | None \<Rightarrow> new_keys)
      in (signing_keys_from keys,
          db\<lparr>server_signingkeys := kv_insert (server_signingkeys db) origin (enc keys)\<rparr>))"

definition add_signing_key_from_origin ::
  "('r server_signing_keys \<Rightarrow> bytes) \<Rightarrow> (bytes \<Rightarrow> 'r server_signing_keys option) \<Rightarrow> str
     \<Rightarrow> 'r server_signing_keys \<Rightarrow> 'a globals_db_scheme \<Rightarrow> signing_keys \<times> 'a globals_db_scheme" where
  "add_signing_key_from_origin enc dec origin new_keys db =
     (let prev_keys = Option.bind (kv_get (server_signingkeys db) origin) dec;
          keys = (case prev_keys of Some prev \<Rightarrow> merge_origin prev new_keys | None \<Rightarrow> new_keys)
      in (signing_keys_from keys,
          db\<lparr>server_signingkeys := kv_insert (server_signingkeys db) origin (enc keys)\<rparr>))"

definition signing_keys_for ::
  "(bytes \<Rightarrow> signing_keys option) \<Rightarrow> str \<Rightarrow> 'a globals_db_scheme \<Rightarrow> signing_keys option" where
  "signing_keys_for dec origin db = Option.bind (kv_get (server_signingkeys db) origin) dec"

section \<open>Lemmas\<close>

text \<open>The value the counter holds, zero before its first use and after a malformed cell.\<close>

definition count_of :: "'a globals_db_scheme \<Rightarrow> u64" where
  "count_of db = (case Option.bind (kv_get (global db) COUNTER) u64_from_bytes of
                    Some n \<Rightarrow> n | None \<Rightarrow> 0)"

lemma next_count_eq:
  "next_count db = (Ok (count_of db + 1),
     db\<lparr>global := kv_insert (global db) COUNTER (to_be_bytes (count_of db + 1))\<rparr>)"
  by (auto simp: next_count_def count_of_def kv_increment_eq Let_def
      split: option.splits bind_splits)

lemma next_count_total: "\<exists>n db'. next_count db = (Ok n, db')"
  by (simp add: next_count_eq)

lemma count_of_next [kv_simps]:
  "kv_wf (global db) \<Longrightarrow> count_of (snd (next_count db)) = count_of db + 1"
  by (simp add: next_count_eq count_of_def kv_simps)

lemma globals_wf_next [kv_intros]: "globals_wf db \<Longrightarrow> globals_wf (snd (next_count db))"
  by (simp add: next_count_eq globals_wf_def kv_intros)

lemma signingkeys_next [simp]: "server_signingkeys (snd (next_count db)) = server_signingkeys db"
  by (simp add: next_count_eq)

lemma next_count_more [simp]: "globals_db.more (snd (next_count db)) = globals_db.more db"
  by (simp add: next_count_eq)

text \<open>Drawing \<open>n\<close> numbers in a row, as an arbitrary interleaving of components does.\<close>

fun draw :: "nat \<Rightarrow> 'a globals_db_scheme \<Rightarrow> u64 list \<times> 'a globals_db_scheme" where
  "draw 0 db = ([], db)"
| "draw (Suc n) db =
     (case next_count db of
        (Inl e, db') \<Rightarrow> ([], db')
      | (Inr c, db') \<Rightarrow> (let (cs, db'') = draw n db' in (c # cs, db'')))"

lemma draw_counts:
  assumes "kv_wf (global db)" "unat (count_of db) + n < 2 ^ 64"
  shows "map unat (fst (draw n db)) = [Suc (unat (count_of db)) ..< Suc (unat (count_of db)) + n]"
  using assms
proof (induction n arbitrary: db)
  case (Suc n)
  let ?db = "snd (next_count db)"
  have c: "unat (count_of db + 1) = Suc (unat (count_of db))"
    using Suc.prems(2) by (subst unat_word_ariths(1)) simp
  have wf: "kv_wf (global ?db)" using Suc.prems(1) by (simp add: next_count_eq kv_intros)
  have "count_of ?db = count_of db + 1" using Suc.prems(1) by (simp add: kv_simps)
  with Suc.IH[OF wf] Suc.prems(2) c
  have "map unat (fst (draw n ?db)) = [Suc (Suc (unat (count_of db))) ..< Suc (Suc (unat (count_of db))) + n]"
    by simp
  moreover have "fst (draw (Suc n) db) = (count_of db + 1) # fst (draw n ?db)"
    by (simp add: next_count_eq Let_def case_prod_beta)
  ultimately show ?case using c by (simp add: upt_conv_Cons)
qed simp

lemma draw_current_count:
  assumes "kv_wf (global db)" "current_count db = Ok (count_of db)"
  shows "current_count (snd (draw n db)) = Ok (count_of db + of_nat n)"
  using assms
proof (induction n arbitrary: db)
  case (Suc n)
  let ?db = "snd (next_count db)"
  have wf: "kv_wf (global ?db)" using Suc.prems(1) by (simp add: next_count_eq kv_intros)
  have cc: "current_count ?db = Ok (count_of ?db)"
    using Suc.prems(1) by (simp add: next_count_eq current_count_def count_of_def kv_simps)
  have "snd (draw (Suc n) db) = snd (draw n ?db)"
    by (simp add: next_count_eq Let_def case_prod_beta)
  then show ?case using Suc.IH[OF wf cc] Suc.prems(1) by (simp add: kv_simps add.assoc)
qed simp

text \<open>A key pair generated by one start of the server is the one the next start loads.\<close>

lemma load_keypair_stable:
  assumes "kv_wf (global db)" "utf8 version" "kv_get (global db) (ascii ''keypair'') = None"
  shows "fst (load_keypair from_der v' d' (snd (load_keypair from_der version der db)))
         = ok_or (BadDatabase ''Private or public keys are invalid.'') (from_der der version)"
    and "snd (load_keypair from_der v' d' (snd (load_keypair from_der version der db)))
         = snd (load_keypair from_der version der db)"
  using assms
  by (simp_all add: load_keypair_def generate_keypair_def Let_def kv_simps key_simps)

lemma merge_trusted_keeps:
  "dom (verify_keys (merge_trusted prev new)) = dom (verify_keys prev) \<union> dom (verify_keys new)"
  "valid_until_ts (merge_trusted prev new) = max (valid_until_ts prev) (valid_until_ts new)"
  by (auto simp: merge_trusted_def Let_def)

lemma merge_origin_active: "verify_keys (merge_origin prev new) = verify_keys new"
  by (simp add: merge_origin_def Let_def)

lemma merge_origin_retired:
  assumes "verify_keys prev key_id = Some key" "verify_keys new key_id = None"
    "old_verify_keys new key_id = None"
  shows "old_verify_keys (merge_origin prev new) key_id
           = Some \<lparr>expired_ts = valid_until_ts prev, old_key = key\<rparr>"
  using assms by (simp add: merge_origin_def Let_def map_add_def)

lemma merge_origin_no_loss:
  "dom (verify_keys prev) \<union> dom (old_verify_keys prev) \<subseteq>
     dom (verify_keys (merge_origin prev new)) \<union> dom (old_verify_keys (merge_origin prev new))"
  by (auto simp: merge_origin_def Let_def map_add_def split: option.splits if_splits)

lemma add_from_origin_stored:
  assumes "kv_wf (server_signingkeys db)" "dec (enc prev) = Some prev"
    "kv_get (server_signingkeys db) origin = Some (enc prev)"
  shows "fst (add_signing_key_from_origin enc dec origin new db)
           = signing_keys_from (merge_origin prev new)"
    and "kv_get (server_signingkeys (snd (add_signing_key_from_origin enc dec origin new db))) o'
           = (if o' = origin then Some (enc (merge_origin prev new))
              else kv_get (server_signingkeys db) o')"
  using assms by (simp_all add: add_signing_key_from_origin_def Let_def kv_simps)

section \<open>Properties\<close>

text \<open>
  Any number of draws from the counter, from a state whose count leaves room for them, gives
  the consecutive numbers after the current count; so stream positions handed to different
  components are distinct and increase.
\<close>

theorem next_count_sequence:
  assumes "globals_wf db" "unat (count_of db) + n < 2 ^ 64"
  shows "map unat (fst (draw n db)) = [Suc (unat (count_of db)) ..< Suc (unat (count_of db)) + n]"
  using assms by (simp add: globals_wf_def draw_counts)

theorem next_count_sequence_witness:
  "map unat (fst (draw 3 \<lparr>global = [], server_signingkeys = []\<rparr>)) = [1, 2, 3]"
  using next_count_sequence [of "\<lparr>global = [], server_signingkeys = []\<rparr>" 3]
  by (simp add: globals_wf_def count_of_def upt_rec)

text \<open>
  Keys of a server received from the server itself: the active keys become exactly the new ones,
  every key known before is still known as active or old, and a key that was dropped by the server
  and is not listed as old by it is kept as an old key that expired when the previous set did.
\<close>

theorem signing_keys_rotation:
  assumes "globals_wf db" "dec (enc prev) = Some prev"
    and "kv_get (server_signingkeys db) origin = Some (enc prev)"
  shows "\<exists>keys. kv_get (server_signingkeys (snd (add_signing_key_from_origin enc dec origin new db))) origin
      = Some (enc keys) \<and> fst (add_signing_key_from_origin enc dec origin new db) = signing_keys_from keys
    \<and> verify_keys keys = verify_keys new
    \<and> dom (verify_keys prev) \<union> dom (old_verify_keys prev) \<subseteq> dom (verify_keys keys) \<union> dom (old_verify_keys keys)
    \<and> (\<forall>i key. verify_keys prev i = Some key \<and> verify_keys new i = None \<and> old_verify_keys new i = None
        \<longrightarrow> old_verify_keys keys i = Some \<lparr>expired_ts = valid_until_ts prev, old_key = key\<rparr>)"
proof -
  have "kv_wf (server_signingkeys db)" using assms(1) by (simp add: globals_wf_def)
  note st = add_from_origin_stored [where enc = enc and dec = dec, OF this assms(2,3), of new]
  show ?thesis using st(1) st(2) [of origin] merge_origin_no_loss [of prev new]
    by (intro exI [of _ "merge_origin prev new"]) (simp add: merge_origin_active merge_origin_retired)
qed

text \<open>A server that replaces key 3 by key 2, for the concrete run.\<close>

definition sample_keys :: "str \<Rightarrow> unit server_signing_keys" where
  "sample_keys i = \<lparr>verify_keys = [i \<mapsto> i], old_verify_keys = Map.empty, valid_until_ts = 7, other_fields = ()\<rparr>"

theorem signing_keys_rotation_witness:
  "\<exists>keys :: unit server_signing_keys. fst (add_signing_key_from_origin (\<lambda>k. if verify_keys k [3] = None then [2] else [3])
       (\<lambda>b. Some (sample_keys b)) [1] (sample_keys [2])
       \<lparr>global = [], server_signingkeys = [([1], [3])]\<rparr>) = signing_keys_from keys
     \<and> old_verify_keys keys [3] = Some \<lparr>expired_ts = 7, old_key = [3]\<rparr>"
proof -
  let ?enc = "\<lambda>k :: unit server_signing_keys. if verify_keys k [3] = None then [2] else [3 :: byte]"
  let ?db = "\<lparr>global = [], server_signingkeys = [([1], [3])]\<rparr>"
  have enc: "?enc (sample_keys [3]) = [3]" by (simp add: sample_keys_def)
  have wf: "globals_wf ?db" by (simp add: globals_wf_def kv_wf_def)
  have get: "kv_get (server_signingkeys ?db) [1] = Some (?enc (sample_keys [3]))"
    unfolding enc by (simp add: kv_get_def)
  have dec: "Some (sample_keys (?enc (sample_keys [3]))) = Some (sample_keys [3])" unfolding enc ..
  obtain keys :: "unit server_signing_keys" where k: "fst (add_signing_key_from_origin ?enc (\<lambda>b. Some (sample_keys b)) [1] (sample_keys [2]) ?db)
        = signing_keys_from keys"
    "\<forall>i key. verify_keys (sample_keys [3]) i = Some key \<and> verify_keys (sample_keys [2]) i = None
        \<and> old_verify_keys (sample_keys [2]) i = None
        \<longrightarrow> old_verify_keys keys i = Some \<lparr>expired_ts = valid_until_ts (sample_keys [3]), old_key = key\<rparr>"
    using signing_keys_rotation [where dec = "\<lambda>b. Some (sample_keys b)" and enc = ?enc
        and prev = "sample_keys [3]" and new = "sample_keys [2]", OF wf dec get]
    by (elim exE conjE) (rule that; assumption)
  have "old_verify_keys keys [3] = Some \<lparr>expired_ts = 7, old_key = [3]\<rparr>"
    using spec [OF spec [OF k(2), of "[3]"], of "[3]"] by (simp add: sample_keys_def)
  then show ?thesis using k(1) by blast
qed

text \<open>
  The key pair made at the first start of the server is stored, and every later start loads it
  again, whatever it would have generated itself.
\<close>

theorem keypair_survives_restart:
  assumes "globals_wf db" "utf8 version" "kv_get (global db) (ascii ''keypair'') = None"
    and "from_der der version = Some key"
  shows "fst (load_keypair from_der version der db) = Ok key
    \<and> load_keypair from_der v' d' (snd (load_keypair from_der version der db))
      = (Ok key, snd (load_keypair from_der version der db))"
proof -
  have wf: "kv_wf (global db)" using assms(1) by (simp add: globals_wf_def)
  have "fst (load_keypair from_der version der db) = Ok key"
    using assms by (simp add: load_keypair_def generate_keypair_def Let_def key_simps)
  then show ?thesis
    using load_keypair_stable [OF wf assms(2,3), of from_der v' d' der] assms(4)
    by (simp add: prod_eq_iff)
qed

theorem keypair_survives_restart_witness:
  "fst (load_keypair (\<lambda>d v. Some (d, v)) (ascii ''a1'') [7, 255, 8] \<lparr>global = [], server_signingkeys = []\<rparr>)
     = Ok ([7, 255, 8], ascii ''a1'')"
  using keypair_survives_restart [of "\<lparr>global = [], server_signingkeys = []\<rparr>" "ascii ''a1''"
      "\<lambda>d v. Some (d, v)" "[7, 255, 8]" "([7, 255, 8], ascii ''a1'')" "[]" "[]"]
  by (simp add: globals_wf_def ascii_def)

end
