(* ===== verification/Short.thy ===== *)
theory Short
  imports Globals
begin

text \<open>
  \<^verbatim>\<open>server/src/database/key_value/rooms/short.rs\<close>: the interning of event ids, state keys, state
  hashes and room ids as 64-bit short ids drawn from the global counter, with its LRU caches.
  The locale \<open>interner\<close> is the contract the state compressor and the auth-chain code rely on;
  it is interpreted for event ids and for state keys.
\<close>

record short_db = globals_db +
  eventid_shorteventid :: kvtree
  shorteventid_eventid :: kvtree
  statekey_shortstatekey :: kvtree
  shortstatekey_statekey :: kvtree
  statehash_shortstatehash :: kvtree
  roomid_shortroomid :: kvtree
  eventidshort_cache :: "str \<rightharpoonup> u64"
  shorteventid_cache :: "u64 \<rightharpoonup> str"
  statekeyshort_cache :: "(str \<times> str) \<rightharpoonup> u64"
  shortstatekey_cache :: "u64 \<rightharpoonup> (str \<times> str)"

text \<open>What each LRU cache drops when it is inserted into.\<close>

record short_evict =
  evict_eventidshort :: "(str, u64) evict"
  evict_shorteventid :: "(u64, str) evict"
  evict_statekeyshort :: "(str \<times> str, u64) evict"
  evict_shortstatekey :: "(u64, str \<times> str) evict"

section \<open>Event ids\<close>

definition get_or_create_shorteventid ::
  "short_evict \<Rightarrow> str \<Rightarrow> 'a short_db_scheme \<Rightarrow> u64 result \<times> 'a short_db_scheme" where
  "get_or_create_shorteventid ev event_id db =
     (case eventidshort_cache db event_id of
        Some short \<Rightarrow> (Ok short, db)
      | None \<Rightarrow>
          step_then
            (case kv_get (eventid_shorteventid db) event_id of
               Some bs \<Rightarrow>
                 (ok_or (BadDatabase ''Invalid shorteventid in db.'') (u64_from_bytes bs), db)
             | None \<Rightarrow>
                 step_then (next_count db) (\<lambda>shorteventid db.
                   (Ok shorteventid,
                    db\<lparr>eventid_shorteventid :=
                          kv_insert (eventid_shorteventid db) event_id (to_be_bytes shorteventid),
                       shorteventid_eventid :=
                          kv_insert (shorteventid_eventid db) (to_be_bytes shorteventid) event_id\<rparr>)))
            (\<lambda>short db.
               (Ok short,
                db\<lparr>eventidshort_cache :=
                     lru_insert (evict_eventidshort ev) event_id short (eventidshort_cache db)\<rparr>)))"

definition get_eventid_from_short ::
  "ruma \<Rightarrow> short_evict \<Rightarrow> u64 \<Rightarrow> 'a short_db_scheme \<Rightarrow> str result \<times> 'a short_db_scheme" where
  "get_eventid_from_short R ev shorteventid db =
     (case shorteventid_cache db shorteventid of
        Some event_id \<Rightarrow> (Ok event_id, db)
      | None \<Rightarrow>
          (case kv_get (shorteventid_eventid db) (to_be_bytes shorteventid) of
             None \<Rightarrow> (Err (BadDatabase ''Shorteventid does not exist''), db)
           | Some bs \<Rightarrow>
               (case string_from_bytes bs of
                  None \<Rightarrow> (Err (BadDatabase ''EventID in shorteventid_eventid is invalid unicode.''), db)
                | Some event_id \<Rightarrow>
                    if valid_event_id R event_id
                    then (Ok event_id,
                          db\<lparr>shorteventid_cache := lru_insert (evict_shorteventid ev) shorteventid
                               event_id (shorteventid_cache db)\<rparr>)
                    else (Err (BadDatabase ''EventId in shorteventid_eventid is invalid.''), db))))"

section \<open>State keys\<close>

definition statekey_bytes :: "str \<Rightarrow> str \<Rightarrow> bytes" where
  "statekey_bytes event_type state_key = event_type @ [sep] @ state_key"

definition get_shortstatekey ::
  "short_evict \<Rightarrow> str \<Rightarrow> str \<Rightarrow> 'a short_db_scheme \<Rightarrow> u64 option result \<times> 'a short_db_scheme" where
  "get_shortstatekey ev event_type state_key db =
     (case statekeyshort_cache db (event_type, state_key) of
        Some short \<Rightarrow> (Ok (Some short), db)
      | None \<Rightarrow>
          (case kv_get (statekey_shortstatekey db) (statekey_bytes event_type state_key) of
             None \<Rightarrow> (Ok None, db)
           | Some bs \<Rightarrow>
               (case u64_from_bytes bs of
                  None \<Rightarrow> (Err (BadDatabase ''Invalid shortstatekey in db.''), db)
                | Some s \<Rightarrow>
                    (Ok (Some s),
                     db\<lparr>statekeyshort_cache := lru_insert (evict_statekeyshort ev)
                          (event_type, state_key) s (statekeyshort_cache db)\<rparr>))))"

definition get_or_create_shortstatekey ::
  "short_evict \<Rightarrow> str \<Rightarrow> str \<Rightarrow> 'a short_db_scheme \<Rightarrow> u64 result \<times> 'a short_db_scheme" where
  "get_or_create_shortstatekey ev event_type state_key db =
     (case statekeyshort_cache db (event_type, state_key) of
        Some short \<Rightarrow> (Ok short, db)
      | None \<Rightarrow>
          (let statekey = statekey_bytes event_type state_key in
           step_then
            (case kv_get (statekey_shortstatekey db) statekey of
               Some bs \<Rightarrow>
                 (ok_or (BadDatabase ''Invalid shortstatekey in db.'') (u64_from_bytes bs), db)
             | None \<Rightarrow>
                 step_then (next_count db) (\<lambda>shortstatekey db.
                   (Ok shortstatekey,
                    db\<lparr>statekey_shortstatekey :=
                          kv_insert (statekey_shortstatekey db) statekey (to_be_bytes shortstatekey),
                       shortstatekey_statekey :=
                          kv_insert (shortstatekey_statekey db) (to_be_bytes shortstatekey) statekey\<rparr>)))
            (\<lambda>short db.
               (Ok short,
                db\<lparr>statekeyshort_cache := lru_insert (evict_statekeyshort ev)
                     (event_type, state_key) short (statekeyshort_cache db)\<rparr>))))"

definition get_statekey_from_short ::
  "ruma \<Rightarrow> short_evict \<Rightarrow> u64 \<Rightarrow> 'a short_db_scheme \<Rightarrow> (str \<times> str) result \<times> 'a short_db_scheme" where
  "get_statekey_from_short R ev shortstatekey db =
     (case shortstatekey_cache db shortstatekey of
        Some r \<Rightarrow> (Ok r, db)
      | None \<Rightarrow>
          (case kv_get (shortstatekey_statekey db) (to_be_bytes shortstatekey) of
             None \<Rightarrow> (Err (BadDatabase ''Shortstatekey does not exist''), db)
           | Some bs \<Rightarrow>
               (case splitn_sep 2 bs of
                  [] \<Rightarrow> (Err (Panicked ''split always returns one entry''), db)
                | [_] \<Rightarrow> (Err (BadDatabase ''Invalid statekey in shortstatekey_statekey.''), db)
                | eventtype_bytes # statekey # _ \<Rightarrow>
                    (case string_from_bytes eventtype_bytes of
                       None \<Rightarrow> (Err (BadDatabase
                                 ''Event type in shortstatekey_statekey is invalid unicode.''), db)
                     | Some ty \<Rightarrow>
                         (case string_from_bytes statekey of
                            None \<Rightarrow> (Err (BadDatabase
                                 ''Statekey in shortstatekey_statekey is invalid unicode.''), db)
                          | Some state_key \<Rightarrow>
                              (let result = (state_event_type R ty, state_key)
                               in (Ok result,
                                   db\<lparr>shortstatekey_cache := lru_insert (evict_shortstatekey ev)
                                        shortstatekey result (shortstatekey_cache db)\<rparr>)))))))"

section \<open>State hashes and rooms\<close>

text \<open>Returns (shortstatehash, already\_existed).\<close>

definition get_or_create_shortstatehash ::
  "bytes \<Rightarrow> 'a short_db_scheme \<Rightarrow> (u64 \<times> bool) result \<times> 'a short_db_scheme" where
  "get_or_create_shortstatehash state_hash db =
     (case kv_get (statehash_shortstatehash db) state_hash of
        Some bs \<Rightarrow>
          (case u64_from_bytes bs of
             None \<Rightarrow> (Err (BadDatabase ''Invalid shortstatehash in db.''), db)
           | Some shortstatehash \<Rightarrow> (Ok (shortstatehash, True), db))
      | None \<Rightarrow>
          step_then (next_count db) (\<lambda>shortstatehash db.
            (Ok (shortstatehash, False),
             db\<lparr>statehash_shortstatehash :=
                  kv_insert (statehash_shortstatehash db) state_hash (to_be_bytes shortstatehash)\<rparr>)))"

definition get_shortroomid :: "str \<Rightarrow> 'a short_db_scheme \<Rightarrow> u64 option result" where
  "get_shortroomid room_id db =
     map_transpose (\<lambda>bs. ok_or (BadDatabase ''Invalid shortroomid in db.'') (u64_from_bytes bs))
       (kv_get (roomid_shortroomid db) room_id)"

definition get_or_create_shortroomid ::
  "str \<Rightarrow> 'a short_db_scheme \<Rightarrow> u64 result \<times> 'a short_db_scheme" where
  "get_or_create_shortroomid room_id db =
     (case kv_get (roomid_shortroomid db) room_id of
        Some bs \<Rightarrow> (ok_or (BadDatabase ''Invalid shortroomid in db.'') (u64_from_bytes bs), db)
      | None \<Rightarrow>
          step_then (next_count db) (\<lambda>short db.
            (Ok short,
             db\<lparr>roomid_shortroomid := kv_insert (roomid_shortroomid db) room_id (to_be_bytes short)\<rparr>)))"

section \<open>Invariant\<close>

text \<open>
  \<open>issued\<close>: every value is a counter value drawn so far, no two keys share one.
  \<open>interned\<close>: the two tables are inverse to each other.
\<close>

definition issued :: "kvtree \<Rightarrow> u64 \<Rightarrow> bool" where
  "issued t c \<longleftrightarrow> kv_wf t
     \<and> (\<forall>k b. kv_get t k = Some b \<longrightarrow> (\<exists>n. b = to_be_bytes n \<and> n \<noteq> 0 \<and> n \<le> c))
     \<and> (\<forall>k k' b. kv_get t k = Some b \<longrightarrow> kv_get t k' = Some b \<longrightarrow> k = k')"

definition interned :: "kvtree \<Rightarrow> kvtree \<Rightarrow> u64 \<Rightarrow> bool" where
  "interned fwd bwd c \<longleftrightarrow> issued fwd c \<and> kv_wf bwd
     \<and> (\<forall>k b. kv_get bwd b = Some k \<longleftrightarrow> kv_get fwd k = Some b)"

definition valid_event :: "ruma \<Rightarrow> str \<Rightarrow> bool" where
  "valid_event R e \<longleftrightarrow> utf8 e \<and> valid_event_id R e"

definition valid_statekey :: "ruma \<Rightarrow> str \<times> str \<Rightarrow> bool" where
  "valid_statekey R k \<longleftrightarrow> utf8 (fst k) \<and> utf8 (snd k) \<and> state_event_type R (fst k) = fst k"

text \<open>
  One interned family: the keys are encodings of valid objects, the forward cache agrees with the
  forward table and the reverse cache with the reverse table.
\<close>

definition intern_inv ::
  "('k \<Rightarrow> bytes) \<Rightarrow> ('k \<Rightarrow> bool) \<Rightarrow> kvtree \<Rightarrow> kvtree \<Rightarrow> ('k \<rightharpoonup> u64) \<Rightarrow> (u64 \<rightharpoonup> 'k) \<Rightarrow> u64 \<Rightarrow> bool" where
  "intern_inv enc valid fwd bwd cache rcache c \<longleftrightarrow> interned fwd bwd c
     \<and> (\<forall>k \<in> dom (kv_get fwd). \<exists>x. k = enc x \<and> valid x)
     \<and> (\<forall>x n. cache x = Some n \<longrightarrow> kv_get fwd (enc x) = Some (to_be_bytes n))
     \<and> (\<forall>x n. rcache n = Some x \<longrightarrow> kv_get bwd (to_be_bytes n) = Some (enc x) \<and> valid x)"

definition short_inv :: "ruma \<Rightarrow> 'a short_db_scheme \<Rightarrow> bool" where
  "short_inv R db \<longleftrightarrow> globals_wf db
     \<and> intern_inv id (valid_event R) (eventid_shorteventid db) (shorteventid_eventid db)
         (eventidshort_cache db) (shorteventid_cache db) (count_of db)
     \<and> intern_inv (\<lambda>(ty, sk). statekey_bytes ty sk) (valid_statekey R)
         (statekey_shortstatekey db) (shortstatekey_statekey db)
         (statekeyshort_cache db) (shortstatekey_cache db) (count_of db)
     \<and> issued (statehash_shortstatehash db) (count_of db)
     \<and> issued (roomid_shortroomid db) (count_of db)"

text \<open>How many more numbers the counter can give before it wraps.\<close>

definition budget :: "'a globals_db_scheme \<Rightarrow> nat \<Rightarrow> bool" where
  "budget db n \<longleftrightarrow> unat (count_of db) + n < 2 ^ 64"

text \<open>The contents of the reverse tables: what a short id stands for.\<close>

definition event_of_short :: "'a short_db_scheme \<Rightarrow> u64 \<Rightarrow> str option" where
  "event_of_short db n = kv_get (shorteventid_eventid db) (to_be_bytes n)"

definition statekey_dec :: "bytes \<Rightarrow> str \<times> str" where
  "statekey_dec bs = (takeWhile (\<lambda>b. b \<noteq> sep) bs, tl (dropWhile (\<lambda>b. b \<noteq> sep) bs))"

definition statekey_of_short :: "'a short_db_scheme \<Rightarrow> u64 \<Rightarrow> (str \<times> str) option" where
  "statekey_of_short db n =
     map_option statekey_dec (kv_get (shortstatekey_statekey db) (to_be_bytes n))"

text \<open>\<open>short_ext\<close>: nothing that was interned is lost or renamed, and nothing else changes.\<close>

definition short_ext :: "'a short_db_scheme \<Rightarrow> 'a short_db_scheme \<Rightarrow> bool" where
  "short_ext db db' \<longleftrightarrow> event_of_short db \<subseteq>\<^sub>m event_of_short db'
     \<and> statekey_of_short db \<subseteq>\<^sub>m statekey_of_short db'
     \<and> kv_get (statehash_shortstatehash db) \<subseteq>\<^sub>m kv_get (statehash_shortstatehash db')
     \<and> kv_get (roomid_shortroomid db) \<subseteq>\<^sub>m kv_get (roomid_shortroomid db')
     \<and> server_signingkeys db' = server_signingkeys db
     \<and> count_of db \<le> count_of db'
     \<and> short_db.more db' = short_db.more db"

section \<open>The interning contract\<close>

locale interner =
  fixes create :: "'k \<Rightarrow> 's \<Rightarrow> u64 result \<times> 's"
    and resolve :: "'s \<Rightarrow> u64 \<Rightarrow> 'k option"
    and inv :: "'s \<Rightarrow> bool"
    and valid :: "'k \<Rightarrow> bool"
    and room :: "'s \<Rightarrow> nat \<Rightarrow> bool"
  assumes create_ok: "inv s \<Longrightarrow> valid k \<Longrightarrow> room s (Suc m) \<Longrightarrow>
      \<exists>n s'. create k s = (Ok n, s') \<and> inv s' \<and> room s' m \<and> resolve s' n = Some k
             \<and> resolve s \<subseteq>\<^sub>m resolve s'"
    and resolve_inj: "inv s \<Longrightarrow> resolve s i = Some k \<Longrightarrow> resolve s j = Some k \<Longrightarrow> i = j"
begin

lemma create_again:
  assumes "inv s" "valid k" "room s (Suc (Suc m))" "create k s = (Ok n, s')"
  shows "\<exists>s''. create k s' = (Ok n, s'')"
proof -
  obtain s1 where 1: "s' = s1" "inv s1" "room s1 (Suc m)" "resolve s1 n = Some k"
    using create_ok [OF assms(1-3)] assms(4) by auto
  obtain n2 s2 where 2: "create k s1 = (Ok n2, s2)" "inv s2" "resolve s2 n2 = Some k"
    "resolve s1 \<subseteq>\<^sub>m resolve s2"
    using create_ok [OF 1(2) assms(2) 1(3)] by auto
  have "resolve s2 n = Some k" using 2(4) 1(4) by (auto simp: map_le_def dom_def)
  then have "n2 = n" using resolve_inj [OF 2(2,3)] by blast
  then show ?thesis using 1 2 by simp
qed

lemma create_all:
  assumes "inv s" "\<forall>k \<in> set ks. valid k" "room s (length ks)"
  shows "\<exists>ns s'. traverse create ks s = (Ok ns, s') \<and> inv s' \<and> resolve s \<subseteq>\<^sub>m resolve s'
           \<and> list_all2 (\<lambda>k n. resolve s' n = Some k) ks ns"
  using assms
proof (induction ks arbitrary: s)
  case (Cons k ks)
  obtain n s1 where 1: "create k s = (Ok n, s1)" "inv s1" "room s1 (length ks)"
    "resolve s1 n = Some k" "resolve s \<subseteq>\<^sub>m resolve s1"
    using create_ok [of s k "length ks"] Cons.prems by auto
  obtain ns s2 where 2: "traverse create ks s1 = (Ok ns, s2)" "inv s2" "resolve s1 \<subseteq>\<^sub>m resolve s2"
    "list_all2 (\<lambda>k n. resolve s2 n = Some k) ks ns"
    using Cons.IH [of s1] Cons.prems 1 by auto
  have "resolve s2 n = Some k" using 1(4) 2(3) by (auto simp: map_le_def dom_def)
  then show ?case using 1 2 by (auto intro: map_le_trans)
qed simp

text \<open>Short ids are equal exactly when what they stand for is.\<close>

lemma create_all_inj:
  assumes "inv s" "list_all2 (\<lambda>k n. resolve s n = Some k) ks ns" "i < length ks" "j < length ks"
  shows "ns ! i = ns ! j \<longleftrightarrow> ks ! i = ks ! j"
proof -
  have "resolve s (ns ! i) = Some (ks ! i)" "resolve s (ns ! j) = Some (ks ! j)"
    using assms by (auto simp: list_all2_conv_all_nth)
  then show ?thesis using resolve_inj [OF assms(1)] by (metis option.inject)
qed

end

section \<open>The tables satisfy it\<close>

lemma issued_insert:
  assumes "issued t c" "kv_get t k = None" "unat c + 1 < 2 ^ 64"
  shows "issued (kv_insert t k (to_be_bytes (c + 1))) (c + 1)"
proof -
  have lt: "n < c + 1" if "n \<le> c" for n using assms(3) that by (rule less_Suc_u64)
  have wf: "kv_wf t" using assms(1) by (simp add: issued_def)
  have old: "\<exists>n. b = to_be_bytes n \<and> n \<noteq> 0 \<and> n < c + 1" if "kv_get t k' = Some b" for k' b
    using assms(1) lt that unfolding issued_def by blast
  then have fresh: "kv_get t k' \<noteq> Some (to_be_bytes (c + 1))" for k' by fastforce
  have pos: "c + 1 \<noteq> 0" using lt [of c] by auto
  have old_le: "\<exists>n. b = to_be_bytes n \<and> n \<noteq> 0 \<and> n \<le> c + 1" if "kv_get t k' = Some b" for k' b
    using old [OF that] less_imp_le by blast
  show ?thesis
    unfolding issued_def kv_get_insert [OF wf]
    using assms(1) old_le fresh pos by (auto simp: kv_intros issued_def split: if_splits)
qed

lemma issued_mono:
  assumes "issued t c" "c \<le> c'"
  shows "issued t c'"
  using assms unfolding issued_def by (meson order_trans)

lemma interned_mono: "interned fwd bwd c \<Longrightarrow> c \<le> c' \<Longrightarrow> interned fwd bwd c'"
  by (auto simp: interned_def intro: issued_mono)

lemma interned_insert:
  assumes "interned fwd bwd c" "kv_get fwd k = None" "unat c + 1 < 2 ^ 64"
  shows "interned (kv_insert fwd k (to_be_bytes (c + 1))) (kv_insert bwd (to_be_bytes (c + 1)) k) (c + 1)"
proof -
  have wf: "kv_wf fwd" "kv_wf bwd" using assms(1) by (auto simp: interned_def issued_def)
  have "issued (kv_insert fwd k (to_be_bytes (c + 1))) (c + 1)"
    using assms by (intro issued_insert) (auto simp: interned_def)
  moreover have "kv_get fwd k' \<noteq> Some (to_be_bytes (c + 1))" for k'
    using assms(1) less_Suc_u64 [OF assms(3)] unfolding interned_def issued_def
    by (metis less_irrefl to_be_bytes_inj)
  ultimately show ?thesis
    using assms(1,2) by (auto simp: interned_def kv_intros kv_get_insert wf)
qed

lemma intern_inv_mono:
  "intern_inv enc valid fwd bwd cache rcache c \<Longrightarrow> c \<le> c' \<Longrightarrow>
   intern_inv enc valid fwd bwd cache rcache c'"
  unfolding intern_inv_def using interned_mono by blast

lemma intern_inv_cache:
  assumes "intern_inv enc valid fwd bwd cache rcache c" "kv_get fwd (enc x) = Some (to_be_bytes n)"
  shows "intern_inv enc valid fwd bwd (lru_insert ev x n cache) rcache c"
  using assms unfolding intern_inv_def by (auto dest!: lru_insert_Some)

lemma intern_inv_rcache:
  assumes "intern_inv enc valid fwd bwd cache rcache c"
    and "kv_get bwd (to_be_bytes n) = Some (enc x)" "valid x"
  shows "intern_inv enc valid fwd bwd cache (lru_insert ev n x rcache) c"
proof -
  have "kv_get bwd (to_be_bytes n') = Some (enc y) \<and> valid y" if "lru_insert ev n x rcache n' = Some y" for n' y
    using lru_insert_Some [OF that] assms unfolding intern_inv_def by auto
  then show ?thesis using assms(1) unfolding intern_inv_def by blast
qed

lemma intern_inv_fresh:
  assumes "intern_inv enc valid fwd bwd cache rcache c" "unat c + 1 < 2 ^ 64"
  shows "kv_get fwd k \<noteq> Some (to_be_bytes (c + 1))" "kv_get bwd (to_be_bytes (c + 1)) = None"
proof -
  show 1: "kv_get fwd k \<noteq> Some (to_be_bytes (c + 1))" for k
    using assms(1) less_Suc_u64 [OF assms(2)] unfolding intern_inv_def interned_def issued_def
    by (metis less_irrefl to_be_bytes_inj)
  then show "kv_get bwd (to_be_bytes (c + 1)) = None"
    using assms(1) unfolding intern_inv_def interned_def by (metis not_Some_eq)
qed

lemma intern_inv_new:
  assumes inv: "intern_inv enc valid fwd bwd cache rcache c" and x: "valid x"
    and new: "kv_get fwd (enc x) = None" and room: "unat c + 1 < 2 ^ 64"
  shows "intern_inv enc valid (kv_insert fwd (enc x) (to_be_bytes (c + 1)))
           (kv_insert bwd (to_be_bytes (c + 1)) (enc x)) cache rcache (c + 1)"
proof -
  have i: "interned fwd bwd c" and wf: "kv_wf fwd" "kv_wf bwd"
    using inv by (auto simp: intern_inv_def interned_def issued_def)
  have "dom (kv_get (kv_insert fwd (enc x) (to_be_bytes (c + 1)))) = insert (enc x) (dom (kv_get fwd))"
    by (simp add: kv_get_insert_map wf)
  moreover have "interned (kv_insert fwd (enc x) (to_be_bytes (c + 1)))
      (kv_insert bwd (to_be_bytes (c + 1)) (enc x)) (c + 1)"
    by (rule interned_insert [OF i new room])
  moreover have "cache y \<noteq> Some n" if "enc y = enc x" for y n
    using inv new that unfolding intern_inv_def by fastforce
  moreover have "rcache (c + 1) = None"
    using inv intern_inv_fresh(2) [OF inv room] unfolding intern_inv_def
    by (cases "rcache (c + 1)") auto
  ultimately show ?thesis
    using inv x unfolding intern_inv_def kv_get_insert [OF wf(1)] kv_get_insert [OF wf(2)] by auto
qed

lemma short_inv_wf:
  assumes "short_inv R db"
  shows "kv_wf (global db)" "kv_wf (eventid_shorteventid db)" "kv_wf (shorteventid_eventid db)"
    "kv_wf (statekey_shortstatekey db)" "kv_wf (shortstatekey_statekey db)"
    "kv_wf (statehash_shortstatehash db)" "kv_wf (roomid_shortroomid db)"
  using assms by (auto simp: short_inv_def intern_inv_def globals_wf_def interned_def issued_def)

lemma short_inv_globals: "short_inv R db \<Longrightarrow> globals_wf db"
  by (simp add: short_inv_def)

text \<open>Drawing a number keeps the invariant: the counter only grows.\<close>

lemma count_le_Suc: "budget db (Suc m) \<Longrightarrow> count_of db \<le> count_of db + 1"
  by (rule less_imp_le, rule less_Suc_u64) (auto simp: budget_def)

lemma short_inv_cong:
  assumes "short_inv R db" "count_of db \<le> count_of db'" "globals_wf db'"
    and "eventid_shorteventid db' = eventid_shorteventid db"
    "shorteventid_eventid db' = shorteventid_eventid db"
    "statekey_shortstatekey db' = statekey_shortstatekey db"
    "shortstatekey_statekey db' = shortstatekey_statekey db"
    "statehash_shortstatehash db' = statehash_shortstatehash db"
    "roomid_shortroomid db' = roomid_shortroomid db"
    "eventidshort_cache db' = eventidshort_cache db"
    "shorteventid_cache db' = shorteventid_cache db"
    "statekeyshort_cache db' = statekeyshort_cache db"
    "shortstatekey_cache db' = shortstatekey_cache db"
  shows "short_inv R db'"
  using assms(1,3) unfolding short_inv_def assms(4-)
  by (auto intro: intern_inv_mono [OF _ assms(2)] issued_mono [OF _ assms(2)])

lemma count_of_update_simps [simp]:
  "count_of (db\<lparr>eventid_shorteventid := a\<rparr>) = count_of db"
  "count_of (db\<lparr>shorteventid_eventid := a\<rparr>) = count_of db"
  "count_of (db\<lparr>statekey_shortstatekey := a\<rparr>) = count_of db"
  "count_of (db\<lparr>shortstatekey_statekey := a\<rparr>) = count_of db"
  "count_of (db\<lparr>statehash_shortstatehash := a\<rparr>) = count_of db"
  "count_of (db\<lparr>roomid_shortroomid := a\<rparr>) = count_of db"
  "count_of (db\<lparr>eventidshort_cache := c1\<rparr>) = count_of db"
  "count_of (db\<lparr>shorteventid_cache := c2\<rparr>) = count_of db"
  "count_of (db\<lparr>statekeyshort_cache := c3\<rparr>) = count_of db"
  "count_of (db\<lparr>shortstatekey_cache := c4\<rparr>) = count_of db"
  by (simp_all add: count_of_def)

lemma short_next [simp]:
  "eventid_shorteventid (snd (next_count db)) = eventid_shorteventid db"
  "shorteventid_eventid (snd (next_count db)) = shorteventid_eventid db"
  "statekey_shortstatekey (snd (next_count db)) = statekey_shortstatekey db"
  "shortstatekey_statekey (snd (next_count db)) = shortstatekey_statekey db"
  "statehash_shortstatehash (snd (next_count db)) = statehash_shortstatehash db"
  "roomid_shortroomid (snd (next_count db)) = roomid_shortroomid db"
  "eventidshort_cache (snd (next_count db)) = eventidshort_cache db"
  "shorteventid_cache (snd (next_count db)) = shorteventid_cache db"
  "statekeyshort_cache (snd (next_count db)) = statekeyshort_cache db"
  "shortstatekey_cache (snd (next_count db)) = shortstatekey_cache db"
  "short_db.more (snd (next_count db)) = short_db.more db"
  by (simp_all add: next_count_eq)

lemma next_count_pair: "next_count db = (Ok (count_of db + 1), snd (next_count db))"
  by (simp add: next_count_eq)

lemma short_inv_next:
  assumes "short_inv R db" "budget db (Suc m)"
  shows "short_inv R (snd (next_count db))"
  using assms(1)
  by (rule short_inv_cong)
     (use assms in \<open>simp_all add: count_of_next count_le_Suc short_inv_wf globals_wf_next short_inv_globals\<close>)

lemma budget_next:
  assumes "kv_wf (global db)" "budget db (Suc m)"
  shows "budget (snd (next_count db)) m"
  using assms by (simp add: budget_def kv_simps unat_Suc)

lemma short_ext_refl [simp]: "short_ext db db"
  by (simp add: short_ext_def)

lemma short_ext_trans: "short_ext a b \<Longrightarrow> short_ext b c \<Longrightarrow> short_ext a c"
  unfolding short_ext_def by (auto intro: map_le_trans order_trans)

section \<open>Operations\<close>

lemma event_of_short_iff:
  assumes "short_inv R db"
  shows "event_of_short db n = Some e \<longleftrightarrow> kv_get (eventid_shorteventid db) e = Some (to_be_bytes n)"
  using assms by (simp add: event_of_short_def short_inv_def intern_inv_def interned_def)

lemma statekey_dec_bytes:
  "valid_statekey R k \<Longrightarrow> statekey_dec (statekey_bytes (fst k) (snd k)) = k"
  by (simp add: statekey_dec_def statekey_bytes_def valid_statekey_def key_simps)

lemma statekey_of_short_iff:
  assumes "short_inv R db" "valid_statekey R k"
  shows "statekey_of_short db n = Some k \<longleftrightarrow>
         kv_get (statekey_shortstatekey db) (statekey_bytes (fst k) (snd k)) = Some (to_be_bytes n)"
proof -
  have bwd: "kv_get (shortstatekey_statekey db) b = Some k \<longleftrightarrow>
      kv_get (statekey_shortstatekey db) k = Some b" for k b
    using assms(1) by (simp add: short_inv_def intern_inv_def interned_def)
  have keys: "\<exists>x. b = statekey_bytes (fst x) (snd x) \<and> valid_statekey R x"
    if "kv_get (shortstatekey_statekey db) (to_be_bytes n) = Some b" for b
  proof -
    have "b \<in> dom (kv_get (statekey_shortstatekey db))" using that bwd by auto
    then show ?thesis using assms(1) by (auto simp: short_inv_def intern_inv_def case_prod_beta)
  qed
  have inj: "x = y" if "statekey_bytes (fst x) (snd x) = statekey_bytes (fst y) (snd y)"
    "valid_statekey R x" "valid_statekey R y" for x y
    using statekey_dec_bytes [OF that(2)] statekey_dec_bytes [OF that(3)] unfolding that(1) by simp
  show ?thesis
  proof (cases "kv_get (shortstatekey_statekey db) (to_be_bytes n)")
    case None
    then show ?thesis using bwd [of "to_be_bytes n"] by (auto simp: statekey_of_short_def)
  next
    case (Some b)
    then obtain x where x: "b = statekey_bytes (fst x) (snd x)" "valid_statekey R x" using keys by blast
    then have "statekey_of_short db n = Some x"
      using Some by (simp add: statekey_of_short_def statekey_dec_bytes)
    moreover have "kv_get (statekey_shortstatekey db) (statekey_bytes (fst k) (snd k)) = Some (to_be_bytes n)
        \<longleftrightarrow> x = k" using bwd [of "to_be_bytes n"] Some x(1) inj [OF _ x(2) assms(2)] by auto
    ultimately show ?thesis by simp
  qed
qed

lemma short_more_simps [simp]:
  "globals_wf (db\<lparr>eventid_shorteventid := a\<rparr>) = globals_wf db"
  "globals_wf (db\<lparr>shorteventid_eventid := a\<rparr>) = globals_wf db"
  "globals_wf (db\<lparr>statekey_shortstatekey := a\<rparr>) = globals_wf db"
  "globals_wf (db\<lparr>shortstatekey_statekey := a\<rparr>) = globals_wf db"
  "globals_wf (db\<lparr>statehash_shortstatehash := a\<rparr>) = globals_wf db"
  "globals_wf (db\<lparr>roomid_shortroomid := a\<rparr>) = globals_wf db"
  "globals_wf (db\<lparr>eventidshort_cache := c1\<rparr>) = globals_wf db"
  "globals_wf (db\<lparr>shorteventid_cache := c2\<rparr>) = globals_wf db"
  "globals_wf (db\<lparr>statekeyshort_cache := c3\<rparr>) = globals_wf db"
  "globals_wf (db\<lparr>shortstatekey_cache := c4\<rparr>) = globals_wf db"
  by (simp_all add: globals_wf_def)

lemma get_or_create_shorteventid_ok:
  assumes inv: "short_inv R db" and e: "valid_event R e" and b: "budget db (Suc m)"
  shows "\<exists>n db'. get_or_create_shorteventid ev e db = (Ok n, db') \<and> short_inv R db' \<and> budget db' m
           \<and> event_of_short db' n = Some e \<and> short_ext db db'"
proof -
  have b': "budget db m" using b by (simp add: budget_def)
  have room: "unat (count_of db) + 1 < 2 ^ 64" using b by (simp add: budget_def)
  let ?I = "intern_inv id (valid_event R) (eventid_shorteventid db) (shorteventid_eventid db)
         (eventidshort_cache db) (shorteventid_cache db) (count_of db)"
  have I: ?I using inv by (simp add: short_inv_def)
  consider (cached) n where "eventidshort_cache db e = Some n"
    | (stored) n where "eventidshort_cache db e = None"
        "kv_get (eventid_shorteventid db) e = Some (to_be_bytes n)"
    | (new) "eventidshort_cache db e = None" "kv_get (eventid_shorteventid db) e = None"
    using I unfolding intern_inv_def interned_def issued_def by (metis not_Some_eq)
  then show ?thesis
  proof cases
    case cached
    then have "event_of_short db n = Some e"
      using I event_of_short_iff [OF inv] by (auto simp: intern_inv_def)
    then show ?thesis using cached inv b' by (auto simp: get_or_create_shorteventid_def)
  next
    case stored
    have "event_of_short db n = Some e" using stored event_of_short_iff [OF inv] by simp
    moreover have "short_inv R (db\<lparr>eventidshort_cache := lru_insert (evict_eventidshort ev) e n (eventidshort_cache db)\<rparr>)"
      using inv intern_inv_cache [OF I, of e n] stored by (simp add: short_inv_def)
    ultimately show ?thesis using stored b'
      by (simp add: get_or_create_shorteventid_def budget_def event_of_short_def [abs_def] short_ext_def
          statekey_of_short_def [abs_def])
  next
    case new
    let ?n = "count_of db + 1" and ?db1 = "snd (next_count db)"
    let ?fwd = "kv_insert (eventid_shorteventid db) e (to_be_bytes ?n)"
      and ?bwd = "kv_insert (shorteventid_eventid db) (to_be_bytes ?n) e"
      and ?c = "lru_insert (evict_eventidshort ev) e ?n (eventidshort_cache db)"
    let ?db2 = "?db1\<lparr>eventid_shorteventid := ?fwd, shorteventid_eventid := ?bwd, eventidshort_cache := ?c\<rparr>"
    have wf: "kv_wf (eventid_shorteventid db)" "kv_wf (shorteventid_eventid db)" "kv_wf (global db)"
      using inv by (simp_all add: short_inv_wf)
    have "intern_inv id (valid_event R) ?fwd ?bwd (eventidshort_cache db) (shorteventid_cache db) ?n"
      using intern_inv_new [OF I e _ room] new by simp
    then have "intern_inv id (valid_event R) ?fwd ?bwd ?c (shorteventid_cache db) ?n"
      by (rule intern_inv_cache) (simp add: kv_get_insert wf)
    then have "short_inv R ?db2"
      using short_inv_next [OF inv b] by (simp add: short_inv_def count_of_next wf)
    moreover have "event_of_short ?db2 ?n = Some e"
      by (simp add: event_of_short_def kv_get_insert wf)
    moreover have "event_of_short db \<subseteq>\<^sub>m event_of_short ?db2"
      using intern_inv_fresh(2) [OF I room] by (auto simp: map_le_def event_of_short_def kv_get_insert wf)
    ultimately show ?thesis using new budget_next [OF wf(3) b]
      by (subst get_or_create_shorteventid_def, subst next_count_pair)
         (simp add: short_ext_def statekey_of_short_def [abs_def] budget_def count_of_next count_le_Suc [OF b] wf)
  qed
qed

lemma get_or_create_shortstatekey_ok:
  assumes inv: "short_inv R db" and e: "valid_statekey R (ty, sk)" and b: "budget db (Suc m)"
  shows "\<exists>n db'. get_or_create_shortstatekey ev ty sk db = (Ok n, db') \<and> short_inv R db' \<and> budget db' m
           \<and> statekey_of_short db' n = Some (ty, sk) \<and> short_ext db db'"
proof -
  have b': "budget db m" using b by (simp add: budget_def)
  have room: "unat (count_of db) + 1 < 2 ^ 64" using b by (simp add: budget_def)
  let ?enc = "\<lambda>(ty, sk). statekey_bytes ty sk" and ?k = "statekey_bytes ty sk"
  have I: "intern_inv ?enc (valid_statekey R) (statekey_shortstatekey db) (shortstatekey_statekey db)
         (statekeyshort_cache db) (shortstatekey_cache db) (count_of db)"
    using inv by (simp add: short_inv_def)
  consider (cached) n where "statekeyshort_cache db (ty, sk) = Some n"
    | (stored) n where "statekeyshort_cache db (ty, sk) = None"
        "kv_get (statekey_shortstatekey db) ?k = Some (to_be_bytes n)"
    | (new) "statekeyshort_cache db (ty, sk) = None" "kv_get (statekey_shortstatekey db) ?k = None"
    using I unfolding intern_inv_def interned_def issued_def by (metis not_Some_eq)
  then show ?thesis
  proof cases
    case cached
    then have "statekey_of_short db n = Some (ty, sk)"
      using I statekey_of_short_iff [OF inv e] by (auto simp: intern_inv_def)
    then show ?thesis using cached inv b' by (auto simp: get_or_create_shortstatekey_def)
  next
    case stored
    have "statekey_of_short db n = Some (ty, sk)" using stored statekey_of_short_iff [OF inv e] by simp
    moreover have "short_inv R (db\<lparr>statekeyshort_cache :=
        lru_insert (evict_statekeyshort ev) (ty, sk) n (statekeyshort_cache db)\<rparr>)"
      using inv intern_inv_cache [OF I, of "(ty, sk)" n] stored by (simp add: short_inv_def)
    ultimately show ?thesis using stored b'
      by (simp add: get_or_create_shortstatekey_def budget_def event_of_short_def [abs_def] short_ext_def
          statekey_of_short_def [abs_def])
  next
    case new
    let ?n = "count_of db + 1" and ?db1 = "snd (next_count db)"
    let ?fwd = "kv_insert (statekey_shortstatekey db) ?k (to_be_bytes ?n)"
      and ?bwd = "kv_insert (shortstatekey_statekey db) (to_be_bytes ?n) ?k"
      and ?c = "lru_insert (evict_statekeyshort ev) (ty, sk) ?n (statekeyshort_cache db)"
    let ?db2 = "?db1\<lparr>statekey_shortstatekey := ?fwd, shortstatekey_statekey := ?bwd, statekeyshort_cache := ?c\<rparr>"
    have wf: "kv_wf (statekey_shortstatekey db)" "kv_wf (shortstatekey_statekey db)" "kv_wf (global db)"
      using inv by (simp_all add: short_inv_wf)
    have "intern_inv ?enc (valid_statekey R) ?fwd ?bwd (statekeyshort_cache db) (shortstatekey_cache db) ?n"
      using intern_inv_new [OF I e _ room] new by simp
    then have "intern_inv ?enc (valid_statekey R) ?fwd ?bwd ?c (shortstatekey_cache db) ?n"
      by (rule intern_inv_cache) (simp add: kv_get_insert wf)
    then have "short_inv R ?db2"
      using short_inv_next [OF inv b] by (simp add: short_inv_def count_of_next wf)
    moreover have "statekey_of_short ?db2 ?n = Some (ty, sk)"
      using statekey_dec_bytes [OF e] by (simp add: statekey_of_short_def kv_get_insert wf)
    moreover have "statekey_of_short db \<subseteq>\<^sub>m statekey_of_short ?db2"
      using intern_inv_fresh(2) [OF I room]
      by (auto simp: map_le_def statekey_of_short_def kv_get_insert wf)
    ultimately show ?thesis using new budget_next [OF wf(3) b]
      by (subst get_or_create_shortstatekey_def, subst next_count_pair)
         (simp add: short_ext_def event_of_short_def [abs_def] budget_def Let_def count_of_next count_le_Suc [OF b] wf)
  qed
qed

lemma statekey_of_short_valid:
  assumes inv: "short_inv R db" and "statekey_of_short db n = Some k"
  shows "valid_statekey R k"
proof -
  obtain b where b: "kv_get (shortstatekey_statekey db) (to_be_bytes n) = Some b" "k = statekey_dec b"
    using assms(2) by (auto simp: statekey_of_short_def)
  then have "b \<in> dom (kv_get (statekey_shortstatekey db))"
    using inv by (auto simp: short_inv_def intern_inv_def interned_def)
  moreover have "\<forall>k \<in> dom (kv_get (statekey_shortstatekey db)).
      \<exists>x. k = (\<lambda>(ty, sk). statekey_bytes ty sk) x \<and> valid_statekey R x"
    using inv by (simp add: short_inv_def intern_inv_def)
  ultimately obtain x where "b = statekey_bytes (fst x) (snd x)" "valid_statekey R x"
    unfolding case_prod_beta by blast
  then show ?thesis using b(2) by (simp add: statekey_dec_bytes)
qed

lemma short_nonzero:
  assumes inv: "short_inv R db"
  shows "statekey_of_short db k = Some x \<Longrightarrow> k \<noteq> 0"
    and "kv_get (roomid_shortroomid db) room = Some (to_be_bytes k) \<Longrightarrow> k \<noteq> 0"
proof -
  show "kv_get (roomid_shortroomid db) room = Some (to_be_bytes k) \<Longrightarrow> k \<noteq> 0"
    using inv unfolding short_inv_def issued_def by (metis to_be_bytes_inj)
  assume x: "statekey_of_short db k = Some x"
  have "kv_get (statekey_shortstatekey db) (statekey_bytes (fst x) (snd x)) = Some (to_be_bytes k)"
    using statekey_of_short_iff [OF inv statekey_of_short_valid [OF inv x]] x by simp
  moreover have "issued (statekey_shortstatekey db) (count_of db)"
    using inv by (simp add: short_inv_def intern_inv_def interned_def)
  ultimately show "k \<noteq> 0" unfolding issued_def by (metis to_be_bytes_inj)
qed

text \<open>Reading a short id back gives what was interned, and never forgets anything.\<close>

lemma get_eventid_from_short_ok:
  assumes inv: "short_inv R db" and n: "event_of_short db n = Some e"
  shows "\<exists>db'. get_eventid_from_short R ev n db = (Ok e, db') \<and> short_inv R db'
           \<and> event_of_short db' = event_of_short db"
proof -
  have I: "intern_inv id (valid_event R) (eventid_shorteventid db) (shorteventid_eventid db)
         (eventidshort_cache db) (shorteventid_cache db) (count_of db)"
    using inv by (simp add: short_inv_def)
  have stored: "kv_get (shorteventid_eventid db) (to_be_bytes n) = Some e"
    using n by (simp add: event_of_short_def)
  then have "kv_get (eventid_shorteventid db) e = Some (to_be_bytes n)"
    using event_of_short_iff [OF inv] n by simp
  then have v: "valid_event R e" using I unfolding intern_inv_def by auto
  show ?thesis
  proof (cases "shorteventid_cache db n")
    case (Some e')
    then have "e' = e" using I stored by (auto simp: intern_inv_def)
    then show ?thesis using Some inv by (simp add: get_eventid_from_short_def)
  next
    case None
    let ?db = "db\<lparr>shorteventid_cache := lru_insert (evict_shorteventid ev) n e (shorteventid_cache db)\<rparr>"
    have "short_inv R ?db"
      using inv intern_inv_rcache [OF I, of n e] stored v by (simp add: short_inv_def)
    then show ?thesis using None stored v
      by (simp add: get_eventid_from_short_def valid_event_def event_of_short_def [abs_def])
  qed
qed

lemma get_statekey_from_short_ok:
  assumes inv: "short_inv R db" and n: "statekey_of_short db n = Some k"
  shows "\<exists>db'. get_statekey_from_short R ev n db = (Ok k, db') \<and> short_inv R db'
           \<and> statekey_of_short db' = statekey_of_short db"
proof -
  have v: "valid_statekey R k" using inv n by (rule statekey_of_short_valid)
  obtain ty sk where k: "k = (ty, sk)" by (cases k)
  have I: "intern_inv (\<lambda>(ty, sk). statekey_bytes ty sk) (valid_statekey R)
      (statekey_shortstatekey db) (shortstatekey_statekey db)
      (statekeyshort_cache db) (shortstatekey_cache db) (count_of db)"
    using inv by (simp add: short_inv_def)
  have "kv_get (statekey_shortstatekey db) (statekey_bytes ty sk) = Some (to_be_bytes n)"
    using statekey_of_short_iff [OF inv v] n k by simp
  then have stored: "kv_get (shortstatekey_statekey db) (to_be_bytes n) = Some (statekey_bytes ty sk)"
    using I by (simp add: intern_inv_def interned_def)
  have utf: "utf8 ty" "utf8 sk" "state_event_type R ty = ty" using v k by (auto simp: valid_statekey_def)
  show ?thesis
  proof (cases "shortstatekey_cache db n")
    case (Some k')
    then have "statekey_bytes (fst k') (snd k') = statekey_bytes ty sk" "valid_statekey R k'"
      using I stored Some by (cases k'; auto simp: intern_inv_def)+
    then have "k' = k" using statekey_dec_bytes [of R k'] statekey_dec_bytes [OF v] k by simp
    then show ?thesis using Some inv by (simp add: get_statekey_from_short_def)
  next
    case None
    let ?db = "db\<lparr>shortstatekey_cache := lru_insert (evict_shortstatekey ev) n (ty, sk) (shortstatekey_cache db)\<rparr>"
    have "splitn_sep 2 (statekey_bytes ty sk) = [ty, sk]"
      using utf by (simp add: statekey_bytes_def key_simps)
    moreover have "short_inv R ?db"
      using inv intern_inv_rcache [OF I, of n "(ty, sk)"] stored v k by (simp add: short_inv_def)
    ultimately show ?thesis using None stored utf k
      by (simp add: get_statekey_from_short_def statekey_of_short_def [abs_def] Let_def)
  qed
qed

lemma get_shortstatekey_iff:
  assumes inv: "short_inv R db" and v: "valid_statekey R (ty, sk)"
  shows "fst (get_shortstatekey ev ty sk db) = Ok (Some n) \<longleftrightarrow> statekey_of_short db n = Some (ty, sk)"
    and "\<exists>r. fst (get_shortstatekey ev ty sk db) = Ok r"
proof -
  have I: "intern_inv (\<lambda>(ty, sk). statekey_bytes ty sk) (valid_statekey R)
      (statekey_shortstatekey db) (shortstatekey_statekey db)
      (statekeyshort_cache db) (shortstatekey_cache db) (count_of db)"
    using inv by (simp add: short_inv_def)
  have num: "\<exists>n. b = to_be_bytes n" if "kv_get (statekey_shortstatekey db) k = Some b" for k b
    using I that unfolding intern_inv_def interned_def issued_def by blast
  have cache: "kv_get (statekey_shortstatekey db) (statekey_bytes ty sk) = Some (to_be_bytes n)"
    if "statekeyshort_cache db (ty, sk) = Some n" for n
    using I that by (auto simp: intern_inv_def)
  show "fst (get_shortstatekey ev ty sk db) = Ok (Some n) \<longleftrightarrow> statekey_of_short db n = Some (ty, sk)"
    using num cache unfolding statekey_of_short_iff [OF inv v]
    by (fastforce simp: get_shortstatekey_def split: option.splits)
  show "\<exists>r. fst (get_shortstatekey ev ty sk db) = Ok r"
    using num by (fastforce simp: get_shortstatekey_def split: option.splits)
qed

text \<open>A state hash keeps its number, and the flag says whether it had one.\<close>

lemma get_or_create_shortstatehash_ok:
  assumes inv: "short_inv R db" and b: "budget db (Suc m)"
  shows "\<exists>n db'. get_or_create_shortstatehash h db = (Ok (n, kv_get (statehash_shortstatehash db) h \<noteq> None), db')
           \<and> short_inv R db' \<and> budget db' m \<and> short_ext db db'
           \<and> kv_get (statehash_shortstatehash db') h = Some (to_be_bytes n)
           \<and> (kv_get (statehash_shortstatehash db) h \<noteq> None \<longrightarrow> db' = db)
           \<and> (kv_get (statehash_shortstatehash db) h = None \<longrightarrow> n = count_of db + 1)"
proof -
  have room: "unat (count_of db) + 1 < 2 ^ 64" and b': "budget db m" using b by (simp_all add: budget_def)
  have I: "issued (statehash_shortstatehash db) (count_of db)" using inv by (simp add: short_inv_def)
  show ?thesis
  proof (cases "kv_get (statehash_shortstatehash db) h")
    case (Some bs)
    then obtain n where "bs = to_be_bytes n" using I unfolding issued_def by blast
    then show ?thesis using Some inv b' by (simp add: get_or_create_shortstatehash_def)
  next
    case None
    have wf: "kv_wf (statehash_shortstatehash db)" "kv_wf (global db)" using inv by (simp_all add: short_inv_wf)
    let ?n = "count_of db + 1" and ?db1 = "snd (next_count db)"
    let ?db2 = "?db1\<lparr>statehash_shortstatehash := kv_insert (statehash_shortstatehash db) h (to_be_bytes ?n)\<rparr>"
    have "short_inv R ?db2"
      using short_inv_next [OF inv b] issued_insert [OF I None room] by (simp add: short_inv_def count_of_next wf)
    moreover have "short_ext db ?db2"
      using None by (auto simp: short_ext_def event_of_short_def [abs_def] statekey_of_short_def [abs_def]
          map_le_def kv_get_insert wf count_of_next count_le_Suc [OF b])
    ultimately show ?thesis using None budget_next [OF wf(2) b]
      by (subst get_or_create_shortstatehash_def, subst next_count_pair) (simp add: kv_get_insert wf budget_def)
  qed
qed

lemma get_or_create_shortroomid_ok:
  assumes inv: "short_inv R db" and b: "budget db (Suc m)"
  shows "\<exists>n db'. get_or_create_shortroomid r db = (Ok n, db') \<and> short_inv R db' \<and> budget db' m
           \<and> get_shortroomid r db' = Ok (Some n) \<and> short_ext db db'"
proof -
  have room: "unat (count_of db) + 1 < 2 ^ 64" and b': "budget db m" using b by (simp_all add: budget_def)
  have I: "issued (roomid_shortroomid db) (count_of db)" using inv by (simp add: short_inv_def)
  show ?thesis
  proof (cases "kv_get (roomid_shortroomid db) r")
    case (Some bs)
    then obtain n where "bs = to_be_bytes n" using I unfolding issued_def by blast
    then show ?thesis using Some inv b' by (simp add: get_or_create_shortroomid_def get_shortroomid_def)
  next
    case None
    have wf: "kv_wf (roomid_shortroomid db)" "kv_wf (global db)" using inv by (simp_all add: short_inv_wf)
    let ?n = "count_of db + 1" and ?db1 = "snd (next_count db)"
    let ?db2 = "?db1\<lparr>roomid_shortroomid := kv_insert (roomid_shortroomid db) r (to_be_bytes ?n)\<rparr>"
    have "short_inv R ?db2"
      using short_inv_next [OF inv b] issued_insert [OF I None room] by (simp add: short_inv_def count_of_next wf)
    moreover have "short_ext db ?db2"
      using None by (auto simp: short_ext_def event_of_short_def [abs_def] statekey_of_short_def [abs_def]
          map_le_def kv_get_insert wf count_of_next count_le_Suc [OF b])
    ultimately show ?thesis using None budget_next [OF wf(2) b]
      by (subst get_or_create_shortroomid_def, subst next_count_pair)
         (simp add: kv_get_insert wf budget_def get_shortroomid_def)
  qed
qed

lemma get_or_create_statehash_same [simp]:
  "statehash_shortstatehash (snd (get_or_create_shorteventid ev e db)) = statehash_shortstatehash db"
  "statehash_shortstatehash (snd (get_or_create_shortstatekey ev ty sk db)) = statehash_shortstatehash db"
  by (simp_all add: get_or_create_shorteventid_def get_or_create_shortstatekey_def Let_def next_count_eq
      ok_or_def step_then_def split: option.splits)

interpretation event_ids: interner "get_or_create_shorteventid ev" event_of_short "short_inv R"
    "valid_event R" budget
  for ev :: short_evict and R :: ruma
proof unfold_locales
  fix s :: "'a short_db_scheme" and k m
  assume "short_inv R s" "valid_event R k" "budget s (Suc m)"
  then show "\<exists>n s'. get_or_create_shorteventid ev k s = (Ok n, s') \<and> short_inv R s' \<and> budget s' m
      \<and> event_of_short s' n = Some k \<and> event_of_short s \<subseteq>\<^sub>m event_of_short s'"
    using get_or_create_shorteventid_ok [of R s k m ev] by (auto simp: short_ext_def)
next
  fix s :: "'a short_db_scheme" and i j k
  assume "short_inv R s" "event_of_short s i = Some k" "event_of_short s j = Some k"
  then show "i = j" by (simp add: event_of_short_iff)
qed

interpretation state_keys: interner "\<lambda>(ty, sk). get_or_create_shortstatekey ev ty sk"
    statekey_of_short "short_inv R" "valid_statekey R" budget
  for ev :: short_evict and R :: ruma
proof unfold_locales
  fix s :: "'a short_db_scheme" and k m
  assume "short_inv R s" "valid_statekey R k" "budget s (Suc m)"
  then show "\<exists>n s'. (case k of (ty, sk) \<Rightarrow> get_or_create_shortstatekey ev ty sk) s = (Ok n, s')
      \<and> short_inv R s' \<and> budget s' m
      \<and> statekey_of_short s' n = Some k \<and> statekey_of_short s \<subseteq>\<^sub>m statekey_of_short s'"
    using get_or_create_shortstatekey_ok [of R s "fst k" "snd k" m ev]
    by (cases k) (auto simp: short_ext_def)
next
  fix s :: "'a short_db_scheme" and i j k
  assume s: "short_inv R s" "statekey_of_short s i = Some k" "statekey_of_short s j = Some k"
  then show "i = j" using statekey_of_short_iff [OF s(1) statekey_of_short_valid [OF s(1,2)]] by simp
qed

section \<open>Properties\<close>

definition empty_short_db :: short_db where
  "empty_short_db = \<lparr>global = [], server_signingkeys = [], eventid_shorteventid = [],
     shorteventid_eventid = [], statekey_shortstatekey = [], shortstatekey_statekey = [],
     statehash_shortstatehash = [], roomid_shortroomid = [], eventidshort_cache = Map.empty,
     shorteventid_cache = Map.empty, statekeyshort_cache = Map.empty, shortstatekey_cache = Map.empty\<rparr>"

definition evict_nothing :: short_evict where
  "evict_nothing = \<lparr>evict_eventidshort = (\<lambda>_ _. {}), evict_shorteventid = (\<lambda>_ _. {}),
     evict_statekeyshort = (\<lambda>_ _. {}), evict_shortstatekey = (\<lambda>_ _. {})\<rparr>"

lemma issued_Nil [simp]: "issued [] c" "interned [] [] c"
  by (simp_all add: issued_def interned_def)

lemma empty_short_inv: "short_inv R empty_short_db" "count_of empty_short_db = 0"
  by (simp_all add: short_inv_def intern_inv_def empty_short_db_def globals_wf_def count_of_def)

text \<open>
  C9: interning a list of event ids succeeds while the counter has room, whatever the caches drop;
  the short ids given out are equal exactly when the events are, and each of them reads back as its
  event.
\<close>

theorem shorteventids_faithful:
  assumes "short_inv R db" "\<forall>e \<in> set es. valid_event R e" "budget db (length es)"
  shows "\<exists>ns db'. traverse (get_or_create_shorteventid ev) es db = (Ok ns, db') \<and> short_inv R db'
    \<and> length ns = length es
    \<and> (\<forall>i < length es. \<forall>j < length es. ns ! i = ns ! j \<longleftrightarrow> es ! i = es ! j)
    \<and> (\<forall>i < length es. fst (get_eventid_from_short R ev' (ns ! i) db') = Ok (es ! i))"
proof -
  obtain ns db' where n: "traverse (get_or_create_shorteventid ev) es db = (Ok ns, db')" "short_inv R db'"
    "list_all2 (\<lambda>e n. event_of_short db' n = Some e) es ns"
    using event_ids.create_all [OF assms, of ev] by blast
  have "fst (get_eventid_from_short R ev' (ns ! i) db') = Ok (es ! i)" if "i < length es" for i
    using get_eventid_from_short_ok [OF n(2), of "ns ! i" "es ! i" ev'] n(3) that
    by (auto simp: list_all2_conv_all_nth)
  then show ?thesis
    using n event_ids.create_all_inj [OF n(2,3)] by (auto simp: list_all2_lengthD [OF n(3)])
qed

theorem shorteventids_faithful_witness:
  "\<exists>ns db'. traverse (get_or_create_shorteventid evict_nothing) [[36, 97], [36, 98], [36, 97]] empty_short_db
     = (Ok ns, db') \<and> ns ! 0 = ns ! 2 \<and> ns ! 0 \<noteq> ns ! 1"
proof -
  let ?es = "[[36, 97], [36, 98], [36, 97]] :: str list"
  have v: "\<forall>e \<in> set ?es. valid_event accept_all e" by (simp add: valid_event_def accept_all_def)
  have b: "budget empty_short_db (length ?es)" by (simp add: budget_def empty_short_inv)
  obtain ns db' where n: "traverse (get_or_create_shorteventid evict_nothing) ?es empty_short_db = (Ok ns, db')"
    "\<forall>i < length ?es. \<forall>j < length ?es. ns ! i = ns ! j \<longleftrightarrow> ?es ! i = ?es ! j"
    using shorteventids_faithful [OF empty_short_inv(1) v b] by blast
  have "ns ! 0 = ns ! 2" using n(2) [rule_format, of 0 2] by simp
  moreover have "ns ! 0 \<noteq> ns ! 1"
    using n(2) [rule_format, of 0 1] by simp
  ultimately show ?thesis using n(1) by blast
qed

text \<open>
  A state key (event type and key) that is interned reads back as the same pair, and looking it
  up finds the number it was given.
\<close>

theorem shortstatekey_round_trip:
  assumes "short_inv R db" "valid_statekey R (ty, sk)" "budget db 1"
  shows "\<exists>n db'. get_or_create_shortstatekey ev ty sk db = (Ok n, db') \<and> short_inv R db'
    \<and> fst (get_statekey_from_short R ev' n db') = Ok (ty, sk)
    \<and> fst (get_shortstatekey ev' ty sk db') = Ok (Some n)"
proof -
  obtain n db' where n: "get_or_create_shortstatekey ev ty sk db = (Ok n, db')" "short_inv R db'"
    "statekey_of_short db' n = Some (ty, sk)"
    using get_or_create_shortstatekey_ok [OF assms(1,2), of 0 ev] assms(3) by auto
  then show ?thesis
    using get_statekey_from_short_ok [OF n(2,3), of ev'] get_shortstatekey_iff(1) [OF n(2) assms(2)] by auto
qed

theorem shortstatekey_round_trip_witness:
  "\<exists>n db'. get_or_create_shortstatekey evict_nothing (ascii ''m.room.name'') [] empty_short_db = (Ok n, db')
     \<and> fst (get_statekey_from_short accept_all evict_nothing n db') = Ok (ascii ''m.room.name'', [])"
proof -
  have "valid_statekey accept_all (ascii ''m.room.name'', [])"
    by (simp add: valid_statekey_def accept_all_def ascii_def)
  moreover have "budget empty_short_db 1" by (simp add: budget_def empty_short_inv)
  ultimately show ?thesis using shortstatekey_round_trip [OF empty_short_inv(1)] by blast
qed

end
