(* ===== verification/StateCompressor.thy ===== *)
theory StateCompressor
  imports Short "HOL-Library.FSet"
begin

text \<open>
  Room state as layered diffs: \<^verbatim>\<open>server/src/database/key_value/rooms/state_compressor.rs\<close> (the
  stored form of one diff), \<^verbatim>\<open>key_value/rooms/state.rs\<close> (a room's current state and its forward
  extremities) and \<^verbatim>\<open>server/src/service/rooms/state_compressor/mod.rs\<close> (loading a state through
  its layers and saving a new one).

  A \<open>HashSet\<close> is a finite set; where the code iterates over one, the order is the argument
  \<open>elems\<close>, of which only \<open>fset_of_list (elems S) = S\<close> is ever assumed. SHA-256 is the argument
  \<open>sha256\<close>. Set sizes are natural numbers: the products of \<open>usize\<close> in \<open>save_state_from_diff\<close>
  stay far below the machine word for any set that fits in memory.
\<close>

type_synonym layer = "u64 \<times> bytes fset \<times> bytes fset \<times> bytes fset"

record state_db = short_db +
  roomid_shortstatehash :: kvtree
  shorteventid_shortstatehash :: kvtree
  roomid_pduleaves :: kvtree
  shortstatehash_statediff :: kvtree
  stateinfo_cache :: "u64 \<rightharpoonup> layer list"

section \<open>A room's state number and its forward extremities\<close>

definition get_room_shortstatehash :: "str \<Rightarrow> 'a state_db_scheme \<Rightarrow> u64 option result" where
  "get_room_shortstatehash room_id db =
     (case kv_get (roomid_shortstatehash db) room_id of
        None \<Rightarrow> Ok None
      | Some bs \<Rightarrow> (case u64_from_bytes bs of
                     Some n \<Rightarrow> Ok (Some n)
                   | None \<Rightarrow> Err (BadDatabase ''Invalid shortstatehash in roomid_shortstatehash'')))"

definition set_room_state :: "str \<Rightarrow> u64 \<Rightarrow> 'a state_db_scheme \<Rightarrow> 'a state_db_scheme" where
  "set_room_state room_id new_shortstatehash db =
     db\<lparr>roomid_shortstatehash :=
          kv_insert (roomid_shortstatehash db) room_id (to_be_bytes new_shortstatehash)\<rparr>"

definition db_set_event_state :: "u64 \<Rightarrow> u64 \<Rightarrow> 'a state_db_scheme \<Rightarrow> 'a state_db_scheme" where
  "db_set_event_state shorteventid shortstatehash db =
     db\<lparr>shorteventid_shortstatehash := kv_insert (shorteventid_shortstatehash db)
          (to_be_bytes shorteventid) (to_be_bytes shortstatehash)\<rparr>"

text \<open>The collection into a \<open>HashSet\<close>, or the first error.\<close>

definition get_forward_extremities :: "ruma \<Rightarrow> str \<Rightarrow> 'a state_db_scheme \<Rightarrow> str fset result" where
  "get_forward_extremities R room_id db =
     and_then
       (collect_result (map (\<lambda>(_, bs).
          case string_from_bytes bs of
            None \<Rightarrow> Err (BadDatabase ''EventID in roomid_pduleaves is invalid unicode.'')
          | Some e \<Rightarrow> if valid_event_id R e then Ok e
                      else Err (BadDatabase ''EventId in roomid_pduleaves is invalid.''))
          (kv_scan_prefix (roomid_pduleaves db) (room_id @ [sep]))))
       (\<lambda>es. Ok (fset_of_list es))"

definition set_forward_extremities ::
  "str \<Rightarrow> str list \<Rightarrow> 'a state_db_scheme \<Rightarrow> 'a state_db_scheme" where
  "set_forward_extremities room_id event_ids db =
     (let p = room_id @ [sep]; t = kv_remove_prefix (roomid_pduleaves db) p
      in db\<lparr>roomid_pduleaves := fold (\<lambda>e t. kv_insert t (p @ e) e) event_ids t\<rparr>)"

section \<open>Stored diffs\<close>

record state_diff =
  parent :: "u64 option"
  added :: "bytes fset"
  removed :: "bytes fset"

text \<open>The loop of \<open>get_statediff\<close>, from position \<open>i\<close> of the value on.\<close>

fun parse_diff ::
  "bool \<Rightarrow> bytes \<Rightarrow> bytes fset \<Rightarrow> bytes fset \<Rightarrow> bytes fset \<times> bytes fset" where
  "parse_diff add_mode value A D =
     (if length value < 16 then (A, D)
      else
        (let v = take 16 value in
         if add_mode \<and> starts_with v (to_be_bytes 0) then parse_diff False (drop 8 value) A D
         else if add_mode then parse_diff add_mode (drop 16 value) (finsert v A) D
         else parse_diff add_mode (drop 16 value) A (finsert v D)))"

declare parse_diff.simps [simp del]

definition get_statediff :: "u64 \<Rightarrow> 'a state_db_scheme \<Rightarrow> state_diff result" where
  "get_statediff shortstatehash db =
     (case kv_get (shortstatehash_statediff db) (to_be_bytes shortstatehash) of
        None \<Rightarrow> Err (BadDatabase ''State hash does not exist'')
      | Some value \<Rightarrow>
          if length value < 8 then Err (Panicked ''range end index 8 out of range for slice'')
          else
            (case u64_from_bytes (take 8 value) of
               None \<Rightarrow> Err (Panicked ''bytes have right length'')
             | Some p \<Rightarrow>
                 (let (A, D) = parse_diff True (drop 8 value) {||} {||}
                  in Ok \<lparr>parent = (if p \<noteq> 0 then Some p else None), added = A, removed = D\<rparr>)))"

definition statediff_value :: "(bytes fset \<Rightarrow> bytes list) \<Rightarrow> state_diff \<Rightarrow> bytes" where
  "statediff_value elems diff =
     to_be_bytes (case parent diff of Some p \<Rightarrow> p | None \<Rightarrow> 0)
     @ concat (elems (added diff))
     @ (if removed diff \<noteq> {||} then to_be_bytes 0 @ concat (elems (removed diff)) else [])"

definition save_statediff ::
  "(bytes fset \<Rightarrow> bytes list) \<Rightarrow> u64 \<Rightarrow> state_diff \<Rightarrow> 'a state_db_scheme \<Rightarrow> 'a state_db_scheme" where
  "save_statediff elems shortstatehash diff db =
     db\<lparr>shortstatehash_statediff := kv_insert (shortstatehash_statediff db)
          (to_be_bytes shortstatehash) (statediff_value elems diff)\<rparr>"

section \<open>Loading a state\<close>

text \<open>
  The recursion follows parent pointers; \<open>fuel\<close> is the depth of the stack, and running out of it is
  the overflow that a cycle of parents would cause.
\<close>

fun load_shortstatehash_info ::
  "nat \<Rightarrow> (u64, layer list) evict \<Rightarrow> u64 \<Rightarrow> 'a state_db_scheme
     \<Rightarrow> layer list result \<times> 'a state_db_scheme" where
  "load_shortstatehash_info 0 ev shortstatehash db = (Err (Panicked ''stack overflow''), db)"
| "load_shortstatehash_info (Suc fuel) ev shortstatehash db =
     (case stateinfo_cache db shortstatehash of
        Some r \<Rightarrow> (Ok r, db)
      | None \<Rightarrow>
          (case get_statediff shortstatehash db of
             Inl e \<Rightarrow> (Err e, db)
           | Inr diff \<Rightarrow>
               (case parent diff of
                  Some p \<Rightarrow>
                    step_then (load_shortstatehash_info fuel ev p db) (\<lambda>response db.
                      if response = [] then (Err (Panicked ''called unwrap on a None value''), db)
                      else
                        (let state = fst (snd (last response)) |\<union>| added diff |-| removed diff;
                             response = response @ [(shortstatehash, state, added diff, removed diff)]
                         in (Ok response,
                             db\<lparr>stateinfo_cache :=
                                  lru_insert ev shortstatehash response (stateinfo_cache db)\<rparr>)))
                | None \<Rightarrow>
                    (let response = [(shortstatehash, added diff, added diff, removed diff)]
                     in (Ok response,
                         db\<lparr>stateinfo_cache :=
                              lru_insert ev shortstatehash response (stateinfo_cache db)\<rparr>)))))"

section \<open>Compressed state events\<close>

definition compress_state_event ::
  "short_evict \<Rightarrow> u64 \<Rightarrow> str \<Rightarrow> 'a short_db_scheme \<Rightarrow> bytes result \<times> 'a short_db_scheme" where
  "compress_state_event ev shortstatekey event_id db =
     step_then (get_or_create_shorteventid ev event_id db) (\<lambda>n db.
       (Ok (to_be_bytes shortstatekey @ to_be_bytes n), db))"

text \<open>The argument type is \<open>[u8; 16]\<close>: both halves have eight bytes.\<close>

definition parse_compressed_state_event ::
  "ruma \<Rightarrow> short_evict \<Rightarrow> bytes \<Rightarrow> 'a short_db_scheme \<Rightarrow> (u64 \<times> str) result \<times> 'a short_db_scheme" where
  "parse_compressed_state_event R ev c db =
     (case (u64_from_bytes (take 8 c), u64_from_bytes (drop 8 c)) of
        (Some k, Some n) \<Rightarrow>
          step_then (get_eventid_from_short R ev n db) (\<lambda>event_id db. (Ok (k, event_id), db))
      | _ \<Rightarrow> (Err (Panicked ''bytes have right length''), db))"

section \<open>Saving a state\<close>

text \<open>The two loops that fold a diff into the diff of the layer below.\<close>

definition merge_removed ::
  "bytes list \<Rightarrow> bytes fset \<times> bytes fset \<Rightarrow> bytes fset \<times> bytes fset" where
  "merge_removed rs = fold (\<lambda>r (parent_new, parent_removed).
     if r |\<in>| parent_new then (parent_new |-| {|r|}, parent_removed)
     else (parent_new, finsert r parent_removed)) rs"

definition merge_new ::
  "bytes list \<Rightarrow> bytes fset \<times> bytes fset \<Rightarrow> bytes fset \<times> bytes fset" where
  "merge_new ns = fold (\<lambda>n (parent_new, parent_removed).
     if n |\<in>| parent_removed then (parent_new, parent_removed |-| {|n|})
     else (finsert n parent_new, parent_removed)) ns"

function save_state_from_diff ::
  "(bytes fset \<Rightarrow> bytes list) \<Rightarrow> u64 \<Rightarrow> bytes fset \<Rightarrow> bytes fset \<Rightarrow> nat \<Rightarrow> layer list
     \<Rightarrow> 'a state_db_scheme \<Rightarrow> 'a state_db_scheme" where
  "save_state_from_diff elems shortstatehash statediffnew statediffremoved diff_to_sibling
     parent_states db =
     (let diffsum = fcard statediffnew + fcard statediffremoved in
      if length parent_states > 3 then
        (let (_, _, pn, pr) = last parent_states;
             (parent_new, parent_removed) =
               merge_new (elems statediffnew) (merge_removed (elems statediffremoved) (pn, pr))
         in save_state_from_diff elems shortstatehash parent_new parent_removed diffsum
              (butlast parent_states) db)
      else if parent_states = [] then
        save_statediff elems shortstatehash
          \<lparr>parent = None, added = statediffnew, removed = statediffremoved\<rparr> db
      else
        (let (ph, _, pn, pr) = last parent_states; parent_diff = fcard pn + fcard pr in
         if diffsum * diffsum \<ge> 2 * diff_to_sibling * parent_diff then
           (let (parent_new, parent_removed) =
                  merge_new (elems statediffnew) (merge_removed (elems statediffremoved) (pn, pr))
            in save_state_from_diff elems shortstatehash parent_new parent_removed diffsum
                 (butlast parent_states) db)
         else
           save_statediff elems shortstatehash
             \<lparr>parent = Some ph, added = statediffnew, removed = statediffremoved\<rparr> db))"
  by pat_completeness auto

termination
  by (relation "measure (\<lambda>(_, _, _, _, _, parent_states, _). length parent_states)") auto

declare save_state_from_diff.simps [simp del]

definition calculate_hash :: "(bytes \<Rightarrow> bytes) \<Rightarrow> bytes list \<Rightarrow> bytes" where
  "calculate_hash sha256 keys = sha256 (join_sep keys)"

text \<open>The diff to the parent state, if there is one.\<close>

definition diff_to_parent ::
  "bytes fset \<Rightarrow> layer list \<Rightarrow> bytes fset \<times> bytes fset" where
  "diff_to_parent state states_parents =
     (if states_parents \<noteq> [] then
        (let full = fst (snd (last states_parents)) in (state |-| full, full |-| state))
      else (state, {||}))"

text \<open>\<open>previous_shortstatehash.map_or_else(|| Ok(Vec::new()), |p| load_shortstatehash_info(p))\<close>\<close>

definition load_parents ::
  "nat \<Rightarrow> (u64, layer list) evict \<Rightarrow> u64 option \<Rightarrow> 'a state_db_scheme
     \<Rightarrow> layer list result \<times> 'a state_db_scheme" where
  "load_parents fuel ev previous db =
     (case previous of None \<Rightarrow> (Ok [], db) | Some p \<Rightarrow> load_shortstatehash_info fuel ev p db)"

text \<open>Returns the new shortstatehash, and the state diff from the previous room state.\<close>

definition save_state ::
  "(bytes \<Rightarrow> bytes) \<Rightarrow> (bytes fset \<Rightarrow> bytes list) \<Rightarrow> nat \<Rightarrow> (u64, layer list) evict \<Rightarrow> str
     \<Rightarrow> bytes fset \<Rightarrow> 'a state_db_scheme
     \<Rightarrow> (u64 \<times> bytes fset \<times> bytes fset) result \<times> 'a state_db_scheme" where
  "save_state sha256 elems fuel ev room_id new_state_ids_compressed db =
     step_then (get_room_shortstatehash room_id db, db) (\<lambda>previous_shortstatehash db.
     step_then (get_or_create_shortstatehash
                  (calculate_hash sha256 (elems new_state_ids_compressed)) db)
       (\<lambda>(new_shortstatehash, already_existed) db.
     if Some new_shortstatehash = previous_shortstatehash
     then (Ok (new_shortstatehash, {||}, {||}), db)
     else
       step_then (load_parents fuel ev previous_shortstatehash db) (\<lambda>states_parents db.
         let (statediffnew, statediffremoved) =
               diff_to_parent new_state_ids_compressed states_parents;
             db = (if \<not> already_existed
                   then save_state_from_diff elems new_shortstatehash statediffnew statediffremoved
                          2 states_parents db
                   else db)
         in (Ok (new_shortstatehash, statediffnew, statediffremoved), db))))"

section \<open>Specification\<close>

text \<open>What is assumed of the iteration order of a \<open>HashSet\<close>.\<close>

definition iteration_order :: "('a fset \<Rightarrow> 'a list) \<Rightarrow> bool" where
  "iteration_order elems \<longleftrightarrow> (\<forall>S. fset_of_list (elems S) = S \<and> distinct (elems S))"

text \<open>A compressed state event: sixteen bytes, the first eight a short state key, never zero.\<close>

definition compressed :: "bytes \<Rightarrow> bool" where
  "compressed e \<longleftrightarrow> length e = 16 \<and> \<not> starts_with e (to_be_bytes 0)"

definition top_state :: "layer list \<Rightarrow> bytes fset" where
  "top_state ls = (if ls = [] then {||} else fst (snd (last ls)))"

text \<open>The stack of layers that the stored diffs define for a state.\<close>

inductive chain :: "'a state_db_scheme \<Rightarrow> u64 \<Rightarrow> layer list \<Rightarrow> bool" for db where
  root: "get_statediff h db = Ok d \<Longrightarrow> parent d = None \<Longrightarrow>
         chain db h [(h, added d, added d, removed d)]"
| layer: "get_statediff h db = Ok d \<Longrightarrow> parent d = Some p \<Longrightarrow> chain db p ls \<Longrightarrow>
          chain db h (ls @ [(h, top_state ls |\<union>| added d |-| removed d, added d, removed d)])"

text \<open>Layers are exact: nothing is added twice and only what is there is removed.\<close>

fun exact :: "bytes fset \<Rightarrow> layer list \<Rightarrow> bool" where
  "exact F [] = True"
| "exact F ((h, S, A, D) # ls) =
     (h \<noteq> 0 \<and> S = F |\<union>| A |-| D \<and> A |\<inter>| F = {||} \<and> D |\<subseteq>| F \<and> (\<forall>e |\<in>| A. compressed e) \<and> exact S ls)"

lemma exact_snoc:
  "exact F (ls @ [(h, S, A, D)]) \<longleftrightarrow> exact F ls \<and>
     (let G = (if ls = [] then F else fst (snd (last ls))) in
      h \<noteq> 0 \<and> S = G |\<union>| A |-| D \<and> A |\<inter>| G = {||} \<and> D |\<subseteq>| G \<and> (\<forall>e |\<in>| A. compressed e))"
  by (induction F ls rule: exact.induct) (auto simp: Let_def)

lemma exact_snoc_top:
  "exact {||} (ls @ [(h, S, A, D)]) \<longleftrightarrow> exact {||} ls \<and> h \<noteq> 0 \<and> S = top_state ls |\<union>| A |-| D
     \<and> A |\<inter>| top_state ls = {||} \<and> D |\<subseteq>| top_state ls \<and> (\<forall>e |\<in>| A. compressed e)"
  by (simp add: exact_snoc top_state_def Let_def)

lemma top_state_snoc [simp]: "top_state (ls @ [(h, S, A, D)]) = S"
  by (simp add: top_state_def)

lemma top_state_Nil [simp]: "top_state [] = {||}"
  by (simp add: top_state_def)

lemma exact_compressed: "exact {||} ls \<Longrightarrow> e |\<in>| top_state ls \<Longrightarrow> compressed e"
proof (induction ls rule: rev_induct)
  case (snoc l ls)
  then show ?case by (cases l) (auto simp: exact_snoc_top)
qed simp

section \<open>Stored diffs round-trip\<close>

lemma parse_diff_short: "length value < 16 \<Longrightarrow> parse_diff m value A D = (A, D)"
  by (subst parse_diff.simps) simp

lemma parse_diff_removed:
  "\<forall>e \<in> set xs. length e = 16 \<Longrightarrow>
   parse_diff False (concat xs) A D = (A, D |\<union>| fset_of_list xs)"
proof (induction xs arbitrary: D)
  case (Cons x xs)
  then show ?case by (subst parse_diff.simps) (simp add: funion_finsert_right)
qed (simp add: parse_diff_short)

lemma parse_diff_added:
  "\<forall>e \<in> set xs. compressed e \<Longrightarrow>
   parse_diff True (concat xs @ rest) A D = parse_diff True rest (A |\<union>| fset_of_list xs) D"
proof (induction xs arbitrary: A)
  case (Cons x xs)
  then show ?case by (subst parse_diff.simps) (simp add: compressed_def funion_finsert_right)
qed simp

lemma parse_diff_switch:
  "8 \<le> length rest \<Longrightarrow> parse_diff True (to_be_bytes 0 @ rest) A D = parse_diff False rest A D"
  by (subst parse_diff.simps) (simp add: prefix_def)

lemma elems_set: "iteration_order elems \<Longrightarrow> set (elems S) = fset S"
  unfolding iteration_order_def by (metis fset_of_list.rep_eq)

lemma elems_fset: "iteration_order elems \<Longrightarrow> fset_of_list (elems S) = S"
  by (simp add: iteration_order_def)

lemma length_concat_mem: "x \<in> set xs \<Longrightarrow> length x \<le> length (concat xs)"
  by (induction xs) auto

lemma get_save_statediff:
  assumes ord: "iteration_order elems" and wf: "kv_wf (shortstatehash_statediff db)"
    and p: "parent d \<noteq> Some 0" and A: "\<forall>e |\<in>| added d. compressed e"
    and D: "\<forall>e |\<in>| removed d. length e = 16"
  shows "get_statediff h (save_statediff elems h d db) = Ok d"
proof -
  let ?tail = "concat (elems (added d)) @
    (if removed d \<noteq> {||} then to_be_bytes 0 @ concat (elems (removed d)) else [])"
  define tail where "tail = ?tail"
  have A': "\<forall>e \<in> set (elems (added d)). compressed e" using A ord by (simp add: elems_set)
  have D': "\<forall>e \<in> set (elems (removed d)). length e = 16" using D ord by (simp add: elems_set)
  have "parse_diff True ?tail {||} {||} = (added d, removed d)"
  proof (cases "removed d = {||}")
    case True
    then show ?thesis
      using parse_diff_added [OF A', of "[]"] ord by (simp add: parse_diff_short elems_fset)
  next
    case False
    then obtain r where "r \<in> set (elems (removed d))" using ord by (auto simp: elems_set)
    then have "length r \<le> length (concat (elems (removed d)))" by (rule length_concat_mem)
    moreover have "length r = 16" using D' \<open>r \<in> _\<close> by blast
    ultimately show ?thesis
      using False parse_diff_added [OF A'] parse_diff_removed [OF D'] ord
      by (simp add: parse_diff_switch elems_fset)
  qed
  then have tail: "parse_diff True tail {||} {||} = (added d, removed d)" by (simp add: tail_def)
  have "statediff_value elems d = to_be_bytes (case parent d of Some p \<Rightarrow> p | None \<Rightarrow> 0) @ tail"
    by (simp add: statediff_value_def tail_def)
  then have "get_statediff h (save_statediff elems h d db) =
      Ok \<lparr>parent = parent d, added = added d, removed = removed d\<rparr>"
    using p wf tail
    by (simp add: get_statediff_def save_statediff_def kv_get_insert split: option.splits)
  then show ?thesis by simp
qed

lemma get_save_statediff_other:
  "kv_wf (shortstatehash_statediff db) \<Longrightarrow> h' \<noteq> h \<Longrightarrow>
   get_statediff h' (save_statediff elems h d db) = get_statediff h' db"
  by (simp add: get_statediff_def save_statediff_def kv_get_insert)

section \<open>Merging a diff into the layer below\<close>

lemma merge_removed_eq:
  "distinct rs \<Longrightarrow> merge_removed rs (A, R) =
     (A |-| fset_of_list rs, R |\<union>| (fset_of_list rs |-| A))"
proof (induction rs arbitrary: A R)
  case (Cons r rs)
  then show ?case by (auto simp: merge_removed_def fset_eq_iff fset_of_list_elem)
qed (simp add: merge_removed_def)

lemma merge_new_eq:
  "distinct ns \<Longrightarrow> merge_new ns (A, R) =
     (A |\<union>| (fset_of_list ns |-| R), R |-| fset_of_list ns)"
proof (induction ns arbitrary: A R)
  case (Cons n ns)
  then show ?case by (auto simp: merge_new_def fset_eq_iff fset_of_list_elem)
qed (simp add: merge_new_def)

lemma merge_eq:
  assumes "iteration_order elems"
  shows "merge_new (elems N) (merge_removed (elems D) (A, R)) =
     ((A |-| D) |\<union>| (N |-| (R |\<union>| (D |-| A))), (R |\<union>| (D |-| A)) |-| N)"
  using assms by (simp add: merge_removed_eq merge_new_eq iteration_order_def)

lemma merge_exact:
  assumes "S = F |\<union>| A |-| R" "A |\<inter>| F = {||}" "R |\<subseteq>| F" "N |\<inter>| S = {||}" "D |\<subseteq>| S"
  defines "A' \<equiv> (A |-| D) |\<union>| (N |-| (R |\<union>| (D |-| A)))" and "R' \<equiv> (R |\<union>| (D |-| A)) |-| N"
  shows "F |\<union>| A' |-| R' = S |\<union>| N |-| D" "A' |\<inter>| F = {||}" "R' |\<subseteq>| F"
  using assms(1-5) unfolding A'_def R'_def by (auto simp: fset_eq_iff)

section \<open>Chains\<close>

inductive_cases chain_cases: "chain db h ls"

lemma chain_last: "chain db h ls \<Longrightarrow> ls \<noteq> [] \<and> fst (last ls) = h"
  by (induction rule: chain.induct) auto

lemma chain_stored: "chain db h ls \<Longrightarrow> \<exists>d. get_statediff h db = Ok d"
  by (auto elim: chain_cases)

lemma chain_det: "chain db h ls \<Longrightarrow> chain db h ls' \<Longrightarrow> ls = ls'"
proof (induction arbitrary: ls' rule: chain.induct)
  case (root h d)
  from root(3,1,2) show ?case by (cases rule: chain.cases) auto
next
  case (layer h d p ls)
  from layer(5,1,2) layer.IH show ?case by (cases rule: chain.cases) auto
qed

lemma chain_mono:
  assumes "chain db h ls" "\<And>h d. get_statediff h db = Ok d \<Longrightarrow> get_statediff h db' = Ok d"
  shows "chain db' h ls"
  using assms(1) by induction (auto intro: chain.intros assms(2))

lemma chain_cong:
  assumes "shortstatehash_statediff db' = shortstatehash_statediff db"
  shows "chain db' h ls = chain db h ls"
proof -
  have "get_statediff h db' = get_statediff h db" for h using assms by (simp add: get_statediff_def)
  then show ?thesis by (metis chain_mono)
qed

lemma chain_butlast:
  assumes "chain db h (ls @ [l])" "ls \<noteq> []"
  shows "chain db (fst (last ls)) ls"
  using assms(1) by (cases rule: chain.cases) (use assms(2) chain_last in auto)

lemma chain_extend:
  assumes "get_statediff h db = Ok d" "case parent d of None \<Rightarrow> ls = [] | Some p \<Rightarrow> chain db p ls"
    and "removed d |\<subseteq>| top_state ls"
  shows "chain db h (ls @ [(h, top_state ls |\<union>| added d |-| removed d, added d, removed d)])"
proof (cases "parent d")
  case None
  then have "removed d = {||}" "ls = []" using assms(2,3) by auto
  then show ?thesis using chain.root [OF assms(1) None] by simp
next
  case (Some p)
  then show ?thesis using chain.layer [OF assms(1) Some] assms(2) by simp
qed

section \<open>Saving\<close>

lemma save_state_from_diff_snoc:
  assumes "iteration_order elems"
  shows "save_state_from_diff elems h N D k (qs @ [(ph, S, A, R)]) db =
     (if 3 < Suc (length qs) \<or> 2 * k * (fcard A + fcard R) \<le> (fcard N + fcard D) * (fcard N + fcard D)
      then save_state_from_diff elems h ((A |-| D) |\<union>| (N |-| (R |\<union>| (D |-| A))))
             ((R |\<union>| (D |-| A)) |-| N) (fcard N + fcard D) qs db
      else save_statediff elems h \<lparr>parent = Some ph, added = N, removed = D\<rparr> db)"
  by (subst save_state_from_diff.simps) (simp add: Let_def merge_eq [OF assms])

text \<open>
  Wherever the recursion stops, it has written one diff whose parent stack, with the new layer,
  is exact and gives the state that was asked for.
\<close>

lemma save_state_from_diff_writes:
  assumes "iteration_order elems" "h \<noteq> 0"
    and "exact {||} ps" "ps \<noteq> [] \<Longrightarrow> chain db (fst (last ps)) ps"
    and "N |\<inter>| top_state ps = {||}" "D |\<subseteq>| top_state ps" "\<forall>e |\<in>| N. compressed e"
  shows "\<exists>d qs. save_state_from_diff elems h N D k ps db = save_statediff elems h d db
     \<and> length qs \<le> 3 \<and> (case parent d of None \<Rightarrow> qs = [] | Some p \<Rightarrow> p \<noteq> 0 \<and> chain db p qs)
     \<and> exact {||} (qs @ [(h, top_state ps |\<union>| N |-| D, added d, removed d)])"
  using assms(3-)
proof (induction ps arbitrary: N D k rule: rev_induct)
  case Nil
  then show ?case
    using assms(2) by (subst save_state_from_diff.simps) (auto simp: Let_def intro!: exI [of _ "[]"])
next
  case (snoc l qs)
  obtain ph S A R where l: "l = (ph, S, A, R)" by (cases l)
  let ?A = "(A |-| D) |\<union>| (N |-| (R |\<union>| (D |-| A)))" and ?R = "(R |\<union>| (D |-| A)) |-| N"
  have ex: "exact {||} qs" "ph \<noteq> 0" "S = top_state qs |\<union>| A |-| R" "A |\<inter>| top_state qs = {||}"
      "R |\<subseteq>| top_state qs" "\<forall>e |\<in>| A. compressed e"
    using snoc.prems(1) unfolding l exact_snoc_top by auto
  have top: "top_state (qs @ [l]) = S" by (simp add: l)
  note m = merge_exact [OF ex(3-5) snoc.prems(3,4) [unfolded top]]
  show ?case
  proof (cases "save_state_from_diff elems h N D k (qs @ [l]) db =
                save_state_from_diff elems h ?A ?R (fcard N + fcard D) qs db")
    case True
    have "\<forall>e |\<in>| ?A. compressed e" using ex(6) snoc.prems(5) by auto
    moreover have "qs \<noteq> [] \<Longrightarrow> chain db (fst (last qs)) qs"
      using snoc.prems(2) chain_butlast [of db _ qs l] by auto
    ultimately show ?thesis
      using snoc.IH [OF ex(1) _ m(2,3), of "fcard N + fcard D"] True m(1) top by simp
  next
    case False
    then have "save_state_from_diff elems h N D k (qs @ [l]) db =
        save_statediff elems h \<lparr>parent = Some ph, added = N, removed = D\<rparr> db" "length qs \<le> 2"
      using save_state_from_diff_snoc [OF assms(1), of h N D k qs ph S A R db] l
      by (auto split: if_splits)
    moreover have "chain db ph (qs @ [l])" using snoc.prems(2) l by simp
    moreover have "exact {||} ((qs @ [l]) @ [(h, S |\<union>| N |-| D, N, D)])"
      using snoc.prems assms(2) unfolding exact_snoc_top top by simp
    ultimately show ?thesis using ex(2) top
      by (intro exI [of _ "\<lparr>parent = Some ph, added = N, removed = D\<rparr>"] exI [of _ "qs @ [l]"]) simp
  qed
qed

section \<open>The invariant of the stored states\<close>

definition stored :: "u64 \<Rightarrow> 'a state_db_scheme \<Rightarrow> bool" where
  "stored h db \<longleftrightarrow> kv_get (shortstatehash_statediff db) (to_be_bytes h) \<noteq> None"

text \<open>
  Every stored diff belongs to an exact stack of at most four layers; the cache holds such stacks;
  stored numbers were drawn from the counter; a room's state is stored.
\<close>

definition diffs_inv :: "'a state_db_scheme \<Rightarrow> bool" where
  "diffs_inv db \<longleftrightarrow> kv_wf (shortstatehash_statediff db)
     \<and> (\<forall>h. stored h db \<longrightarrow> h \<le> count_of db \<and> (\<exists>ls. chain db h ls \<and> exact {||} ls \<and> length ls \<le> 4))
     \<and> (\<forall>h ls. stateinfo_cache db h = Some ls \<longrightarrow> chain db h ls)"

text \<open>
  A hash that has a number stands for a stored state whose elements, in some order, hash to it; in
  the middle of an operation the numbers in \<open>pending\<close> are still to be stored.
\<close>

definition state_inv_but ::
  "u64 set \<Rightarrow> ruma \<Rightarrow> (bytes \<Rightarrow> bytes) \<Rightarrow> 'a state_db_scheme \<Rightarrow> bool" where
  "state_inv_but pending R sha256 db \<longleftrightarrow> short_inv R db \<and> diffs_inv db
     \<and> kv_wf (roomid_shortstatehash db) \<and> kv_wf (shorteventid_shortstatehash db)
     \<and> kv_wf (roomid_pduleaves db)
     \<and> (\<forall>bs n. kv_get (statehash_shortstatehash db) bs = Some (to_be_bytes n) \<longrightarrow>
          n \<in> pending \<or> (\<exists>ks ls. bs = sha256 (join_sep ks) \<and> (\<forall>k \<in> set ks. length k = 16)
             \<and> chain db n ls \<and> top_state ls = fset_of_list ks))
     \<and> (\<forall>room bs. kv_get (roomid_shortstatehash db) room = Some bs \<longrightarrow>
          (\<exists>n. bs = to_be_bytes n \<and> stored n db))"

abbreviation state_inv :: "ruma \<Rightarrow> (bytes \<Rightarrow> bytes) \<Rightarrow> 'a state_db_scheme \<Rightarrow> bool" where
  "state_inv \<equiv> state_inv_but {}"

text \<open>The state a number stands for.\<close>

definition state_is :: "'a state_db_scheme \<Rightarrow> u64 \<Rightarrow> bytes fset \<Rightarrow> bool" where
  "state_is db h S \<longleftrightarrow> (\<exists>ls. chain db h ls \<and> top_state ls = S)"

lemma stored_chain:
  assumes "diffs_inv db" "chain db h ls"
  shows "exact {||} ls" "length ls \<le> 4" "stored h db"
proof -
  show s: "stored h db"
    using chain_stored [OF assms(2)] by (auto simp: stored_def get_statediff_def split: option.splits)
  then obtain ls' where "chain db h ls'" "exact {||} ls'" "length ls' \<le> 4"
    using assms(1) unfolding diffs_inv_def by blast
  then show "exact {||} ls" "length ls \<le> 4" using chain_det [OF assms(2)] by auto
qed

lemma state_is_unique: "state_is db h S \<Longrightarrow> state_is db h T \<Longrightarrow> S = T"
  unfolding state_is_def using chain_det by blast

lemma diffs_inv_cache:
  assumes "diffs_inv db" "chain db h ls"
  shows "diffs_inv (db\<lparr>stateinfo_cache := lru_insert ev h ls (stateinfo_cache db)\<rparr>)"
proof -
  let ?db = "db\<lparr>stateinfo_cache := lru_insert ev h ls (stateinfo_cache db)\<rparr>"
  have c: "chain ?db = chain db" by (intro ext chain_cong) simp
  have "chain db h' ls'" if "lru_insert ev h ls (stateinfo_cache db) h' = Some ls'" for h' ls'
    using lru_insert_Some [OF that] assms by (auto simp: diffs_inv_def)
  then show ?thesis using assms(1) by (simp add: diffs_inv_def c stored_def count_of_def)
qed

lemma load_shortstatehash_info_ok:
  assumes "diffs_inv db" "chain db h ls" "length ls \<le> fuel"
  shows "\<exists>c. load_shortstatehash_info fuel ev h db = (Ok ls, db\<lparr>stateinfo_cache := c\<rparr>)
           \<and> diffs_inv (db\<lparr>stateinfo_cache := c\<rparr>)"
  using assms(2,3,1)
proof (induction arbitrary: fuel rule: chain.induct)
  case (root h d)
  then obtain f where f: "fuel = Suc f" by (cases fuel) auto
  have ch: "chain db h [(h, added d, added d, removed d)]" using root(1,2) by (rule chain.root)
  show ?case
  proof (cases "stateinfo_cache db h")
    case None
    then have "load_shortstatehash_info fuel ev h db =
        (Ok [(h, added d, added d, removed d)], db\<lparr>stateinfo_cache := lru_insert ev h
           [(h, added d, added d, removed d)] (stateinfo_cache db)\<rparr>)"
      using root(1,2) f by (simp add: Let_def)
    then show ?thesis using diffs_inv_cache [OF root.prems(2) ch, of ev] by blast
  next
    case (Some ls)
    then have "ls = [(h, added d, added d, removed d)]"
      using root.prems(2) chain_det [OF _ ch] by (auto simp: diffs_inv_def)
    then show ?thesis using Some f root.prems by (intro exI [of _ "stateinfo_cache db"]) simp
  qed
next
  case (layer h d p ls)
  let ?ls = "ls @ [(h, top_state ls |\<union>| added d |-| removed d, added d, removed d)]"
  obtain f where f: "fuel = Suc f" "length ls \<le> f" using layer.prems by (cases fuel) auto
  have ch: "chain db h ?ls" using layer(1-3) by (rule chain.layer)
  show ?case
  proof (cases "stateinfo_cache db h")
    case None
    obtain c where c: "load_shortstatehash_info f ev p db = (Ok ls, db\<lparr>stateinfo_cache := c\<rparr>)"
      "diffs_inv (db\<lparr>stateinfo_cache := c\<rparr>)" using layer.IH [OF f(2) layer.prems(2)] by auto
    have "chain (db\<lparr>stateinfo_cache := c\<rparr>) h ?ls" using ch chain_cong [of "db\<lparr>stateinfo_cache := c\<rparr>" db] by simp
    from diffs_inv_cache [OF c(2) this, of ev]
    have "diffs_inv (db\<lparr>stateinfo_cache := lru_insert ev h ?ls c\<rparr>)" by simp
    moreover have "load_shortstatehash_info fuel ev h db =
        (Ok ?ls, db\<lparr>stateinfo_cache := lru_insert ev h ?ls c\<rparr>)"
      using None f layer(1,2) c(1) chain_last [OF layer(3)] by (simp add: Let_def top_state_def)
    ultimately show ?thesis by blast
  next
    case (Some ls')
    then have "ls' = ?ls" using layer.prems(2) chain_det [OF _ ch] by (auto simp: diffs_inv_def)
    then show ?thesis using Some f layer.prems by (intro exI [of _ "stateinfo_cache db"]) simp
  qed
qed

lemma save_state_from_diff_ok:
  fixes k :: nat
  assumes ord: "iteration_order elems" and inv: "diffs_inv db"
    and h: "h \<noteq> 0" "h \<le> count_of db" "\<not> stored h db"
    and ps: "exact {||} ps" "ps = [] \<or> chain db (fst (last ps)) ps"
    and N: "N |\<inter>| top_state ps = {||}" "D |\<subseteq>| top_state ps" "\<forall>e |\<in>| N. compressed e"
  defines "db' \<equiv> save_state_from_diff elems h N D k ps db"
  shows "diffs_inv db'" "state_is db' h (top_state ps |\<union>| N |-| D)"
    "\<And>h' ls. chain db h' ls \<Longrightarrow> chain db' h' ls"
    "\<exists>t. db' = db\<lparr>shortstatehash_statediff := t\<rparr>"
proof -
  obtain d qs where d: "db' = save_statediff elems h d db" and q: "length qs \<le> 3"
      "case parent d of None \<Rightarrow> qs = [] | Some p \<Rightarrow> p \<noteq> 0 \<and> chain db p qs"
    and ex: "exact {||} (qs @ [(h, top_state ps |\<union>| N |-| D, added d, removed d)])"
    using save_state_from_diff_writes [OF ord h(1) ps(1) _ N, where db = db and k = k] ps(2)
    unfolding db'_def by blast
  have wf: "kv_wf (shortstatehash_statediff db)" using inv by (simp add: diffs_inv_def)
  have ex': "exact {||} qs" "removed d |\<subseteq>| top_state qs" "\<forall>e |\<in>| added d. compressed e"
    "top_state ps |\<union>| N |-| D = top_state qs |\<union>| added d |-| removed d"
    using ex unfolding exact_snoc_top by auto
  have "\<forall>e |\<in>| removed d. length e = 16"
    using ex'(1,2) exact_compressed [OF ex'(1)] by (auto simp: compressed_def)
  then have get: "get_statediff h db' = Ok d"
    unfolding d using ord wf ex'(3) q(2) by (intro get_save_statediff) (auto split: option.splits)
  have fresh: "get_statediff h db \<noteq> Ok d'" for d'
    using h(3) by (auto simp: stored_def get_statediff_def)
  have mono: "get_statediff h' db' = Ok d'" if "get_statediff h' db = Ok d'" for h' d'
    using that fresh get_save_statediff_other [OF wf, of h' h elems d] by (cases "h' = h") (auto simp: d)
  show keep: "chain db' h' ls" if "chain db h' ls" for h' ls using that mono by (rule chain_mono)
  have q': "case parent d of None \<Rightarrow> qs = [] | Some p \<Rightarrow> chain db' p qs"
    using q(2) keep by (auto split: option.splits)
  let ?ls = "qs @ [(h, top_state qs |\<union>| added d |-| removed d, added d, removed d)]"
  have ch: "chain db' h ?ls" by (rule chain_extend [OF get q' ex'(2)])
  then show "state_is db' h (top_state ps |\<union>| N |-| D)" by (auto simp: state_is_def ex'(4))
  show "\<exists>t. db' = db\<lparr>shortstatehash_statediff := t\<rparr>" by (auto simp: d save_statediff_def)
  have "stored h' db' \<Longrightarrow> h' = h \<or> stored h' db" for h'
    using wf by (auto simp: stored_def d save_statediff_def kv_get_insert split: if_splits)
  moreover have "kv_wf (shortstatehash_statediff db')" using wf by (simp add: d save_statediff_def kv_intros)
  moreover have "stateinfo_cache db' = stateinfo_cache db" "count_of db' = count_of db"
    by (simp_all add: d save_statediff_def count_of_def)
  moreover have "exact {||} ?ls" "length ?ls \<le> 4" using ex q(1) by (auto simp: ex'(4))
  ultimately show "diffs_inv db'"
    using inv keep ch h(2) unfolding diffs_inv_def by metis
qed

section \<open>Saving the state of a room\<close>

lemma join_sep_inj:
  assumes "\<forall>k \<in> set ks. length k = n" "\<forall>k \<in> set ks'. length k = n" "0 < n"
    "join_sep ks = join_sep ks'"
  shows "ks = ks'"
  using assms
proof (induction ks arbitrary: ks')
  case Nil
  then show ?case by (cases ks' rule: join_sep.cases) auto
next
  case (Cons k ks)
  show ?case
  proof (cases ks')
    case (Cons k' qs)
    have len: "length k = length k'" using Cons.prems Cons by simp
    show ?thesis
    proof (cases "ks = [] \<or> qs = []")
      case True
      then show ?thesis
        using Cons.prems(4) arg_cong [OF Cons.prems(4), of length] len Cons
        by (cases ks; cases qs) auto
    next
      case False
      then have "k @ sep # join_sep ks = k' @ sep # join_sep qs"
        using Cons.prems(4) by (simp add: Cons join_sep_Cons)
      then have "k = k'" "join_sep ks = join_sep qs" using len by auto
      then show ?thesis using Cons.IH [of qs] Cons.prems by (simp add: Cons)
    qed
  qed (use Cons.prems in \<open>cases ks; auto simp: join_sep_Cons\<close>)
qed

lemma state_update_simps [simp]:
  "short_inv R (db\<lparr>roomid_shortstatehash := t\<rparr>) = short_inv R db"
  "short_inv R (db\<lparr>shorteventid_shortstatehash := t\<rparr>) = short_inv R db"
  "short_inv R (db\<lparr>roomid_pduleaves := t\<rparr>) = short_inv R db"
  "short_inv R (db\<lparr>shortstatehash_statediff := t\<rparr>) = short_inv R db"
  "short_inv R (db\<lparr>stateinfo_cache := c\<rparr>) = short_inv R db"
  by (simp_all add: short_inv_def globals_wf_def count_of_def)

lemma state_inv_diffs: "state_inv_but P R sha256 db \<Longrightarrow> diffs_inv db"
  by (simp add: state_inv_but_def)

lemma state_inv_short: "state_inv_but P R sha256 db \<Longrightarrow> short_inv R db"
  by (simp add: state_inv_but_def)

lemma state_inv_cache:
  assumes "state_inv_but P R sha256 db" "diffs_inv (db\<lparr>stateinfo_cache := c\<rparr>)"
  shows "state_inv_but P R sha256 (db\<lparr>stateinfo_cache := c\<rparr>)"
proof -
  have "chain (db\<lparr>stateinfo_cache := c\<rparr>) = chain db" by (intro ext chain_cong) simp
  then show ?thesis using assms by (simp add: state_inv_but_def stored_def)
qed

lemma get_room_shortstatehash_ok:
  assumes "state_inv_but P R sha256 db"
  shows "\<exists>p. get_room_shortstatehash room db = Ok p \<and> (\<forall>n. p = Some n \<longrightarrow> (\<exists>ls. chain db n ls))"
proof (cases "kv_get (roomid_shortstatehash db) room")
  case (Some bs)
  then obtain n where "bs = to_be_bytes n" "stored n db" using assms unfolding state_inv_but_def by blast
  moreover have "diffs_inv db" using assms by (rule state_inv_diffs)
  ultimately show ?thesis using Some unfolding diffs_inv_def by (auto simp: get_room_shortstatehash_def)
qed (simp add: get_room_shortstatehash_def)

lemma load_parents_ok:
  assumes inv: "state_inv_but P R sha256 db" and fuel: "4 \<le> fuel"
    and p: "\<forall>n. p = Some n \<longrightarrow> (\<exists>ls. chain db n ls)"
  shows "\<exists>ps c. load_parents fuel ev p db = (Ok ps, db\<lparr>stateinfo_cache := c\<rparr>)
           \<and> state_inv_but P R sha256 (db\<lparr>stateinfo_cache := c\<rparr>) \<and> exact {||} ps
           \<and> (case p of None \<Rightarrow> ps = [] | Some n \<Rightarrow> chain db n ps)"
proof (cases p)
  case None
  then show ?thesis using inv
    by (intro exI [of _ "[]"] exI [of _ "stateinfo_cache db"]) (simp add: load_parents_def)
next
  case (Some n)
  then obtain ls where ls: "chain db n ls" using p by blast
  have dinv: "diffs_inv db" using inv by (rule state_inv_diffs)
  have "length ls \<le> fuel" using stored_chain(2) [OF dinv ls] fuel by simp
  then obtain c where c: "load_shortstatehash_info fuel ev n db = (Ok ls, db\<lparr>stateinfo_cache := c\<rparr>)"
    "diffs_inv (db\<lparr>stateinfo_cache := c\<rparr>)" using load_shortstatehash_info_ok [OF dinv ls] by blast
  then show ?thesis
    using Some ls state_inv_cache [OF inv c(2)] stored_chain(1) [OF dinv ls]
    by (intro exI [of _ ls] exI [of _ c]) (simp add: load_parents_def)
qed

lemma hash_state_ok:
  assumes inv: "state_inv R sha256 db" and b: "budget db (Suc m)" and inj: "inj sha256"
    and ord: "iteration_order elems" and S: "\<forall>e |\<in>| S. compressed e"
  shows "\<exists>n ex db'. get_or_create_shortstatehash (calculate_hash sha256 (elems S)) db = (Ok (n, ex), db')
     \<and> (ex \<longrightarrow> db' = db \<and> state_is db n S)
     \<and> (\<not> ex \<longrightarrow> state_inv_but {n} R sha256 db' \<and> n \<noteq> 0 \<and> n \<le> count_of db' \<and> \<not> stored n db' \<and> budget db' m
          \<and> kv_get (statehash_shortstatehash db') (calculate_hash sha256 (elems S)) = Some (to_be_bytes n)
          \<and> shortstatehash_statediff db' = shortstatehash_statediff db
          \<and> roomid_shortstatehash db' = roomid_shortstatehash db)"
proof -
  let ?h = "calculate_hash sha256 (elems S)"
  have sinv: "short_inv R db" using inv by (rule state_inv_short)
  have len: "\<forall>k \<in> set (elems S). length k = 16" using S ord by (auto simp: elems_set compressed_def)
  obtain n db' where g: "get_or_create_shortstatehash ?h db =
      (Ok (n, kv_get (statehash_shortstatehash db) ?h \<noteq> None), db')" "short_inv R db'" "budget db' m"
    "short_ext db db'" "kv_get (statehash_shortstatehash db') ?h = Some (to_be_bytes n)"
    "kv_get (statehash_shortstatehash db) ?h \<noteq> None \<longrightarrow> db' = db"
    "kv_get (statehash_shortstatehash db) ?h = None \<longrightarrow> n = count_of db + 1"
    using get_or_create_shortstatehash_ok [OF sinv b, of ?h] by (elim exE conjE) (rule that; assumption)
  show ?thesis
  proof (cases "kv_get (statehash_shortstatehash db) ?h")
    case (Some bs)
    then have "kv_get (statehash_shortstatehash db) ?h = Some (to_be_bytes n)" using g(5,6) by simp
    then obtain ks ls where k: "?h = sha256 (join_sep ks)" "\<forall>k \<in> set ks. length k = 16"
        "chain db n ls" "top_state ls = fset_of_list ks"
      using inv unfolding state_inv_but_def by blast
    then have "join_sep (elems S) = join_sep ks" using inj by (simp add: calculate_hash_def inj_eq)
    then have "elems S = ks" using join_sep_inj [OF len k(2)] by simp
    then have "state_is db n S" using k ord by (auto simp: state_is_def elems_fset)
    then show ?thesis using g Some by auto
  next
    case None
    have new: "db' = (snd (next_count db))\<lparr>statehash_shortstatehash :=
        kv_insert (statehash_shortstatehash db) ?h (to_be_bytes n)\<rparr>" "n = count_of db + 1"
      using g(1) g(7) None unfolding get_or_create_shortstatehash_def
      by (auto simp: next_count_eq)
    have wf: "kv_wf (global db)" "kv_wf (statehash_shortstatehash db)" using sinv by (auto simp: short_inv_wf)
    have c: "count_of db' = n" by (simp add: new count_of_next wf)
    have room: "unat (count_of db) + 1 < 2 ^ 64" using b by (simp add: budget_def)
    have lt: "count_of db < n" using less_Suc_u64 [OF room] new(2) by simp
    have tabs: "shortstatehash_statediff db' = shortstatehash_statediff db"
      "roomid_shortstatehash db' = roomid_shortstatehash db"
      "shorteventid_shortstatehash db' = shorteventid_shortstatehash db"
      "roomid_pduleaves db' = roomid_pduleaves db" "stateinfo_cache db' = stateinfo_cache db"
      by (simp_all add: new next_count_eq)
    have sh: "statehash_shortstatehash db' =
        kv_insert (statehash_shortstatehash db) ?h (to_be_bytes n)" by (simp add: new)
    have ch: "chain db' = chain db" by (intro ext chain_cong tabs)
    have st: "stored h db' = stored h db" for h by (simp add: stored_def tabs)
    have d: "diffs_inv db" using inv by (rule state_inv_diffs)
    have "diffs_inv db'"
      using d lt unfolding diffs_inv_def ch st tabs c by (meson less_imp_le order_trans)
    then have "state_inv_but {n} R sha256 db'"
      using inv g(2) unfolding state_inv_but_def ch st tabs sh kv_get_insert [OF wf(2)]
      by (auto split: if_splits)
    moreover have "\<not> stored n db'"
    proof
      assume "stored n db'"
      then have "n \<le> count_of db" using d unfolding st diffs_inv_def by blast
      then show False using lt by simp
    qed
    moreover have "get_or_create_shortstatehash ?h db = (Ok (n, False), db')" using g(1) None by simp
    moreover have "n \<noteq> 0" using lt by auto
    ultimately show ?thesis using g(3,5) c tabs(1,2)
      by (intro exI [of _ n] exI [of _ False] exI [of _ db']) simp
  qed
qed

text \<open>Once the pending state is stored, the invariant is whole again.\<close>

lemma store_pending:
  assumes inv: "state_inv_but {n} R sha256 db"
    and h: "kv_get (statehash_shortstatehash db) (calculate_hash sha256 (elems S)) = Some (to_be_bytes n)"
    and ord: "iteration_order elems" and S: "\<forall>e |\<in>| S. compressed e"
    and d: "diffs_inv db'" "state_is db' n S" "\<And>h' ls. chain db h' ls \<Longrightarrow> chain db' h' ls"
    and t: "db' = db\<lparr>shortstatehash_statediff := t\<rparr>"
  shows "state_inv R sha256 db'"
proof -
  have len: "\<forall>k \<in> set (elems S). length k = 16" using S ord by (auto simp: elems_set compressed_def)
  have iss: "issued (statehash_shortstatehash db) (count_of db)"
    using inv by (simp add: state_inv_but_def short_inv_def)
  have pend: "bs = calculate_hash sha256 (elems S)"
    if "kv_get (statehash_shortstatehash db) bs = Some (to_be_bytes n)" for bs
    using iss h that unfolding issued_def by blast
  have st: "stored k db'" if s: "stored k db" for k
  proof -
    obtain ls where "chain db k ls" using s state_inv_diffs [OF inv] unfolding diffs_inv_def by blast
    then show ?thesis using d(3) stored_chain(3) [OF d(1)] by blast
  qed
  obtain ls where ls: "chain db' n ls" "top_state ls = S" using d(2) by (auto simp: state_is_def)
  have "\<exists>ks ls. bs = sha256 (join_sep ks) \<and> (\<forall>k \<in> set ks. length k = 16)
      \<and> chain db' k ls \<and> top_state ls = fset_of_list ks"
    if a: "kv_get (statehash_shortstatehash db') bs = Some (to_be_bytes k)" for bs k
  proof (cases "k = n")
    case True
    then have "bs = sha256 (join_sep (elems S))" using pend a by (simp add: t calculate_hash_def)
    then show ?thesis using ls len ord True by (intro exI [of _ "elems S"] exI [of _ ls]) (simp add: elems_fset)
  next
    case False
    have "kv_get (statehash_shortstatehash db) bs = Some (to_be_bytes k)" using a by (simp add: t)
    then show ?thesis using inv d(3) False unfolding state_inv_but_def by blast
  qed
  moreover have "short_inv R db'" "roomid_shortstatehash db' = roomid_shortstatehash db"
    "shorteventid_shortstatehash db' = shorteventid_shortstatehash db"
    "roomid_pduleaves db' = roomid_pduleaves db" using inv by (simp_all add: t state_inv_but_def)
  moreover have "\<exists>n. bs = to_be_bytes n \<and> stored n db'"
    if "kv_get (roomid_shortstatehash db) room = Some bs" for room bs
    using inv st that unfolding state_inv_but_def by blast
  ultimately show ?thesis using inv d(1) unfolding state_inv_but_def by auto
qed

text \<open>The diff to the parent is exact.\<close>

lemma diff_to_parent_exact:
  assumes "\<forall>e |\<in>| S. compressed e" "diff_to_parent S ps = (N, D)"
  shows "N |\<inter>| top_state ps = {||}" "D |\<subseteq>| top_state ps" "\<forall>e |\<in>| N. compressed e"
    "top_state ps |\<union>| N |-| D = S" "N = S |-| top_state ps" "D = top_state ps |-| S"
  using assms by (auto simp: diff_to_parent_def top_state_def Let_def split: if_splits)

lemma save_state_ok:
  assumes inv: "state_inv R sha256 db" and b: "budget db (Suc m)" and inj: "inj sha256"
    and ord: "iteration_order elems" and S: "\<forall>e |\<in>| S. compressed e" and fuel: "4 \<le> fuel"
  shows "\<exists>n N D db' p. save_state sha256 elems fuel ev room S db = (Ok (n, N, D), db')
     \<and> get_room_shortstatehash room db = Ok p
     \<and> state_inv R sha256 db' \<and> state_is db' n S
     \<and> (case p of None \<Rightarrow> N = S \<and> D = {||}
         | Some q \<Rightarrow> (\<exists>P. state_is db q P \<and> N = S |-| P \<and> D = P |-| S))
     \<and> (\<forall>k T. state_is db k T \<longrightarrow> state_is db' k T)"
proof -
  obtain p where p: "get_room_shortstatehash room db = Ok p" "\<forall>n. p = Some n \<longrightarrow> (\<exists>ls. chain db n ls)"
    using get_room_shortstatehash_ok [OF inv] by blast
  obtain n ex db1 where h: "get_or_create_shortstatehash (calculate_hash sha256 (elems S)) db = (Ok (n, ex), db1)"
    and old: "ex \<Longrightarrow> db1 = db \<and> state_is db n S"
    and new: "\<not> ex \<Longrightarrow> state_inv_but {n} R sha256 db1 \<and> n \<noteq> 0 \<and> n \<le> count_of db1 \<and> \<not> stored n db1
        \<and> kv_get (statehash_shortstatehash db1) (calculate_hash sha256 (elems S)) = Some (to_be_bytes n)
        \<and> shortstatehash_statediff db1 = shortstatehash_statediff db"
    using hash_state_ok [OF inv b inj ord S] by blast
  have ch1: "chain db1 k ls = chain db k ls" for k ls
    using old new chain_cong by (cases ex) auto
  have inv1: "state_inv_but (if ex then {} else {n}) R sha256 db1" using inv old new by (cases ex) auto
  show ?thesis
  proof (cases "p = Some n")
    case True
    have ex
    proof (rule ccontr)
      assume "\<not> ex"
      moreover obtain ls where "chain db1 n ls" using p(2) True ch1 by blast
      ultimately show False using new stored_chain(3) [OF state_inv_diffs [OF inv1]] by blast
    qed
    then have "db1 = db" "state_is db n S" using old by auto
    then show ?thesis using True h p(1) inv
      by (intro exI [of _ n] exI [of _ "{||}"] exI [of _ "{||}"] exI [of _ db] exI [of _ p])
         (auto simp: save_state_def)
  next
    case False
    obtain ps c where l: "load_parents fuel ev p db1 = (Ok ps, db1\<lparr>stateinfo_cache := c\<rparr>)"
      "state_inv_but (if ex then {} else {n}) R sha256 (db1\<lparr>stateinfo_cache := c\<rparr>)" "exact {||} ps"
      "case p of None \<Rightarrow> ps = [] | Some q \<Rightarrow> chain db1 q ps"
      using load_parents_ok [OF inv1 fuel, of p ev] p(2) ch1 by auto
    let ?db2 = "db1\<lparr>stateinfo_cache := c\<rparr>"
    have ch2: "chain ?db2 k ls = chain db k ls" for k ls
      using ch1 chain_cong [of ?db2 db1] by simp
    obtain N D where nd: "diff_to_parent S ps = (N, D)" by (cases "diff_to_parent S ps")
    note exact = diff_to_parent_exact [OF S nd]
    let ?db3 = "if \<not> ex then save_state_from_diff elems n N D 2 ps ?db2 else ?db2"
    have run: "save_state sha256 elems fuel ev room S db = (Ok (n, N, D), ?db3)"
      using False h p(1) l(1) nd by (auto simp: save_state_def)
    have "state_inv R sha256 ?db3 \<and> state_is ?db3 n S \<and> (\<forall>k T. state_is db k T \<longrightarrow> state_is ?db3 k T)"
    proof (cases ex)
      case True
      then show ?thesis using l(2) old ch2 by (auto simp: state_is_def)
    next
      case False
      have st: "\<not> stored n ?db2" "n \<noteq> 0" "n \<le> count_of ?db2"
        using new [OF False] by (auto simp: stored_def count_of_def)
      have chps: "ps = [] \<or> chain ?db2 (fst (last ps)) ps"
        using l(4) ch2 ch1 chain_last by (fastforce split: option.splits)
      note sv = save_state_from_diff_ok [OF ord state_inv_diffs [OF l(2)] st(2,3,1) l(3) chps exact(1-3), where k = 2]
      obtain t where t: "save_state_from_diff elems n N D 2 ps ?db2 = ?db2\<lparr>shortstatehash_statediff := t\<rparr>"
        using sv(4) by blast
      have "state_inv R sha256 (save_state_from_diff elems n N D 2 ps ?db2)"
        by (rule store_pending [OF _ _ ord S sv(1) _ sv(3) t])
           (use l(2) False new sv(2) exact(4) in auto)
      then show ?thesis using False sv(2,3) exact(4) ch2 by (auto simp: state_is_def)
    qed
    moreover have "case p of None \<Rightarrow> N = S \<and> D = {||}
         | Some q \<Rightarrow> (\<exists>P. state_is db q P \<and> N = S |-| P \<and> D = P |-| S)"
      using l(4) exact(5,6) ch1 by (auto simp: state_is_def split: option.splits)
    ultimately show ?thesis using run p(1) by blast
  qed
qed

section \<open>Properties\<close>

definition empty_state_db :: state_db where
  "empty_state_db = short_db.extend empty_short_db
     \<lparr>roomid_shortstatehash = [], shorteventid_shortstatehash = [], roomid_pduleaves = [],
      shortstatehash_statediff = [], stateinfo_cache = Map.empty\<rparr>"

lemma sorted_iteration: "iteration_order (sorted_list_of_fset :: bytes fset \<Rightarrow> bytes list)"
  by (simp add: iteration_order_def fset_eq_iff fset_of_list.rep_eq sorted_list_of_fset.rep_eq)

lemma empty_state_inv: "state_inv R sha256 empty_state_db" "count_of empty_state_db = 0"
  "get_room_shortstatehash room empty_state_db = Ok None"
  by (simp_all add: state_inv_but_def diffs_inv_def stored_def empty_state_db_def short_db.defs short_inv_def
      intern_inv_def empty_short_db_def globals_wf_def count_of_def get_room_shortstatehash_def)

definition entry :: "u64 \<Rightarrow> u64 \<Rightarrow> bytes" where
  "entry k n = to_be_bytes k @ to_be_bytes n"

lemma length_entry: "length (entry k n) = 16"
  by (simp add: entry_def)

lemma entry_compressed: "k \<noteq> 0 \<Longrightarrow> compressed (entry k n)"
  by (auto simp: entry_def compressed_def prefix_def append_eq_append_conv)

text \<open>
  A state diff that is saved is read back as it was: parent, added and removed entries, in
  whatever order the hash sets are iterated.
\<close>

theorem statediff_round_trip:
  assumes "iteration_order elems" "kv_wf (shortstatehash_statediff db)" "parent d \<noteq> Some 0"
    and "\<forall>e |\<in>| added d. compressed e" "\<forall>e |\<in>| removed d. length e = 16"
  shows "get_statediff h (save_statediff elems h d db) = Ok d"
  using assms by (rule get_save_statediff)

theorem statediff_round_trip_witness:
  "get_statediff 5 (save_statediff sorted_list_of_fset 5
     \<lparr>parent = Some 3, added = {|entry 1 2, entry 4 5|}, removed = {|entry 1 1|}\<rparr> empty_state_db)
   = Ok \<lparr>parent = Some 3, added = {|entry 1 2, entry 4 5|}, removed = {|entry 1 1|}\<rparr>"
  by (rule statediff_round_trip [OF sorted_iteration])
    (simp_all add: empty_state_db_def short_db.defs entry_compressed length_entry)

text \<open>
  C16: following the stored layers always ends: with a stack of four frames, every stored state is
  loaded, with or without cached stacks, and the answer is the stack its diffs define.
\<close>

theorem load_shortstatehash_info_terminates:
  assumes "diffs_inv db" "stored h db" "4 \<le> fuel"
  shows "\<exists>ls db'. load_shortstatehash_info fuel ev h db = (Ok ls, db') \<and> chain db h ls
    \<and> length ls \<le> 4 \<and> exact {||} ls \<and> diffs_inv db'"
proof -
  obtain ls where ls: "chain db h ls" "exact {||} ls" "length ls \<le> 4"
    using assms(1,2) unfolding diffs_inv_def by blast
  then have "length ls \<le> fuel" using assms(3) by simp
  then show ?thesis using load_shortstatehash_info_ok [OF assms(1) ls(1)] ls by blast
qed

text \<open>A state with one entry, saved in an otherwise empty database.\<close>

definition one_state_db :: state_db where
  "one_state_db = save_state_from_diff sorted_list_of_fset 1 {|entry 1 2|} {||} 2 []
     (snd (next_count empty_state_db))"

lemma one_state_inv: "diffs_inv one_state_db" "state_is one_state_db 1 {|entry 1 2|}"
proof -
  let ?db = "snd (next_count empty_state_db)"
  have g: "kv_wf (global empty_state_db)" by (simp add: empty_state_db_def short_db.defs empty_short_db_def)
  have c: "count_of ?db = 1" using count_of_next [OF g] empty_state_inv(2) by simp
  have e: "shortstatehash_statediff ?db = []" "stateinfo_cache ?db = Map.empty"
    by (simp_all add: next_count_eq empty_state_db_def short_db.defs)
  have d: "diffs_inv ?db" by (simp add: diffs_inv_def e stored_def)
  note sv = save_state_from_diff_ok [OF sorted_iteration d, of 1 "[]" "{|entry 1 2|}" "{||}", where k = 2]
  show "diffs_inv one_state_db" "state_is one_state_db 1 {|entry 1 2|}"
    using sv(1,2) entry_compressed c by (simp_all add: one_state_db_def stored_def e)
qed

theorem load_shortstatehash_info_terminates_witness:
  "\<exists>ls db'. load_shortstatehash_info 4 (\<lambda>_ _. {}) 1 one_state_db = (Ok ls, db')"
proof -
  have "stored 1 one_state_db" using one_state_inv stored_chain(3) by (auto simp: state_is_def)
  then show ?thesis using load_shortstatehash_info_terminates [OF one_state_inv(1)] by blast
qed

text \<open>
  C22: saving a diff on top of a stack of layers, however the layers are merged, stores exactly the
  state parent plus added minus removed, keeps every state stored before, and never builds a stack
  of more than four layers.
\<close>

theorem save_state_from_diff_correct:
  assumes "iteration_order elems" "diffs_inv db" "h \<noteq> 0" "h \<le> count_of db" "\<not> stored h db"
    and "exact {||} ps" "ps = [] \<or> chain db (fst (last ps)) ps"
    and "N |\<inter>| top_state ps = {||}" "D |\<subseteq>| top_state ps" "\<forall>e |\<in>| N. compressed e"
  shows "diffs_inv (save_state_from_diff elems h N D k ps db)
    \<and> state_is (save_state_from_diff elems h N D k ps db) h (top_state ps |\<union>| N |-| D)
    \<and> (\<forall>h' S. state_is db h' S \<longrightarrow> state_is (save_state_from_diff elems h N D k ps db) h' S)"
proof -
  note sv = save_state_from_diff_ok [OF assms, where k = k]
  show ?thesis using sv(1,2) sv(3) unfolding state_is_def by blast
qed

theorem save_state_from_diff_correct_witness:
  "state_is (save_state_from_diff sorted_list_of_fset 1 {|entry 1 2|} {||} 2 []
     (snd (next_count empty_state_db))) 1 {|entry 1 2|}"
proof -
  let ?db = "snd (next_count empty_state_db)"
  have g: "kv_wf (global empty_state_db)" by (simp add: empty_state_db_def short_db.defs empty_short_db_def)
  have c: "count_of ?db = 1" using count_of_next [OF g] empty_state_inv(2) by simp
  have e: "shortstatehash_statediff ?db = []" "stateinfo_cache ?db = Map.empty"
    by (simp_all add: next_count_eq empty_state_db_def short_db.defs)
  have d: "diffs_inv ?db" by (simp add: diffs_inv_def e stored_def)
  show ?thesis
    using save_state_from_diff_correct [OF sorted_iteration d, of 1 "[]" "{|entry 1 2|}" "{||}", where k = 2]
      entry_compressed c by (simp add: stored_def e)
qed

text \<open>
  C1: saving the state of a room gives a number that stands for exactly that state, reports exactly
  the difference from the room's previous state, and loses no state stored before. SHA-256 is
  idealised as injective.
\<close>

theorem save_state_correct:
  assumes "state_inv R sha256 db" "budget db 1" "inj sha256" "iteration_order elems"
    and "\<forall>e |\<in>| S. compressed e" "4 \<le> fuel"
  shows "\<exists>n N D db' p. save_state sha256 elems fuel ev room S db = (Ok (n, N, D), db')
     \<and> get_room_shortstatehash room db = Ok p
     \<and> state_inv R sha256 db' \<and> state_is db' n S
     \<and> (case p of None \<Rightarrow> N = S \<and> D = {||}
         | Some q \<Rightarrow> (\<exists>P. state_is db q P \<and> N = S |-| P \<and> D = P |-| S))
     \<and> (\<forall>k T. state_is db k T \<longrightarrow> state_is db' k T)"
  by (rule save_state_ok) (use assms in auto)

theorem save_state_correct_witness:
  "\<exists>n N D db'. save_state id sorted_list_of_fset 4 (\<lambda>_ _. {}) [33, 97] {|entry 1 2|} empty_state_db
     = (Ok (n, N, D), db') \<and> state_is db' n {|entry 1 2|}"
proof -
  have b: "budget empty_state_db 1" by (simp add: budget_def empty_state_inv)
  show ?thesis
    using save_state_correct [OF empty_state_inv(1) [of accept_all] b, of id sorted_list_of_fset "{|entry 1 2|}" 4
        "\<lambda>_ _. {}" "[33, 97]"] sorted_iteration entry_compressed [of 1 2] by auto
qed

end
