(* ===== verification/Timeline.thy ===== *)
theory Timeline
  imports StateCompressor
begin

text \<open>
  The timeline of a room: \<open>PduEvent\<close> (\<^verbatim>\<open>server/src/service/pdu.rs\<close>), \<open>PduCount\<close>
  (\<^verbatim>\<open>server/src/service/rooms/timeline/mod.rs\<close>), the stored events
  (\<^verbatim>\<open>server/src/database/key_value/rooms/timeline.rs\<close>) and the outliers
  (\<^verbatim>\<open>key_value/rooms/outlier.rs\<close>). The JSON forms of events are a parameter.
\<close>

section \<open>Events\<close>

record pdu =
  pdu_event_id :: str
  pdu_room_id_field :: "str option"
  pdu_sender :: str
  pdu_kind :: str
  pdu_content :: bytes
  pdu_state_key :: "str option"
  pdu_prev_events :: "str list"
  pdu_auth_events :: "str list"
  pdu_redacts :: "str option"
  pdu_unsigned_field :: "bytes option"

text \<open>
  \<open>serde_json\<close> at the types the code uses: a \<open>PduEvent\<close>, a canonical JSON object \<open>'j\<close>, optional
  values of both (which also accept \<open>null\<close>), and the dictionary in the \<open>unsigned\<close> field.
\<close>

record 'j pdu_codec =
  pdu_dec :: "bytes \<Rightarrow> pdu option"
  json_dec :: "bytes \<Rightarrow> 'j option"
  pdu_opt_dec :: "bytes \<Rightarrow> pdu option option"
  json_opt_dec :: "bytes \<Rightarrow> 'j option option"
  json_enc :: "'j \<Rightarrow> bytes"
  unsigned_dec :: "bytes \<Rightarrow> (str \<rightharpoonup> bytes) option"
  unsigned_enc :: "(str \<rightharpoonup> bytes) \<Rightarrow> bytes"

definition pdu_room_id :: "ruma \<Rightarrow> pdu \<Rightarrow> str result" where
  "pdu_room_id R pdu =
     (case pdu_room_id_field pdu of
        Some r \<Rightarrow> Ok r
      | None \<Rightarrow> ok_or (Panicked ''Only create events do not have a room id'')
                      (new_room_id_v2 R (pdu_event_id pdu)))"

definition remove_transaction_id :: "'j pdu_codec \<Rightarrow> pdu \<Rightarrow> pdu result" where
  "remove_transaction_id C pdu =
     (case pdu_unsigned_field pdu of
        None \<Rightarrow> Ok pdu
      | Some u \<Rightarrow>
          (case unsigned_dec C u of
             None \<Rightarrow> Err (BadDatabase ''Invalid unsigned in pdu event'')
           | Some d \<Rightarrow> Ok (pdu\<lparr>pdu_unsigned_field :=
                              Some (unsigned_enc C (d(ascii ''transaction_id'' := None)))\<rparr>)))"

definition add_age :: "'j pdu_codec \<Rightarrow> pdu \<Rightarrow> pdu result" where
  "add_age C pdu =
     and_then (case pdu_unsigned_field pdu of
                 None \<Rightarrow> Ok Map.empty
               | Some u \<Rightarrow> ok_or (BadDatabase ''Invalid unsigned in pdu event'') (unsigned_dec C u))
       (\<lambda>d. Ok (pdu\<lparr>pdu_unsigned_field := Some (unsigned_enc C (d(ascii ''age'' \<mapsto> ascii ''1'')))\<rparr>))"

section \<open>Positions\<close>

datatype pdu_count = Backfilled u64 | Normal u64

text \<open>\<open>impl Ord for PduCount\<close>: backfilled events come before all others, newest last.\<close>

datatype ordering = Less | Equal | Greater

definition u64_cmp :: "u64 \<Rightarrow> u64 \<Rightarrow> ordering" where
  "u64_cmp s t = (if s < t then Less else if s = t then Equal else Greater)"

fun pdu_count_cmp :: "pdu_count \<Rightarrow> pdu_count \<Rightarrow> ordering" where
  "pdu_count_cmp (Normal s) (Normal t) = u64_cmp s t"
| "pdu_count_cmp (Backfilled s) (Backfilled t) = u64_cmp t s"
| "pdu_count_cmp (Normal _) (Backfilled _) = Greater"
| "pdu_count_cmp (Backfilled _) (Normal _) = Less"

instantiation pdu_count :: linorder
begin

definition less_eq_pdu_count :: "pdu_count \<Rightarrow> pdu_count \<Rightarrow> bool" where
  "less_eq_pdu_count a b = (pdu_count_cmp a b \<noteq> Greater)"

definition less_pdu_count :: "pdu_count \<Rightarrow> pdu_count \<Rightarrow> bool" where
  "less_pdu_count a b = (pdu_count_cmp a b = Less)"

instance
proof
  fix a b c :: pdu_count
  show "a < b \<longleftrightarrow> a \<le> b \<and> \<not> b \<le> a"
    by (cases a; cases b) (auto simp: less_eq_pdu_count_def less_pdu_count_def u64_cmp_def)
  show "a \<le> a" by (cases a) (auto simp: less_eq_pdu_count_def u64_cmp_def)
  show "a \<le> b \<Longrightarrow> b \<le> c \<Longrightarrow> a \<le> c"
    by (cases a; cases b; cases c) (auto simp: less_eq_pdu_count_def u64_cmp_def split: if_splits)
  show "a \<le> b \<Longrightarrow> b \<le> a \<Longrightarrow> a = b"
    by (cases a; cases b) (auto simp: less_eq_pdu_count_def u64_cmp_def split: if_splits)
  show "a \<le> b \<or> b \<le> a" by (cases a; cases b) (auto simp: less_eq_pdu_count_def u64_cmp_def)
qed

end

lemma pdu_count_le [simp]:
  "Normal s \<le> Normal t \<longleftrightarrow> s \<le> t" "Backfilled s \<le> Backfilled t \<longleftrightarrow> t \<le> s"
  "\<not> Normal s \<le> Backfilled t" "Backfilled s \<le> Normal t"
  by (auto simp: less_eq_pdu_count_def u64_cmp_def)

definition pdu_count_min :: pdu_count where
  "pdu_count_min = Backfilled u64_max"

definition pdu_count_max :: pdu_count where
  "pdu_count_max = Normal u64_max"

definition try_from_string :: "str \<Rightarrow> pdu_count result" where
  "try_from_string token =
     ok_or (BadRequest InvalidParam ''Invalid pagination token.'')
       (case token of
          b # stripped \<Rightarrow> if b = 45 then map_option Backfilled (parse_u64 stripped)
                         else map_option Normal (parse_u64 token)
        | [] \<Rightarrow> map_option Normal (parse_u64 token))"

fun stringify :: "pdu_count \<Rightarrow> str" where
  "stringify (Backfilled x) = 45 # show_u64 x"
| "stringify (Normal x) = show_u64 x"

text \<open>The count in a PDU id: the last eight bytes, after eight zero bytes when backfilled.\<close>

definition pdu_count :: "bytes \<Rightarrow> pdu_count result" where
  "pdu_count pdu_id =
     (let n = length pdu_id in
      if n < 16 then Err (Panicked ''slice index out of range'')
      else
        and_then (ok_or (BadDatabase ''PDU has invalid count bytes.'') (u64_from_bytes (drop (n - 8) pdu_id)))
          (\<lambda>last_u64.
             if u64_from_bytes (take 8 (drop (n - 16) pdu_id)) = Some 0
             then Ok (Backfilled (u64_max - last_u64))
             else Ok (Normal last_u64)))"

section \<open>Storage\<close>

record timeline_db = state_db +
  pduid_pdu :: kvtree
  eventid_pduid :: kvtree
  eventid_outlierpdu :: kvtree
  userroomid_notificationcount :: kvtree
  userroomid_highlightcount :: kvtree
  lasttimelinecount_cache :: "str \<rightharpoonup> pdu_count"
  pdu_cache :: "str \<rightharpoonup> pdu"

definition get_roomuser_id_bytes :: "str \<Rightarrow> str \<Rightarrow> bytes" where
  "get_roomuser_id_bytes room_id user_id = room_id @ [sep] @ user_id"

definition get_userroom_id_bytes :: "str \<Rightarrow> str \<Rightarrow> bytes" where
  "get_userroom_id_bytes user_id room_id = user_id @ [sep] @ room_id"

definition count_to_id ::
  "str \<Rightarrow> pdu_count \<Rightarrow> u64 \<Rightarrow> bool \<Rightarrow> 'a short_db_scheme \<Rightarrow> (bytes \<times> bytes) result" where
  "count_to_id room_id count offset subtract db =
     and_then (get_shortroomid room_id db) (\<lambda>short.
     and_then (ok_or (BadDatabase ''Looked for bad shortroomid in timeline'') short) (\<lambda>short.
       let p = to_be_bytes short in
       (case count of
          Normal x \<Rightarrow>
            Ok (p, p @ to_be_bytes (if subtract then x - offset else x + offset))
        | Backfilled x \<Rightarrow>
            (let num = u64_max - x;
                 count_raw = (if subtract then (if num > 0 then num - offset else num)
                              else num + offset)
             in Ok (p, p @ to_be_bytes 0 @ to_be_bytes count_raw)))))"

definition get_pdu_count :: "str \<Rightarrow> 'a timeline_db_scheme \<Rightarrow> pdu_count option result" where
  "get_pdu_count e db = map_transpose pdu_count (kv_get (eventid_pduid db) e)"

definition get_pdu_id :: "str \<Rightarrow> 'a timeline_db_scheme \<Rightarrow> bytes option" where
  "get_pdu_id e db = kv_get (eventid_pduid db) e"

text \<open>The stored bytes of a non-outlier event, with a decoder.\<close>

definition get_non_outlier ::
  "(bytes \<Rightarrow> 'v option) \<Rightarrow> str \<Rightarrow> 'a timeline_db_scheme \<Rightarrow> 'v option result" where
  "get_non_outlier dec e db =
     and_then (map_transpose
         (\<lambda>pduid. ok_or (BadDatabase ''Invalid pduid in eventid_pduid.'') (kv_get (pduid_pdu db) pduid))
         (kv_get (eventid_pduid db) e))
       (map_transpose (\<lambda>bs. ok_or (BadDatabase ''Invalid PDU in db.'') (dec bs)))"

definition get_non_outlier_pdu_json ::
  "'j pdu_codec \<Rightarrow> str \<Rightarrow> 'a timeline_db_scheme \<Rightarrow> 'j option result" where
  "get_non_outlier_pdu_json C e db = get_non_outlier (json_dec C) e db"

definition get_non_outlier_pdu ::
  "'j pdu_codec \<Rightarrow> str \<Rightarrow> 'a timeline_db_scheme \<Rightarrow> pdu option result" where
  "get_non_outlier_pdu C e db = get_non_outlier (pdu_dec C) e db"

definition get_pdu_json :: "'j pdu_codec \<Rightarrow> str \<Rightarrow> 'a timeline_db_scheme \<Rightarrow> 'j option result" where
  "get_pdu_json C e db =
     and_then (get_non_outlier_pdu_json C e db) (\<lambda>r.
       case r of
         Some x \<Rightarrow> Ok (Some x)
       | None \<Rightarrow> map_transpose (\<lambda>bs. ok_or (BadDatabase ''Invalid PDU in db.'') (json_dec C bs))
                   (kv_get (eventid_outlierpdu db) e))"

definition get_pdu ::
  "'j pdu_codec \<Rightarrow> (str, pdu) evict \<Rightarrow> str \<Rightarrow> 'a timeline_db_scheme
     \<Rightarrow> pdu option result \<times> 'a timeline_db_scheme" where
  "get_pdu C ev e db =
     (case pdu_cache db e of
        Some p \<Rightarrow> (Ok (Some p), db)
      | None \<Rightarrow>
          step_then
            (and_then (get_non_outlier_pdu C e db) (\<lambda>r.
               case r of
                 Some x \<Rightarrow> Ok (Some x)
               | None \<Rightarrow> map_transpose (\<lambda>bs. ok_or (BadDatabase ''Invalid PDU in db.'') (pdu_dec C bs))
                           (kv_get (eventid_outlierpdu db) e)), db)
            (\<lambda>r db. case r of
               Some pdu \<Rightarrow> (Ok (Some pdu), db\<lparr>pdu_cache := lru_insert ev e pdu (pdu_cache db)\<rparr>)
             | None \<Rightarrow> (Ok None, db)))"

definition get_pdu_from_id :: "'j pdu_codec \<Rightarrow> bytes \<Rightarrow> 'a timeline_db_scheme \<Rightarrow> pdu option result" where
  "get_pdu_from_id C pdu_id db =
     (case kv_get (pduid_pdu db) pdu_id of
        None \<Rightarrow> Ok None
      | Some bs \<Rightarrow> and_then (ok_or (BadDatabase ''Invalid PDU in db.'') (pdu_dec C bs)) (\<lambda>p. Ok (Some p)))"

definition get_pdu_json_from_id :: "'j pdu_codec \<Rightarrow> bytes \<Rightarrow> 'a timeline_db_scheme \<Rightarrow> 'j option result" where
  "get_pdu_json_from_id C pdu_id db =
     (case kv_get (pduid_pdu db) pdu_id of
        None \<Rightarrow> Ok None
      | Some bs \<Rightarrow> and_then (ok_or (BadDatabase ''Invalid PDU in db.'') (json_dec C bs)) (\<lambda>p. Ok (Some p)))"

definition append_pdu ::
  "ruma \<Rightarrow> 'j pdu_codec \<Rightarrow> bytes \<Rightarrow> pdu \<Rightarrow> 'j \<Rightarrow> u64 \<Rightarrow> 'a timeline_db_scheme
     \<Rightarrow> unit result \<times> 'a timeline_db_scheme" where
  "append_pdu R C pdu_id pdu json count db =
     (let db = db\<lparr>pduid_pdu := kv_insert (pduid_pdu db) pdu_id (json_enc C json)\<rparr>
      in step_then (pdu_room_id R pdu, db) (\<lambda>room db.
           (Ok (),
            db\<lparr>lasttimelinecount_cache := (lasttimelinecount_cache db)(room \<mapsto> Normal count),
               eventid_pduid := kv_insert (eventid_pduid db) (pdu_event_id pdu) pdu_id,
               eventid_outlierpdu := kv_remove (eventid_outlierpdu db) (pdu_event_id pdu)\<rparr>)))"

definition prepend_backfill_pdu ::
  "'j pdu_codec \<Rightarrow> bytes \<Rightarrow> str \<Rightarrow> 'j \<Rightarrow> 'a timeline_db_scheme \<Rightarrow> 'a timeline_db_scheme" where
  "prepend_backfill_pdu C pdu_id e json db =
     db\<lparr>pduid_pdu := kv_insert (pduid_pdu db) pdu_id (json_enc C json),
        eventid_pduid := kv_insert (eventid_pduid db) e pdu_id,
        eventid_outlierpdu := kv_remove (eventid_outlierpdu db) e\<rparr>"

definition replace_pdu ::
  "'j pdu_codec \<Rightarrow> bytes \<Rightarrow> 'j \<Rightarrow> pdu \<Rightarrow> 'a timeline_db_scheme
     \<Rightarrow> unit result \<times> 'a timeline_db_scheme" where
  "replace_pdu C pdu_id pdu_json pdu db =
     (if kv_get (pduid_pdu db) pdu_id \<noteq> None then
        (Ok (), db\<lparr>pduid_pdu := kv_insert (pduid_pdu db) pdu_id (json_enc C pdu_json),
                   pdu_cache := (pdu_cache db)(pdu_event_id pdu := None)\<rparr>)
      else (Err (BadRequest NotFound ''PDU does not exist.''), db))"

text \<open>What the closure of \<open>pdus_until\<close> and \<open>pdus_after\<close> makes of one row.\<close>

definition deliver_pdu :: "'j pdu_codec \<Rightarrow> str \<Rightarrow> bytes \<times> bytes \<Rightarrow> (pdu_count \<times> pdu) result" where
  "deliver_pdu C user_id = (\<lambda>(pdu_id, v).
     and_then (ok_or (BadDatabase ''PDU in db is invalid.'') (pdu_dec C v)) (\<lambda>pdu.
     and_then (if pdu_sender pdu \<noteq> user_id then remove_transaction_id C pdu else Ok pdu) (\<lambda>pdu.
     and_then (add_age C pdu) (\<lambda>pdu.
     and_then (pdu_count pdu_id) (\<lambda>count. Ok (count, pdu))))))"

definition pdus_until ::
  "'j pdu_codec \<Rightarrow> str \<Rightarrow> str \<Rightarrow> pdu_count \<Rightarrow> 'a timeline_db_scheme
     \<Rightarrow> (pdu_count \<times> pdu) result list result" where
  "pdus_until C user_id room until db =
     and_then (count_to_id room until 1 True db) (\<lambda>(p, current).
       Ok (map (deliver_pdu C user_id)
             (takeWhile (\<lambda>(k, _). starts_with k p) (kv_iter_from (pduid_pdu db) current True))))"

definition pdus_after ::
  "'j pdu_codec \<Rightarrow> str \<Rightarrow> str \<Rightarrow> pdu_count \<Rightarrow> 'a timeline_db_scheme
     \<Rightarrow> (pdu_count \<times> pdu) result list result" where
  "pdus_after C user_id room from_count db =
     and_then (count_to_id room from_count 1 False db) (\<lambda>(p, current).
       Ok (map (deliver_pdu C user_id)
             (takeWhile (\<lambda>(k, _). starts_with k p) (kv_iter_from (pduid_pdu db) current False))))"

definition last_timeline_count ::
  "'j pdu_codec \<Rightarrow> str \<Rightarrow> str \<Rightarrow> 'a timeline_db_scheme
     \<Rightarrow> pdu_count result \<times> 'a timeline_db_scheme" where
  "last_timeline_count C sender_user room db =
     (case lasttimelinecount_cache db room of
        Some c \<Rightarrow> (Ok c, db)
      | None \<Rightarrow>
          step_then (pdus_until C sender_user room pdu_count_max db, db) (\<lambda>rs db.
            case oks rs of
              (c, _) # _ \<Rightarrow> (Ok c, db\<lparr>lasttimelinecount_cache := (lasttimelinecount_cache db)(room \<mapsto> c)\<rparr>)
            | [] \<Rightarrow> (Ok (Normal 0), db)))"

definition increment_notification_counts ::
  "str \<Rightarrow> str list \<Rightarrow> str list \<Rightarrow> 'a timeline_db_scheme \<Rightarrow> 'a timeline_db_scheme" where
  "increment_notification_counts room notifies highlights db =
     db\<lparr>userroomid_notificationcount := kv_increment_batch (userroomid_notificationcount db)
          (map (\<lambda>user. get_userroom_id_bytes user room) notifies),
        userroomid_highlightcount := kv_increment_batch (userroomid_highlightcount db)
          (map (\<lambda>user. get_userroom_id_bytes user room) highlights)\<rparr>"

section \<open>Outliers\<close>

definition get_outlier_pdu_json :: "'j pdu_codec \<Rightarrow> str \<Rightarrow> 'a timeline_db_scheme \<Rightarrow> 'j option result" where
  "get_outlier_pdu_json C e db =
     (case kv_get (eventid_outlierpdu db) e of
        None \<Rightarrow> Ok None
      | Some bs \<Rightarrow> ok_or (BadDatabase ''Invalid PDU in db.'') (json_opt_dec C bs))"

definition get_outlier_pdu :: "'j pdu_codec \<Rightarrow> str \<Rightarrow> 'a timeline_db_scheme \<Rightarrow> pdu option result" where
  "get_outlier_pdu C e db =
     (case kv_get (eventid_outlierpdu db) e of
        None \<Rightarrow> Ok None
      | Some bs \<Rightarrow> ok_or (BadDatabase ''Invalid PDU in db.'') (pdu_opt_dec C bs))"

definition add_pdu_outlier :: "'j pdu_codec \<Rightarrow> str \<Rightarrow> 'j \<Rightarrow> 'a timeline_db_scheme \<Rightarrow> 'a timeline_db_scheme" where
  "add_pdu_outlier C e pdu db =
     db\<lparr>eventid_outlierpdu := kv_insert (eventid_outlierpdu db) e (json_enc C pdu)\<rparr>"

section \<open>Identifiers and their order\<close>

text \<open>The ids that \<open>append_pdu\<close> and \<open>backfill_pdu\<close> of the timeline service build.\<close>

fun pdu_id_of :: "u64 \<Rightarrow> pdu_count \<Rightarrow> bytes" where
  "pdu_id_of shortroomid (Normal count) = to_be_bytes shortroomid @ to_be_bytes count"
| "pdu_id_of shortroomid (Backfilled count) =
     to_be_bytes shortroomid @ to_be_bytes 0 @ to_be_bytes (u64_max - count)"

lemma try_from_string_stringify: "try_from_string (stringify c) = Ok c"
proof (cases c)
  case (Backfilled x)
  then show ?thesis by (simp add: try_from_string_def)
next
  case (Normal x)
  obtain b bs where b: "show_u64 x = b # bs" "in_range 48 57 b" using show_u64_hd by blast
  then have "b \<noteq> 45" by (auto simp: in_range_def)
  then show ?thesis using Normal b(1) parse_show_u64 [of x] by (simp add: try_from_string_def)
qed

lemma pdu_count_pdu_id_of:
  assumes "shortroomid \<noteq> 0"
  shows "pdu_count (pdu_id_of shortroomid c) = Ok c"
  using assms by (cases c) (auto simp: pdu_count_def Let_def u64_from_bytes_Some)

lemma zero_before [simp]:
  assumes "c \<noteq> 0"
  shows "to_be_bytes 0 @ x < to_be_bytes c @ y" "to_be_bytes 0 @ x < to_be_bytes c"
    "\<not> to_be_bytes c \<le> to_be_bytes 0 @ x" "to_be_bytes 0 @ x \<le> to_be_bytes c"
    "\<not> to_be_bytes c < to_be_bytes 0 @ x"
proof -
  have z: "to_be_bytes 0 < to_be_bytes c" using assms by (simp add: word_gt_0)
  show "to_be_bytes 0 @ x < to_be_bytes c @ y" for y by (rule append_less_same_length [OF _ z]) simp
  from this [of "[]"] show *: "to_be_bytes 0 @ x < to_be_bytes c" by simp
  then show "\<not> to_be_bytes c \<le> to_be_bytes 0 @ x" "to_be_bytes 0 @ x \<le> to_be_bytes c"
    "\<not> to_be_bytes c < to_be_bytes 0 @ x" by auto
qed

lemma pdu_count_less [simp]:
  "Normal a < Normal b \<longleftrightarrow> a < b" "Backfilled a < Backfilled b \<longleftrightarrow> b < a"
  "Backfilled a < Normal b" "\<not> Normal a < Backfilled b"
  by (auto simp: less_pdu_count_def u64_cmp_def)

lemma pdu_id_of_less:
  assumes "c \<noteq> Normal 0" "d \<noteq> Normal 0"
  shows "pdu_id_of r c < pdu_id_of r d \<longleftrightarrow> c < d"
  using assms by (cases c; cases d) simp_all

lemma pdu_id_of_inj [simp]: "pdu_id_of r c = pdu_id_of r d \<longleftrightarrow> c = d"
  by (cases c; cases d) (auto dest: arg_cong [of _ _ length])

definition timeline_ids :: "'a timeline_db_scheme \<Rightarrow> bool" where
  "timeline_ids db \<longleftrightarrow> kv_wf (pduid_pdu db)
     \<and> (\<forall>k \<in> dom (kv_get (pduid_pdu db)). \<exists>r c. r \<noteq> 0 \<and> c \<noteq> Normal 0 \<and> k = pdu_id_of r c)"

lemma timeline_ids_room:
  assumes "timeline_ids db" "kv_get (pduid_pdu db) k = Some v" "starts_with k (to_be_bytes r)"
  shows "\<exists>c. c \<noteq> Normal 0 \<and> k = pdu_id_of r c"
proof -
  obtain r' c where c: "c \<noteq> Normal 0" "k = pdu_id_of r' c"
    using assms(1,2) unfolding timeline_ids_def by blast
  then have "r' = r" using assms(3) by (cases c) (auto simp: prefix_def)
  then show ?thesis using c by blast
qed

lemma timeline_ids_normal:
  assumes "timeline_ids db" "kv_get (pduid_pdu db) (pdu_id_of r c) = Some v"
  shows "c \<noteq> Normal 0"
proof -
  have "starts_with (pdu_id_of r c) (to_be_bytes r)" by (cases c) auto
  then obtain d where "d \<noteq> Normal 0" "pdu_id_of r c = pdu_id_of r d"
    using timeline_ids_room [OF assms] by blast
  then show ?thesis by (simp only: pdu_id_of_inj) blast
qed

text \<open>The rows of a room below and above a bound, as lists of positions.\<close>

lemma rows_as_counts:
  assumes "\<And>k v. (k, v) \<in> set rows \<Longrightarrow> kv_get t k = Some v \<and> (\<exists>c. c \<noteq> Normal 0 \<and> k = pdu_id_of r c)"
  shows "\<exists>cs. rows = map (\<lambda>c. (pdu_id_of r c, the (kv_get t (pdu_id_of r c)))) cs \<and> Normal 0 \<notin> set cs"
  using assms
proof (induction rows)
  case (Cons x rows)
  obtain k v where x: "x = (k, v)" by (cases x)
  obtain c where c: "kv_get t k = Some v" "c \<noteq> Normal 0" "k = pdu_id_of r c"
    using Cons.prems [of k v] x by auto
  have "\<And>k v. (k, v) \<in> set rows \<Longrightarrow> kv_get t k = Some v \<and> (\<exists>c. c \<noteq> Normal 0 \<and> k = pdu_id_of r c)"
    by (rule Cons.prems) simp
  from Cons.IH [OF this]
  obtain cs where "rows = map (\<lambda>c. (pdu_id_of r c, the (kv_get t (pdu_id_of r c)))) cs" "Normal 0 \<notin> set cs"
    by blast
  then show ?case using c x by (intro exI [of _ "c # cs"]) auto
qed simp

lemma sorted_ids_counts:
  assumes "Normal 0 \<notin> set cs"
  shows "sorted_wrt (<) (map (pdu_id_of r) cs) \<longleftrightarrow> sorted_wrt (<) cs"
    and "sorted_wrt (>) (map (pdu_id_of r) cs) \<longleftrightarrow> sorted_wrt (>) cs"
proof -
  have "pdu_id_of r (cs ! i) < pdu_id_of r (cs ! j) \<longleftrightarrow> cs ! i < cs ! j"
    if "i < length cs" "j < length cs" for i j
    using assms nth_mem [OF that(1)] nth_mem [OF that(2)] by (intro pdu_id_of_less) auto
  then show "sorted_wrt (<) (map (pdu_id_of r) cs) \<longleftrightarrow> sorted_wrt (<) cs"
    "sorted_wrt (>) (map (pdu_id_of r) cs) \<longleftrightarrow> sorted_wrt (>) cs"
    by (simp_all add: sorted_wrt_iff_nth_less)
qed


text \<open>Where the scans start: just below and just above the given position.\<close>

lemma count_to_id_until:
  assumes "get_shortroomid room db = Ok (Some r)" "until \<notin> {Normal 0, Normal 1, Backfilled u64_max}"
  shows "\<exists>cur. count_to_id room until 1 True db = Ok (to_be_bytes r, to_be_bytes r @ cur)
           \<and> (\<forall>c. c \<noteq> Normal 0 \<longrightarrow> (pdu_id_of r c \<le> to_be_bytes r @ cur \<longleftrightarrow> c < until))"
proof (cases until)
  case (Normal x)
  then have x: "x \<noteq> 0" "x - 1 \<noteq> 0" using assms(2) by auto
  have "pdu_id_of r c \<le> to_be_bytes r @ to_be_bytes (x - 1) \<longleftrightarrow> c < until" for c
    using x Normal by (cases c) (auto simp: le_minus_1_iff)
  then show ?thesis using assms(1) Normal by (simp add: count_to_id_def Let_def)
next
  case (Backfilled x)
  define num where "num = u64_max - x"
  have num: "num \<noteq> 0" using assms(2) Backfilled by (auto simp: num_def)
  have k: "u64_max - y \<le> num - 1 \<longleftrightarrow> x < y" for y
    using le_minus_1_iff [OF num, of "u64_max - y"] by (simp add: num_def)
  have "pdu_id_of r c \<le> to_be_bytes r @ to_be_bytes 0 @ to_be_bytes (num - 1) \<longleftrightarrow> c < until"
    if "c \<noteq> Normal 0" for c
    using that Backfilled k by (cases c) simp_all
  moreover have "0 < num" using num by (simp add: word_gt_0)
  ultimately show ?thesis using assms(1) Backfilled
    by (simp add: count_to_id_def Let_def num_def [symmetric])
qed

lemma count_to_id_after:
  assumes "get_shortroomid room db = Ok (Some r)" "since \<notin> {Normal u64_max, Backfilled 0}"
  shows "\<exists>cur. count_to_id room since 1 False db = Ok (to_be_bytes r, to_be_bytes r @ cur)
           \<and> (\<forall>c. c \<noteq> Normal 0 \<longrightarrow> (to_be_bytes r @ cur \<le> pdu_id_of r c \<longleftrightarrow> since < c))"
proof (cases since)
  case (Normal x)
  then have x: "x \<noteq> u64_max" "x + 1 \<noteq> 0" using assms(2) by (auto simp: eq_neg_iff_add_eq_0)
  have "to_be_bytes r @ to_be_bytes (x + 1) \<le> pdu_id_of r c \<longleftrightarrow> since < c" for c
    using x Normal by (cases c) (simp_all add: less_add_1_iff)
  then show ?thesis using assms(1) Normal by (simp add: count_to_id_def Let_def)
next
  case (Backfilled x)
  define num where "num = u64_max - x"
  have num: "num \<noteq> u64_max" using assms(2) Backfilled by (auto simp: num_def)
  have k: "num + 1 \<le> u64_max - y \<longleftrightarrow> y < x" for y
    using less_add_1_iff [OF num, of "u64_max - y"] by (simp add: num_def)
  have "to_be_bytes r @ to_be_bytes 0 @ to_be_bytes (num + 1) \<le> pdu_id_of r c \<longleftrightarrow> since < c"
    if "c \<noteq> Normal 0" for c
    using that Backfilled k by (cases c) simp_all
  then show ?thesis using assms(1) Backfilled
    by (simp add: count_to_id_def Let_def num_def [symmetric])
qed

lemma pdus_until_spec:
  assumes ids: "timeline_ids db" and r: "get_shortroomid room db = Ok (Some r)"
    and until: "until \<notin> {Normal 0, Normal 1, Backfilled u64_max}"
  shows "\<exists>cs. pdus_until C user room until db =
      Ok (map (\<lambda>c. deliver_pdu C user (pdu_id_of r c, the (kv_get (pduid_pdu db) (pdu_id_of r c)))) cs)
    \<and> sorted_wrt (>) cs
    \<and> set cs = {c. c < until \<and> kv_get (pduid_pdu db) (pdu_id_of r c) \<noteq> None}"
proof -
  obtain cur where cur: "count_to_id room until 1 True db = Ok (to_be_bytes r, to_be_bytes r @ cur)"
    "\<And>c. c \<noteq> Normal 0 \<Longrightarrow> pdu_id_of r c \<le> to_be_bytes r @ cur \<longleftrightarrow> c < until"
    using count_to_id_until [OF r until] by blast
  have wf: "kv_wf (pduid_pdu db)" using ids by (simp add: timeline_ids_def)
  let ?rows = "takeWhile (\<lambda>(k, _). starts_with k (to_be_bytes r))
      (kv_iter_from (pduid_pdu db) (to_be_bytes r @ cur) True)"
  have set: "set ?rows = {(k, v). kv_get (pduid_pdu db) k = Some v \<and> starts_with k (to_be_bytes r)
      \<and> k \<le> to_be_bytes r @ cur}" by (rule kv.set_scan_until [OF wf]) simp
  have srt: "sorted_wrt (>) (map fst ?rows)" by (rule kv.sorted_scan_until [OF wf]) simp
  obtain cs where cs: "?rows = map (\<lambda>c. (pdu_id_of r c, the (kv_get (pduid_pdu db) (pdu_id_of r c)))) cs"
    "Normal 0 \<notin> set cs"
    using rows_as_counts [of ?rows "pduid_pdu db" r] timeline_ids_room [OF ids] unfolding set by auto
  have keys: "map fst ?rows = map (pdu_id_of r) cs" by (simp add: cs(1))
  have "c \<in> set cs \<longleftrightarrow> c < until \<and> kv_get (pduid_pdu db) (pdu_id_of r c) \<noteq> None" for c
  proof -
    have "c \<in> set cs \<longleftrightarrow> pdu_id_of r c \<in> set (map fst ?rows)" unfolding keys by auto
    also have "\<dots> \<longleftrightarrow> pdu_id_of r c \<le> to_be_bytes r @ cur \<and> kv_get (pduid_pdu db) (pdu_id_of r c) \<noteq> None"
      unfolding set_map set by (cases c) (auto simp: image_iff)
    also have "\<dots> \<longleftrightarrow> c < until \<and> kv_get (pduid_pdu db) (pdu_id_of r c) \<noteq> None"
      using cur(2) timeline_ids_normal [OF ids] by auto
    finally show ?thesis .
  qed
  moreover have "sorted_wrt (>) cs" using srt unfolding keys sorted_ids_counts(2) [OF cs(2)] .
  moreover have "pdus_until C user room until db = Ok (map (deliver_pdu C user) ?rows)"
    by (simp add: pdus_until_def cur(1))
  ultimately show ?thesis unfolding cs(1) by (intro exI [of _ cs]) auto
qed

lemma pdus_after_spec:
  assumes ids: "timeline_ids db" and r: "get_shortroomid room db = Ok (Some r)"
    and since: "since \<notin> {Normal u64_max, Backfilled 0}"
  shows "\<exists>cs. pdus_after C user room since db =
      Ok (map (\<lambda>c. deliver_pdu C user (pdu_id_of r c, the (kv_get (pduid_pdu db) (pdu_id_of r c)))) cs)
    \<and> sorted_wrt (<) cs
    \<and> set cs = {c. since < c \<and> kv_get (pduid_pdu db) (pdu_id_of r c) \<noteq> None}"
proof -
  obtain cur where cur: "count_to_id room since 1 False db = Ok (to_be_bytes r, to_be_bytes r @ cur)"
    "\<And>c. c \<noteq> Normal 0 \<Longrightarrow> to_be_bytes r @ cur \<le> pdu_id_of r c \<longleftrightarrow> since < c"
    using count_to_id_after [OF r since] by blast
  have wf: "kv_wf (pduid_pdu db)" using ids by (simp add: timeline_ids_def)
  let ?rows = "takeWhile (\<lambda>(k, _). starts_with k (to_be_bytes r))
      (kv_iter_from (pduid_pdu db) (to_be_bytes r @ cur) False)"
  have set: "set ?rows = {(k, v). kv_get (pduid_pdu db) k = Some v \<and> starts_with k (to_be_bytes r)
      \<and> to_be_bytes r @ cur \<le> k}" by (rule kv.set_scan_since [OF wf]) simp
  have srt: "sorted_wrt (<) (map fst ?rows)" by (rule kv.sorted_scan_since [OF wf])
  obtain cs where cs: "?rows = map (\<lambda>c. (pdu_id_of r c, the (kv_get (pduid_pdu db) (pdu_id_of r c)))) cs"
    "Normal 0 \<notin> set cs"
    using rows_as_counts [of ?rows "pduid_pdu db" r] timeline_ids_room [OF ids] unfolding set by auto
  have keys: "map fst ?rows = map (pdu_id_of r) cs" by (simp add: cs(1))
  have "c \<in> set cs \<longleftrightarrow> since < c \<and> kv_get (pduid_pdu db) (pdu_id_of r c) \<noteq> None" for c
  proof -
    have "c \<in> set cs \<longleftrightarrow> pdu_id_of r c \<in> set (map fst ?rows)" unfolding keys by auto
    also have "\<dots> \<longleftrightarrow> to_be_bytes r @ cur \<le> pdu_id_of r c \<and> kv_get (pduid_pdu db) (pdu_id_of r c) \<noteq> None"
      unfolding set_map set by (cases c) (auto simp: image_iff)
    also have "\<dots> \<longleftrightarrow> since < c \<and> kv_get (pduid_pdu db) (pdu_id_of r c) \<noteq> None"
      using cur(2) timeline_ids_normal [OF ids] by auto
    finally show ?thesis .
  qed
  moreover have "sorted_wrt (<) cs" using srt unfolding keys sorted_ids_counts(1) [OF cs(2)] .
  moreover have "pdus_after C user room since db = Ok (map (deliver_pdu C user) ?rows)"
    by (simp add: pdus_after_def cur(1))
  ultimately show ?thesis unfolding cs(1) by (intro exI [of _ cs]) auto
qed

section \<open>Writing events\<close>

definition timeline_wf :: "'a timeline_db_scheme \<Rightarrow> bool" where
  "timeline_wf db \<longleftrightarrow> timeline_ids db \<and> kv_wf (eventid_pduid db) \<and> kv_wf (eventid_outlierpdu db)
     \<and> kv_wf (userroomid_notificationcount db) \<and> kv_wf (userroomid_highlightcount db)"

lemma timeline_ids_insert:
  assumes "timeline_ids db" "r \<noteq> 0" "c \<noteq> Normal 0"
  shows "timeline_ids (db\<lparr>pduid_pdu := kv_insert (pduid_pdu db) (pdu_id_of r c) v\<rparr>)"
proof -
  have wf: "kv_wf (pduid_pdu db)" using assms(1) by (simp add: timeline_ids_def)
  then have "dom (kv_get (kv_insert (pduid_pdu db) (pdu_id_of r c) v))
      = insert (pdu_id_of r c) (dom (kv_get (pduid_pdu db)))" by (simp add: kv_get_insert_map)
  then show ?thesis using assms wf by (auto simp: timeline_ids_def kv_intros)
qed

lemma timeline_ids_cong:
  "pduid_pdu db' = pduid_pdu db \<Longrightarrow> timeline_ids db' = timeline_ids db"
  by (simp add: timeline_ids_def)

lemma get_pdu_json_cong:
  assumes "kv_get (eventid_pduid db') e = kv_get (eventid_pduid db) e"
    "kv_get (eventid_outlierpdu db') e = kv_get (eventid_outlierpdu db) e"
    "\<And>pid. kv_get (eventid_pduid db) e = Some pid \<Longrightarrow> kv_get (pduid_pdu db') pid = kv_get (pduid_pdu db) pid"
  shows "get_pdu_json C e db' = get_pdu_json C e db"
  using assms(3) unfolding get_pdu_json_def get_non_outlier_pdu_json_def get_non_outlier_def assms(1,2)
  by (cases "kv_get (eventid_pduid db) e") (simp_all add: map_transpose_def)

text \<open>
  An appended event is found under its id, at its position, in its stored form; it is no longer an
  outlier; other events keep what they had, as long as the position is new.
\<close>

lemma append_pdu_ok:
  fixes C :: "'j pdu_codec" and json :: 'j
  assumes wf: "timeline_wf db" and room: "pdu_room_id R pdu = Ok room" and r: "r \<noteq> 0" and c: "count \<noteq> 0"
    and codec: "json_dec C (json_enc C json) = Some json"
  defines "pid \<equiv> pdu_id_of r (Normal count)" and "e \<equiv> pdu_event_id pdu"
  shows "\<exists>db'. append_pdu R C pid pdu json count db = (Ok (), db') \<and> timeline_wf db'
     \<and> get_pdu_json C e db' = Ok (Some json) \<and> get_pdu_count e db' = Ok (Some (Normal count))
     \<and> get_outlier_pdu_json C e db' = Ok None
     \<and> (kv_get (pduid_pdu db) pid = None \<longrightarrow> (\<forall>e'. e' \<noteq> e \<longrightarrow> kv_get (eventid_pduid db) e' \<noteq> Some pid \<longrightarrow>
          get_pdu_json C e' db' = get_pdu_json C e' db))"
proof -
  let ?db1 = "db\<lparr>pduid_pdu := kv_insert (pduid_pdu db) pid (json_enc C json)\<rparr>"
  let ?db = "?db1\<lparr>lasttimelinecount_cache := (lasttimelinecount_cache db)(room \<mapsto> Normal count),
    eventid_pduid := kv_insert (eventid_pduid db) e pid, eventid_outlierpdu := kv_remove (eventid_outlierpdu db) e\<rparr>"
  have w: "kv_wf (pduid_pdu db)" "kv_wf (eventid_pduid db)" "kv_wf (eventid_outlierpdu db)"
    using wf by (auto simp: timeline_wf_def timeline_ids_def)
  have ids: "timeline_ids ?db"
    using timeline_ids_insert [of db r "Normal count" "json_enc C json"] wf r c
    by (simp add: timeline_wf_def timeline_ids_def pid_def)
  have run: "append_pdu R C pid pdu json count db = (Ok (), ?db)"
    using room by (simp add: append_pdu_def Let_def e_def)
  have "timeline_wf ?db" using ids wf w by (simp add: timeline_wf_def kv_intros)
  moreover have "get_pdu_json C e ?db = Ok (Some json)"
    using codec by (simp add: get_pdu_json_def get_non_outlier_pdu_json_def get_non_outlier_def
        kv_get_insert w map_transpose_def)
  moreover have "get_pdu_count e ?db = Ok (Some (Normal count))"
    using pdu_count_pdu_id_of [OF r, of "Normal count"] by (simp add: get_pdu_count_def kv_get_insert w pid_def)
  moreover have "get_outlier_pdu_json C e ?db = Ok None"
    by (simp add: get_outlier_pdu_json_def kv_get_remove)
  moreover have "get_pdu_json C e' ?db = get_pdu_json C e' db"
    if "e' \<noteq> e" "kv_get (eventid_pduid db) e' \<noteq> Some pid" for e'
    by (rule get_pdu_json_cong) (use that in \<open>simp_all add: kv_get_insert kv_get_remove w\<close>)
  ultimately show ?thesis using run by blast
qed

lemma replace_pdu_ok:
  assumes wf: "timeline_wf db" and e: "kv_get (eventid_pduid db) (pdu_event_id pdu) = Some pid"
    and known: "kv_get (pduid_pdu db) pid \<noteq> None"
    and codec: "json_dec C (json_enc C json) = Some json" "pdu_dec C (json_enc C json) = Some pdu"
  shows "\<exists>db'. replace_pdu C pid json pdu db = (Ok (), db') \<and> timeline_wf db'
     \<and> get_pdu_json C (pdu_event_id pdu) db' = Ok (Some json)
     \<and> fst (get_pdu C ev (pdu_event_id pdu) db') = Ok (Some pdu)"
proof -
  let ?db = "db\<lparr>pduid_pdu := kv_insert (pduid_pdu db) pid (json_enc C json),
      pdu_cache := (pdu_cache db)(pdu_event_id pdu := None)\<rparr>"
  have w: "kv_wf (pduid_pdu db)" using wf by (auto simp: timeline_wf_def timeline_ids_def)
  have "\<exists>r c. r \<noteq> 0 \<and> c \<noteq> Normal 0 \<and> pid = pdu_id_of r c"
    using wf known unfolding timeline_wf_def timeline_ids_def by blast
  then have "timeline_ids (db\<lparr>pduid_pdu := kv_insert (pduid_pdu db) pid (json_enc C json)\<rparr>)"
    using timeline_ids_insert wf unfolding timeline_wf_def by blast
  then have "timeline_wf ?db" using wf by (simp add: timeline_wf_def timeline_ids_def)
  then show ?thesis using known e codec w
    by (simp add: replace_pdu_def get_pdu_json_def get_non_outlier_pdu_json_def get_pdu_def
        get_non_outlier_pdu_def get_non_outlier_def kv_get_insert map_transpose_def)
qed

lemma replace_pdu_missing:
  "kv_get (pduid_pdu db) pid = None \<Longrightarrow>
   replace_pdu C pid json pdu db = (Err (BadRequest NotFound ''PDU does not exist.''), db)"
  by (simp add: replace_pdu_def)

section \<open>Properties\<close>

text \<open>A codec for concrete runs: JSON text is its own value, and an event decodes to one fixed PDU.\<close>

definition sample_pdu :: pdu where
  "sample_pdu = \<lparr>pdu_event_id = ascii ''$a'', pdu_room_id_field = Some (ascii ''!r''), pdu_sender = ascii ''@u'',
     pdu_kind = ascii ''m.room.name'', pdu_content = [], pdu_state_key = Some [], pdu_prev_events = [],
     pdu_auth_events = [], pdu_redacts = None, pdu_unsigned_field = None\<rparr>"

definition text_codec :: "bytes pdu_codec" where
  "text_codec = \<lparr>pdu_dec = (\<lambda>_. Some sample_pdu), json_dec = Some, pdu_opt_dec = (\<lambda>_. Some (Some sample_pdu)),
     json_opt_dec = (\<lambda>bs. Some (Some bs)), json_enc = id, unsigned_dec = (\<lambda>_. Some Map.empty),
     unsigned_enc = (\<lambda>_. [])\<rparr>"

definition empty_timeline_db :: timeline_db where
  "empty_timeline_db = state_db.extend empty_state_db
     \<lparr>pduid_pdu = [], eventid_pduid = [], eventid_outlierpdu = [], userroomid_notificationcount = [],
      userroomid_highlightcount = [], lasttimelinecount_cache = Map.empty, pdu_cache = Map.empty\<rparr>"

definition one_event_db :: timeline_db where
  "one_event_db = empty_timeline_db\<lparr>roomid_shortroomid := [(ascii ''!r'', to_be_bytes 7)],
     pduid_pdu := [(pdu_id_of 7 (Normal 5), [1])], eventid_pduid := [(ascii ''$a'', pdu_id_of 7 (Normal 5))]\<rparr>"

lemma sample_pdu_event_id [simp]: "pdu_event_id sample_pdu = ascii ''$a''"
  by (simp add: sample_pdu_def)

lemma empty_timeline_wf: "timeline_wf empty_timeline_db"
  by (simp add: timeline_wf_def timeline_ids_def empty_timeline_db_def state_db.defs)

lemma one_event_wf: "timeline_wf one_event_db" "get_shortroomid (ascii ''!r'') one_event_db = Ok (Some 7)"
proof -
  have "dom (kv_get [(pdu_id_of 7 (Normal 5), [1])]) = {pdu_id_of 7 (Normal 5)}"
    by (auto simp: dom_def kv_get_def split: if_splits)
  then show "timeline_wf one_event_db"
    by (auto simp: timeline_wf_def timeline_ids_def one_event_db_def empty_timeline_db_def state_db.defs kv_wf_def
        intro!: exI [of _ 7] exI [of _ "Normal 5"])
  show "get_shortroomid (ascii ''!r'') one_event_db = Ok (Some 7)"
    by (simp add: get_shortroomid_def one_event_db_def kv_get_def)
qed

text \<open>
  A sync token survives its text form: parsing what was printed gives the same position, for
  ordinary and backfilled positions alike.
\<close>

theorem sync_token_round_trip: "try_from_string (stringify c) = Ok c"
  by (rule try_from_string_stringify)

text \<open>
  The bytes of a timeline id carry its position and order the timeline: decoding gives the
  position back, and two ids of a room compare as their positions do, all backfilled events before
  all ordinary ones and in the right direction.
\<close>

theorem pdu_id_order_and_round_trip:
  assumes "r \<noteq> 0" "c \<noteq> Normal 0" "d \<noteq> Normal 0"
  shows "pdu_count (pdu_id_of r c) = Ok c \<and> (pdu_id_of r c < pdu_id_of r d \<longleftrightarrow> c < d)"
  using assms by (simp add: pdu_count_pdu_id_of pdu_id_of_less)

theorem pdu_id_order_and_round_trip_witness:
  "pdu_id_of 7 (Backfilled 3) < pdu_id_of 7 (Normal 5) \<longleftrightarrow> Backfilled 3 < Normal 5"
  using pdu_id_order_and_round_trip [of 7 "Backfilled 3" "Normal 5"] by simp

text \<open>
  C17: paging backwards from a position delivers every stored event of the room before it, newest
  first, each once, and nothing of another room. The three positions excluded are the ones at which
  the code's cursor arithmetic leaves the range.
\<close>

theorem pdus_until_complete:
  assumes "timeline_ids db" "get_shortroomid room db = Ok (Some r)"
    and "until \<notin> {Normal 0, Normal 1, Backfilled u64_max}"
  shows "\<exists>cs. pdus_until C user room until db =
      Ok (map (\<lambda>c. deliver_pdu C user (pdu_id_of r c, the (kv_get (pduid_pdu db) (pdu_id_of r c)))) cs)
    \<and> sorted_wrt (>) cs
    \<and> set cs = {c. c < until \<and> kv_get (pduid_pdu db) (pdu_id_of r c) \<noteq> None}"
  using assms by (rule pdus_until_spec)

theorem pdus_until_complete_witness:
  "\<exists>cs. pdus_until text_codec (ascii ''@u'') (ascii ''!r'') (Normal 9) one_event_db =
      Ok (map (\<lambda>c. deliver_pdu text_codec (ascii ''@u'')
        (pdu_id_of 7 c, the (kv_get (pduid_pdu one_event_db) (pdu_id_of 7 c)))) cs) \<and> Normal 5 \<in> set cs"
proof -
  have t: "timeline_ids one_event_db" using one_event_wf by (simp add: timeline_wf_def)
  have "kv_get (pduid_pdu one_event_db) (pdu_id_of 7 (Normal 5)) \<noteq> None" by (simp add: one_event_db_def kv_get_def)
  moreover have "Normal 5 < Normal 9" "Normal 9 \<notin> {Normal 0, Normal 1, Backfilled u64_max}" by simp_all
  ultimately show ?thesis using pdus_until_complete [OF t one_event_wf(2), of "Normal 9" text_codec "ascii ''@u''"]
    by blast
qed

text \<open>
  Syncing forwards from a position delivers every stored event of the room after it, oldest
  first, each once, and nothing of another room.
\<close>

theorem pdus_after_complete:
  assumes "timeline_ids db" "get_shortroomid room db = Ok (Some r)"
    and "since \<notin> {Normal u64_max, Backfilled 0}"
  shows "\<exists>cs. pdus_after C user room since db =
      Ok (map (\<lambda>c. deliver_pdu C user (pdu_id_of r c, the (kv_get (pduid_pdu db) (pdu_id_of r c)))) cs)
    \<and> sorted_wrt (<) cs
    \<and> set cs = {c. since < c \<and> kv_get (pduid_pdu db) (pdu_id_of r c) \<noteq> None}"
  using assms by (rule pdus_after_spec)

theorem pdus_after_complete_witness:
  "\<exists>cs. pdus_after text_codec (ascii ''@u'') (ascii ''!r'') (Normal 2) one_event_db =
      Ok (map (\<lambda>c. deliver_pdu text_codec (ascii ''@u'')
        (pdu_id_of 7 c, the (kv_get (pduid_pdu one_event_db) (pdu_id_of 7 c)))) cs) \<and> Normal 5 \<in> set cs"
proof -
  have t: "timeline_ids one_event_db" using one_event_wf by (simp add: timeline_wf_def)
  have "kv_get (pduid_pdu one_event_db) (pdu_id_of 7 (Normal 5)) \<noteq> None" by (simp add: one_event_db_def kv_get_def)
  moreover have "Normal 2 < Normal 5" by simp
  moreover have "Normal 2 \<notin> {Normal u64_max, Backfilled 0}" by simp
  ultimately show ?thesis
    using pdus_after_complete [OF t one_event_wf(2), of "Normal 2" text_codec "ascii ''@u''"] by blast
qed

text \<open>
  Appending an event files it under its id at its position and ends its life as an outlier;
  when the position is fresh, no other event changes.
\<close>

theorem append_pdu_files_event:
  fixes C :: "'j pdu_codec" and json :: 'j
  assumes "timeline_wf db" "pdu_room_id R pdu = Ok room" "r \<noteq> 0" "count \<noteq> 0"
    and "json_dec C (json_enc C json) = Some json"
  shows "\<exists>db'. append_pdu R C (pdu_id_of r (Normal count)) pdu json count db = (Ok (), db') \<and> timeline_wf db'
     \<and> get_pdu_json C (pdu_event_id pdu) db' = Ok (Some json)
     \<and> get_pdu_count (pdu_event_id pdu) db' = Ok (Some (Normal count))
     \<and> get_outlier_pdu_json C (pdu_event_id pdu) db' = Ok None
     \<and> (kv_get (pduid_pdu db) (pdu_id_of r (Normal count)) = None \<longrightarrow>
         (\<forall>e'. e' \<noteq> pdu_event_id pdu \<longrightarrow> kv_get (eventid_pduid db) e' \<noteq> Some (pdu_id_of r (Normal count)) \<longrightarrow>
          get_pdu_json C e' db' = get_pdu_json C e' db))"
  using assms by (rule append_pdu_ok)

theorem append_pdu_files_event_witness:
  "\<exists>db'. append_pdu accept_all text_codec (pdu_id_of 7 (Normal 5)) sample_pdu [1, 2] 5 empty_timeline_db = (Ok (), db')
     \<and> get_pdu_json text_codec (ascii ''$a'') db' = Ok (Some [1, 2])"
proof -
  have "pdu_room_id accept_all sample_pdu = Ok (ascii ''!r'')" by (simp add: pdu_room_id_def sample_pdu_def)
  moreover have "json_dec text_codec (json_enc text_codec [1, 2]) = Some [1, 2]" by (simp add: text_codec_def)
  ultimately show ?thesis
    using append_pdu_files_event [OF empty_timeline_wf, of accept_all sample_pdu "ascii ''!r''" 7 5 text_codec "[1, 2]"]
    by (auto simp: sample_pdu_def)
qed

text \<open>
  Replacing a known event (a redaction) is visible at once, also through the event cache;
  replacing an unknown one is an error and changes nothing.
\<close>

theorem replace_pdu_visible:
  assumes "timeline_wf db" "kv_get (eventid_pduid db) (pdu_event_id pdu) = Some pid"
    and "json_dec C (json_enc C json) = Some json" "pdu_dec C (json_enc C json) = Some pdu"
  shows "if kv_get (pduid_pdu db) pid = None
     then replace_pdu C pid json pdu db = (Err (BadRequest NotFound ''PDU does not exist.''), db)
     else (\<exists>db'. replace_pdu C pid json pdu db = (Ok (), db') \<and> timeline_wf db'
       \<and> get_pdu_json C (pdu_event_id pdu) db' = Ok (Some json)
       \<and> fst (get_pdu C ev (pdu_event_id pdu) db') = Ok (Some pdu))"
  using replace_pdu_missing [of db pid C json pdu] replace_pdu_ok [OF assms(1,2) _ assms(3,4), of ev] by simp

theorem replace_pdu_visible_witness:
  "\<exists>db'. replace_pdu text_codec (pdu_id_of 7 (Normal 5)) [9] sample_pdu one_event_db = (Ok (), db')
     \<and> get_pdu_json text_codec (ascii ''$a'') db' = Ok (Some [9])"
proof -
  have "kv_get (eventid_pduid one_event_db) (pdu_event_id sample_pdu) = Some (pdu_id_of 7 (Normal 5))"
    by (simp add: one_event_db_def sample_pdu_def kv_get_def)
  moreover have "json_dec text_codec (json_enc text_codec [9]) = Some [9]"
    "pdu_dec text_codec (json_enc text_codec [9]) = Some sample_pdu" by (simp_all add: text_codec_def)
  moreover have "kv_get (pduid_pdu one_event_db) (pdu_id_of 7 (Normal 5)) \<noteq> None" by (simp add: one_event_db_def kv_get_def)
  ultimately show ?thesis
    using replace_pdu_visible [OF one_event_wf(1), of sample_pdu "pdu_id_of 7 (Normal 5)" text_codec "[9]"
        "\<lambda>_ _. {}"] by (auto simp del: pdu_id_of.simps)
qed

end
