(* ===== verification/RoomState.thy ===== *)
theory RoomState
  imports Timeline
begin

text \<open>
  The state of a room as its clients see it: \<open>set_event_state\<close> and \<open>append_to_state\<close> of
  \<^verbatim>\<open>server/src/service/rooms/state/mod.rs\<close>, and the reads of
  \<^verbatim>\<open>server/src/database/key_value/rooms/state_accessor.rs\<close>. The record \<open>env\<close> collects the
  third-party parameters of the components below.
\<close>

record env =
  env_ruma :: ruma
  env_short :: short_evict
  env_layers :: "(u64, layer list) evict"
  env_pdus :: "(str, pdu) evict"
  env_elems :: "bytes fset \<Rightarrow> bytes list"
  env_fuel :: nat
  env_sha256 :: "bytes \<Rightarrow> bytes"

section \<open>Reading a state\<close>

text \<open>\<open>load_shortstatehash_info(h)?.pop().expect("there is always one layer").1\<close>\<close>

definition load_full_state ::
  "env \<Rightarrow> u64 \<Rightarrow> 'a state_db_scheme \<Rightarrow> bytes fset result \<times> 'a state_db_scheme" where
  "load_full_state E shortstatehash db =
     step_then (load_shortstatehash_info (env_fuel E) (env_layers E) shortstatehash db) (\<lambda>ls db.
       if ls = [] then (Err (Panicked ''there is always one layer''), db)
       else (Ok (fst (snd (last ls))), db))"

text \<open>The loops insert into a \<open>HashMap\<close> in the iteration order of the state.\<close>

fun collect_state_ids ::
  "env \<Rightarrow> bytes list \<Rightarrow> (u64 \<rightharpoonup> str) \<Rightarrow> 'a state_db_scheme
     \<Rightarrow> (u64 \<rightharpoonup> str) result \<times> 'a state_db_scheme" where
  "collect_state_ids E [] result db = (Ok result, db)"
| "collect_state_ids E (c # cs) result db =
     step_then (parse_compressed_state_event (env_ruma E) (env_short E) c db) (\<lambda>parsed db.
       collect_state_ids E cs (result(fst parsed \<mapsto> snd parsed)) db)"

definition state_full_ids ::
  "env \<Rightarrow> u64 \<Rightarrow> 'a state_db_scheme \<Rightarrow> (u64 \<rightharpoonup> str) result \<times> 'a state_db_scheme" where
  "state_full_ids E shortstatehash db =
     step_then (load_full_state E shortstatehash db) (\<lambda>full_state db.
       collect_state_ids E (env_elems E full_state) Map.empty db)"

fun collect_state ::
  "env \<Rightarrow> 'j pdu_codec \<Rightarrow> bytes list \<Rightarrow> (str \<times> str \<rightharpoonup> pdu) \<Rightarrow> 'a timeline_db_scheme
     \<Rightarrow> (str \<times> str \<rightharpoonup> pdu) result \<times> 'a timeline_db_scheme" where
  "collect_state E C [] result db = (Ok result, db)"
| "collect_state E C (c # cs) result db =
     step_then (parse_compressed_state_event (env_ruma E) (env_short E) c db) (\<lambda>(_, eventid) db.
     step_then (get_pdu C (env_pdus E) eventid db) (\<lambda>r db.
       case r of
         None \<Rightarrow> collect_state E C cs result db
       | Some pdu \<Rightarrow>
           (case pdu_state_key pdu of
              None \<Rightarrow> (Err (BadDatabase ''State event has no state key.''), db)
            | Some sk \<Rightarrow>
                collect_state E C cs
                  (result((state_event_type (env_ruma E) (pdu_kind pdu), sk) \<mapsto> pdu)) db)))"

definition state_full ::
  "env \<Rightarrow> 'j pdu_codec \<Rightarrow> u64 \<Rightarrow> 'a timeline_db_scheme
     \<Rightarrow> (str \<times> str \<rightharpoonup> pdu) result \<times> 'a timeline_db_scheme" where
  "state_full E C shortstatehash db =
     step_then (load_full_state E shortstatehash db) (\<lambda>full_state db.
       collect_state E C (env_elems E full_state) Map.empty db)"

definition state_get_id ::
  "env \<Rightarrow> u64 \<Rightarrow> str \<Rightarrow> str \<Rightarrow> 'a state_db_scheme \<Rightarrow> str option result \<times> 'a state_db_scheme" where
  "state_get_id E shortstatehash event_type state_key db =
     step_then (get_shortstatekey (env_short E) event_type state_key db) (\<lambda>s db.
       case s of
         None \<Rightarrow> (Ok None, db)
       | Some shortstatekey \<Rightarrow>
           step_then (load_full_state E shortstatehash db) (\<lambda>full_state db.
             case find (\<lambda>bs. starts_with bs (to_be_bytes shortstatekey)) (env_elems E full_state) of
               None \<Rightarrow> (Ok None, db)
             | Some c \<Rightarrow>
                 (case parse_compressed_state_event (env_ruma E) (env_short E) c db of
                    (Inl e, db) \<Rightarrow> (Ok None, db)
                  | (Inr (_, eventid), db) \<Rightarrow> (Ok (Some eventid), db))))"

definition state_get ::
  "env \<Rightarrow> 'j pdu_codec \<Rightarrow> u64 \<Rightarrow> str \<Rightarrow> str \<Rightarrow> 'a timeline_db_scheme
     \<Rightarrow> pdu option result \<times> 'a timeline_db_scheme" where
  "state_get E C shortstatehash event_type state_key db =
     step_then (state_get_id E shortstatehash event_type state_key db) (\<lambda>r db.
       case r of
         None \<Rightarrow> (Ok None, db)
       | Some eventid \<Rightarrow> get_pdu C (env_pdus E) eventid db)"

definition pdu_shortstatehash :: "str \<Rightarrow> 'a state_db_scheme \<Rightarrow> u64 option result" where
  "pdu_shortstatehash e db =
     (case kv_get (eventid_shorteventid db) e of
        None \<Rightarrow> Ok None
      | Some shorteventid \<Rightarrow>
          map_transpose (\<lambda>bs. ok_or (BadDatabase
               ''Invalid shortstatehash bytes in shorteventid_shortstatehash'') (u64_from_bytes bs))
            (kv_get (shorteventid_shortstatehash db) shorteventid))"

definition room_state_full ::
  "env \<Rightarrow> 'j pdu_codec \<Rightarrow> str \<Rightarrow> 'a timeline_db_scheme
     \<Rightarrow> (str \<times> str \<rightharpoonup> pdu) result \<times> 'a timeline_db_scheme" where
  "room_state_full E C room db =
     step_then (get_room_shortstatehash room db, db) (\<lambda>r db.
       case r of Some current \<Rightarrow> state_full E C current db | None \<Rightarrow> (Ok Map.empty, db))"

definition room_state_get_id ::
  "env \<Rightarrow> str \<Rightarrow> str \<Rightarrow> str \<Rightarrow> 'a state_db_scheme \<Rightarrow> str option result \<times> 'a state_db_scheme" where
  "room_state_get_id E room event_type state_key db =
     step_then (get_room_shortstatehash room db, db) (\<lambda>r db.
       case r of Some current \<Rightarrow> state_get_id E current event_type state_key db | None \<Rightarrow> (Ok None, db))"

definition room_state_get ::
  "env \<Rightarrow> 'j pdu_codec \<Rightarrow> str \<Rightarrow> str \<Rightarrow> str \<Rightarrow> 'a timeline_db_scheme
     \<Rightarrow> pdu option result \<times> 'a timeline_db_scheme" where
  "room_state_get E C room event_type state_key db =
     step_then (get_room_shortstatehash room db, db) (\<lambda>r db.
       case r of Some current \<Rightarrow> state_get E C current event_type state_key db | None \<Rightarrow> (Ok None, db))"

section \<open>Writing a state\<close>

text \<open>Generates a state hash for the given state and associates it with the event.\<close>

definition set_event_state ::
  "env \<Rightarrow> str \<Rightarrow> str \<Rightarrow> bytes fset \<Rightarrow> 'a state_db_scheme \<Rightarrow> u64 result \<times> 'a state_db_scheme" where
  "set_event_state E e room state_ids_compressed db =
     step_then (get_or_create_shorteventid (env_short E) e db) (\<lambda>shorteventid db.
     step_then (get_room_shortstatehash room db, db) (\<lambda>previous_shortstatehash db.
     step_then (get_or_create_shortstatehash
         (calculate_hash (env_sha256 E) (env_elems E state_ids_compressed)) db)
       (\<lambda>(shortstatehash, already_existed) db.
     step_then
       (if \<not> already_existed then
          step_then (load_parents (env_fuel E) (env_layers E) previous_shortstatehash db)
            (\<lambda>states_parents db.
              let (statediffnew, statediffremoved) =
                    diff_to_parent state_ids_compressed states_parents
              in (Ok (), save_state_from_diff (env_elems E) shortstatehash statediffnew
                           statediffremoved 1000000 states_parents db))
        else (Ok (), db))
       (\<lambda>_ db. (Ok shortstatehash, db_set_event_state shorteventid shortstatehash db)))))"

text \<open>The state after a new event of the room.\<close>

definition append_to_state ::
  "env \<Rightarrow> pdu \<Rightarrow> 'a state_db_scheme \<Rightarrow> u64 result \<times> 'a state_db_scheme" where
  "append_to_state E new_pdu db =
     step_then (get_or_create_shorteventid (env_short E) (pdu_event_id new_pdu) db) (\<lambda>shorteventid db.
     step_then (pdu_room_id (env_ruma E) new_pdu, db) (\<lambda>room db.
     step_then (get_room_shortstatehash room db, db) (\<lambda>previous_shortstatehash db.
     let db = (case previous_shortstatehash of
                 Some p \<Rightarrow> db_set_event_state shorteventid p db | None \<Rightarrow> db) in
     (case pdu_state_key new_pdu of
        Some state_key \<Rightarrow>
          step_then (load_parents (env_fuel E) (env_layers E) previous_shortstatehash db)
            (\<lambda>states_parents db.
          step_then (get_or_create_shortstatekey (env_short E)
                       (state_event_type (env_ruma E) (pdu_kind new_pdu)) state_key db)
            (\<lambda>shortstatekey db.
          step_then (compress_state_event (env_short E) shortstatekey (pdu_event_id new_pdu) db)
            (\<lambda>new db.
          let replaces = (if states_parents = [] then None
                else find (\<lambda>bs. starts_with bs (to_be_bytes shortstatekey))
                       (env_elems E (fst (snd (last states_parents))))) in
          if Some new = replaces then
            (ok_or (Panicked ''must exist'') previous_shortstatehash, db)
          else
            step_then (next_count db) (\<lambda>shortstatehash db.
              let statediffnew = {|new|};
                  statediffremoved = (case replaces of Some r \<Rightarrow> {|r|} | None \<Rightarrow> {||})
              in (Ok shortstatehash,
                  save_state_from_diff (env_elems E) shortstatehash statediffnew statediffremoved 2
                    states_parents db)))))
      | None \<Rightarrow>
          (ok_or (Panicked ''first event in room must be a state event'') previous_shortstatehash, db)))))"

section \<open>What the operations keep\<close>

definition env_ok :: "env \<Rightarrow> bool" where
  "env_ok E \<longleftrightarrow> iteration_order (env_elems E) \<and> 4 \<le> env_fuel E \<and> inj (env_sha256 E)"

text \<open>At most one event per state key, and every entry can be resolved.\<close>

definition state_functional :: "bytes fset \<Rightarrow> bool" where
  "state_functional S \<longleftrightarrow> (\<forall>a b. a |\<in>| S \<longrightarrow> b |\<in>| S \<longrightarrow> take 8 a = take 8 b \<longrightarrow> a = b)"

definition state_resolvable :: "'a short_db_scheme \<Rightarrow> bytes fset \<Rightarrow> bool" where
  "state_resolvable db S \<longleftrightarrow>
     (\<forall>a. a |\<in>| S \<longrightarrow> (\<exists>k n e. a = to_be_bytes k @ to_be_bytes n \<and> event_of_short db n = Some e))"

lemma state_fields_more:
  assumes "short_db.more db' = short_db.more db"
  shows "roomid_shortstatehash db' = roomid_shortstatehash db"
    "shorteventid_shortstatehash db' = shorteventid_shortstatehash db"
    "roomid_pduleaves db' = roomid_pduleaves db"
    "shortstatehash_statediff db' = shortstatehash_statediff db"
    "stateinfo_cache db' = stateinfo_cache db"
  using assms by (cases db; cases db'; simp)+

lemma state_inv_ext:
  assumes inv: "state_inv_but P R sha256 db" and s: "short_inv R db'" and le: "short_ext db db'"
    and h: "statehash_shortstatehash db' = statehash_shortstatehash db"
  shows "state_inv_but P R sha256 db'" "chain db' = chain db"
proof -
  have "short_db.more db' = short_db.more db" and cle: "count_of db \<le> count_of db'"
    using le by (simp_all add: short_ext_def)
  note f = state_fields_more [OF this(1)]
  show ch: "chain db' = chain db" by (intro ext chain_cong f)
  have st: "stored k db' = stored k db" for k by (simp add: stored_def f)
  have "diffs_inv db" using inv by (rule state_inv_diffs)
  then have "diffs_inv db'"
    using cle unfolding diffs_inv_def ch st f by (meson order_trans)
  then show "state_inv_but P R sha256 db'"
    using inv s unfolding state_inv_but_def ch st f h by simp
qed

lemma get_shortstatekey_frame:
  "\<exists>c. snd (get_shortstatekey ev ty sk db) = db\<lparr>statekeyshort_cache := c\<rparr>"
proof -
  have id: "\<exists>c. db = db\<lparr>statekeyshort_cache := c\<rparr>" by (intro exI [of _ "statekeyshort_cache db"]) simp
  then show ?thesis
    by (auto simp: get_shortstatekey_def split: option.splits)
qed

lemma short_inv_get_shortstatekey:
  assumes inv: "short_inv R db"
  shows "short_inv R (snd (get_shortstatekey ev ty sk db))"
proof -
  have I: "intern_inv (\<lambda>(ty, sk). statekey_bytes ty sk) (valid_statekey R)
      (statekey_shortstatekey db) (shortstatekey_statekey db)
      (statekeyshort_cache db) (shortstatekey_cache db) (count_of db)"
    using inv by (simp add: short_inv_def)
  have "short_inv R (db\<lparr>statekeyshort_cache := lru_insert e (ty, sk) n (statekeyshort_cache db)\<rparr>)"
    if "kv_get (statekey_shortstatekey db) (statekey_bytes ty sk) = Some (to_be_bytes n)" for e n
    using inv intern_inv_cache [OF I, of "(ty, sk)" n e] that by (simp add: short_inv_def)
  then show ?thesis
    using inv by (auto simp: get_shortstatekey_def u64_from_bytes_Some split: option.splits)
qed

lemma load_full_state_ok:
  assumes E: "env_ok E" and inv: "diffs_inv db" and S: "state_is db h S"
  shows "\<exists>c. load_full_state E h db = (Ok S, db\<lparr>stateinfo_cache := c\<rparr>)"
proof -
  obtain ls where ls: "chain db h ls" "top_state ls = S" using S by (auto simp: state_is_def)
  have "length ls \<le> env_fuel E" using stored_chain(2) [OF inv ls(1)] E by (simp add: env_ok_def)
  then obtain c where "load_shortstatehash_info (env_fuel E) (env_layers E) h db = (Ok ls, db\<lparr>stateinfo_cache := c\<rparr>)"
    using load_shortstatehash_info_ok [OF inv ls(1)] by blast
  then show ?thesis using chain_last [OF ls(1)] ls(2)
    by (simp add: load_full_state_def top_state_def) blast
qed

lemma parse_compressed_ok:
  assumes "short_inv R db" "event_of_short db n = Some e"
  shows "\<exists>db'. parse_compressed_state_event R ev (to_be_bytes k @ to_be_bytes n) db = (Ok (k, e), db')"
  using get_eventid_from_short_ok [OF assms, of ev]
  by (auto simp: parse_compressed_state_event_def)

lemma find_functional:
  assumes "iteration_order elems" "state_functional S" "a |\<in>| S" "take 8 a = to_be_bytes k"
  shows "find (\<lambda>bs. starts_with bs (to_be_bytes k)) (elems S) = Some a"
proof -
  have a: "a \<in> set (elems S)" "starts_with a (to_be_bytes k)"
    using assms by (auto simp: elems_set) (metis take_is_prefix)
  then obtain b where b: "find (\<lambda>bs. starts_with bs (to_be_bytes k)) (elems S) = Some b"
    by (cases "find (\<lambda>bs. starts_with bs (to_be_bytes k)) (elems S)") (auto simp: find_None_iff)
  then have "b \<in> set (elems S)" "starts_with b (to_be_bytes k)" by (auto simp: find_Some_iff)
  then have "b |\<in>| S" "take 8 b = to_be_bytes k" using assms(1) by (auto simp: elems_set prefix_def)
  then have "b = a" using assms(2-4) unfolding state_functional_def by metis
  then show ?thesis using b by simp
qed

lemma find_absent:
  assumes "iteration_order elems" "\<And>a. a |\<in>| S \<Longrightarrow> take 8 a \<noteq> to_be_bytes k"
  shows "find (\<lambda>bs. starts_with bs (to_be_bytes k)) (elems S) = None"
proof -
  have "\<not> starts_with a (to_be_bytes k)" if "a \<in> set (elems S)" for a
  proof
    assume "starts_with a (to_be_bytes k)"
    then have "take 8 a = to_be_bytes k" by (auto simp: prefix_def)
    then show False using assms that by (auto simp: elems_set)
  qed
  then show ?thesis by (auto simp: find_None_iff)
qed

lemma state_get_id_ok:
  assumes E: "env_ok E" and R: "R = env_ruma E" and inv: "state_inv_but P R sha256 db"
    and v: "valid_statekey R (ty, sk)" and S: "state_is db h S"
    and f: "state_functional S" and r: "state_resolvable db S"
  shows "\<exists>o' db'. state_get_id E h ty sk db = (Ok o', db') \<and>
    (\<forall>e. o' = Some e \<longleftrightarrow> (\<exists>k n. statekey_of_short db k = Some (ty, sk) \<and> event_of_short db n = Some e
        \<and> to_be_bytes k @ to_be_bytes n |\<in>| S))"
proof -
  have sinv: "short_inv R db" and dinv: "diffs_inv db" using inv by (auto simp: state_inv_but_def)
  have ord: "iteration_order (env_elems E)" using E by (simp add: env_ok_def)
  obtain o1 c1 where g: "get_shortstatekey (env_short E) ty sk db = (Ok o1, db\<lparr>statekeyshort_cache := c1\<rparr>)"
    using get_shortstatekey_iff(2) [OF sinv v, of "env_short E"] get_shortstatekey_frame [of "env_short E" ty sk db]
    by (metis prod.collapse)
  let ?db1 = "db\<lparr>statekeyshort_cache := c1\<rparr>"
  have k: "o1 = Some k \<longleftrightarrow> statekey_of_short db k = Some (ty, sk)" for k
    using get_shortstatekey_iff(1) [OF sinv v, of "env_short E"] g by simp
  show ?thesis
  proof (cases o1)
    case None
    then show ?thesis using g k by (simp add: state_get_id_def)
  next
    case (Some k')
    have sinv1: "short_inv R ?db1" using short_inv_get_shortstatekey [OF sinv, of "env_short E" ty sk] g by simp
    have ch: "chain ?db1 = chain db" by (intro ext chain_cong) simp
    have "diffs_inv ?db1" using dinv by (simp add: diffs_inv_def stored_def count_of_def ch)
    moreover have "state_is ?db1 h S" using S by (simp add: state_is_def ch)
    ultimately obtain c2 where l: "load_full_state E h ?db1 = (Ok S, ?db1\<lparr>stateinfo_cache := c2\<rparr>)"
      using load_full_state_ok [OF E] by blast
    let ?db2 = "?db1\<lparr>stateinfo_cache := c2\<rparr>"
    have sinv2: "short_inv R ?db2" using sinv1 by (simp add: short_inv_def globals_wf_def count_of_def)
    have ev: "event_of_short ?db2 = event_of_short db" by (simp add: event_of_short_def [abs_def])
    have uniq: "k = k'" if "statekey_of_short db k = Some (ty, sk)" for k using that k [of k] Some by simp
    show ?thesis
    proof (cases "\<exists>a. a |\<in>| S \<and> take 8 a = to_be_bytes k'")
      case True
      then obtain a where a: "a |\<in>| S" "take 8 a = to_be_bytes k'" by blast
      obtain n e where n: "a = to_be_bytes k' @ to_be_bytes n" "event_of_short db n = Some e"
        using r a unfolding state_resolvable_def by fastforce
      have fd: "find (\<lambda>bs. starts_with bs (to_be_bytes k')) (env_elems E S) = Some a"
        by (rule find_functional [OF ord f a])
      obtain db3 where p: "parse_compressed_state_event R (env_short E) a ?db2 = (Ok (k', e), db3)"
        using parse_compressed_ok [OF sinv2, of n e "env_short E" k'] n ev by auto
      have run: "state_get_id E h ty sk db = (Ok (Some e), db3)"
        using g Some l fd p by (simp add: state_get_id_def R)
      have "n' = n" if "to_be_bytes k' @ to_be_bytes n' |\<in>| S" for n'
        using f a(1) that n(1) unfolding state_functional_def by fastforce
      then have "Some e = Some e' \<longleftrightarrow> (\<exists>k n. statekey_of_short db k = Some (ty, sk) \<and> event_of_short db n = Some e'
        \<and> to_be_bytes k @ to_be_bytes n |\<in>| S)" for e'
        using n a(1) k [of k'] Some uniq by (metis option.inject)
      then show ?thesis using run by blast
    next
      case False
      then have "find (\<lambda>bs. starts_with bs (to_be_bytes k')) (env_elems E S) = None"
        using find_absent [OF ord, of S k'] by blast
      then have run: "state_get_id E h ty sk db = (Ok None, ?db2)"
        using g Some l by (simp add: state_get_id_def)
      have "\<not> to_be_bytes k' @ to_be_bytes n |\<in>| S" for n
      proof
        assume "to_be_bytes k' @ to_be_bytes n |\<in>| S"
        moreover have "take 8 (to_be_bytes k' @ to_be_bytes n) = to_be_bytes k'" by simp
        ultimately show False using False by blast
      qed
      then show ?thesis using run uniq by blast
    qed
  qed
qed

section \<open>Appending to the state of a room\<close>

lemma state_inv_next:
  assumes inv: "state_inv_but P R sha256 db" and b: "budget db (Suc m)"
  shows "state_inv_but P R sha256 (snd (next_count db))" "chain (snd (next_count db)) = chain db"
    "\<not> stored (count_of db + 1) (snd (next_count db))" "count_of db + 1 \<noteq> 0"
    "count_of db + 1 \<le> count_of (snd (next_count db))"
proof -
  let ?db = "snd (next_count db)"
  have s: "short_inv R db" using inv by (rule state_inv_short)
  have wf: "kv_wf (global db)" using s by (rule short_inv_wf)
  have more: "short_db.more ?db = short_db.more db" by simp
  note f = state_fields_more [OF more]
  have ext: "short_ext db ?db"
    using wf count_le_Suc [OF b]
    by (simp add: short_ext_def event_of_short_def [abs_def] statekey_of_short_def [abs_def] count_of_next)
  show "state_inv_but P R sha256 ?db" "chain ?db = chain db"
    using state_inv_ext [OF inv short_inv_next [OF s b] ext] by simp_all
  show "count_of db + 1 \<le> count_of ?db" using wf by (simp add: count_of_next)
  have lt: "count_of db < count_of db + 1"
    by (rule less_Suc_u64) (use b in \<open>auto simp: budget_def\<close>)
  then show "count_of db + 1 \<noteq> 0" by auto
  show "\<not> stored (count_of db + 1) ?db"
  proof
    assume "stored (count_of db + 1) ?db"
    then have "stored (count_of db + 1) db" by (simp add: stored_def f)
    then have "count_of db + 1 \<le> count_of db" using state_inv_diffs [OF inv] unfolding diffs_inv_def by blast
    then show False using lt by simp
  qed
qed

lemma state_inv_event_state:
  "state_inv_but P R sha256 db \<Longrightarrow> state_inv_but P R sha256 (db_set_event_state n h db)"
  "chain (db_set_event_state n h db) = chain db"
proof -
  show ch: "chain (db_set_event_state n h db) = chain db"
    by (intro ext chain_cong) (simp add: db_set_event_state_def)
  show "state_inv_but P R sha256 db \<Longrightarrow> state_inv_but P R sha256 (db_set_event_state n h db)"
    unfolding state_inv_but_def diffs_inv_def ch
    by (simp add: db_set_event_state_def stored_def count_of_def kv_intros)
qed

lemma state_inv_store:
  assumes inv: "state_inv_but P R sha256 db" and d: "diffs_inv db'"
    and keep: "\<And>h ls. chain db h ls \<Longrightarrow> chain db' h ls"
    and t: "db' = db\<lparr>shortstatehash_statediff := t\<rparr>"
  shows "state_inv_but P R sha256 db'"
proof -
  have st: "stored k db'" if s: "stored k db" for k
  proof -
    obtain ls where "chain db k ls" using s state_inv_diffs [OF inv] unfolding diffs_inv_def by blast
    then show ?thesis using keep stored_chain(3) [OF d] by blast
  qed
  have "\<exists>n. bs = to_be_bytes n \<and> stored n db'"
    if "kv_get (roomid_shortstatehash db) room = Some bs" for room bs
    using inv st that unfolding state_inv_but_def by blast
  moreover have "n \<in> P \<or> (\<exists>ks ls. bs = sha256 (join_sep ks) \<and> (\<forall>k \<in> set ks. length k = 16)
             \<and> chain db' n ls \<and> top_state ls = fset_of_list ks)"
    if "kv_get (statehash_shortstatehash db) bs = Some (to_be_bytes n)" for bs n
    using inv keep that unfolding state_inv_but_def by blast
  moreover have "short_inv R db'" "roomid_shortstatehash db' = roomid_shortstatehash db"
    "shorteventid_shortstatehash db' = shorteventid_shortstatehash db"
    "statehash_shortstatehash db' = statehash_shortstatehash db"
    "roomid_pduleaves db' = roomid_pduleaves db" using inv by (simp_all add: t state_inv_but_def)
  ultimately show ?thesis using inv d unfolding state_inv_but_def by auto
qed

text \<open>Replacing the entry of one state key.\<close>

definition state_put :: "u64 \<Rightarrow> u64 \<Rightarrow> bytes fset \<Rightarrow> bytes fset" where
  "state_put k n S = finsert (to_be_bytes k @ to_be_bytes n) (ffilter (\<lambda>a. take 8 a \<noteq> to_be_bytes k) S)"

lemma state_put_functional:
  assumes "state_functional S"
  shows "state_functional (state_put k n S)"
  using assms unfolding state_functional_def state_put_def by auto

lemma state_put_diff:
  assumes ord: "iteration_order elems" and f: "state_functional S"
    and new: "new = to_be_bytes k @ to_be_bytes n"
    and rep: "find (\<lambda>bs. starts_with bs (to_be_bytes k)) (elems S) = rep"
    and ne: "Some new \<noteq> rep"
  shows "{|new|} |\<inter>| S = {||}" "(case rep of Some r \<Rightarrow> {|r|} | None \<Rightarrow> {||}) |\<subseteq>| S"
    "S |\<union>| {|new|} |-| (case rep of Some r \<Rightarrow> {|r|} | None \<Rightarrow> {||}) = state_put k n S"
proof -
  have k: "take 8 new = to_be_bytes k" by (simp add: new)
  have absent: "new |\<notin>| S" using find_functional [OF ord f _ k] rep ne by auto
  then show "{|new|} |\<inter>| S = {||}" by simp
  show "(case rep of Some r \<Rightarrow> {|r|} | None \<Rightarrow> {||}) |\<subseteq>| S"
    using rep ord by (auto simp: find_Some_iff elems_set split: option.splits) (metis elems_set nth_mem ord)
  have only: "(case rep of Some r \<Rightarrow> a = r | None \<Rightarrow> False) \<longleftrightarrow> take 8 a = to_be_bytes k" if "a |\<in>| S" for a
  proof (cases rep)
    case None
    then show ?thesis using find_functional [OF ord f that] rep by auto
  next
    case (Some r)
    then have "starts_with r (to_be_bytes k)" using rep by (auto simp: find_Some_iff)
    then have "take 8 r = to_be_bytes k" by (auto simp: prefix_def)
    then show ?thesis using find_functional [OF ord f that] rep Some by auto
  qed
  have "take 8 r = to_be_bytes k" if "rep = Some r" for r
    using rep that by (auto simp: find_Some_iff prefix_def)
  moreover have "rep \<noteq> Some new" using ne by simp
  ultimately show "S |\<union>| {|new|} |-| (case rep of Some r \<Rightarrow> {|r|} | None \<Rightarrow> {||}) = state_put k n S"
    using only unfolding state_put_def new by (auto simp: fset_eq_iff split: option.splits)
qed

lemma state_put_same:
  assumes "state_functional S" "to_be_bytes k @ to_be_bytes n |\<in>| S"
  shows "state_put k n S = S"
proof -
  have "a = to_be_bytes k @ to_be_bytes n" if "a |\<in>| S" "take 8 a = to_be_bytes k" for a
  proof -
    have "take 8 (to_be_bytes k @ to_be_bytes n) = to_be_bytes k" by simp
    then show ?thesis using assms that unfolding state_functional_def by metis
  qed
  then show ?thesis
    using assms(2) unfolding state_put_def by (intro fset_eqI, unfold finsert_iff ffmember_filter) blast
qed

text \<open>
  The part of \<open>append_to_state\<close> before the diff is written: the short ids exist and the old state
  is loaded.
\<close>

lemma append_to_state_prefix:
  assumes E: "env_ok E" and R: "R = env_ruma E"
    and inv: "state_inv R sha256 db" and b: "budget db (Suc (Suc (Suc (Suc m))))"
    and e: "valid_event R (pdu_event_id pdu)" and room: "pdu_room_id R pdu = Ok room"
    and sk: "pdu_state_key pdu = Some sk" and ty: "ty = state_event_type R (pdu_kind pdu)"
    and v: "valid_statekey R (ty, sk)" and prev: "get_room_shortstatehash room db = Ok prev"
    and P: "case prev of None \<Rightarrow> P = {||} | Some p \<Rightarrow> state_is db p P"
  shows "\<exists>k n ps db5. append_to_state E pdu db =
      (let new = to_be_bytes k @ to_be_bytes n;
           rep = find (\<lambda>bs. starts_with bs (to_be_bytes k)) (env_elems E P)
       in if Some new = rep then (ok_or (Panicked ''must exist'') prev, db5)
          else step_then (next_count db5) (\<lambda>h db. (Ok h, save_state_from_diff (env_elems E) h {|new|}
              (case rep of Some r \<Rightarrow> {|r|} | None \<Rightarrow> {||}) 2 ps db)))
     \<and> state_inv R sha256 db5 \<and> chain db5 = chain db \<and> budget db5 (Suc m) \<and> k \<noteq> 0
     \<and> statekey_of_short db5 k = Some (ty, sk) \<and> event_of_short db5 n = Some (pdu_event_id pdu)
     \<and> exact {||} ps \<and> top_state ps = P \<and> (ps = [] \<or> chain db (fst (last ps)) ps)"
proof -
  let ?ev = "env_short E" and ?e = "pdu_event_id pdu"
  have ord: "iteration_order (env_elems E)" and fuel: "4 \<le> env_fuel E" using E by (auto simp: env_ok_def)
  have sinv: "short_inv R db" using inv by (rule state_inv_short)
  obtain n db1 where 1: "get_or_create_shorteventid ?ev ?e db = (Ok n, db1)" "short_inv R db1"
      "budget db1 (Suc (Suc (Suc m)))" "event_of_short db1 n = Some ?e" "short_ext db db1"
    using get_or_create_shorteventid_ok [OF sinv e b] by blast
  have "statehash_shortstatehash db1 = statehash_shortstatehash db"
    using get_or_create_statehash_same(1) [of ?ev ?e db] 1(1) by simp
  note inv1 = state_inv_ext [OF inv 1(2,5) this]
  have more1: "short_db.more db1 = short_db.more db" using 1(5) by (simp add: short_ext_def)
  have prev1: "get_room_shortstatehash room db1 = Ok prev"
    using prev by (simp add: get_room_shortstatehash_def state_fields_more [OF more1])
  define db2 where "db2 = (case prev of Some p \<Rightarrow> db_set_event_state n p db1 | None \<Rightarrow> db1)"
  have inv2: "state_inv R sha256 db2" and ch2: "chain db2 = chain db"
    using inv1 by (auto simp: db2_def state_inv_event_state split: option.splits)
  have 2: "event_of_short db2 = event_of_short db1" "budget db2 (Suc (Suc (Suc m)))"
    using 1(3) by (auto simp: db2_def db_set_event_state_def event_of_short_def [abs_def] budget_def
        count_of_def split: option.splits)
  have "\<forall>p. prev = Some p \<longrightarrow> (\<exists>ls. chain db2 p ls)" using P ch2 by (auto simp: state_is_def)
  from load_parents_ok [OF inv2 fuel this, of "env_layers E"]
  obtain ps c where 3: "load_parents (env_fuel E) (env_layers E) prev db2 = (Ok ps, db2\<lparr>stateinfo_cache := c\<rparr>)"
    "state_inv R sha256 (db2\<lparr>stateinfo_cache := c\<rparr>)" "exact {||} ps"
    "case prev of None \<Rightarrow> ps = [] | Some p \<Rightarrow> chain db2 p ps" by blast
  let ?db3 = "db2\<lparr>stateinfo_cache := c\<rparr>"
  have "chain ?db3 = chain db2" by (intro ext chain_cong) simp
  then have ch3: "chain ?db3 = chain db" using ch2 by simp
  have top: "top_state ps = P"
  proof (cases prev)
    case (Some p)
    then have "state_is db p (top_state ps)" using 3(4) ch2 by (auto simp: state_is_def)
    then show ?thesis using P Some state_is_unique by auto
  qed (use 3(4) P in simp)
  have b3: "budget ?db3 (Suc (Suc (Suc m)))" using 2(2) by (simp add: budget_def count_of_def)
  obtain k db4 where 4: "get_or_create_shortstatekey ?ev ty sk ?db3 = (Ok k, db4)" "short_inv R db4"
      "budget db4 (Suc (Suc m))" "statekey_of_short db4 k = Some (ty, sk)" "short_ext ?db3 db4"
    using get_or_create_shortstatekey_ok [OF state_inv_short [OF 3(2)] v b3] by blast
  have "statehash_shortstatehash db4 = statehash_shortstatehash ?db3"
    using get_or_create_statehash_same(2) [of ?ev ty sk ?db3] 4(1) by simp
  note inv4 = state_inv_ext [OF 3(2) 4(2,5) this]
  obtain n' db5 where 5: "get_or_create_shorteventid ?ev ?e db4 = (Ok n', db5)" "short_inv R db5"
      "budget db5 (Suc m)" "event_of_short db5 n' = Some ?e" "short_ext db4 db5"
    using get_or_create_shorteventid_ok [OF 4(2) e 4(3)] by blast
  have "statehash_shortstatehash db5 = statehash_shortstatehash db4"
    using get_or_create_statehash_same(1) [of ?ev ?e db4] 5(1) by simp
  note inv5 = state_inv_ext [OF inv4(1) 5(2,5) this]
  have ch5: "chain db5 = chain db" using inv5(2) inv4(2) ch3 by simp
  have k5: "statekey_of_short db5 k = Some (ty, sk)"
    using 4(4) 5(5) by (auto simp: short_ext_def map_le_def dom_def)
  have k0: "k \<noteq> 0" by (rule short_nonzero(1) [OF 5(2) k5])
  let ?new = "to_be_bytes k @ to_be_bytes n'"
  have comp: "compress_state_event ?ev k ?e db4 = (Ok ?new, db5)" using 5(1) by (simp add: compress_state_event_def)
  define rep where "rep = (if ps = [] then None
      else find (\<lambda>bs. starts_with bs (to_be_bytes k)) (env_elems E (fst (snd (last ps)))))"
  have rep: "find (\<lambda>bs. starts_with bs (to_be_bytes k)) (env_elems E P) = rep"
    using top find_absent [OF ord, of "{||}" k] by (auto simp: rep_def top_state_def split: if_splits)
  have "append_to_state E pdu db =
      (let new = to_be_bytes k @ to_be_bytes n';
           rep = find (\<lambda>bs. starts_with bs (to_be_bytes k)) (env_elems E P)
       in if Some new = rep then (ok_or (Panicked ''must exist'') prev, db5)
          else step_then (next_count db5) (\<lambda>h db. (Ok h, save_state_from_diff (env_elems E) h {|new|}
              (case rep of Some r \<Rightarrow> {|r|} | None \<Rightarrow> {||}) 2 ps db)))"
    unfolding append_to_state_def using 1(1) room prev1 sk 3(1) 4(1) comp
    by (simp add: R [symmetric] ty [symmetric] Let_def db2_def [symmetric] rep_def [symmetric] rep)
  moreover have "ps = [] \<or> chain db (fst (last ps)) ps"
    using 3(4) ch2 chain_last by (fastforce split: option.splits)
  ultimately show ?thesis using inv5(1) ch5 5(3,4) k0 k5 3(3) top by blast
qed

lemma append_to_state_ok:
  assumes E: "env_ok E" and R: "R = env_ruma E"
    and inv: "state_inv R sha256 db" and b: "budget db (Suc (Suc (Suc (Suc m))))"
    and e: "valid_event R (pdu_event_id pdu)" and room: "pdu_room_id R pdu = Ok room"
    and sk: "pdu_state_key pdu = Some sk" and ty: "ty = state_event_type R (pdu_kind pdu)"
    and v: "valid_statekey R (ty, sk)" and prev: "get_room_shortstatehash room db = Ok prev"
    and P: "case prev of None \<Rightarrow> P = {||} | Some p \<Rightarrow> state_is db p P" and f: "state_functional P"
  shows "\<exists>h k n db'. append_to_state E pdu db = (Ok h, db') \<and> state_inv R sha256 db'
     \<and> statekey_of_short db' k = Some (ty, sk) \<and> event_of_short db' n = Some (pdu_event_id pdu)
     \<and> state_is db' h (state_put k n P) \<and> (\<forall>h' S. state_is db h' S \<longrightarrow> state_is db' h' S)"
proof -
  have ord: "iteration_order (env_elems E)" using E by (auto simp: env_ok_def)
  obtain k n ps db5 rep where run: "append_to_state E pdu db =
        (if Some (to_be_bytes k @ to_be_bytes n) = rep then (ok_or (Panicked ''must exist'') prev, db5)
          else step_then (next_count db5) (\<lambda>h db. (Ok h, save_state_from_diff (env_elems E) h
              {|to_be_bytes k @ to_be_bytes n|} (case rep of Some r \<Rightarrow> {|r|} | None \<Rightarrow> {||}) 2 ps db)))"
    and rep: "find (\<lambda>bs. starts_with bs (to_be_bytes k)) (env_elems E P) = rep"
    and 5: "state_inv R sha256 db5" "chain db5 = chain db" "budget db5 (Suc m)" "k \<noteq> 0"
      "statekey_of_short db5 k = Some (ty, sk)" "event_of_short db5 n = Some (pdu_event_id pdu)"
      "exact {||} ps" "top_state ps = P" "ps = [] \<or> chain db (fst (last ps)) ps"
    using append_to_state_prefix [OF E R inv b e room sk ty v prev P] unfolding Let_def by blast
  let ?new = "to_be_bytes k @ to_be_bytes n"
  show ?thesis
  proof (cases "Some ?new = rep")
    case True
    then have "?new |\<in>| P" using rep ord by (metis elems_set find_Some_iff nth_mem)
    then have same: "state_put k n P = P" by (rule state_put_same [OF f])
    obtain p where p: "prev = Some p" using P \<open>?new |\<in>| P\<close> by (cases prev) auto
    then have "append_to_state E pdu db = (Ok p, db5)" using run True by simp
    moreover have "state_is db5 p (state_put k n P)" using P p same 5(2) by (simp add: state_is_def)
    ultimately show ?thesis using 5(1,2,5,6) by (auto simp: state_is_def)
  next
    case False
    let ?db6 = "snd (next_count db5)" and ?h = "count_of db5 + 1"
    let ?D = "case rep of Some r \<Rightarrow> {|r|} | None \<Rightarrow> {||}"
    note diff = state_put_diff [OF ord f refl rep False]
    note nx = state_inv_next [OF 5(1,3)]
    have chps: "ps = [] \<or> chain ?db6 (fst (last ps)) ps" using 5(2,9) nx(2) by simp
    have comp: "\<forall>a |\<in>| {|?new|}. compressed a" using 5(4) by (auto simp: compressed_def prefix_def)
    note sv = save_state_from_diff_ok [OF ord state_inv_diffs [OF nx(1)] nx(4,5,3) 5(7) chps
        diff(1,2) [folded 5(8)] comp, where k = 2]
    obtain t where t: "save_state_from_diff (env_elems E) ?h {|?new|} ?D 2 ps ?db6
        = ?db6\<lparr>shortstatehash_statediff := t\<rparr>" using sv(4) by blast
    have "append_to_state E pdu db = (Ok ?h, ?db6\<lparr>shortstatehash_statediff := t\<rparr>)"
      using run False t by (subst (asm) next_count_pair) simp
    moreover have "state_inv R sha256 (?db6\<lparr>shortstatehash_statediff := t\<rparr>)"
      by (rule state_inv_store [OF nx(1) sv(1,3) [unfolded t] refl])
    moreover have "state_is (?db6\<lparr>shortstatehash_statediff := t\<rparr>) ?h (state_put k n P)"
      using sv(2) unfolding t 5(8) diff(3) .
    moreover have "state_is (?db6\<lparr>shortstatehash_statediff := t\<rparr>) h' S" if "state_is db h' S" for h' S
      using that sv(3) [unfolded t] nx(2) 5(2) unfolding state_is_def by metis
    ultimately show ?thesis using 5(5,6)
      by (intro exI [of _ ?h] exI [of _ k] exI [of _ n] exI [of _ "?db6\<lparr>shortstatehash_statediff := t\<rparr>"])
         (simp add: event_of_short_def statekey_of_short_def)
  qed
qed

section \<open>Properties\<close>

definition sample_env :: env where
  "sample_env = \<lparr>env_ruma = accept_all, env_short = evict_nothing, env_layers = (\<lambda>_ _. {}), env_pdus = (\<lambda>_ _. {}),
     env_elems = sorted_list_of_fset, env_fuel = 4, env_sha256 = id\<rparr>"

lemma sample_env_ok: "env_ok sample_env"
  by (simp add: env_ok_def sample_env_def sorted_iteration)

lemma sample_valid: "valid_event accept_all (pdu_event_id sample_pdu)"
  "pdu_room_id accept_all sample_pdu = Ok (ascii ''!r'')" "valid_statekey accept_all (ascii ''m.room.name'', [])"
  "pdu_state_key sample_pdu = Some []" "ascii ''m.room.name'' = state_event_type accept_all (pdu_kind sample_pdu)"
  "accept_all = env_ruma sample_env"
  by (simp_all add: sample_pdu_def valid_event_def valid_statekey_def accept_all_def ascii_def pdu_room_id_def
      sample_env_def)

lemma no_state: "state_functional {||}" "case None of None \<Rightarrow> {||} = {||} | Some p \<Rightarrow> state_is empty_state_db p {||}"
  by (simp_all add: state_functional_def)

text \<open>
  C5: putting a state event into the room state gives a number for the state in which the event
  holds its key (type and state key) and every other key keeps its event; the previous states stay
  readable.
\<close>

theorem append_to_state_correct:
  assumes "env_ok E" "R = env_ruma E" "state_inv R sha256 db" "budget db 4"
    and "valid_event R (pdu_event_id pdu)" "pdu_room_id R pdu = Ok room" "pdu_state_key pdu = Some sk"
    and "ty = state_event_type R (pdu_kind pdu)" "valid_statekey R (ty, sk)"
    and "get_room_shortstatehash room db = Ok prev"
    and "case prev of None \<Rightarrow> P = {||} | Some p \<Rightarrow> state_is db p P" "state_functional P"
  shows "\<exists>h k n db'. append_to_state E pdu db = (Ok h, db') \<and> state_inv R sha256 db'
     \<and> statekey_of_short db' k = Some (ty, sk) \<and> event_of_short db' n = Some (pdu_event_id pdu)
     \<and> state_is db' h (state_put k n P) \<and> (\<forall>h' S. state_is db h' S \<longrightarrow> state_is db' h' S)"
  by (rule append_to_state_ok [where m = 0]) (use assms in \<open>auto simp: numeral_eq_Suc\<close>)

theorem append_to_state_correct_witness:
  "\<exists>h k n db'. append_to_state sample_env sample_pdu empty_state_db = (Ok h, db')
     \<and> state_is db' h (state_put k n {||}) \<and> event_of_short db' n = Some (pdu_event_id sample_pdu)"
proof -
  have b: "budget empty_state_db 4" by (simp add: budget_def empty_state_inv)
  show ?thesis
    using append_to_state_correct [OF sample_env_ok sample_valid(6) empty_state_inv(1) b sample_valid(1,2,4,5,3)
        empty_state_inv(3) no_state(2,1)] by blast
qed

text \<open>
  C24: asking a stored state for a key answers with exactly the event that holds the key in it, and
  with nothing when no event does.
\<close>

theorem state_get_id_correct:
  assumes "env_ok E" "R = env_ruma E" "state_inv_but P R sha256 db" "valid_statekey R (ty, sk)"
    and "state_is db h S" "state_functional S" "state_resolvable db S"
  shows "\<exists>o' db'. state_get_id E h ty sk db = (Ok o', db') \<and>
    (\<forall>e. o' = Some e \<longleftrightarrow> (\<exists>k n. statekey_of_short db k = Some (ty, sk) \<and> event_of_short db n = Some e
        \<and> to_be_bytes k @ to_be_bytes n |\<in>| S))"
  using assms by (rule state_get_id_ok)

theorem state_get_id_correct_witness:
  "\<exists>h db' db''. append_to_state sample_env sample_pdu empty_state_db = (Ok h, db')
     \<and> state_get_id sample_env h (ascii ''m.room.name'') [] db' = (Ok (Some (ascii ''$a'')), db'')"
proof -
  have b: "budget empty_state_db (Suc (Suc (Suc (Suc 0))))" by (simp add: budget_def empty_state_inv)
  note v = sample_valid and f = no_state
  obtain h k n db' where a: "append_to_state sample_env sample_pdu empty_state_db = (Ok h, db')"
      "state_inv accept_all id db'" "statekey_of_short db' k = Some (ascii ''m.room.name'', [])"
      "event_of_short db' n = Some (pdu_event_id sample_pdu)" "state_is db' h (state_put k n {||})"
    using append_to_state_ok [OF sample_env_ok v(6) empty_state_inv(1) b v(1,2,4,5,3) empty_state_inv(3) f(2,1)]
    by blast
  have S: "state_put k n {||} = {|to_be_bytes k @ to_be_bytes n|}"
    by (auto simp: state_put_def fset_eq_iff)
  then have p: "state_functional (state_put k n {||})" "state_resolvable db' (state_put k n {||})"
    using a(4) by (auto simp: state_functional_def state_resolvable_def)
  show ?thesis using state_get_id_correct [OF sample_env_ok v(6) a(2) v(3) a(5) p] a(1,3,4) S
    by (force simp: sample_pdu_def)
qed

end
