(* ===== verification/AuthChain.thy ===== *)
theory AuthChain
  imports RoomState
begin

text \<open>
  Auth chains: \<^verbatim>\<open>server/src/service/rooms/auth_chain/mod.rs\<close> (the worklist that follows
  \<open>auth_events\<close>, and its caching by buckets) and \<^verbatim>\<open>server/src/database/key_value/rooms/auth_chain.rs\<close>
  (the stored form of a chain). The worklist loop runs on fuel, \<open>None\<close> meaning that the fuel ran
  out; the lemmas show how much is enough.
\<close>

record authchain_db = timeline_db +
  shorteventid_authchain :: kvtree
  auth_chain_cache :: "u64 list \<rightharpoonup> u64 fset"

section \<open>The cache of chains\<close>

text \<open>\<open>chunks_exact(8)\<close>: a remainder of fewer than eight bytes is dropped.\<close>

fun chunks_exact :: "nat \<Rightarrow> bytes \<Rightarrow> bytes list" where
  "chunks_exact n bs =
     (if n = 0 \<or> length bs < n then [] else take n bs # chunks_exact n (drop n bs))"

declare chunks_exact.simps [simp del]

definition get_cached_eventid_authchain ::
  "(u64 list, u64 fset) evict \<Rightarrow> u64 list \<Rightarrow> 'a authchain_db_scheme
     \<Rightarrow> u64 fset option result \<times> 'a authchain_db_scheme" where
  "get_cached_eventid_authchain ev key db =
     (case auth_chain_cache db key of
        Some result \<Rightarrow> (Ok (Some result), db)
      | None \<Rightarrow>
          (case key of
             [k] \<Rightarrow>
               (case kv_get (shorteventid_authchain db) (to_be_bytes k) of
                  None \<Rightarrow> (Ok None, db)
                | Some bs \<Rightarrow>
                    (case collect_result (map (\<lambda>c. ok_or (Panicked ''byte length is correct'')
                             (u64_from_bytes c)) (chunks_exact 8 bs)) of
                       Inl e \<Rightarrow> (Err e, db)
                     | Inr ns \<Rightarrow>
                         (let chain = fset_of_list ns
                          in (Ok (Some chain),
                              db\<lparr>auth_chain_cache := lru_insert ev [k] chain (auth_chain_cache db)\<rparr>))))
           | _ \<Rightarrow> (Ok None, db)))"

definition cache_auth_chain ::
  "(u64 list, u64 fset) evict \<Rightarrow> (u64 fset \<Rightarrow> u64 list) \<Rightarrow> u64 list \<Rightarrow> u64 fset
     \<Rightarrow> 'a authchain_db_scheme \<Rightarrow> 'a authchain_db_scheme" where
  "cache_auth_chain ev elems key auth_chain db =
     (let db = (case key of
                  [k] \<Rightarrow> db\<lparr>shorteventid_authchain := kv_insert (shorteventid_authchain db)
                           (to_be_bytes k) (concat (map to_be_bytes (elems auth_chain)))\<rparr>
                | _ \<Rightarrow> db)
      in db\<lparr>auth_chain_cache := lru_insert ev key auth_chain (auth_chain_cache db)\<rparr>)"

section \<open>The worklist\<close>

text \<open>The inner \<open>for\<close> loop; the head of \<open>todo\<close> is the top of the stack.\<close>

fun push_auth_events ::
  "env \<Rightarrow> str list \<Rightarrow> str list \<Rightarrow> u64 fset \<Rightarrow> 'a short_db_scheme
     \<Rightarrow> (str list \<times> u64 fset) result \<times> 'a short_db_scheme" where
  "push_auth_events E [] todo found db = (Ok (todo, found), db)"
| "push_auth_events E (auth_event # as) todo found db =
     step_then (get_or_create_shorteventid (env_short E) auth_event db) (\<lambda>sauthevent db.
       if sauthevent |\<notin>| found
       then push_auth_events E as (auth_event # todo) (finsert sauthevent found) db
       else push_auth_events E as todo found db)"

fun auth_chain_loop ::
  "nat \<Rightarrow> env \<Rightarrow> 'j pdu_codec \<Rightarrow> str \<Rightarrow> str list \<Rightarrow> u64 fset \<Rightarrow> 'a timeline_db_scheme
     \<Rightarrow> (u64 fset result \<times> 'a timeline_db_scheme) option" where
  "auth_chain_loop 0 E C room todo found db = None"
| "auth_chain_loop (Suc fuel) E C room [] found db = Some (Ok found, db)"
| "auth_chain_loop (Suc fuel) E C room (e # todo) found db =
     (case get_pdu C (env_pdus E) e db of
        (Inr (Some pdu), db) \<Rightarrow>
          (case pdu_room_id (env_ruma E) pdu of
             Inl err \<Rightarrow> Some (Err err, db)
           | Inr r \<Rightarrow>
               if r \<noteq> room then Some (Err (BadRequest Forbidden ''Evil event in db''), db)
               else
                 (case push_auth_events E (pdu_auth_events pdu) todo found db of
                    (Inl err, db) \<Rightarrow> Some (Err err, db)
                  | (Inr (todo, found), db) \<Rightarrow> auth_chain_loop fuel E C room todo found db))
      | (Inr None, db) \<Rightarrow> auth_chain_loop fuel E C room todo found db
      | (Inl err, db) \<Rightarrow> auth_chain_loop fuel E C room todo found db)"

definition get_auth_chain_inner ::
  "nat \<Rightarrow> env \<Rightarrow> 'j pdu_codec \<Rightarrow> str \<Rightarrow> str \<Rightarrow> 'a timeline_db_scheme
     \<Rightarrow> (u64 fset result \<times> 'a timeline_db_scheme) option" where
  "get_auth_chain_inner fuel E C room e db = auth_chain_loop fuel E C room [e] {||} db"

section \<open>The cache stores what it is given\<close>

lemma chunks_exact_concat: "chunks_exact 8 (concat (map to_be_bytes ns)) = map to_be_bytes ns"
proof (induction ns)
  case (Cons n ns)
  then show ?case by (subst chunks_exact.simps) simp
qed (subst chunks_exact.simps, simp)

lemma lru_insert_same: "lru_insert ev k v c k = Some v \<or> lru_insert ev k v c k = None"
  by (auto simp: lru_insert_def restrict_map_def)

text \<open>Whatever the LRU cache drops, a chain cached for one event is read back as it was.\<close>

lemma cached_authchain_round_trip:
  assumes "kv_wf (shorteventid_authchain db)" "iteration_order elems"
  shows "fst (get_cached_eventid_authchain ev' [k] (cache_auth_chain ev elems [k] ids db)) = Ok (Some ids)"
proof -
  have "collect_result (map (\<lambda>c. ok_or (Panicked ''byte length is correct'') (u64_from_bytes c))
      (map to_be_bytes (elems ids))) = Ok (elems ids)"
    by (simp add: comp_def collect_result_map_Inr [where g = "\<lambda>x. x", simplified])
  then show ?thesis using assms lru_insert_same [of ev "[k]" ids "auth_chain_cache db"]
    by (auto simp: get_cached_eventid_authchain_def cache_auth_chain_def Let_def kv_get_insert
        chunks_exact_concat elems_fset)
qed

section \<open>The worklist computes reachability\<close>

text \<open>The uncached lookup of \<open>get_pdu\<close>, and a view of the stored events that it agrees with.\<close>

definition lookup_pdu :: "'j pdu_codec \<Rightarrow> str \<Rightarrow> 'a timeline_db_scheme \<Rightarrow> pdu option result" where
  "lookup_pdu C e db =
     and_then (get_non_outlier_pdu C e db) (\<lambda>r.
       case r of
         Some x \<Rightarrow> Ok (Some x)
       | None \<Rightarrow> map_transpose (\<lambda>bs. ok_or (BadDatabase ''Invalid PDU in db.'') (pdu_dec C bs))
                   (kv_get (eventid_outlierpdu db) e))"

definition events_are :: "'j pdu_codec \<Rightarrow> (str \<rightharpoonup> pdu) \<Rightarrow> 'a timeline_db_scheme \<Rightarrow> bool" where
  "events_are C pdus db \<longleftrightarrow> (\<forall>e. lookup_pdu C e db = Ok (pdus e))
     \<and> (\<forall>e p. pdu_cache db e = Some p \<longrightarrow> pdus e = Some p)"

definition auth_edge :: "(str \<rightharpoonup> pdu) \<Rightarrow> str \<Rightarrow> str \<Rightarrow> bool" where
  "auth_edge pdus a b \<longleftrightarrow> (\<exists>p. pdus a = Some p \<and> b \<in> set (pdu_auth_events p))"

lemma get_pdu_ok:
  assumes "events_are C pdus db"
  shows "\<exists>c. get_pdu C ev e db = (Ok (pdus e), db\<lparr>pdu_cache := c\<rparr>) \<and> events_are C pdus (db\<lparr>pdu_cache := c\<rparr>)"
proof -
  have look: "lookup_pdu C e' (db\<lparr>pdu_cache := c\<rparr>) = lookup_pdu C e' db" for e' c
    by (simp add: lookup_pdu_def get_non_outlier_pdu_def get_non_outlier_def cong: option.case_cong)
  have keep: "events_are C pdus (db\<lparr>pdu_cache := lru_insert ev e p (pdu_cache db)\<rparr>)" if "pdus e = Some p" for p
    using assms that by (auto simp: events_are_def look dest!: lru_insert_Some)
  show ?thesis
  proof (cases "pdu_cache db e")
    case (Some p)
    then have "get_pdu C ev e db = (Ok (pdus e), db)" using assms by (simp add: get_pdu_def events_are_def)
    then show ?thesis using assms by (intro exI [of _ "pdu_cache db"]) simp
  next
    case None
    have l: "lookup_pdu C e db = Ok (pdus e)" using assms by (simp add: events_are_def)
    show ?thesis
    proof (cases "pdus e")
      case None
      then have "get_pdu C ev e db = (Ok None, db)"
        using l \<open>pdu_cache db e = None\<close> by (simp add: get_pdu_def lookup_pdu_def)
      then show ?thesis using None assms by (intro exI [of _ "pdu_cache db"]) simp
    next
      case (Some p)
      then have "get_pdu C ev e db = (Ok (Some p), db\<lparr>pdu_cache := lru_insert ev e p (pdu_cache db)\<rparr>)"
        using l None by (simp add: get_pdu_def lookup_pdu_def)
      then show ?thesis using Some keep by auto
    qed
  qed
qed

lemma timeline_fields_more:
  assumes "short_db.more db' = short_db.more db"
  shows "pduid_pdu db' = pduid_pdu db" "eventid_pduid db' = eventid_pduid db"
    "eventid_outlierpdu db' = eventid_outlierpdu db" "pdu_cache db' = pdu_cache db"
  using assms by (cases db; cases db'; simp)+

lemma events_are_ext:
  assumes "events_are C pdus db" "short_ext db db'"
  shows "events_are C pdus db'"
proof -
  have "short_db.more db' = short_db.more db" using assms(2) by (simp add: short_ext_def)
  note f = timeline_fields_more [OF this]
  show ?thesis using assms(1)
    by (simp add: events_are_def lookup_pdu_def get_non_outlier_pdu_def get_non_outlier_def f
        cong: option.case_cong)
qed

text \<open>
  Interning an event that has a short id draws no number: the counter needs room only for the
  events of \<open>U\<close> that have none yet.
\<close>

definition room_for :: "str set \<Rightarrow> 'a short_db_scheme \<Rightarrow> bool" where
  "room_for U db \<longleftrightarrow> unat (count_of db) + card {u \<in> U. \<forall>n. event_of_short db n \<noteq> Some u} + 1 < 2 ^ 64"

lemma get_or_create_count:
  assumes inv: "short_inv R db"
  shows "count_of (snd (get_or_create_shorteventid ev e db)) =
     (if \<exists>n. event_of_short db n = Some e then count_of db else count_of db + 1)"
proof -
  have I: "intern_inv id (valid_event R) (eventid_shorteventid db) (shorteventid_eventid db)
         (eventidshort_cache db) (shorteventid_cache db) (count_of db)"
    using inv by (simp add: short_inv_def)
  have num: "\<exists>n. b = to_be_bytes n" if "kv_get (eventid_shorteventid db) e = Some b" for b
    using I that unfolding intern_inv_def interned_def issued_def by blast
  have cache: "kv_get (eventid_shorteventid db) e = Some (to_be_bytes n)"
    if "eventidshort_cache db e = Some n" for n using I that by (simp add: intern_inv_def)
  have wf: "kv_wf (global db)" using inv by (rule short_inv_wf)
  show ?thesis
  proof (cases "kv_get (eventid_shorteventid db) e")
    case None
    then have "eventidshort_cache db e = None" using cache by (cases "eventidshort_cache db e") auto
    then show ?thesis using None event_of_short_iff [OF inv, of _ e]
      by (subst get_or_create_shorteventid_def, subst next_count_pair) (simp add: count_of_next wf)
  next
    case (Some b)
    then obtain n where "b = to_be_bytes n" using num by blast
    then show ?thesis using Some event_of_short_iff [OF inv, of _ e]
      by (auto simp: get_or_create_shorteventid_def split: option.splits)
  qed
qed

lemma intern_in_universe:
  assumes inv: "short_inv R db" and e: "valid_event R e" and U: "finite U" "e \<in> U" and r: "room_for U db"
  shows "\<exists>n db'. get_or_create_shorteventid ev e db = (Ok n, db') \<and> short_inv R db' \<and> room_for U db'
     \<and> event_of_short db' n = Some e \<and> short_ext db db'"
proof -
  have "budget db (Suc 0)" using r by (simp add: room_for_def budget_def)
  then obtain n db' where g: "get_or_create_shorteventid ev e db = (Ok n, db')" "short_inv R db'"
      "event_of_short db' n = Some e" "short_ext db db'"
    using get_or_create_shorteventid_ok [OF inv e] by blast
  let ?free = "\<lambda>db. {u \<in> U. \<forall>n. event_of_short db n \<noteq> Some u}"
  have sub: "?free db' \<subseteq> ?free db" using g(4) by (auto simp: short_ext_def map_le_def dom_def)
  have c: "count_of db' = (if \<exists>n. event_of_short db n = Some e then count_of db else count_of db + 1)"
    using get_or_create_count [OF inv, of ev e] g(1) by simp
  have "room_for U db'"
  proof (cases "\<exists>n. event_of_short db n = Some e")
    case True
    have "card (?free db') \<le> card (?free db)" using sub U(1) by (intro card_mono) auto
    then show ?thesis using c True r by (simp add: room_for_def)
  next
    case False
    then have "e \<in> ?free db" "e \<notin> ?free db'" using U(2) g(3) by auto
    then have "card (?free db') < card (?free db)" using sub U(1) by (intro psubset_card_mono) auto
    moreover have "unat (count_of db + 1) = Suc (unat (count_of db))"
      using r by (intro unat_Suc) (simp add: room_for_def)
    ultimately show ?thesis using c False r by (simp add: room_for_def)
  qed
  then show ?thesis using g by blast
qed

text \<open>The set of short ids found so far stands for the set \<open>F\<close> of events.\<close>

definition found_is :: "'a short_db_scheme \<Rightarrow> u64 fset \<Rightarrow> str set \<Rightarrow> bool" where
  "found_is db found F \<longleftrightarrow> (\<forall>n. n |\<in>| found \<longleftrightarrow> (\<exists>u \<in> F. event_of_short db n = Some u))
     \<and> (\<forall>u \<in> F. \<exists>n. event_of_short db n = Some u)"

lemma found_is_ext:
  assumes "found_is db found F" "short_inv R db'" "short_ext db db'"
  shows "found_is db' found F"
proof -
  have mono: "event_of_short db' n = Some u" if "event_of_short db n = Some u" for n u
    using assms(3) that by (auto simp: short_ext_def map_le_def dom_def)
  have "n |\<in>| found" if n: "event_of_short db' n = Some u" and u: "u \<in> F" for n u
  proof -
    obtain m where m: "event_of_short db m = Some u" using assms(1) u by (auto simp: found_is_def)
    then have "m = n" using event_ids.resolve_inj [OF assms(2) mono [OF m] n] by simp
    then show ?thesis using assms(1) m u by (auto simp: found_is_def)
  qed
  then show ?thesis using assms(1) mono unfolding found_is_def by blast
qed

lemma found_is_insert:
  assumes "found_is db found F" "short_inv R db" "event_of_short db n = Some a"
  shows "found_is db (finsert n found) (insert a F)" "n |\<in>| found \<longleftrightarrow> a \<in> F"
proof -
  have inj: "m = n" if "event_of_short db m = Some a" for m
    using event_ids.resolve_inj [OF assms(2) that assms(3)] .
  show "n |\<in>| found \<longleftrightarrow> a \<in> F" using assms(1,3) by (auto simp: found_is_def)
  show "found_is db (finsert n found) (insert a F)"
    using assms(1,3) inj unfolding found_is_def finsert_iff by blast
qed

lemma push_auth_events_ok:
  assumes "short_inv R db" "finite U" "set as \<subseteq> U" "\<forall>a \<in> set as. valid_event R a" "room_for U db"
    "found_is db found F" "F \<subseteq> U"
  shows "\<exists>todo' found' db'. push_auth_events E as todo found db = (Ok (todo', found'), db')
     \<and> short_inv R db' \<and> room_for U db' \<and> short_ext db db' \<and> found_is db' found' (F \<union> set as)
     \<and> set todo' = set todo \<union> (set as - F)
     \<and> length todo' + card (U - (F \<union> set as)) = length todo + card (U - F)"
  using assms
proof (induction as arbitrary: todo found F db)
  case Nil
  then show ?case by simp
next
  case (Cons a as)
  obtain n db1 where 1: "get_or_create_shorteventid (env_short E) a db = (Ok n, db1)" "short_inv R db1"
      "room_for U db1" "event_of_short db1 n = Some a" "short_ext db db1"
    using intern_in_universe [of R db a U "env_short E"] Cons.prems by auto
  have f1: "found_is db1 found F" by (rule found_is_ext [OF Cons.prems(6) 1(2,5)])
  note ins = found_is_insert [OF f1 1(2,4)]
  let ?todo = "if a \<in> F then todo else a # todo" and ?found = "if a \<in> F then found else finsert n found"
  have f2: "found_is db1 ?found (insert a F)" using f1 ins by (auto simp: insert_absorb)
  obtain todo' found' db' where 2: "push_auth_events E as ?todo ?found db1 = (Ok (todo', found'), db')"
     "short_inv R db'" "room_for U db'" "short_ext db1 db'" "found_is db' found' (insert a F \<union> set as)"
     "set todo' = set ?todo \<union> (set as - insert a F)"
     "length todo' + card (U - (insert a F \<union> set as)) = length ?todo + card (U - insert a F)"
    using Cons.IH [OF 1(2) Cons.prems(2) _ _ 1(3) f2, of ?todo] Cons.prems by auto
  have "push_auth_events E (a # as) todo found db = (Ok (todo', found'), db')"
    using 1(1) 2(1) ins(2) by (auto split: if_splits)
  moreover have "length ?todo + card (U - insert a F) = length todo + card (U - F)"
  proof (cases "a \<in> F")
    case False
    then have "U - F = insert a (U - insert a F)" using Cons.prems(3) by auto
    then have "card (U - F) = card (insert a (U - insert a F))" by (rule arg_cong)
    also have "\<dots> = Suc (card (U - insert a F))"
      using Cons.prems(2) by (intro card_insert_disjoint) auto
    finally show ?thesis using False by simp
  qed (simp add: insert_absorb)
  moreover have "set todo' = set todo \<union> (set (a # as) - F)" using 2(6) by auto
  moreover have "insert a F \<union> set as = F \<union> set (a # as)" by auto
  ultimately show ?case using 2(2,3,5,7) short_ext_trans [OF 1(5) 2(4)]
    by (intro exI [of _ todo'] exI [of _ found'] exI [of _ db']) simp
qed

text \<open>
  \<open>U\<close> is a finite set of events closed under \<open>auth_events\<close>, all valid and all of the room.
\<close>

definition auth_universe :: "ruma \<Rightarrow> str \<Rightarrow> (str \<rightharpoonup> pdu) \<Rightarrow> str \<Rightarrow> str set \<Rightarrow> bool" where
  "auth_universe R room pdus e U \<longleftrightarrow> finite U
     \<and> (\<forall>x \<in> insert e U. \<forall>y. auth_edge pdus x y \<longrightarrow> y \<in> U \<and> valid_event R y)
     \<and> (\<forall>x \<in> insert e U. \<forall>p. pdus x = Some p \<longrightarrow> pdu_room_id R p = Ok room)"

lemma closed_is_reachable:
  assumes "\<forall>x \<in> insert e F. \<forall>y. auth_edge pdus x y \<longrightarrow> y \<in> F" "F \<subseteq> {x. (auth_edge pdus)\<^sup>+\<^sup>+ e x}"
  shows "F = {x. (auth_edge pdus)\<^sup>+\<^sup>+ e x}"
proof -
  have "x \<in> F" if "(auth_edge pdus)\<^sup>+\<^sup>+ e x" for x
    using that by (induction rule: tranclp_induct) (use assms(1) in auto)
  then show ?thesis using assms(2) by auto
qed

lemma auth_chain_loop_ok:
  assumes "auth_universe (env_ruma E) room pdus e U"
    and "short_inv (env_ruma E) db" "room_for U db" "events_are C pdus db" "found_is db found F" "F \<subseteq> U"
    and "set todo \<subseteq> insert e F" "F \<subseteq> {x. (auth_edge pdus)\<^sup>+\<^sup>+ e x}"
    and "\<forall>x \<in> insert e F. x \<notin> set todo \<longrightarrow> (\<forall>y. auth_edge pdus x y \<longrightarrow> y \<in> F)"
    and "length todo + card (U - F) < fuel"
  shows "\<exists>found' db'. auth_chain_loop fuel E C room todo found db = Some (Ok found', db')
     \<and> short_inv (env_ruma E) db' \<and> events_are C pdus db'
     \<and> found_is db' found' {x. (auth_edge pdus)\<^sup>+\<^sup>+ e x}"
  using assms
proof (induction fuel arbitrary: todo found F db)
  case (Suc fuel)
  note U = Suc.prems(1) and prems = Suc.prems
  show ?case
  proof (cases todo)
    case Nil
    then have "F = {x. (auth_edge pdus)\<^sup>+\<^sup>+ e x}" using prems(8,9) by (intro closed_is_reachable) auto
    then show ?thesis using Nil prems by simp
  next
    case (Cons x rest)
    have x: "x \<in> insert e F" "x \<in> insert e U" using prems(6,7) Cons by auto
    obtain c where g: "get_pdu C (env_pdus E) x db = (Ok (pdus x), db\<lparr>pdu_cache := c\<rparr>)"
      "events_are C pdus (db\<lparr>pdu_cache := c\<rparr>)" using get_pdu_ok [OF prems(4)] by blast
    let ?db1 = "db\<lparr>pdu_cache := c\<rparr>"
    have 1: "short_inv (env_ruma E) ?db1" "room_for U ?db1" "found_is ?db1 found F"
      using prems(2,3,5) by (simp_all add: short_inv_def globals_wf_def count_of_def room_for_def
          found_is_def event_of_short_def)
    show ?thesis
    proof (cases "pdus x")
      case None
      then have "\<not> auth_edge pdus x y" for y by (simp add: auth_edge_def)
      then have "\<forall>z \<in> insert e F. z \<notin> set rest \<longrightarrow> (\<forall>y. auth_edge pdus z y \<longrightarrow> y \<in> F)"
        using prems(9) Cons by auto
      from Suc.IH [OF U 1(1,2) g(2) 1(3) prems(6) _ prems(8) this] show ?thesis
        using prems(7,10) Cons g(1) None by simp
    next
      case (Some p)
      let ?as = "pdu_auth_events p"
      have as: "set ?as \<subseteq> U" "\<forall>a \<in> set ?as. valid_event (env_ruma E) a"
        and room: "pdu_room_id (env_ruma E) p = Ok room" and fin: "finite U"
        using U x(2) Some by (auto simp: auth_universe_def auth_edge_def)
      obtain todo' found' db2 where 2: "push_auth_events E ?as rest found ?db1 = (Ok (todo', found'), db2)"
        "short_inv (env_ruma E) db2" "room_for U db2" "short_ext ?db1 db2" "found_is db2 found' (F \<union> set ?as)"
        "set todo' = set rest \<union> (set ?as - F)"
        "length todo' + card (U - (F \<union> set ?as)) = length rest + card (U - F)"
        using push_auth_events_ok [OF 1(1) fin as 1(2,3) prems(6), of E rest] by blast
      have reach: "set ?as \<subseteq> {y. (auth_edge pdus)\<^sup>+\<^sup>+ e y}"
      proof
        fix y assume "y \<in> set ?as"
        then have "auth_edge pdus x y" using Some by (simp add: auth_edge_def)
        then show "y \<in> {y. (auth_edge pdus)\<^sup>+\<^sup>+ e y}"
          using x(1) prems(8) by (auto intro: tranclp.trancl_into_trancl)
      qed
      have succ: "y \<in> set ?as" if "auth_edge pdus x y" for y using that Some by (simp add: auth_edge_def)
      have "\<exists>found'' db''. auth_chain_loop fuel E C room todo' found' db2 = Some (Ok found'', db'')
          \<and> short_inv (env_ruma E) db'' \<and> events_are C pdus db''
          \<and> found_is db'' found'' {x. (auth_edge pdus)\<^sup>+\<^sup>+ e x}"
      proof (rule Suc.IH [OF U 2(2,3) events_are_ext [OF g(2) 2(4)] 2(5)])
        show "\<forall>z \<in> insert e (F \<union> set ?as). z \<notin> set todo' \<longrightarrow> (\<forall>y. auth_edge pdus z y \<longrightarrow> y \<in> F \<union> set ?as)"
          using prems(9) Cons succ 2(6) by auto
      qed (use prems(6,7,8,10) Cons as(1) reach 2(6,7) in auto)
      then show ?thesis using Cons g(1) Some room 2(1) by simp
    qed
  qed
qed simp

section \<open>Properties\<close>

text \<open>
  C2: the search for the auth chain of an event ends, having visited each event at most once, and
  finds exactly the events reachable by following \<open>auth_events\<close> one or more times, whatever the
  graph: shared ancestors, missing events and even cycles included.
\<close>

theorem auth_chain_is_reachability:
  assumes "auth_universe (env_ruma E) room pdus e U" "short_inv (env_ruma E) db" "room_for U db"
    and "events_are C pdus db" "1 + card U < fuel"
  shows "\<exists>found db'. get_auth_chain_inner fuel E C room e db = Some (Ok found, db')
     \<and> short_inv (env_ruma E) db' \<and> events_are C pdus db'
     \<and> found_is db' found {x. (auth_edge pdus)\<^sup>+\<^sup>+ e x}"
  unfolding get_auth_chain_inner_def
  by (rule auth_chain_loop_ok [OF assms(1-4), where F = "{}"]) (use assms(5) in \<open>auto simp: found_is_def\<close>)

text \<open>Two outliers, \<open>$a\<close> authorised by \<open>$b\<close> and \<open>$b\<close> by \<open>$a\<close>.\<close>

definition pdu_a :: pdu where "pdu_a = sample_pdu\<lparr>pdu_auth_events := [ascii ''$b'']\<rparr>"
definition pdu_b :: pdu where
  "pdu_b = sample_pdu\<lparr>pdu_event_id := ascii ''$b'', pdu_auth_events := [ascii ''$a'']\<rparr>"

definition cycle_codec :: "bytes pdu_codec" where
  "cycle_codec = text_codec\<lparr>pdu_dec := (\<lambda>bs. Some (if bs = [1] then pdu_a else pdu_b)),
     pdu_opt_dec := (\<lambda>bs. Some (Some (if bs = [1] then pdu_a else pdu_b)))\<rparr>"

definition cycle_db :: timeline_db where
  "cycle_db = empty_timeline_db\<lparr>eventid_outlierpdu := [(ascii ''$a'', [1]), (ascii ''$b'', [2])]\<rparr>"

definition cycle_pdus :: "str \<rightharpoonup> pdu" where
  "cycle_pdus = [ascii ''$a'' \<mapsto> pdu_a, ascii ''$b'' \<mapsto> pdu_b]"

theorem auth_chain_is_reachability_witness:
  "\<exists>found db'. get_auth_chain_inner 4 sample_env cycle_codec (ascii ''!r'') (ascii ''$a'') cycle_db = Some (Ok found, db')
     \<and> found_is db' found {x. (auth_edge cycle_pdus)\<^sup>+\<^sup>+ (ascii ''$a'') x}"
proof -
  let ?U = "{ascii ''$a'', ascii ''$b''}"
  have edge: "auth_edge cycle_pdus x y \<longleftrightarrow> x = ascii ''$a'' \<and> y = ascii ''$b'' \<or> x = ascii ''$b'' \<and> y = ascii ''$a''" for x y
    by (auto simp: auth_edge_def cycle_pdus_def pdu_a_def pdu_b_def ascii_def)
  have room: "pdu_room_id accept_all p = Ok (ascii ''!r'')" if "cycle_pdus x = Some p" for x p
    using that by (auto simp: cycle_pdus_def pdu_a_def pdu_b_def pdu_room_id_def sample_pdu_def split: if_splits)
  have U: "auth_universe (env_ruma sample_env) (ascii ''!r'') cycle_pdus (ascii ''$a'') ?U"
    using room by (auto simp: auth_universe_def edge sample_env_def valid_event_def accept_all_def ascii_def)
  have s: "short_inv (env_ruma sample_env) cycle_db" "count_of cycle_db = 0"
    by (simp_all add: cycle_db_def empty_timeline_db_def state_db.defs empty_state_db_def short_db.defs short_inv_def
      intern_inv_def empty_short_db_def globals_wf_def count_of_def)
  have "card {u \<in> ?U. \<forall>n. event_of_short cycle_db n \<noteq> Some u} \<le> card ?U" by (rule card_mono) auto
  also have "\<dots> \<le> 2" by (rule card_insert_le_m1) auto
  finally have r: "room_for ?U cycle_db" using s(2) by (simp add: room_for_def)
  have v: "events_are cycle_codec cycle_pdus cycle_db"
    by (auto simp: events_are_def lookup_pdu_def get_non_outlier_pdu_def get_non_outlier_def cycle_db_def
        empty_timeline_db_def state_db.defs cycle_codec_def cycle_pdus_def kv_get_def ascii_def)
  have "1 + card ?U < 4" using card_insert_le_m1 [of 2 "{ascii ''$b''}" "ascii ''$a''"] by simp
  then show ?thesis using auth_chain_is_reachability [OF U s(1) r v] by blast
qed

text \<open>
  A chain cached for one event is found again, from memory or from its stored bytes, whatever
  the cache has dropped since.
\<close>

theorem cached_chain_found_again:
  assumes "kv_wf (shorteventid_authchain db)" "iteration_order elems"
  shows "fst (get_cached_eventid_authchain ev' [k] (cache_auth_chain ev elems [k] ids db)) = Ok (Some ids)"
  using assms by (rule cached_authchain_round_trip)

definition empty_authchain_db :: authchain_db where
  "empty_authchain_db = timeline_db.extend empty_timeline_db
     \<lparr>shorteventid_authchain = [], auth_chain_cache = Map.empty\<rparr>"

theorem cached_chain_found_again_witness:
  "fst (get_cached_eventid_authchain (\<lambda>_ _. {}) [3]
     (cache_auth_chain (\<lambda>_ _. UNIV) sorted_list_of_fset [3] {|1, 2|} empty_authchain_db)) = Ok (Some {|1, 2|})"
  by (rule cached_chain_found_again)
    (simp_all add: empty_authchain_db_def timeline_db.defs iteration_order_def fset_eq_iff fset_of_list.rep_eq
      sorted_list_of_fset.rep_eq)

end
