(* ===== verification/Accounts.thy ===== *)
theory Accounts
  imports Timeline
begin

text \<open>
  Accounts and profiles: the first part of \<^verbatim>\<open>server/src/database/key_value/users.rs\<close>. An account is
  a row of \<open>userid_password\<close>; an empty password hash marks a deactivated account. Password hashing
  (argon2) is a parameter that may fail.
\<close>

record accounts_db = timeline_db +
  userid_password :: kvtree
  userid_displayname :: kvtree
  userid_avatarurl :: kvtree
  userid_blurhash :: kvtree

text \<open>\<open>X::parse(utils::string_from_bytes(bytes)?)\<close> with its two error messages.\<close>

definition parse_id :: "(str \<Rightarrow> bool) \<Rightarrow> string \<Rightarrow> string \<Rightarrow> bytes \<Rightarrow> str result" where
  "parse_id valid bad_unicode invalid bs =
     and_then (ok_or (BadDatabase bad_unicode) (string_from_bytes bs))
       (\<lambda>s. if valid s then Ok s else Err (BadDatabase invalid))"

definition user_exists :: "str \<Rightarrow> 'a accounts_db_scheme \<Rightarrow> bool result" where
  "user_exists user_id db = Ok (kv_get (userid_password db) user_id \<noteq> None)"

definition is_deactivated :: "str \<Rightarrow> 'a accounts_db_scheme \<Rightarrow> bool result" where
  "is_deactivated user_id db =
     and_then (ok_or (BadRequest InvalidParam ''User does not exist.'') (kv_get (userid_password db) user_id))
       (\<lambda>hash. Ok (hash = []))"

definition count_users :: "'a accounts_db_scheme \<Rightarrow> nat result" where
  "count_users db = Ok (length (kv_iter (userid_password db)))"

definition iter_users :: "ruma \<Rightarrow> 'a accounts_db_scheme \<Rightarrow> str result list" where
  "iter_users R db = map (\<lambda>(bytes, _). parse_id (valid_user_id R)
       ''User ID in userid_password is invalid unicode.'' ''User ID in userid_password is invalid.'' bytes)
     (kv_iter (userid_password db))"

definition get_username_with_valid_password :: "bytes \<Rightarrow> bytes \<Rightarrow> str option" where
  "get_username_with_valid_password username password =
     (if password = [] then None else string_from_bytes username)"

definition list_local_users :: "'a accounts_db_scheme \<Rightarrow> str list result" where
  "list_local_users db =
     Ok (List.map_filter (\<lambda>(username, pw). get_username_with_valid_password username pw)
       (kv_iter (userid_password db)))"

definition password_hash :: "str \<Rightarrow> 'a accounts_db_scheme \<Rightarrow> str option result" where
  "password_hash user_id db =
     map_transpose (\<lambda>bytes. ok_or (BadDatabase ''Password hash in db is not valid string.'') (string_from_bytes bytes))
       (kv_get (userid_password db) user_id)"

definition set_password ::
  "(str \<Rightarrow> str option) \<Rightarrow> str \<Rightarrow> str option \<Rightarrow> 'a accounts_db_scheme \<Rightarrow> unit result \<times> 'a accounts_db_scheme" where
  "set_password calculate_password_hash user_id password db =
     (case password of
        Some password \<Rightarrow>
          (case calculate_password_hash password of
             Some hash \<Rightarrow> (Ok (), db\<lparr>userid_password := kv_insert (userid_password db) user_id hash\<rparr>)
           | None \<Rightarrow> (Err (BadRequest InvalidParam ''Password does not meet the requirements.''), db))
      | None \<Rightarrow> (Ok (), db\<lparr>userid_password := kv_insert (userid_password db) user_id []\<rparr>))"

text \<open>A profile field: a string of the user, absent when it was never set or was removed.\<close>

definition displayname :: "str \<Rightarrow> 'a accounts_db_scheme \<Rightarrow> str option result" where
  "displayname user_id db =
     map_transpose (\<lambda>bytes. ok_or (BadDatabase ''Displayname in db is invalid.'') (string_from_bytes bytes))
       (kv_get (userid_displayname db) user_id)"

definition set_displayname :: "str \<Rightarrow> str option \<Rightarrow> 'a accounts_db_scheme \<Rightarrow> 'a accounts_db_scheme" where
  "set_displayname user_id name db =
     (case name of
        Some name \<Rightarrow> db\<lparr>userid_displayname := kv_insert (userid_displayname db) user_id name\<rparr>
      | None \<Rightarrow> db\<lparr>userid_displayname := kv_remove (userid_displayname db) user_id\<rparr>)"

definition avatar_url :: "str \<Rightarrow> 'a accounts_db_scheme \<Rightarrow> str option result" where
  "avatar_url user_id db =
     map_transpose (\<lambda>bytes. ok_or (BadDatabase ''Avatar URL in db is invalid.'') (string_from_bytes bytes))
       (kv_get (userid_avatarurl db) user_id)"

definition set_avatar_url :: "str \<Rightarrow> str option \<Rightarrow> 'a accounts_db_scheme \<Rightarrow> 'a accounts_db_scheme" where
  "set_avatar_url user_id url db =
     (case url of
        Some url \<Rightarrow> db\<lparr>userid_avatarurl := kv_insert (userid_avatarurl db) user_id url\<rparr>
      | None \<Rightarrow> db\<lparr>userid_avatarurl := kv_remove (userid_avatarurl db) user_id\<rparr>)"

definition blurhash :: "str \<Rightarrow> 'a accounts_db_scheme \<Rightarrow> str option result" where
  "blurhash user_id db =
     map_transpose (\<lambda>bytes. ok_or (BadDatabase ''Avatar URL in db is invalid.'') (string_from_bytes bytes))
       (kv_get (userid_blurhash db) user_id)"

definition set_blurhash :: "str \<Rightarrow> str option \<Rightarrow> 'a accounts_db_scheme \<Rightarrow> 'a accounts_db_scheme" where
  "set_blurhash user_id hash db =
     (case hash of
        Some hash \<Rightarrow> db\<lparr>userid_blurhash := kv_insert (userid_blurhash db) user_id hash\<rparr>
      | None \<Rightarrow> db\<lparr>userid_blurhash := kv_remove (userid_blurhash db) user_id\<rparr>)"

section \<open>Lemmas\<close>

definition accounts_wf :: "'a accounts_db_scheme \<Rightarrow> bool" where
  "accounts_wf db \<longleftrightarrow> kv_wf (userid_password db) \<and> kv_wf (userid_displayname db)
     \<and> kv_wf (userid_avatarurl db) \<and> kv_wf (userid_blurhash db)"

lemma parse_id_Ok [simp]: "utf8 s \<Longrightarrow> valid s \<Longrightarrow> parse_id valid m m' s = Ok s"
  by (simp add: parse_id_def string_from_bytes_def)

lemma parse_id_eq_Ok: "parse_id valid m m' bs = Ok s \<longleftrightarrow> bs = s \<and> utf8 s \<and> valid s"
  by (auto simp: parse_id_def string_from_bytes_def)

lemma in_map_filter: "y \<in> set (List.map_filter f xs) \<longleftrightarrow> (\<exists>x \<in> set xs. f x = Some y)"
  by (force simp: List.map_filter_def)

text \<open>A stored string field of a user, written and read.\<close>

locale profile_field =
  fixes table :: "'db \<Rightarrow> kvtree" and set_field :: "str \<Rightarrow> str option \<Rightarrow> 'db \<Rightarrow> 'db"
    and get_field :: "str \<Rightarrow> 'db \<Rightarrow> str option result" and message :: string
  assumes table_set: "table (set_field u x db) =
      (case x of Some s \<Rightarrow> kv_insert (table db) u s | None \<Rightarrow> kv_remove (table db) u)"
    and get_field: "get_field u db =
      map_transpose (\<lambda>bytes. ok_or (BadDatabase message) (string_from_bytes bytes)) (kv_get (table db) u)"
begin

lemma field_round_trip:
  assumes "kv_wf (table db)" "\<forall>s. x = Some s \<longrightarrow> utf8 s"
  shows "get_field u (set_field u x db) = Ok x"
  using assms by (cases x) (simp_all add: get_field table_set kv_simps string_from_bytes_def)

lemma field_frame:
  assumes "kv_wf (table db)" "u' \<noteq> u"
  shows "get_field u' (set_field u x db) = get_field u' db"
  using assms by (cases x) (simp_all add: get_field table_set kv_simps)

end

interpretation displaynames: profile_field userid_displayname set_displayname displayname
    "''Displayname in db is invalid.''"
  by unfold_locales (simp_all add: set_displayname_def displayname_def split: option.splits)

interpretation avatars: profile_field userid_avatarurl set_avatar_url avatar_url "''Avatar URL in db is invalid.''"
  by unfold_locales (simp_all add: set_avatar_url_def avatar_url_def split: option.splits)

interpretation blurhashes: profile_field userid_blurhash set_blurhash blurhash "''Avatar URL in db is invalid.''"
  by unfold_locales (simp_all add: set_blurhash_def blurhash_def split: option.splits)

section \<open>Properties\<close>

text \<open>
  Setting a password gives the account its hash and nothing else; without a password the account
  is deactivated and no longer listed as local, but still exists; when hashing fails nothing changes.
\<close>

theorem set_password_effect:
  assumes "accounts_wf db" "utf8 u" "\<forall>h. hash p = Some h \<longrightarrow> h \<noteq> [] \<and> utf8 h"
  shows "(case hash p of
      None \<Rightarrow> set_password hash u (Some p) db
        = (Err (BadRequest InvalidParam ''Password does not meet the requirements.''), db)
    | Some h \<Rightarrow> (\<exists>db'. set_password hash u (Some p) db = (Ok (), db') \<and> is_deactivated u db' = Ok False
        \<and> password_hash u db' = Ok (Some h) \<and> (\<exists>us. list_local_users db' = Ok us \<and> u \<in> set us)
        \<and> (\<forall>u'. u' \<noteq> u \<longrightarrow> password_hash u' db' = password_hash u' db)))
    \<and> (\<exists>db'. set_password hash u None db = (Ok (), db') \<and> is_deactivated u db' = Ok True
        \<and> user_exists u db' = Ok True \<and> (\<exists>us. list_local_users db' = Ok us \<and> u \<notin> set us))"
proof -
  have wf: "kv_wf (userid_password db)" using assms(1) by (simp add: accounts_wf_def)
  have mem: "(u, h) \<in> set (kv_insert (userid_password db) u h)" for h
    using kv_get_in_set [OF kv_wf_insert [OF wf, of u h], of u h] wf by (simp add: kv_simps)
  have only: "h' = h" if "(u, h') \<in> set (kv_insert (userid_password db) u h)" for h h'
    using kv_get_in_set [OF kv_wf_insert [OF wf, of u h], of u h'] that wf by (simp add: kv_simps)
  have listed: "\<exists>us. list_local_users (db\<lparr>userid_password := kv_insert (userid_password db) u h\<rparr>) = Ok us
      \<and> (u \<in> set us \<longleftrightarrow> h \<noteq> [])" for h
  proof -
    have "get_username_with_valid_password n pw = Some u \<longleftrightarrow> n = u \<and> pw \<noteq> []" for n pw
      using assms(2) by (auto simp: get_username_with_valid_password_def string_from_bytes_def)
    then show ?thesis using mem [of h] only [of _ h]
      by (auto simp: list_local_users_def kv_iter_def in_map_filter intro: bexI [of _ "(u, h)"])
  qed
  then show ?thesis using assms(3) wf listed [of "[]"]
    by (auto simp: set_password_def is_deactivated_def password_hash_def user_exists_def kv_simps
        string_from_bytes_def split: option.splits)
qed

definition empty_accounts_db :: accounts_db where
  "empty_accounts_db = timeline_db.extend empty_timeline_db
     \<lparr>userid_password = [], userid_displayname = [], userid_avatarurl = [], userid_blurhash = []\<rparr>"

lemma empty_accounts_wf: "accounts_wf empty_accounts_db"
  by (simp add: accounts_wf_def empty_accounts_db_def timeline_db.defs)

theorem set_password_effect_witness:
  "\<exists>db'. set_password (\<lambda>p. Some (104 # p)) (ascii ''@a'') None empty_accounts_db = (Ok (), db')
     \<and> is_deactivated (ascii ''@a'') db' = Ok True"
proof -
  have "\<forall>h. (\<lambda>p. Some (104 # p)) [] = Some h \<longrightarrow> h \<noteq> [] \<and> utf8 h" by simp
  then show ?thesis
    using set_password_effect [OF empty_accounts_wf, of "ascii ''@a''" "\<lambda>p. Some (104 # p)" "[]"]
    by (auto simp: ascii_def)
qed

text \<open>
  A profile field reads back as it was set, or as absent once it is removed, and setting it
  changes no other user's field: display names, avatars and blurhashes alike.
\<close>

theorem profile_round_trip:
  assumes "accounts_wf db" "\<forall>s. x = Some s \<longrightarrow> utf8 s" "v \<noteq> u"
  shows "displayname u (set_displayname u x db) = Ok x \<and> displayname v (set_displayname u x db) = displayname v db
    \<and> avatar_url u (set_avatar_url u x db) = Ok x \<and> avatar_url v (set_avatar_url u x db) = avatar_url v db
    \<and> blurhash u (set_blurhash u x db) = Ok x \<and> blurhash v (set_blurhash u x db) = blurhash v db"
  using assms
  by (simp add: accounts_wf_def displaynames.field_round_trip avatars.field_round_trip blurhashes.field_round_trip
      displaynames.field_frame avatars.field_frame blurhashes.field_frame)

theorem profile_round_trip_witness:
  "displayname (ascii ''@a'') (set_displayname (ascii ''@a'') (Some (ascii ''Ann'')) empty_accounts_db)
    = Ok (Some (ascii ''Ann''))"
  by (rule conjunct1 [OF profile_round_trip [OF empty_accounts_wf, where v = "[]"]]) (simp_all add: ascii_def)

end
