(* ===== verification/StateCache.thy ===== *)
theory StateCache
  imports Accounts
begin

text \<open>
  The membership cache: \<^verbatim>\<open>server/src/database/key_value/rooms/state_cache.rs\<close>. A membership is kept
  in two tables with mirrored keys, \<open>user 0xff room\<close> for the user's room lists and
  \<open>room 0xff user\<close> for the room's member lists; \<open>mark_as_joined\<close> and its siblings move a user from
  one pair of tables to another. \<open>update_joined_count\<close> recomputes the counters, the participating
  servers and the cached local users of a room. Stripped state events are opaque values \<open>'s\<close> with
  their serde_json codec as a parameter.
\<close>

record statecache_db = accounts_db +
  userroomid_joined :: kvtree
  roomuserid_joined :: kvtree
  userroomid_invitestate :: kvtree
  roomuserid_invitecount :: kvtree
  userroomid_knockstate :: kvtree
  roomuserid_knockcount :: kvtree
  userroomid_leftstate :: kvtree
  roomuserid_leftcount :: kvtree
  roomuseroncejoinedids :: kvtree
  roomid_joinedcount :: kvtree
  roomid_invitedcount :: kvtree
  roomserverids :: kvtree
  serverroomids :: kvtree
  our_real_users_cache :: "str \<rightharpoonup> str fset"
  appservice_in_room_cache :: "str \<rightharpoonup> (str \<rightharpoonup> bool)"

definition get_room_and_user_byte_ids :: "str \<Rightarrow> str \<Rightarrow> bytes \<times> bytes" where
  "get_room_and_user_byte_ids room_id user_id =
     (get_roomuser_id_bytes room_id user_id, get_userroom_id_bytes user_id room_id)"

section \<open>Moving a user between memberships\<close>

definition mark_as_once_joined :: "str \<Rightarrow> str \<Rightarrow> 'a statecache_db_scheme \<Rightarrow> 'a statecache_db_scheme" where
  "mark_as_once_joined user_id room_id db =
     (let userroom_id = get_userroom_id_bytes user_id room_id
      in db\<lparr>roomuseroncejoinedids := kv_insert (roomuseroncejoinedids db) userroom_id []\<rparr>)"

definition mark_as_joined :: "str \<Rightarrow> str \<Rightarrow> 'a statecache_db_scheme \<Rightarrow> 'a statecache_db_scheme" where
  "mark_as_joined user_id room_id db =
     (let (roomuser_id, userroom_id) = get_room_and_user_byte_ids room_id user_id
      in db\<lparr>userroomid_joined := kv_insert (userroomid_joined db) userroom_id [],
            roomuserid_joined := kv_insert (roomuserid_joined db) roomuser_id [],
            userroomid_invitestate := kv_remove (userroomid_invitestate db) userroom_id,
            roomuserid_invitecount := kv_remove (roomuserid_invitecount db) roomuser_id,
            userroomid_knockstate := kv_remove (userroomid_knockstate db) userroom_id,
            roomuserid_knockcount := kv_remove (roomuserid_knockcount db) roomuser_id,
            userroomid_leftstate := kv_remove (userroomid_leftstate db) userroom_id,
            roomuserid_leftcount := kv_remove (roomuserid_leftcount db) roomuser_id\<rparr>)"

text \<open>\<open>last_state.unwrap_or_default()\<close>\<close>

definition unwrap_or_default :: "'s list option \<Rightarrow> 's list" where
  "unwrap_or_default o' = (case o' of Some s \<Rightarrow> s | None \<Rightarrow> [])"

definition mark_as_invited ::
  "('s list \<Rightarrow> bytes) \<Rightarrow> str \<Rightarrow> str \<Rightarrow> 's list option \<Rightarrow> 'a statecache_db_scheme
     \<Rightarrow> unit result \<times> 'a statecache_db_scheme" where
  "mark_as_invited to_vec user_id room_id last_state db =
     (let (roomuser_id, userroom_id) = get_room_and_user_byte_ids room_id user_id;
          db = db\<lparr>userroomid_invitestate := kv_insert (userroomid_invitestate db) userroom_id
                   (to_vec (unwrap_or_default last_state))\<rparr>
      in step_then (next_count db) (\<lambda>count db.
        (Ok (), db\<lparr>roomuserid_invitecount := kv_insert (roomuserid_invitecount db) roomuser_id (to_be_bytes count),
            userroomid_joined := kv_remove (userroomid_joined db) userroom_id,
            roomuserid_joined := kv_remove (roomuserid_joined db) roomuser_id,
            userroomid_knockstate := kv_remove (userroomid_knockstate db) userroom_id,
            roomuserid_knockcount := kv_remove (roomuserid_knockcount db) roomuser_id,
            userroomid_leftstate := kv_remove (userroomid_leftstate db) userroom_id,
            roomuserid_leftcount := kv_remove (roomuserid_leftcount db) roomuser_id\<rparr>)))"

definition mark_as_knocked ::
  "('s list \<Rightarrow> bytes) \<Rightarrow> str \<Rightarrow> str \<Rightarrow> 's list option \<Rightarrow> 'a statecache_db_scheme
     \<Rightarrow> unit result \<times> 'a statecache_db_scheme" where
  "mark_as_knocked to_vec user_id room_id last_state db =
     (let (roomuser_id, userroom_id) = get_room_and_user_byte_ids room_id user_id;
          db = db\<lparr>userroomid_knockstate := kv_insert (userroomid_knockstate db) userroom_id
                   (to_vec (unwrap_or_default last_state))\<rparr>
      in step_then (next_count db) (\<lambda>count db.
        (Ok (), db\<lparr>roomuserid_knockcount := kv_insert (roomuserid_knockcount db) roomuser_id (to_be_bytes count),
            userroomid_joined := kv_remove (userroomid_joined db) userroom_id,
            roomuserid_joined := kv_remove (roomuserid_joined db) roomuser_id,
            userroomid_invitestate := kv_remove (userroomid_invitestate db) userroom_id,
            roomuserid_invitecount := kv_remove (roomuserid_invitecount db) roomuser_id,
            userroomid_leftstate := kv_remove (userroomid_leftstate db) userroom_id,
            roomuserid_leftcount := kv_remove (roomuserid_leftcount db) roomuser_id\<rparr>)))"

definition mark_as_left ::
  "('s list \<Rightarrow> bytes) \<Rightarrow> str \<Rightarrow> str \<Rightarrow> 'a statecache_db_scheme \<Rightarrow> unit result \<times> 'a statecache_db_scheme" where
  "mark_as_left to_vec user_id room_id db =
     (let (roomuser_id, userroom_id) = get_room_and_user_byte_ids room_id user_id;
          db = db\<lparr>userroomid_leftstate := kv_insert (userroomid_leftstate db) userroom_id (to_vec [])\<rparr>
      in step_then (next_count db) (\<lambda>count db.
        (Ok (), db\<lparr>roomuserid_leftcount := kv_insert (roomuserid_leftcount db) roomuser_id (to_be_bytes count),
            userroomid_joined := kv_remove (userroomid_joined db) userroom_id,
            roomuserid_joined := kv_remove (roomuserid_joined db) roomuser_id,
            userroomid_invitestate := kv_remove (userroomid_invitestate db) userroom_id,
            roomuserid_invitecount := kv_remove (roomuserid_invitecount db) roomuser_id,
            userroomid_knockstate := kv_remove (userroomid_knockstate db) userroom_id,
            roomuserid_knockcount := kv_remove (roomuserid_knockcount db) roomuser_id\<rparr>)))"

definition forget :: "str \<Rightarrow> str \<Rightarrow> 'a statecache_db_scheme \<Rightarrow> 'a statecache_db_scheme" where
  "forget room_id user_id db =
     (let (roomuser_id, userroom_id) = get_room_and_user_byte_ids room_id user_id
      in db\<lparr>userroomid_leftstate := kv_remove (userroomid_leftstate db) userroom_id,
            roomuserid_leftcount := kv_remove (roomuserid_leftcount db) roomuser_id\<rparr>)"

section \<open>Reading memberships\<close>

definition once_joined :: "str \<Rightarrow> str \<Rightarrow> 'a statecache_db_scheme \<Rightarrow> bool result" where
  "once_joined user_id room_id db =
     Ok (kv_get (roomuseroncejoinedids db) (get_userroom_id_bytes user_id room_id) \<noteq> None)"

definition is_joined :: "str \<Rightarrow> str \<Rightarrow> 'a statecache_db_scheme \<Rightarrow> bool result" where
  "is_joined user_id room_id db =
     Ok (kv_get (userroomid_joined db) (get_userroom_id_bytes user_id room_id) \<noteq> None)"

definition is_invited :: "str \<Rightarrow> str \<Rightarrow> 'a statecache_db_scheme \<Rightarrow> bool result" where
  "is_invited user_id room_id db =
     Ok (kv_get (userroomid_invitestate db) (get_userroom_id_bytes user_id room_id) \<noteq> None)"

definition is_knocked :: "str \<Rightarrow> str \<Rightarrow> 'a statecache_db_scheme \<Rightarrow> bool result" where
  "is_knocked user_id room_id db =
     Ok (kv_get (userroomid_knockstate db) (get_userroom_id_bytes user_id room_id) \<noteq> None)"

definition is_left :: "str \<Rightarrow> str \<Rightarrow> 'a statecache_db_scheme \<Rightarrow> bool result" where
  "is_left user_id room_id db =
     Ok (kv_get (userroomid_leftstate db) (get_userroom_id_bytes user_id room_id) \<noteq> None)"

text \<open>The part of a key after the last separator; \<open>rsplit\<close> always returns an element.\<close>

definition last_part :: "bytes \<Rightarrow> bytes" where
  "last_part key = hd (rsplit_sep key)"

definition room_servers :: "ruma \<Rightarrow> str \<Rightarrow> 'a statecache_db_scheme \<Rightarrow> str result list" where
  "room_servers R room_id db = map (\<lambda>(key, _). parse_id (valid_server_name R)
       ''Server name in roomserverids is invalid unicode.'' ''Server name in roomserverids is invalid.'' (last_part key))
     (kv_scan_prefix (roomserverids db) (room_id @ [sep]))"

definition server_in_room :: "str \<Rightarrow> str \<Rightarrow> 'a statecache_db_scheme \<Rightarrow> bool result" where
  "server_in_room server room_id db = Ok (kv_get (serverroomids db) (server @ [sep] @ room_id) \<noteq> None)"

definition server_rooms :: "ruma \<Rightarrow> str \<Rightarrow> 'a statecache_db_scheme \<Rightarrow> str result list" where
  "server_rooms R server db = map (\<lambda>(key, _). parse_id (valid_room_id R)
       ''RoomId in serverroomids is invalid unicode.'' ''RoomId in serverroomids is invalid.'' (last_part key))
     (kv_scan_prefix (serverroomids db) (server @ [sep]))"

definition room_members :: "ruma \<Rightarrow> str \<Rightarrow> 'a statecache_db_scheme \<Rightarrow> str result list" where
  "room_members R room_id db = map (\<lambda>(key, _). parse_id (valid_user_id R)
       ''User ID in roomuserid_joined is invalid unicode.'' ''User ID in roomuserid_joined is invalid.'' (last_part key))
     (kv_scan_prefix (roomuserid_joined db) (room_id @ [sep]))"

definition room_members_invited :: "ruma \<Rightarrow> str \<Rightarrow> 'a statecache_db_scheme \<Rightarrow> str result list" where
  "room_members_invited R room_id db = map (\<lambda>(key, _). parse_id (valid_user_id R)
       ''User ID in roomuserid_invited is invalid unicode.'' ''User ID in roomuserid_invited is invalid.'' (last_part key))
     (kv_scan_prefix (roomuserid_invitecount db) (room_id @ [sep]))"

definition room_useroncejoined :: "ruma \<Rightarrow> str \<Rightarrow> 'a statecache_db_scheme \<Rightarrow> str result list" where
  "room_useroncejoined R room_id db = map (\<lambda>(key, _). parse_id (valid_user_id R)
       ''User ID in room_useroncejoined is invalid unicode.'' ''User ID in room_useroncejoined is invalid.'' (last_part key))
     (kv_scan_prefix (roomuseroncejoinedids db) (room_id @ [sep]))"

text \<open>The scan of \<open>rooms_joined\<close> takes the user id without a separator as its prefix.\<close>

definition rooms_joined :: "ruma \<Rightarrow> str \<Rightarrow> 'a statecache_db_scheme \<Rightarrow> str result list" where
  "rooms_joined R user_id db = map (\<lambda>(key, _). parse_id (valid_room_id R)
       ''Room ID in userroomid_joined is invalid unicode.'' ''Room ID in userroomid_joined is invalid.'' (last_part key))
     (kv_scan_prefix (userroomid_joined db) user_id)"

definition room_joined_count :: "str \<Rightarrow> 'a statecache_db_scheme \<Rightarrow> u64 option result" where
  "room_joined_count room_id db = map_transpose (\<lambda>b. ok_or (BadDatabase ''Invalid joinedcount in db.'') (u64_from_bytes b))
     (kv_get (roomid_joinedcount db) room_id)"

definition room_invited_count :: "str \<Rightarrow> 'a statecache_db_scheme \<Rightarrow> u64 option result" where
  "room_invited_count room_id db = map_transpose (\<lambda>b. ok_or (BadDatabase ''Invalid joinedcount in db.'') (u64_from_bytes b))
     (kv_get (roomid_invitedcount db) room_id)"

definition get_invite_count :: "str \<Rightarrow> str \<Rightarrow> 'a statecache_db_scheme \<Rightarrow> u64 option result" where
  "get_invite_count room_id user_id db =
     map_transpose (\<lambda>b. ok_or (BadDatabase ''Invalid invitecount in db.'') (u64_from_bytes b))
       (kv_get (roomuserid_invitecount db) (room_id @ [sep] @ user_id))"

definition get_knock_count :: "str \<Rightarrow> str \<Rightarrow> 'a statecache_db_scheme \<Rightarrow> u64 option result" where
  "get_knock_count room_id user_id db =
     map_transpose (\<lambda>b. ok_or (BadDatabase ''Invalid knockcount in db.'') (u64_from_bytes b))
       (kv_get (roomuserid_knockcount db) (room_id @ [sep] @ user_id))"

definition get_left_count :: "str \<Rightarrow> str \<Rightarrow> 'a statecache_db_scheme \<Rightarrow> u64 option result" where
  "get_left_count room_id user_id db =
     map_transpose (\<lambda>b. ok_or (BadDatabase ''Invalid leftcount in db.'') (u64_from_bytes b))
       (kv_get (roomuserid_leftcount db) (room_id @ [sep] @ user_id))"

definition scan_userroom_id_memberstate_tree ::
  "ruma \<Rightarrow> (bytes \<Rightarrow> 's list option) \<Rightarrow> str \<Rightarrow> kvtree \<Rightarrow> (str \<times> 's list) result list" where
  "scan_userroom_id_memberstate_tree R from_slice user_id t = map (\<lambda>(key, state).
       and_then (parse_id (valid_room_id R) ''Room ID in userroomid_<member>state is invalid unicode.''
         ''Room ID in userroomid_<member>state is invalid.'' (last_part key)) (\<lambda>room_id.
       and_then (ok_or (BadDatabase ''Invalid state in userroomid_<member>state.'') (from_slice state)) (\<lambda>state.
       Ok (room_id, state))))
     (kv_scan_prefix t (user_id @ [sep]))"

definition rooms_invited ::
  "ruma \<Rightarrow> (bytes \<Rightarrow> 's list option) \<Rightarrow> str \<Rightarrow> 'a statecache_db_scheme \<Rightarrow> (str \<times> 's list) result list" where
  "rooms_invited R from_slice user_id db =
     scan_userroom_id_memberstate_tree R from_slice user_id (userroomid_invitestate db)"

definition rooms_knocked ::
  "ruma \<Rightarrow> (bytes \<Rightarrow> 's list option) \<Rightarrow> str \<Rightarrow> 'a statecache_db_scheme \<Rightarrow> (str \<times> 's list) result list" where
  "rooms_knocked R from_slice user_id db =
     scan_userroom_id_memberstate_tree R from_slice user_id (userroomid_knockstate db)"

definition rooms_left ::
  "ruma \<Rightarrow> (bytes \<Rightarrow> 's list option) \<Rightarrow> str \<Rightarrow> 'a statecache_db_scheme \<Rightarrow> (str \<times> 's list) result list" where
  "rooms_left R from_slice user_id db =
     scan_userroom_id_memberstate_tree R from_slice user_id (userroomid_leftstate db)"

definition invite_state ::
  "(bytes \<Rightarrow> 's list option) \<Rightarrow> str \<Rightarrow> str \<Rightarrow> 'a statecache_db_scheme \<Rightarrow> 's list option result" where
  "invite_state from_slice user_id room_id db =
     map_transpose (\<lambda>state. ok_or (BadDatabase ''Invalid state in userroomid_invitestate.'') (from_slice state))
       (kv_get (userroomid_invitestate db) (user_id @ [sep] @ room_id))"

definition knock_state ::
  "(bytes \<Rightarrow> 's list option) \<Rightarrow> str \<Rightarrow> str \<Rightarrow> 'a statecache_db_scheme \<Rightarrow> 's list option result" where
  "knock_state from_slice user_id room_id db =
     map_transpose (\<lambda>state. ok_or (BadDatabase ''Invalid state in userroomid_knockstate.'') (from_slice state))
       (kv_get (userroomid_knockstate db) (user_id @ [sep] @ room_id))"

definition left_state ::
  "(bytes \<Rightarrow> 's list option) \<Rightarrow> str \<Rightarrow> str \<Rightarrow> 'a statecache_db_scheme \<Rightarrow> 's list option result" where
  "left_state from_slice user_id room_id db =
     map_transpose (\<lambda>state. ok_or (BadDatabase ''Invalid state in userroomid_leftstate.'') (from_slice state))
       (kv_get (userroomid_leftstate db) (user_id @ [sep] @ room_id))"

section \<open>Counters, servers and local users of a room\<close>

text \<open>One turn of the loop over the servers that were in the room.\<close>

definition drop_old_server ::
  "str \<Rightarrow> str \<Rightarrow> str fset \<times> 'a statecache_db_scheme \<Rightarrow> str fset \<times> 'a statecache_db_scheme" where
  "drop_old_server room_id server = (\<lambda>(joined_servers, db).
     if server |\<in>| joined_servers then (joined_servers |-| {|server|}, db)
     else (joined_servers,
       db\<lparr>roomserverids := kv_remove (roomserverids db) (room_id @ [sep] @ server),
          serverroomids := kv_remove (serverroomids db) (server @ [sep] @ room_id)\<rparr>))"

definition add_new_server :: "str \<Rightarrow> str \<Rightarrow> 'a statecache_db_scheme \<Rightarrow> 'a statecache_db_scheme" where
  "add_new_server room_id server db =
     db\<lparr>roomserverids := kv_insert (roomserverids db) (room_id @ [sep] @ server) [],
        serverroomids := kv_insert (serverroomids db) (server @ [sep] @ room_id) []\<rparr>"

text \<open>
  \<open>server_name\<close> is \<open>services().globals.server_name()\<close>; \<open>elems\<close> is the iteration order of the hash
  set of new servers.
\<close>

definition update_joined_count ::
  "ruma \<Rightarrow> (str fset \<Rightarrow> str list) \<Rightarrow> str \<Rightarrow> str \<Rightarrow> 'a statecache_db_scheme \<Rightarrow> 'a statecache_db_scheme" where
  "update_joined_count R elems server_name room_id db =
     (let joined = oks (room_members R room_id db);
          joined_servers = fset_of_list (map (server_name_of R) joined);
          real_users = fset_of_list (filter (\<lambda>u. server_name_of R u = server_name
            \<and> \<not> (case is_deactivated u db of Inr b \<Rightarrow> b | Inl _ \<Rightarrow> True)) joined);
          joinedcount = of_nat (length joined);
          invitedcount = of_nat (length (oks (room_members_invited R room_id db)));
          db = db\<lparr>roomid_joinedcount := kv_insert (roomid_joinedcount db) room_id (to_be_bytes joinedcount),
                  roomid_invitedcount := kv_insert (roomid_invitedcount db) room_id (to_be_bytes invitedcount),
                  our_real_users_cache := (our_real_users_cache db)(room_id \<mapsto> real_users)\<rparr>;
          (joined_servers, db) = fold (drop_old_server room_id) (oks (room_servers R room_id db)) (joined_servers, db);
          db = fold (add_new_server room_id) (elems joined_servers) db
      in db\<lparr>appservice_in_room_cache := (appservice_in_room_cache db)(room_id := None)\<rparr>)"

definition get_our_real_users ::
  "ruma \<Rightarrow> (str fset \<Rightarrow> str list) \<Rightarrow> str \<Rightarrow> str \<Rightarrow> 'a statecache_db_scheme \<Rightarrow> str fset result \<times> 'a statecache_db_scheme" where
  "get_our_real_users R elems server_name room_id db =
     (case our_real_users_cache db room_id of
        Some users \<Rightarrow> (Ok users, db)
      | None \<Rightarrow>
          (let db = update_joined_count R elems server_name room_id db
           in (ok_or (Panicked ''called Option::unwrap() on a None value'') (our_real_users_cache db room_id), db)))"

text \<open>
  An application service: its id, the id of its bridge user on this server when the local part
  parses, and the pattern of its user namespace (a regular expression of the regex crate).
\<close>

record registration_info =
  registration_id :: str
  bridge_user_id :: "str option"
  users_is_match :: "str \<Rightarrow> bool"

definition appservice_in_room ::
  "ruma \<Rightarrow> str \<Rightarrow> registration_info \<Rightarrow> 'a statecache_db_scheme \<Rightarrow> bool result \<times> 'a statecache_db_scheme" where
  "appservice_in_room R room_id appservice db =
     (case Option.bind (appservice_in_room_cache db room_id) (\<lambda>m. m (registration_id appservice)) of
        Some b \<Rightarrow> (Ok b, db)
      | None \<Rightarrow>
          (let in_room =
             (case bridge_user_id appservice of
                Some id' \<Rightarrow> (case is_joined id' room_id db of Inr b \<Rightarrow> b | Inl _ \<Rightarrow> False)
              | None \<Rightarrow> False)
             \<or> list_ex (\<lambda>userid. case userid of Inr u \<Rightarrow> users_is_match appservice u | Inl _ \<Rightarrow> False)
                 (room_members R room_id db);
             entry = (case appservice_in_room_cache db room_id of Some m \<Rightarrow> m | None \<Rightarrow> Map.empty)
           in (Ok in_room, db\<lparr>appservice_in_room_cache := (appservice_in_room_cache db)
                 (room_id \<mapsto> entry(registration_id appservice \<mapsto> in_room))\<rparr>)))"


section \<open>Lists of identifiers behind a prefix\<close>

text \<open>A table whose keys are two UTF-8 identifiers around a separator.\<close>

definition pair_keys :: "(str \<Rightarrow> str \<Rightarrow> bool) \<Rightarrow> kvtree \<Rightarrow> bool" where
  "pair_keys P t \<longleftrightarrow> kv_wf t
     \<and> (\<forall>k \<in> dom (kv_get t). \<exists>a b. k = a @ sep # b \<and> utf8 a \<and> utf8 b \<and> P a b)"

lemma pair_keys_get:
  assumes "pair_keys P t" "kv_get t (a @ sep # b) = Some v" "utf8 a"
  shows "utf8 b \<and> P a b"
proof -
  obtain a' b' where k: "a @ sep # b = a' @ sep # b'" "utf8 a'" "utf8 b'" "P a' b'"
    using assms(1,2) unfolding pair_keys_def by blast
  then show ?thesis using assms(3) by (simp add: key_simps)
qed

lemma pair_keys_insert:
  assumes "pair_keys P t" "utf8 a" "utf8 b" "P a b"
  shows "pair_keys P (kv_insert t (a @ sep # b) v)"
proof -
  have wf: "kv_wf t" using assms(1) by (simp add: pair_keys_def)
  then have "dom (kv_get (kv_insert t (a @ sep # b) v)) = insert (a @ sep # b) (dom (kv_get t))"
    by (simp add: kv_get_insert_map)
  then show ?thesis using assms wf unfolding pair_keys_def by (simp add: kv_intros) blast
qed

lemma pair_keys_remove:
  assumes "pair_keys P t"
  shows "pair_keys P (kv_remove t k)"
proof -
  have "dom (kv_get (kv_remove t k)) \<subseteq> dom (kv_get t)" by (auto simp: kv_get_remove_map)
  then show ?thesis using assms unfolding pair_keys_def by (blast intro: kv_wf_remove)
qed

lemma pair_keys_remove_keys: "pair_keys P t \<Longrightarrow> pair_keys P (kv_remove_keys t ks)"
  unfolding kv_remove_keys_def by (induction ks arbitrary: t) (simp_all add: pair_keys_remove)

lemma scan_pairs:
  fixes m m' :: string
  assumes t: "pair_keys P t" and a: "utf8 a" and valid: "\<And>b. P a b \<Longrightarrow> valid b"
  defines "bs \<equiv> oks (map (\<lambda>(key, _). parse_id valid m m' (last_part key)) (kv_scan_prefix t (a @ [sep])))"
  shows "distinct bs" "set bs = {b. kv_get t (a @ sep # b) \<noteq> None}" "\<And>b. b \<in> set bs \<Longrightarrow> utf8 b \<and> P a b"
    "map (\<lambda>(key, _). parse_id valid m m' (last_part key)) (kv_scan_prefix t (a @ [sep])) = map Inr bs"
proof -
  let ?rows = "kv_scan_prefix t (a @ [sep])"
  have wf: "kv_wf t" using t by (simp add: pair_keys_def)
  have row: "\<exists>b. k = a @ sep # b \<and> utf8 b \<and> P a b \<and> kv_get t k = Some v" if kv: "(k, v) \<in> set ?rows" for k v
  proof -
    have g: "kv_get t k = Some v" "starts_with k (a @ [sep])" using kv wf by (auto simp: kv_scan_prefix_set)
    then obtain b where "k = a @ sep # b" by (auto simp: prefix_def)
    then show ?thesis using pair_keys_get [OF t _ a] g(1) by blast
  qed
  have lp: "last_part (a @ sep # b) = b" if "utf8 b" for b
    using that by (simp add: last_part_def key_simps)
  have p: "parse_id valid m m' (last_part k) = Inr (last_part k)" if kv: "(k, v) \<in> set ?rows" for k v
  proof -
    obtain b where b: "k = a @ sep # b" "utf8 b" "P a b" using row [OF kv] by blast
    show ?thesis unfolding b(1) lp [OF b(2)] by (rule parse_id_Ok) (use b valid in auto)
  qed
  have bs: "bs = map (\<lambda>(k, _). last_part k) ?rows"
    unfolding bs_def by (rule oks_map_Inr) (use p in \<open>auto split: prod.splits\<close>)
  have bs': "bs = map last_part (map fst ?rows)" by (simp add: bs case_prod_beta comp_def)
  show "map (\<lambda>(key, _). parse_id valid m m' (last_part key)) ?rows = map Inr bs"
    using p by (auto simp: bs)
  have "inj_on last_part (set (map fst ?rows))"
  proof (rule inj_onI)
    fix k k' assume "k \<in> set (map fst ?rows)" "k' \<in> set (map fst ?rows)" and eq: "last_part k = last_part k'"
    then obtain v v' where kv: "(k, v) \<in> set ?rows" "(k', v') \<in> set ?rows" by auto
    obtain b b' where "k = a @ sep # b" "utf8 b" "k' = a @ sep # b'" "utf8 b'" using row [OF kv(1)] row [OF kv(2)] by blast
    then show "k = k'" using eq lp by simp
  qed
  moreover have "distinct (map fst ?rows)" using kv_scan_prefix_sorted [OF wf] strict_sorted_iff by blast
  ultimately show "distinct bs" unfolding bs' distinct_map by blast
  show "set bs = {b. kv_get t (a @ sep # b) \<noteq> None}"
  proof (intro set_eqI iffI)
    fix b assume "b \<in> set bs"
    then obtain k v where kv: "(k, v) \<in> set ?rows" "b = last_part k" by (auto simp: bs)
    then show "b \<in> {b. kv_get t (a @ sep # b) \<noteq> None}" using row [OF kv(1)] lp by auto
  next
    fix b assume "b \<in> {b. kv_get t (a @ sep # b) \<noteq> None}"
    then obtain v where v: "kv_get t (a @ sep # b) = Some v" by auto
    then have "(a @ sep # b, v) \<in> set ?rows" using wf by (simp add: kv_scan_prefix_set prefix_def)
    moreover have "b = last_part (a @ sep # b)" using lp pair_keys_get [OF t v a] by simp
    ultimately show "b \<in> set bs" unfolding bs by (auto intro!: image_eqI [of _ _ "(a @ sep # b, v)"])
  qed
  then show "utf8 b \<and> P a b" if "b \<in> set bs" for b using that pair_keys_get [OF t _ a] by auto
qed

section \<open>The abstract membership\<close>

datatype membership = Joined | Invited | Knocked | HasLeft

fun user_table :: "membership \<Rightarrow> 'a statecache_db_scheme \<Rightarrow> kvtree" where
  "user_table Joined = userroomid_joined"
| "user_table Invited = userroomid_invitestate"
| "user_table Knocked = userroomid_knockstate"
| "user_table HasLeft = userroomid_leftstate"

fun room_table :: "membership \<Rightarrow> 'a statecache_db_scheme \<Rightarrow> kvtree" where
  "room_table Joined = roomuserid_joined"
| "room_table Invited = roomuserid_invitecount"
| "room_table Knocked = roomuserid_knockcount"
| "room_table HasLeft = roomuserid_leftcount"

text \<open>What the four queries say together.\<close>

definition membership_of :: "str \<Rightarrow> str \<Rightarrow> 'a statecache_db_scheme \<Rightarrow> membership option" where
  "membership_of u r db =
     (if is_joined u r db = Ok True then Some Joined
      else if is_invited u r db = Ok True then Some Invited
      else if is_knocked u r db = Ok True then Some Knocked
      else if is_left u r db = Ok True then Some HasLeft else None)"

definition known_ids :: "ruma \<Rightarrow> str \<Rightarrow> str \<Rightarrow> bool" where
  "known_ids R u r \<longleftrightarrow> utf8 u \<and> utf8 r \<and> valid_user_id R u \<and> valid_room_id R r"

text \<open>The invariant: well-formed keys, the two tables of a membership mirror each other, and no two
  memberships of a user in a room at a time.\<close>

definition member_inv :: "ruma \<Rightarrow> 'a statecache_db_scheme \<Rightarrow> bool" where
  "member_inv R db \<longleftrightarrow>
     (\<forall>m. pair_keys (known_ids R) (user_table m db) \<and> pair_keys (\<lambda>r u. known_ids R u r) (room_table m db))
     \<and> (\<forall>u r. known_ids R u r \<longrightarrow>
         (\<forall>m. kv_get (room_table m db) (r @ sep # u) = None \<longleftrightarrow> kv_get (user_table m db) (u @ sep # r) = None)
         \<and> (\<forall>m m'. kv_get (user_table m db) (u @ sep # r) \<noteq> None \<longrightarrow>
              kv_get (user_table m' db) (u @ sep # r) \<noteq> None \<longrightarrow> m = m'))"

lemma membership_of_iff:
  assumes "member_inv R db" "known_ids R u r"
  shows "membership_of u r db = Some m \<longleftrightarrow> kv_get (user_table m db) (u @ sep # r) \<noteq> None"
proof -
  have one: "m = m'" if "kv_get (user_table m db) (u @ sep # r) \<noteq> None" "kv_get (user_table m' db) (u @ sep # r) \<noteq> None"
    for m m' using assms that unfolding member_inv_def by blast
  note o = one [of Joined Invited] one [of Joined Knocked] one [of Joined HasLeft] one [of Invited Knocked]
    one [of Invited HasLeft] one [of Knocked HasLeft]
  show ?thesis using o
    by (cases m) (auto simp: membership_of_def is_joined_def is_invited_def is_knocked_def is_left_def
        get_userroom_id_bytes_def)
qed

lemmas marks_def = mark_as_joined_def mark_as_invited_def mark_as_knocked_def mark_as_left_def
  get_room_and_user_byte_ids_def get_userroom_id_bytes_def get_roomuser_id_bytes_def Let_def next_count_eq

text \<open>
  The contract of the \<open>mark_as\<close> operations: the row of the new membership is written in both
  tables, the rows of the three others are removed.
\<close>

locale membership_mark =
  fixes mark :: "str \<Rightarrow> str \<Rightarrow> 'a statecache_db_scheme \<Rightarrow> 'a statecache_db_scheme" and m0 :: membership
  assumes mark_user: "\<exists>x. user_table m0 (mark u r db) = kv_insert (user_table m0 db) (u @ sep # r) x"
    and mark_room: "\<exists>x. room_table m0 (mark u r db) = kv_insert (room_table m0 db) (r @ sep # u) x"
    and unmark: "m \<noteq> m0 \<Longrightarrow> user_table m (mark u r db) = kv_remove (user_table m db) (u @ sep # r)
      \<and> room_table m (mark u r db) = kv_remove (room_table m db) (r @ sep # u)"
begin

lemma mark_tables:
  assumes inv: "member_inv R db" and k: "known_ids R u r"
  shows "pair_keys (known_ids R) (user_table m (mark u r db))"
    "pair_keys (\<lambda>r u. known_ids R u r) (room_table m (mark u r db))"
    "known_ids R u' r' \<Longrightarrow> kv_get (user_table m (mark u r db)) (u' @ sep # r') = None \<longleftrightarrow>
       (if u' = u \<and> r' = r then m \<noteq> m0 else kv_get (user_table m db) (u' @ sep # r') = None)"
    "known_ids R u' r' \<Longrightarrow> kv_get (room_table m (mark u r db)) (r' @ sep # u') = None \<longleftrightarrow>
       (if u' = u \<and> r' = r then m \<noteq> m0 else kv_get (room_table m db) (r' @ sep # u') = None)"
proof -
  have t: "pair_keys (known_ids R) (user_table m db)" "pair_keys (\<lambda>r u. known_ids R u r) (room_table m db)"
    using inv by (auto simp: member_inv_def)
  then have wf: "kv_wf (user_table m db)" "kv_wf (room_table m db)" by (simp_all add: pair_keys_def)
  have id: "utf8 u" "utf8 r" using k by (simp_all add: known_ids_def)
  obtain x y where xy: "user_table m0 (mark u r db) = kv_insert (user_table m0 db) (u @ sep # r) x"
    "room_table m0 (mark u r db) = kv_insert (room_table m0 db) (r @ sep # u) y"
    using mark_user mark_room by meson
  show "pair_keys (known_ids R) (user_table m (mark u r db))"
    "pair_keys (\<lambda>r u. known_ids R u r) (room_table m (mark u r db))"
    using xy t id k unmark [of m u r db] pair_keys_insert pair_keys_remove by (cases "m = m0"; auto)+
  show "kv_get (user_table m (mark u r db)) (u' @ sep # r') = None \<longleftrightarrow>
       (if u' = u \<and> r' = r then m \<noteq> m0 else kv_get (user_table m db) (u' @ sep # r') = None)"
    "kv_get (room_table m (mark u r db)) (r' @ sep # u') = None \<longleftrightarrow>
       (if u' = u \<and> r' = r then m \<noteq> m0 else kv_get (room_table m db) (r' @ sep # u') = None)"
    if "known_ids R u' r'"
    using that xy wf id unmark [of m u r db]
    by (cases "m = m0"; auto simp: kv_simps known_ids_def sep_append_inj utf8_no_sep)+
qed

lemma mark_inv:
  assumes "member_inv R db" "known_ids R u r"
  shows "member_inv R (mark u r db)"
  using assms unfolding member_inv_def [of R "mark u r db"]
  by (auto simp: mark_tables [OF assms] simp del: not_None_eq split: if_splits) (auto simp: member_inv_def)

lemma mark_refines:
  assumes "member_inv R db" "known_ids R u r" "known_ids R u' r'"
  shows "membership_of u' r' (mark u r db) = (if u' = u \<and> r' = r then Some m0 else membership_of u' r' db)"
proof -
  have "membership_of u' r' (mark u r db) = Some m \<longleftrightarrow>
      (if u' = u \<and> r' = r then m = m0 else membership_of u' r' db = Some m)" for m
    by (simp add: membership_of_iff [OF mark_inv [OF assms(1,2)] assms(3)] membership_of_iff [OF assms(1,3)]
        mark_tables(3) [OF assms] del: not_None_eq)
  then have "membership_of u' r' (mark u r db) = Some m \<longleftrightarrow>
      (if u' = u \<and> r' = r then Some m0 else membership_of u' r' db) = Some m" for m by auto
  then show ?thesis by (metis not_Some_eq)
qed

end

interpretation joining: membership_mark mark_as_joined Joined
proof unfold_locales
  fix m u r and db :: "'a statecache_db_scheme"
  assume "m \<noteq> Joined"
  then show "user_table m (mark_as_joined u r db) = kv_remove (user_table m db) (u @ sep # r)
      \<and> room_table m (mark_as_joined u r db) = kv_remove (room_table m db) (r @ sep # u)"
    by (cases m) (simp_all add: marks_def)
qed (auto simp: marks_def)

interpretation inviting: membership_mark "\<lambda>u r db. snd (mark_as_invited to_vec u r st db)" Invited
  for to_vec :: "'s list \<Rightarrow> bytes" and st
proof unfold_locales
  fix m u r and db :: "'a statecache_db_scheme"
  assume "m \<noteq> Invited"
  then show "user_table m (snd (mark_as_invited to_vec u r st db)) = kv_remove (user_table m db) (u @ sep # r)
      \<and> room_table m (snd (mark_as_invited to_vec u r st db)) = kv_remove (room_table m db) (r @ sep # u)"
    by (cases m) (simp_all add: marks_def)
qed (auto simp: marks_def)

interpretation knocking: membership_mark "\<lambda>u r db. snd (mark_as_knocked to_vec u r st db)" Knocked
  for to_vec :: "'s list \<Rightarrow> bytes" and st
proof unfold_locales
  fix m u r and db :: "'a statecache_db_scheme"
  assume "m \<noteq> Knocked"
  then show "user_table m (snd (mark_as_knocked to_vec u r st db)) = kv_remove (user_table m db) (u @ sep # r)
      \<and> room_table m (snd (mark_as_knocked to_vec u r st db)) = kv_remove (room_table m db) (r @ sep # u)"
    by (cases m) (simp_all add: marks_def)
qed (auto simp: marks_def)

interpretation leaving: membership_mark "\<lambda>u r db. snd (mark_as_left to_vec u r db)" HasLeft
  for to_vec :: "'s list \<Rightarrow> bytes"
proof unfold_locales
  fix m u r and db :: "'a statecache_db_scheme"
  assume "m \<noteq> HasLeft"
  then show "user_table m (snd (mark_as_left to_vec u r db)) = kv_remove (user_table m db) (u @ sep # r)
      \<and> room_table m (snd (mark_as_left to_vec u r db)) = kv_remove (room_table m db) (r @ sep # u)"
    by (cases m) (simp_all add: marks_def)
qed (auto simp: marks_def)


lemma forget_tables:
  "user_table m (forget r u db) = (if m = HasLeft then kv_remove (user_table m db) (u @ sep # r) else user_table m db)"
  "room_table m (forget r u db) = (if m = HasLeft then kv_remove (room_table m db) (r @ sep # u) else room_table m db)"
  by (cases m; simp add: forget_def marks_def)+

lemma forget_get:
  assumes "known_ids R u r" "known_ids R u' r'"
  shows "kv_get (user_table m (forget r u db)) (u' @ sep # r') = None \<longleftrightarrow>
      u' = u \<and> r' = r \<and> m = HasLeft \<or> kv_get (user_table m db) (u' @ sep # r') = None"
    "kv_get (room_table m (forget r u db)) (r' @ sep # u') = None \<longleftrightarrow>
      u' = u \<and> r' = r \<and> m = HasLeft \<or> kv_get (room_table m db) (r' @ sep # u') = None"
  using assms by (simp_all add: forget_tables kv_simps known_ids_def sep_append_inj utf8_no_sep) blast+

lemma forget_inv:
  assumes "member_inv R db" "known_ids R u r"
  shows "member_inv R (forget r u db)"
proof -
  have t: "pair_keys (known_ids R) (user_table m (forget r u db))"
    "pair_keys (\<lambda>r u. known_ids R u r) (room_table m (forget r u db))" for m
    using assms(1) by (simp_all add: member_inv_def forget_tables pair_keys_remove del: user_table.simps room_table.simps)
  then show ?thesis
    using assms(1) unfolding member_inv_def by (simp add: forget_get [OF assms(2)] del: not_None_eq)
qed

lemma forget_refines:
  assumes "member_inv R db" "known_ids R u r" "known_ids R u' r'"
  shows "membership_of u' r' (forget r u db) =
    (if u' = u \<and> r' = r \<and> membership_of u r db = Some HasLeft then None else membership_of u' r' db)"
proof -
  have "membership_of u' r' (forget r u db) = Some m \<longleftrightarrow>
      membership_of u' r' db = Some m \<and> \<not> (u' = u \<and> r' = r \<and> m = HasLeft)" for m
    by (simp add: membership_of_iff [OF forget_inv [OF assms(1,2)] assms(3)] membership_of_iff [OF assms(1,3)]
        forget_get [OF assms(2,3)] del: not_None_eq) blast
  then have "membership_of u' r' (forget r u db) = Some m \<longleftrightarrow>
      (if u' = u \<and> r' = r \<and> membership_of u r db = Some HasLeft then None else membership_of u' r' db) = Some m" for m
    by auto
  then show ?thesis by (metis not_Some_eq)
qed

section \<open>Recomputing a room\<close>

lemma fold_drop_old_server:
  assumes "distinct os"
  shows "fold (drop_old_server room) os (J, db) = (J |-| fset_of_list os,
     db\<lparr>roomserverids := kv_remove_keys (roomserverids db) (map (\<lambda>s. room @ sep # s) (filter (\<lambda>s. s |\<notin>| J) os)),
        serverroomids := kv_remove_keys (serverroomids db) (map (\<lambda>s. s @ sep # room) (filter (\<lambda>s. s |\<notin>| J) os))\<rparr>)"
  using assms
proof (induction os arbitrary: J db)
  case Nil
  then show ?case by (simp add: kv_remove_keys_def)
next
  case (Cons s os)
  have "filter (\<lambda>x. x |\<notin>| J |-| {|s|}) os = filter (\<lambda>x. x |\<notin>| J) os"
    using Cons.prems by (intro filter_cong) auto
  moreover have "J |-| {|s|} |-| fset_of_list os = J |-| fset_of_list (s # os)" by auto
  moreover have "s |\<notin>| J \<Longrightarrow> J |-| fset_of_list os = J |-| fset_of_list (s # os)" by auto
  ultimately show ?case
    using Cons.IH [of "J |-| {|s|}" db] Cons.prems
      Cons.IH [of J "db\<lparr>roomserverids := kv_remove (roomserverids db) (room @ sep # s),
         serverroomids := kv_remove (serverroomids db) (s @ sep # room)\<rparr>"]
    by (simp add: drop_old_server_def kv_remove_keys_def)
qed

lemma fold_add_new_server:
  "fold (add_new_server room) ss db = db\<lparr>
     roomserverids := kv_insert_batch (roomserverids db) (map (\<lambda>s. (room @ sep # s, [])) ss),
     serverroomids := kv_insert_batch (serverroomids db) (map (\<lambda>s. (s @ sep # room, [])) ss)\<rparr>"
  by (induction ss arbitrary: db) (simp_all add: add_new_server_def kv_insert_batch_def)

text \<open>The tables of participating servers mirror each other.\<close>

definition server_inv :: "ruma \<Rightarrow> 'a statecache_db_scheme \<Rightarrow> bool" where
  "server_inv R db \<longleftrightarrow> pair_keys (\<lambda>r s. valid_server_name R s) (roomserverids db) \<and> kv_wf (serverroomids db)
     \<and> kv_wf (roomid_joinedcount db) \<and> kv_wf (roomid_invitedcount db)
     \<and> (\<forall>r s. utf8 r \<longrightarrow> utf8 s \<longrightarrow>
          (kv_get (roomserverids db) (r @ sep # s) = None \<longleftrightarrow> kv_get (serverroomids db) (s @ sep # r) = None))"

lemma update_joined_count_eq:
  fixes R elems server_name room db
  defines "joined \<equiv> oks (room_members R room db)" and "os \<equiv> oks (room_servers R room db)"
  defines "J \<equiv> fset_of_list (map (server_name_of R) joined)"
  assumes "distinct os"
  shows "roomserverids (update_joined_count R elems server_name room db) =
      kv_insert_batch (kv_remove_keys (roomserverids db) (map (\<lambda>s. room @ sep # s) (filter (\<lambda>s. s |\<notin>| J) os)))
        (map (\<lambda>s. (room @ sep # s, [])) (elems (J |-| fset_of_list os)))"
    "serverroomids (update_joined_count R elems server_name room db) =
      kv_insert_batch (kv_remove_keys (serverroomids db) (map (\<lambda>s. s @ sep # room) (filter (\<lambda>s. s |\<notin>| J) os)))
        (map (\<lambda>s. (s @ sep # room, [])) (elems (J |-| fset_of_list os)))"
    "roomid_joinedcount (update_joined_count R elems server_name room db) =
      kv_insert (roomid_joinedcount db) room (to_be_bytes (of_nat (length joined)))"
    "our_real_users_cache (update_joined_count R elems server_name room db) room =
      Some (fset_of_list (filter (\<lambda>u. server_name_of R u = server_name
            \<and> \<not> (case is_deactivated u db of Inr b \<Rightarrow> b | Inl _ \<Rightarrow> True)) joined))"
    "roomid_invitedcount (update_joined_count R elems server_name room db) = kv_insert (roomid_invitedcount db) room
      (to_be_bytes (of_nat (length (oks (room_members_invited R room db)))))"
proof -
  have rs: "oks (room_servers R room (db\<lparr>roomid_joinedcount := a, roomid_invitedcount := b, our_real_users_cache := c\<rparr>)) = os"
    for a b c by (simp add: os_def room_servers_def)
  show "roomserverids (update_joined_count R elems server_name room db) =
      kv_insert_batch (kv_remove_keys (roomserverids db) (map (\<lambda>s. room @ sep # s) (filter (\<lambda>s. s |\<notin>| J) os)))
        (map (\<lambda>s. (room @ sep # s, [])) (elems (J |-| fset_of_list os)))"
    "serverroomids (update_joined_count R elems server_name room db) =
      kv_insert_batch (kv_remove_keys (serverroomids db) (map (\<lambda>s. s @ sep # room) (filter (\<lambda>s. s |\<notin>| J) os)))
        (map (\<lambda>s. (s @ sep # room, [])) (elems (J |-| fset_of_list os)))"
    "roomid_joinedcount (update_joined_count R elems server_name room db) =
      kv_insert (roomid_joinedcount db) room (to_be_bytes (of_nat (length joined)))"
    "our_real_users_cache (update_joined_count R elems server_name room db) room =
      Some (fset_of_list (filter (\<lambda>u. server_name_of R u = server_name
            \<and> \<not> (case is_deactivated u db of Inr b \<Rightarrow> b | Inl _ \<Rightarrow> True)) joined))"
    "roomid_invitedcount (update_joined_count R elems server_name room db) = kv_insert (roomid_invitedcount db) room
      (to_be_bytes (of_nat (length (oks (room_members_invited R room db)))))"
    by (simp_all add: update_joined_count_def Let_def rs fold_drop_old_server [OF assms(4)] fold_add_new_server
        J_def flip: joined_def)
qed

lemma members_are:
  assumes "member_inv R db" "utf8 r" "valid_room_id R r"
  shows "distinct (oks (room_members R r db))"
    "u \<in> set (oks (room_members R r db)) \<longleftrightarrow> known_ids R u r \<and> is_joined u r db = Ok True"
proof -
  have t: "pair_keys (\<lambda>r u. known_ids R u r) (roomuserid_joined db)"
    using assms(1) by (auto simp: member_inv_def dest: spec [of _ Joined])
  have v: "valid_user_id R b" if "known_ids R b r" for b using that by (simp add: known_ids_def)
  note sp = scan_pairs [OF t assms(2), of "valid_user_id R", OF v, where m = "''User ID in roomuserid_joined is invalid unicode.''"
      and m' = "''User ID in roomuserid_joined is invalid.''", folded room_members_def]
  show "distinct (oks (room_members R r db))" using sp(1) by simp
  have mir: "kv_get (roomuserid_joined db) (r @ sep # u) = None \<longleftrightarrow> kv_get (userroomid_joined db) (u @ sep # r) = None"
    if "known_ids R u r"
  proof -
    have "kv_get (room_table Joined db) (r @ sep # u) = None \<longleftrightarrow> kv_get (user_table Joined db) (u @ sep # r) = None"
      using assms(1) that unfolding member_inv_def by blast
    then show ?thesis by simp
  qed
  show "u \<in> set (oks (room_members R r db)) \<longleftrightarrow> known_ids R u r \<and> is_joined u r db = Ok True"
    using sp(2) sp(3) [of u] mir by (auto simp: is_joined_def get_userroom_id_bytes_def)
qed


lemma servers_are:
  assumes "server_inv R db" "utf8 r"
  shows "distinct (oks (room_servers R r db))"
    "set (oks (room_servers R r db)) = {s. kv_get (roomserverids db) (r @ sep # s) \<noteq> None}"
    "\<And>s. s \<in> set (oks (room_servers R r db)) \<Longrightarrow> utf8 s \<and> valid_server_name R s"
proof -
  have t: "pair_keys (\<lambda>r s. valid_server_name R s) (roomserverids db)" using assms(1) by (simp add: server_inv_def)
  note sp = scan_pairs [OF t assms(2), of "valid_server_name R", where
      m = "''Server name in roomserverids is invalid unicode.''"
      and m' = "''Server name in roomserverids is invalid.''", folded room_servers_def]
  show "distinct (oks (room_servers R r db))"
    "set (oks (room_servers R r db)) = {s. kv_get (roomserverids db) (r @ sep # s) \<noteq> None}"
    "\<And>s. s \<in> set (oks (room_servers R r db)) \<Longrightarrow> utf8 s \<and> valid_server_name R s"
    using sp by simp_all
qed

lemma map_of_const_rev: "map_of (rev (map (\<lambda>s. (f s, c)) ss)) k = (if k \<in> f ` set ss then Some c else None)"
  by (induction ss) (auto simp: map_add_def)

lemma pair_keys_insert_batch:
  assumes "pair_keys P t" "utf8 a" "\<forall>s \<in> set ss. utf8 s \<and> P a s"
  shows "pair_keys P (kv_insert_batch t (map (\<lambda>s. (a @ sep # s, x)) ss))"
  using assms unfolding kv_insert_batch_def
  by (induction ss arbitrary: t) (simp_all add: pair_keys_insert)

text \<open>After the recomputation the servers of the room are exactly \<open>J\<close>.\<close>

lemma update_servers:
  fixes elems :: "str fset \<Rightarrow> str list" and me :: str
  assumes inv: "server_inv R db" and r: "utf8 r" and ord: "iteration_order elems"
    and J: "J = fset_of_list (map (server_name_of R) (oks (room_members R r db)))"
    and names: "\<forall>s. s |\<in>| J \<longrightarrow> utf8 s \<and> valid_server_name R s"
  defines "db' \<equiv> update_joined_count R elems me r db"
  shows "pair_keys (\<lambda>r s. valid_server_name R s) (roomserverids db')" "kv_wf (serverroomids db')"
    "utf8 r' \<Longrightarrow> utf8 s \<Longrightarrow> kv_get (roomserverids db') (r' @ sep # s) \<noteq> None \<longleftrightarrow>
       (if r' = r then s |\<in>| J else kv_get (roomserverids db) (r' @ sep # s) \<noteq> None)"
    "utf8 r' \<Longrightarrow> utf8 s \<Longrightarrow> kv_get (serverroomids db') (s @ sep # r') \<noteq> None \<longleftrightarrow>
       (if r' = r then s |\<in>| J else kv_get (serverroomids db) (s @ sep # r') \<noteq> None)"
proof -
  let ?os = "oks (room_servers R r db)"
  note os = servers_are [OF inv r]
  have wf: "kv_wf (roomserverids db)" "kv_wf (serverroomids db)" "pair_keys (\<lambda>r s. valid_server_name R s) (roomserverids db)"
    using inv by (simp_all add: server_inv_def pair_keys_def)
  have el: "set (elems (J |-| fset_of_list ?os)) = fset J - set ?os"
    using ord by (simp add: elems_set fset_of_list.rep_eq)
  note up = update_joined_count_eq [OF os(1), of elems me, folded J db'_def]
  show "pair_keys (\<lambda>r s. valid_server_name R s) (roomserverids db')" unfolding up(1)
    by (rule pair_keys_insert_batch) (use wf r names el in \<open>auto intro: pair_keys_remove_keys\<close>)
  show "kv_wf (serverroomids db')" unfolding up(2) using wf by (simp add: kv_intros)
  show "kv_get (roomserverids db') (r' @ sep # s) \<noteq> None \<longleftrightarrow>
       (if r' = r then s |\<in>| J else kv_get (roomserverids db) (r' @ sep # s) \<noteq> None)" if u: "utf8 r'" "utf8 s"
  proof -
    have "kv_get (roomserverids db') (r' @ sep # s) \<noteq> None \<longleftrightarrow> (r' = r \<and> s \<in> fset J - set ?os)
        \<or> (\<not> (r' = r \<and> s \<in> set ?os \<and> s |\<notin>| J) \<and> kv_get (roomserverids db) (r' @ sep # s) \<noteq> None)"
      unfolding up(1) using wf r u
      by (auto simp: kv_get_insert_batch kv_wf_remove_keys kv_get_remove_keys map_of_const_rev el image_iff
          sep_append_inj utf8_no_sep)
    then show ?thesis using os(2) by auto
  qed
  have mir: "kv_get (roomserverids db) (r @ sep # s) = None \<longleftrightarrow> kv_get (serverroomids db) (s @ sep # r) = None"
    if "utf8 s" for s using inv r that by (simp add: server_inv_def)
  have os8: "utf8 x" if "x \<in> set ?os" for x using os(3) that by blast
  have J8: "utf8 x" if "x |\<in>| J" for x using names that by blast
  show "kv_get (serverroomids db') (s @ sep # r') \<noteq> None \<longleftrightarrow>
       (if r' = r then s |\<in>| J else kv_get (serverroomids db) (s @ sep # r') \<noteq> None)" if u: "utf8 r'" "utf8 s"
  proof -
    have i1: "s @ sep # r' \<in> (\<lambda>s. s @ sep # r) ` X \<longleftrightarrow> r' = r \<and> s \<in> X" if "\<And>x. x \<in> X \<Longrightarrow> utf8 x" for X
      using that u by (auto simp: image_iff sep_append_inj utf8_no_sep)
    have "kv_get (serverroomids db') (s @ sep # r') \<noteq> None \<longleftrightarrow> (r' = r \<and> s \<in> fset J - set ?os)
        \<or> (\<not> (r' = r \<and> s \<in> set ?os \<and> s |\<notin>| J) \<and> kv_get (serverroomids db) (s @ sep # r') \<noteq> None)"
      unfolding up(2) using wf(2) i1 [of "fset J - set ?os"] i1 [of "{x \<in> set ?os. x |\<notin>| J}"] os8 J8
      by (simp add: kv_get_insert_batch kv_wf_remove_keys kv_get_remove_keys map_of_const_rev el del: not_None_eq) blast
    then show ?thesis using os(2) mir u(2) by auto
  qed
qed


section \<open>Properties\<close>

text \<open>
  C4: the eight membership tables implement one membership per user and room: each operation that
  marks a user sets exactly that membership and keeps all others, in the user's tables and the
  room's tables alike, and \<open>forget\<close> drops only a membership of having left.
\<close>

theorem marks_refine_membership:
  fixes to_vec :: "'s list \<Rightarrow> bytes"
  assumes "member_inv R db" "known_ids R u r" "known_ids R u' r'"
  shows "member_inv R (mark_as_joined u r db)
    \<and> membership_of u' r' (mark_as_joined u r db) = (if (u', r') = (u, r) then Some Joined else membership_of u' r' db)
    \<and> member_inv R (snd (mark_as_invited to_vec u r st db))
    \<and> membership_of u' r' (snd (mark_as_invited to_vec u r st db))
        = (if (u', r') = (u, r) then Some Invited else membership_of u' r' db)
    \<and> member_inv R (snd (mark_as_knocked to_vec u r st db))
    \<and> membership_of u' r' (snd (mark_as_knocked to_vec u r st db))
        = (if (u', r') = (u, r) then Some Knocked else membership_of u' r' db)
    \<and> member_inv R (snd (mark_as_left to_vec u r db))
    \<and> membership_of u' r' (snd (mark_as_left to_vec u r db))
        = (if (u', r') = (u, r) then Some HasLeft else membership_of u' r' db)
    \<and> member_inv R (forget r u db)
    \<and> membership_of u' r' (forget r u db) = (if (u', r') = (u, r) \<and> membership_of u r db = Some HasLeft then None
        else membership_of u' r' db)"
  using joining.mark_inv [OF assms(1,2)] joining.mark_refines [OF assms]
    inviting.mark_inv [OF assms(1,2), of to_vec st] inviting.mark_refines [OF assms, of to_vec st]
    knocking.mark_inv [OF assms(1,2), of to_vec st] knocking.mark_refines [OF assms, of to_vec st]
    leaving.mark_inv [OF assms(1,2), of to_vec] leaving.mark_refines [OF assms, of to_vec]
    forget_inv [OF assms(1,2)] forget_refines [OF assms] by simp

definition empty_statecache_db :: statecache_db where
  "empty_statecache_db = accounts_db.extend empty_accounts_db
     \<lparr>userroomid_joined = [], roomuserid_joined = [], userroomid_invitestate = [], roomuserid_invitecount = [],
      userroomid_knockstate = [], roomuserid_knockcount = [], userroomid_leftstate = [], roomuserid_leftcount = [],
      roomuseroncejoinedids = [], roomid_joinedcount = [], roomid_invitedcount = [], roomserverids = [],
      serverroomids = [], our_real_users_cache = Map.empty, appservice_in_room_cache = Map.empty\<rparr>"

lemma empty_member_inv: "member_inv R empty_statecache_db" "server_inv R empty_statecache_db"
proof -
  have t: "user_table m empty_statecache_db = []" "room_table m empty_statecache_db = []" for m
    by (cases m; simp add: empty_statecache_db_def accounts_db.defs)+
  show "member_inv R empty_statecache_db" by (simp add: member_inv_def t pair_keys_def)
  show "server_inv R empty_statecache_db"
    by (simp add: server_inv_def pair_keys_def empty_statecache_db_def accounts_db.defs)
qed

lemma sample_ids: "known_ids accept_all (ascii ''@a:x'') (ascii ''!r:x'')"
  by (simp add: known_ids_def accept_all_def ascii_def)

theorem marks_refine_membership_witness:
  "membership_of (ascii ''@a:x'') (ascii ''!r:x'')
     (mark_as_joined (ascii ''@a:x'') (ascii ''!r:x'') empty_statecache_db) = Some Joined"
  using marks_refine_membership [OF empty_member_inv(1) sample_ids sample_ids, of concat None] by simp

text \<open>
  C20: recomputing a room makes its counters and lists true: the joined count is the number of joined
  users, the participating servers are exactly the servers of joined users, in both directions of
  the index, other rooms keep theirs, and the cached local users are the joined users of this
  server whose accounts are active. That the server part of a user id is a server name is the
  documented grammar of user ids.
\<close>

theorem update_joined_count_correct:
  fixes elems :: "str fset \<Rightarrow> str list" and me :: str
  assumes "member_inv R db" "server_inv R db" "utf8 r" "valid_room_id R r" "iteration_order elems"
    and "\<forall>u. utf8 u \<and> valid_user_id R u \<longrightarrow> utf8 (server_name_of R u) \<and> valid_server_name R (server_name_of R u)"
  defines "joined \<equiv> {u. known_ids R u r \<and> is_joined u r db = Ok True}"
    and "db' \<equiv> update_joined_count R elems me r db"
  shows "server_inv R db' \<and> room_joined_count r db' = Ok (Some (of_nat (card joined)))
    \<and> (\<forall>s. utf8 s \<longrightarrow> (server_in_room s r db' = Ok True \<longleftrightarrow> s \<in> server_name_of R ` joined))
    \<and> (\<forall>r' s. utf8 r' \<longrightarrow> utf8 s \<longrightarrow> r' \<noteq> r \<longrightarrow> server_in_room s r' db' = server_in_room s r' db)
    \<and> (\<exists>us. fst (get_our_real_users R elems me r db') = Ok us
        \<and> fset us = {u \<in> joined. server_name_of R u = me \<and> is_deactivated u db = Ok False})"
proof -
  let ?ms = "oks (room_members R r db)"
  let ?J = "fset_of_list (map (server_name_of R) ?ms)"
  note ms = members_are [OF assms(1,3,4)]
  have joined: "set ?ms = joined" using ms(2) by (auto simp: joined_def)
  have J: "s |\<in>| ?J \<longleftrightarrow> s \<in> server_name_of R ` joined" for s using joined by (auto simp: fset_of_list.rep_eq)
  have names: "\<forall>s. s |\<in>| ?J \<longrightarrow> utf8 s \<and> valid_server_name R s"
    unfolding J using assms(6) by (auto simp: joined_def known_ids_def)
  note up = update_servers [OF assms(2,3,5) refl names, where me = me, folded db'_def]
  note eq = update_joined_count_eq [OF servers_are(1) [OF assms(2,3)], of elems me, folded db'_def]
  have wf: "kv_wf (roomid_joinedcount db)" "kv_wf (roomid_invitedcount db)" using assms(2) by (auto simp: server_inv_def)
  have act: "(case is_deactivated u db of Inr b \<Rightarrow> b | Inl _ \<Rightarrow> True) \<longleftrightarrow> is_deactivated u db \<noteq> Ok False" for u
    by (cases "is_deactivated u db") auto
  have ic: "kv_wf (roomid_invitedcount db')" using wf by (simp add: eq(5) kv_intros)
  have "kv_get (roomserverids db') (r' @ sep # s) = None \<longleftrightarrow> kv_get (serverroomids db') (s @ sep # r') = None"
    if u: "utf8 r'" "utf8 s" for r' s
  proof -
    have "kv_get (roomserverids db) (r' @ sep # s) = None \<longleftrightarrow> kv_get (serverroomids db) (s @ sep # r') = None"
      using assms(2) u by (simp add: server_inv_def)
    then show ?thesis using up(3,4) [OF u] by (cases "r' = r") auto
  qed
  then have "server_inv R db'" using up(1,2) wf(1) ic unfolding server_inv_def by (simp add: eq(3) kv_intros)
  moreover have "room_joined_count r db' = Ok (Some (of_nat (card joined)))"
    using distinct_card [OF ms(1)] joined wf by (simp add: room_joined_count_def eq(3) kv_simps)
  moreover have "\<forall>s. utf8 s \<longrightarrow> (server_in_room s r db' = Ok True \<longleftrightarrow> s \<in> server_name_of R ` joined)"
    using up(4) [OF assms(3)] J by (simp add: server_in_room_def)
  moreover have "\<forall>r' s. utf8 r' \<longrightarrow> utf8 s \<longrightarrow> r' \<noteq> r \<longrightarrow> server_in_room s r' db' = server_in_room s r' db"
    using up(4) by (simp add: server_in_room_def)
  moreover have "\<exists>us. fst (get_our_real_users R elems me r db') = Ok us
        \<and> fset us = {u \<in> joined. server_name_of R u = me \<and> is_deactivated u db = Ok False}"
    using joined by (auto simp: get_our_real_users_def eq(4) fset_of_list.rep_eq act)
  ultimately show ?thesis by blast
qed


definition example_ids :: ruma where
  "example_ids = accept_all\<lparr>server_name_of := (\<lambda>_. ascii ''x'')\<rparr>"

theorem update_joined_count_correct_witness:
  "room_joined_count (ascii ''!r:x'') (update_joined_count example_ids sorted_list_of_fset (ascii ''x'') (ascii ''!r:x'')
     (mark_as_joined (ascii ''@a:x'') (ascii ''!r:x'') empty_statecache_db)) = Ok (Some 1)"
proof -
  let ?db = "mark_as_joined (ascii ''@a:x'') (ascii ''!r:x'') empty_statecache_db"
  have k: "known_ids example_ids (ascii ''@a:x'') (ascii ''!r:x'')"
    by (simp add: known_ids_def example_ids_def accept_all_def ascii_def)
  have m: "member_inv example_ids ?db" by (rule joining.mark_inv [OF empty_member_inv(1) k])
  have s: "server_inv example_ids ?db"
    using empty_member_inv(2) [of example_ids] by (simp add: server_inv_def marks_def)
  have n: "\<forall>u. utf8 u \<and> valid_user_id example_ids u \<longrightarrow>
     utf8 (server_name_of example_ids u) \<and> valid_server_name example_ids (server_name_of example_ids u)"
    by (simp add: example_ids_def accept_all_def ascii_def)
  have o: "iteration_order (sorted_list_of_fset :: str fset \<Rightarrow> str list)" by (rule sorted_iteration)
  have j: "{u. known_ids example_ids u (ascii ''!r:x'') \<and> is_joined u (ascii ''!r:x'') ?db = Ok True} = {ascii ''@a:x''}"
    using k by (auto simp: is_joined_def marks_def kv_get_def empty_statecache_db_def accounts_db.defs split: if_splits)
  show ?thesis
    using update_joined_count_correct [OF m s _ _ o n, of "ascii ''!r:x''" "ascii ''x''"] k unfolding j
    by (simp add: known_ids_def)
qed

lemma once_joined_rows:
  "roomuseroncejoinedids (fold (\<lambda>(u, r). mark_as_once_joined u r) js db) =
     kv_insert_batch (roomuseroncejoinedids db) (map (\<lambda>p. (get_userroom_id_bytes (fst p) (snd p), [])) js)"
  by (induction js arbitrary: db) (auto simp: mark_as_once_joined_def Let_def kv_insert_batch_def)

text \<open>
  The list of users who ever joined a room is always empty: \<open>mark_as_once_joined\<close> files a row
  under \<open>user 0xff room\<close> and \<open>once_joined\<close> finds it there, but \<open>room_useroncejoined\<close> scans for
  \<open>room 0xff\<close>, and no user id (they start with \<open>@\<close>) starts like a room id (they start with \<open>!\<close>).
\<close>

theorem room_useroncejoined_misses_everyone:
  assumes "roomuseroncejoinedids db = []" "\<forall>(u, r) \<in> set js. \<exists>u'. u = 64 # u'" "room = 33 # room'"
  defines "db' \<equiv> fold (\<lambda>(u, r). mark_as_once_joined u r) js db"
  shows "room_useroncejoined R room db' = [] \<and> (\<forall>(u, r) \<in> set js. once_joined u r db' = Ok True)"
proof -
  have t: "roomuseroncejoinedids db' = kv_insert_batch [] (map (\<lambda>p. (get_userroom_id_bytes (fst p) (snd p), [])) js)"
    using once_joined_rows [of js db] assms(1) by (simp add: db'_def)
  have d: "kv_wf (roomuseroncejoinedids db')"
      "dom (kv_get (roomuseroncejoinedids db')) = (\<lambda>(u, r). get_userroom_id_bytes u r) ` set js"
    unfolding t by (auto simp: kv_intros kv_get_insert_batch map_of_const_rev dom_def case_prod_beta split: if_splits)
  have "set (kv_scan_prefix (roomuseroncejoinedids db') (room @ [sep])) = {}"
  proof (rule equals0I)
    fix kv assume "kv \<in> set (kv_scan_prefix (roomuseroncejoinedids db') (room @ [sep]))"
    then have "fst kv \<in> dom (kv_get (roomuseroncejoinedids db'))" "starts_with (fst kv) (room @ [sep])"
      using d(1) by (auto simp: kv_scan_prefix_set)
    then obtain u r where "(u, r) \<in> set js" "fst kv = get_userroom_id_bytes u r" unfolding d(2) by auto
    then show False using assms(2,3) \<open>starts_with (fst kv) (room @ [sep])\<close> by (force simp: get_userroom_id_bytes_def)
  qed
  moreover have "once_joined u r db' = Ok True" if "(u, r) \<in> set js" for u r
    using d(2) that by (force simp: once_joined_def dom_def)
  ultimately show ?thesis by (auto simp: room_useroncejoined_def)
qed

theorem room_useroncejoined_misses_everyone_witness:
  "room_useroncejoined accept_all (ascii ''!r:x'')
     (fold (\<lambda>(u, r). mark_as_once_joined u r) [(ascii ''@a:x'', ascii ''!r:x'')] empty_statecache_db) = []"
  by (rule conjunct1 [OF room_useroncejoined_misses_everyone [where room' = "ascii ''r:x''"]])
    (simp_all add: empty_statecache_db_def accounts_db.defs ascii_def)

text \<open>
  The rooms listed as joined for a user include the rooms of every user whose id continues
  theirs: the scan has no separator after the user id.
\<close>

theorem rooms_joined_includes_longer_ids:
  assumes "member_inv R db" "known_ids R (u @ v) r" "is_joined (u @ v) r db = Ok True"
  shows "r \<in> set (oks (rooms_joined R u db))"
proof -
  have wf: "kv_wf (userroomid_joined db)" using assms(1) by (auto simp: member_inv_def pair_keys_def dest: spec [of _ Joined])
  obtain x where "kv_get (userroomid_joined db) ((u @ v) @ sep # r) = Some x"
    using assms(3) by (auto simp: is_joined_def get_userroom_id_bytes_def)
  then have "((u @ v) @ sep # r, x) \<in> set (kv_scan_prefix (userroomid_joined db) u)"
    using wf by (simp add: kv_scan_prefix_set prefix_def)
  moreover have "parse_id (valid_room_id R) m m' (last_part ((u @ v) @ sep # r)) = Inr r" for m m'
    using assms(2) hd_rsplit_sep [of r "u @ v"] utf8_no_sep [of r] by (simp add: last_part_def known_ids_def)
  ultimately show ?thesis unfolding rooms_joined_def set_oks
    by (auto intro!: image_eqI [of _ _ "((u @ v) @ sep # r, x)"])
qed

theorem rooms_joined_includes_longer_ids_witness:
  "ascii ''!r:x'' \<in> set (oks (rooms_joined accept_all (ascii ''@a:x'')
     (mark_as_joined (ascii ''@a:x'' @ ascii ''yz'') (ascii ''!r:x'') empty_statecache_db)))"
proof (rule rooms_joined_includes_longer_ids)
  show k: "known_ids accept_all (ascii ''@a:x'' @ ascii ''yz'') (ascii ''!r:x'')"
    by (simp add: known_ids_def accept_all_def ascii_def)
  show "member_inv accept_all (mark_as_joined (ascii ''@a:x'' @ ascii ''yz'') (ascii ''!r:x'') empty_statecache_db)"
    by (rule joining.mark_inv [OF empty_member_inv(1) k])
qed (simp add: is_joined_def marks_def kv_get_def empty_statecache_db_def accounts_db.defs)

end
