(* ===== verification/Users.thy ===== *)
theory Users
  imports StateCache RoomState "HOL-Library.AList"
begin

text \<open>
  Devices, access tokens, encryption keys, to-device messages, filters and OpenID tokens: the rest of
  \<^verbatim>\<open>server/src/database/key_value/users.rs\<close>, with \<open>deactivate_account\<close> and \<open>clean_signatures\<close> of
  \<^verbatim>\<open>server/src/service/users/mod.rs\<close>. The codecs of serde_json and ruma are parameters; a
  \<open>serde_json::Value\<close> is a datatype, a \<open>Raw\<close> value is its JSON text; the clock and the random
  strings are arguments.
\<close>

record users_db = statecache_db +
  userdeviceid_metadata :: kvtree
  userdeviceid_token :: kvtree
  token_userdeviceid :: kvtree
  userid_devicelistversion :: kvtree
  onetimekeyid_onetimekeys :: kvtree
  userid_lastonetimekeyupdate :: kvtree
  keyid_key :: kvtree
  userid_masterkeyid :: kvtree
  userid_selfsigningkeyid :: kvtree
  userid_usersigningkeyid :: kvtree
  keychangeid_userid :: kvtree
  todeviceid_events :: kvtree
  userfilterid_filter :: kvtree
  openidtoken_expiresatuserid :: kvtree

record device =
  device_device_id :: str
  device_display_name :: "str option"
  device_last_seen_ip :: "str option"
  device_last_seen_ts :: "u64 option"

datatype json = JNull | JBool bool | JNumber bytes | JString str | JArray "json list" | JObject "(str \<times> json) list"

fun json_get :: "str \<Rightarrow> json \<Rightarrow> json option" where
  "json_get k (JObject kvs) = map_of kvs k"
| "json_get k _ = None"

fun json_set :: "str \<Rightarrow> json \<Rightarrow> json \<Rightarrow> json" where
  "json_set k v (JObject kvs) = JObject (AList.update k v kvs)"
| "json_set k v j = j"

text \<open>
  The codecs: devices, values, raw JSON text, one-time key ids (quoted JSON strings) and their
  algorithm, and the key strings of a cross-signing key in map order.
\<close>

record users_codec =
  dev_enc :: "device \<Rightarrow> bytes"
  dev_dec :: "bytes \<Rightarrow> device option"
  value_enc :: "json \<Rightarrow> bytes"
  value_dec :: "bytes \<Rightarrow> json option"
  raw_enc :: "bytes \<Rightarrow> bytes"
  raw_dec :: "bytes \<Rightarrow> bytes option"
  otk_id_enc :: "str \<Rightarrow> bytes"
  otk_id_dec :: "bytes \<Rightarrow> str option"
  otk_algorithm :: "str \<Rightarrow> str"
  csk_keys :: "bytes \<Rightarrow> str list option"

definition userdevice :: "str \<Rightarrow> str \<Rightarrow> bytes" where
  "userdevice user_id device_id = user_id @ [sep] @ device_id"

section \<open>Devices and access tokens\<close>

definition find_from_token :: "ruma \<Rightarrow> str \<Rightarrow> 'a users_db_scheme \<Rightarrow> (str \<times> str) option result" where
  "find_from_token R token db =
     map_transpose (\<lambda>bytes.
       case split_sep bytes of
         user_bytes # device_bytes # _ \<Rightarrow>
           and_then (parse_id (valid_user_id R) ''User ID in token_userdeviceid is invalid unicode.''
             ''User ID in token_userdeviceid is invalid.'' user_bytes) (\<lambda>user.
           and_then (ok_or (BadDatabase ''Device ID in token_userdeviceid is invalid.'') (string_from_bytes device_bytes))
             (\<lambda>device. Ok (user, device)))
       | [user_bytes] \<Rightarrow> Err (BadDatabase ''Device ID in token_userdeviceid is invalid.'')
       | [] \<Rightarrow> Err (BadDatabase ''User ID in token_userdeviceid is invalid.''))
     (kv_get (token_userdeviceid db) token)"

definition set_token :: "str \<Rightarrow> str \<Rightarrow> str \<Rightarrow> 'a users_db_scheme \<Rightarrow> unit result \<times> 'a users_db_scheme" where
  "set_token user_id device_id token db =
     (let userdeviceid = userdevice user_id device_id
      in if kv_get (userdeviceid_metadata db) userdeviceid = None
         then (Err (Panicked ''assertion failed''), db)
         else
           (let db = (case kv_get (userdeviceid_token db) userdeviceid of
                        Some old_token \<Rightarrow> db\<lparr>token_userdeviceid := kv_remove (token_userdeviceid db) old_token\<rparr>
                      | None \<Rightarrow> db)
            in (Ok (), db\<lparr>userdeviceid_token := kv_insert (userdeviceid_token db) userdeviceid token,
                          token_userdeviceid := kv_insert (token_userdeviceid db) token userdeviceid\<rparr>)))"

definition create_device ::
  "users_codec \<Rightarrow> u64 \<Rightarrow> str \<Rightarrow> str \<Rightarrow> str \<Rightarrow> str option \<Rightarrow> 'a users_db_scheme
     \<Rightarrow> unit result \<times> 'a users_db_scheme" where
  "create_device K now user_id device_id token initial_device_display_name db =
     step_then (user_exists user_id db, db) (\<lambda>exists db.
       if \<not> exists then (Err (Panicked ''assertion failed''), db)
       else
         (let db = db\<lparr>userid_devicelistversion := snd (kv_increment (userid_devicelistversion db) user_id),
                userdeviceid_metadata := kv_insert (userdeviceid_metadata db) (userdevice user_id device_id)
                  (dev_enc K \<lparr>device_device_id = device_id, device_display_name = initial_device_display_name,
                     device_last_seen_ip = None, device_last_seen_ts = Some now\<rparr>)\<rparr>
          in set_token user_id device_id token db))"

definition remove_device :: "str \<Rightarrow> str \<Rightarrow> 'a users_db_scheme \<Rightarrow> 'a users_db_scheme" where
  "remove_device user_id device_id db =
     (let userdeviceid = userdevice user_id device_id;
          db = (case kv_get (userdeviceid_token db) userdeviceid of
                  Some old_token \<Rightarrow>
                    db\<lparr>userdeviceid_token := kv_remove (userdeviceid_token db) userdeviceid,
                       token_userdeviceid := kv_remove (token_userdeviceid db) old_token\<rparr>
                | None \<Rightarrow> db)
      in db\<lparr>todeviceid_events := kv_remove_prefix (todeviceid_events db) (userdeviceid @ [sep]),
            userid_devicelistversion := snd (kv_increment (userid_devicelistversion db) user_id),
            userdeviceid_metadata := kv_remove (userdeviceid_metadata db) userdeviceid\<rparr>)"

definition all_device_ids :: "str \<Rightarrow> 'a users_db_scheme \<Rightarrow> str result list" where
  "all_device_ids user_id db = map (\<lambda>(bytes, _).
       ok_or (BadDatabase ''Device ID in userdeviceid_metadata is invalid.'') (string_from_bytes (last_part bytes)))
     (kv_scan_prefix (userdeviceid_metadata db) (user_id @ [sep]))"

text \<open>The loop of \<open>deactivate_account\<close> over the devices found before it starts.\<close>

fun remove_devices :: "str \<Rightarrow> str result list \<Rightarrow> 'a users_db_scheme \<Rightarrow> unit result \<times> 'a users_db_scheme" where
  "remove_devices user_id [] db = (Ok (), db)"
| "remove_devices user_id (Inl e # ds) db = (Err e, db)"
| "remove_devices user_id (Inr d # ds) db = remove_devices user_id ds (remove_device user_id d db)"

definition deactivate_account ::
  "(str \<Rightarrow> str option) \<Rightarrow> str \<Rightarrow> 'a users_db_scheme \<Rightarrow> unit result \<times> 'a users_db_scheme" where
  "deactivate_account hash user_id db =
     step_then (remove_devices user_id (all_device_ids user_id db) db) (\<lambda>_ db.
     step_then (set_password hash user_id None db) (\<lambda>_ db. (Ok (), db)))"

definition update_device_metadata ::
  "users_codec \<Rightarrow> str \<Rightarrow> str \<Rightarrow> device \<Rightarrow> 'a users_db_scheme \<Rightarrow> unit result \<times> 'a users_db_scheme" where
  "update_device_metadata K user_id device_id device db =
     (let userdeviceid = userdevice user_id device_id
      in if kv_get (userdeviceid_metadata db) userdeviceid = None
         then (Err (Panicked ''assertion failed''), db)
         else (Ok (), db\<lparr>userid_devicelistversion := snd (kv_increment (userid_devicelistversion db) user_id),
                 userdeviceid_metadata := kv_insert (userdeviceid_metadata db) userdeviceid (dev_enc K device)\<rparr>))"

definition get_device_metadata ::
  "users_codec \<Rightarrow> str \<Rightarrow> str \<Rightarrow> 'a users_db_scheme \<Rightarrow> device option result" where
  "get_device_metadata K user_id device_id db =
     map_transpose (\<lambda>bytes. ok_or (BadDatabase ''Metadata in userdeviceid_metadata is invalid.'') (dev_dec K bytes))
       (kv_get (userdeviceid_metadata db) (userdevice user_id device_id))"

definition get_devicelist_version :: "str \<Rightarrow> 'a users_db_scheme \<Rightarrow> u64 option result" where
  "get_devicelist_version user_id db =
     map_transpose (\<lambda>bytes. ok_or (BadDatabase ''Invalid devicelistversion in db.'') (u64_from_bytes bytes))
       (kv_get (userid_devicelistversion db) user_id)"

definition all_user_devices_metadata :: "users_codec \<Rightarrow> str \<Rightarrow> 'a users_db_scheme \<Rightarrow> device result list" where
  "all_user_devices_metadata K user_id db = map (\<lambda>(_, bytes).
       ok_or (BadDatabase ''Device in userdeviceid_metadata is invalid.'') (dev_dec K bytes))
     (kv_scan_prefix (userdeviceid_metadata db) (user_id @ [sep]))"

text \<open>One element of the iterator of \<open>set_devices_last_seen\<close>, and the iterator run to its end.\<close>

definition set_device_last_seen ::
  "users_codec \<Rightarrow> (str \<times> str) \<times> u64 \<Rightarrow> 'a users_db_scheme \<Rightarrow> unit result \<times> 'a users_db_scheme" where
  "set_device_last_seen K = (\<lambda>((user, device), timestamp) db.
     (let key = userdevice user device
      in step_then (map_transpose (\<lambda>bytes.
             ok_or (BadDatabase ''Device in userdeviceid_metadata is invalid.'') (dev_dec K bytes))
             (kv_get (userdeviceid_metadata db) key), db) (\<lambda>o' db.
           case o' of
             Some device_metadata \<Rightarrow>
               (Ok (), db\<lparr>userdeviceid_metadata := kv_insert (userdeviceid_metadata db) key
                  (dev_enc K (device_metadata\<lparr>device_last_seen_ts := Some timestamp\<rparr>))\<rparr>)
           | None \<Rightarrow> (Ok (), db))))"

fun set_devices_last_seen ::
  "users_codec \<Rightarrow> ((str \<times> str) \<times> u64) list \<Rightarrow> 'a users_db_scheme \<Rightarrow> unit result list \<times> 'a users_db_scheme" where
  "set_devices_last_seen K [] db = ([], db)"
| "set_devices_last_seen K (d # ds) db =
     (let (r, db) = set_device_last_seen K d db; (rs, db) = set_devices_last_seen K ds db in (r # rs, db))"

section \<open>Encryption keys\<close>

text \<open>The loop of \<open>mark_device_key_update\<close> over the joined rooms; \<open>?\<close> ends it at the first error.\<close>

fun mark_rooms ::
  "env \<Rightarrow> 'j pdu_codec \<Rightarrow> bytes \<Rightarrow> str \<Rightarrow> str list \<Rightarrow> 'a users_db_scheme \<Rightarrow> unit result \<times> 'a users_db_scheme" where
  "mark_rooms E C count user_id [] db = (Ok (), db)"
| "mark_rooms E C count user_id (room_id # rooms) db =
     step_then (room_state_get E C room_id (ascii ''m.room.encryption'') [] db) (\<lambda>encryption db.
       if encryption = None then mark_rooms E C count user_id rooms db
       else mark_rooms E C count user_id rooms
         (db\<lparr>keychangeid_userid := kv_insert (keychangeid_userid db) (room_id @ [sep] @ count) user_id\<rparr>))"

definition mark_device_key_update ::
  "env \<Rightarrow> 'j pdu_codec \<Rightarrow> str \<Rightarrow> 'a users_db_scheme \<Rightarrow> unit result \<times> 'a users_db_scheme" where
  "mark_device_key_update E C user_id db =
     step_then (next_count db) (\<lambda>n db.
       (let count = to_be_bytes n
        in step_then (mark_rooms E C count user_id (oks (rooms_joined (env_ruma E) user_id db)) db) (\<lambda>_ db.
          (Ok (), db\<lparr>keychangeid_userid := kv_insert (keychangeid_userid db) (user_id @ [sep] @ count) user_id\<rparr>))))"

definition keys_changed ::
  "ruma \<Rightarrow> str \<Rightarrow> u64 \<Rightarrow> u64 option \<Rightarrow> 'a users_db_scheme \<Rightarrow> str result list" where
  "keys_changed R user_or_room_id from to' db =
     (let prefix = user_or_room_id @ [sep];
          start = prefix @ to_be_bytes (from + 1);
          to' = (case to' of Some t \<Rightarrow> t | None \<Rightarrow> u64_max)
      in map (\<lambda>(_, bytes). parse_id (valid_user_id R)
             ''User ID in devicekeychangeid_userid is invalid unicode.''
             ''User ID in devicekeychangeid_userid is invalid.'' bytes)
         (takeWhile (\<lambda>(k, _). starts_with k prefix \<and>
             (case splitn_sep 2 k of
                _ # current # _ \<Rightarrow> (case u64_from_bytes current of Some c \<Rightarrow> c \<le> to' | None \<Rightarrow> False)
              | _ \<Rightarrow> False))
           (kv_iter_from (keychangeid_userid db) start False)))"

definition add_one_time_key ::
  "users_codec \<Rightarrow> str \<Rightarrow> str \<Rightarrow> str \<Rightarrow> bytes \<Rightarrow> 'a users_db_scheme \<Rightarrow> unit result \<times> 'a users_db_scheme" where
  "add_one_time_key K user_id device_id one_time_key_key one_time_key_value db =
     (let key = userdevice user_id device_id
      in if kv_get (userdeviceid_metadata db) key = None then (Err (Panicked ''assertion failed''), db)
         else
           (let db = db\<lparr>onetimekeyid_onetimekeys := kv_insert (onetimekeyid_onetimekeys db)
                  (key @ [sep] @ otk_id_enc K one_time_key_key) (raw_enc K one_time_key_value)\<rparr>
            in step_then (next_count db) (\<lambda>n db.
              (Ok (), db\<lparr>userid_lastonetimekeyupdate :=
                 kv_insert (userid_lastonetimekeyupdate db) user_id (to_be_bytes n)\<rparr>))))"

definition last_one_time_keys_update :: "str \<Rightarrow> 'a users_db_scheme \<Rightarrow> u64 result" where
  "last_one_time_keys_update user_id db =
     (case kv_get (userid_lastonetimekeyupdate db) user_id of
        Some bytes \<Rightarrow> ok_or (BadDatabase ''Count in roomid_lastroomactiveupdate is invalid.'') (u64_from_bytes bytes)
      | None \<Rightarrow> Ok 0)"

definition otk_prefix :: "str \<Rightarrow> str \<Rightarrow> str \<Rightarrow> bytes" where
  "otk_prefix user_id device_id key_algorithm =
     userdevice user_id device_id @ [sep] @ [34] @ key_algorithm @ [58]"

definition take_one_time_key ::
  "users_codec \<Rightarrow> str \<Rightarrow> str \<Rightarrow> str \<Rightarrow> 'a users_db_scheme
     \<Rightarrow> (str \<times> bytes) option result \<times> 'a users_db_scheme" where
  "take_one_time_key K user_id device_id key_algorithm db =
     step_then (next_count db) (\<lambda>n db.
       (let db = db\<lparr>userid_lastonetimekeyupdate :=
                  kv_insert (userid_lastonetimekeyupdate db) user_id (to_be_bytes n)\<rparr>
        in case kv_scan_prefix (onetimekeyid_onetimekeys db) (otk_prefix user_id device_id key_algorithm) of
             [] \<Rightarrow> (Ok None, db)
           | (key, value) # _ \<Rightarrow>
               (and_then (ok_or (BadDatabase ''OneTimeKeyId in db is invalid.'') (otk_id_dec K (last_part key))) (\<lambda>k.
                and_then (ok_or (BadDatabase ''OneTimeKeys in db are invalid.'') (raw_dec K value)) (\<lambda>v.
                Ok (Some (k, v)))),
                db\<lparr>onetimekeyid_onetimekeys := kv_remove (onetimekeyid_onetimekeys db) key\<rparr>)))"

text \<open>The scan of \<open>count_one_time_keys\<close> has no separator after the device id.\<close>

definition count_one_time_keys ::
  "users_codec \<Rightarrow> str \<Rightarrow> str \<Rightarrow> 'a users_db_scheme \<Rightarrow> (str \<rightharpoonup> nat) result" where
  "count_one_time_keys K user_id device_id db =
     and_then (collect_result (map (\<lambda>(bytes, _).
         and_then (ok_or (BadDatabase ''DeviceKeyId in db is invalid.'') (otk_id_dec K (last_part bytes)))
           (\<lambda>key_id. Ok (otk_algorithm K key_id)))
         (kv_scan_prefix (onetimekeyid_onetimekeys db) (userdevice user_id device_id))))
       (\<lambda>algorithms. Ok (fold (\<lambda>a counts. counts(a \<mapsto> (case counts a of Some n \<Rightarrow> n | None \<Rightarrow> 0) + 1))
          algorithms Map.empty))"

definition add_device_keys ::
  "env \<Rightarrow> 'j pdu_codec \<Rightarrow> users_codec \<Rightarrow> str \<Rightarrow> str \<Rightarrow> bytes \<Rightarrow> 'a users_db_scheme
     \<Rightarrow> unit result \<times> 'a users_db_scheme" where
  "add_device_keys E C K user_id device_id device_keys db =
     mark_device_key_update E C user_id
       (db\<lparr>keyid_key := kv_insert (keyid_key db) (userdevice user_id device_id) (raw_enc K device_keys)\<rparr>)"

definition get_device_keys :: "users_codec \<Rightarrow> str \<Rightarrow> str \<Rightarrow> 'a users_db_scheme \<Rightarrow> bytes option result" where
  "get_device_keys K user_id device_id db =
     map_transpose (\<lambda>bytes. ok_or (BadDatabase ''DeviceKeys in db are invalid.'') (raw_dec K bytes))
       (kv_get (keyid_key db) (userdevice user_id device_id))"

text \<open>The one key a cross-signing key object must hold.\<close>

definition single_key :: "users_codec \<Rightarrow> string \<Rightarrow> string \<Rightarrow> string \<Rightarrow> bytes \<Rightarrow> str result" where
  "single_key K invalid no_key many raw =
     and_then (ok_or (BadRequest InvalidParam invalid) (csk_keys K raw)) (\<lambda>ids.
       case ids of
         [] \<Rightarrow> Err (BadRequest InvalidParam no_key)
       | [id'] \<Rightarrow> Ok id'
       | _ \<Rightarrow> Err (BadRequest InvalidParam many))"

definition parse_master_key :: "users_codec \<Rightarrow> str \<Rightarrow> bytes \<Rightarrow> (bytes \<times> bytes) result" where
  "parse_master_key K user_id master_key =
     and_then (single_key K ''Invalid master key'' ''Master key contained no key.''
       ''Master key contained more than one key.'' master_key)
       (\<lambda>master_key_id. Ok (user_id @ [sep] @ master_key_id, master_key))"

definition add_cross_signing_keys ::
  "env \<Rightarrow> 'j pdu_codec \<Rightarrow> users_codec \<Rightarrow> str \<Rightarrow> bytes \<Rightarrow> bytes option \<Rightarrow> bytes option \<Rightarrow> bool
     \<Rightarrow> 'a users_db_scheme \<Rightarrow> unit result \<times> 'a users_db_scheme" where
  "add_cross_signing_keys E C K user_id master_key self_signing_key user_signing_key notify db =
     step_then (parse_master_key K user_id master_key, db) (\<lambda>(master_key_key, _) db.
       (let db = db\<lparr>keyid_key := kv_insert (keyid_key db) master_key_key master_key,
                    userid_masterkeyid := kv_insert (userid_masterkeyid db) user_id master_key_key\<rparr>
        in step_then
          (case self_signing_key of
             None \<Rightarrow> (Ok (), db)
           | Some key \<Rightarrow>
               step_then (single_key K ''Invalid self signing key'' ''Self signing key contained no key.''
                   ''Self signing key contained more than one key.'' key, db) (\<lambda>self_signing_key_id db.
                 (let k = user_id @ [sep] @ self_signing_key_id
                  in (Ok (), db\<lparr>keyid_key := kv_insert (keyid_key db) k key,
                                userid_selfsigningkeyid := kv_insert (userid_selfsigningkeyid db) user_id k\<rparr>))))
          (\<lambda>_ db. step_then
          (case user_signing_key of
             None \<Rightarrow> (Ok (), db)
           | Some key \<Rightarrow>
               step_then (single_key K ''Invalid user signing key'' ''User signing key contained no key.''
                   ''User signing key contained more than one key.'' key, db) (\<lambda>user_signing_key_id db.
                 (let k = user_id @ [sep] @ user_signing_key_id
                  in (Ok (), db\<lparr>keyid_key := kv_insert (keyid_key db) k key,
                                userid_usersigningkeyid := kv_insert (userid_usersigningkeyid db) user_id k\<rparr>))))
          (\<lambda>_ db. if notify then mark_device_key_update E C user_id db else (Ok (), db)))))"

definition sign_key ::
  "env \<Rightarrow> 'j pdu_codec \<Rightarrow> users_codec \<Rightarrow> str \<Rightarrow> str \<Rightarrow> str \<times> str \<Rightarrow> str \<Rightarrow> 'a users_db_scheme
     \<Rightarrow> unit result \<times> 'a users_db_scheme" where
  "sign_key E C K target_id key_id signature sender_id db =
     (let key = target_id @ [sep] @ key_id
      in step_then (and_then (ok_or (BadRequest InvalidParam ''Tried to sign nonexistent key.'')
               (kv_get (keyid_key db) key)) (\<lambda>bytes.
             and_then (ok_or (BadDatabase ''key in keyid_key is invalid.'') (value_dec K bytes)) (\<lambda>cross_signing_key.
             and_then (ok_or (BadDatabase ''key in keyid_key has no signatures field.'')
               (json_get (ascii ''signatures'') cross_signing_key)) (\<lambda>signatures.
             case signatures of
               JObject by_user \<Rightarrow>
                 (case (case map_of by_user sender_id of Some j \<Rightarrow> j | None \<Rightarrow> JObject []) of
                    JObject by_key \<Rightarrow>
                      Ok (json_set (ascii ''signatures'')
                        (JObject (AList.update sender_id
                          (JObject (AList.update (fst signature) (JString (snd signature)) by_key)) by_user))
                        cross_signing_key)
                  | _ \<Rightarrow> Err (BadDatabase ''signatures in keyid_key for a user is invalid.''))
             | _ \<Rightarrow> Err (BadDatabase ''key in keyid_key has invalid signatures field.'')))), db)
           (\<lambda>cross_signing_key db. mark_device_key_update E C target_id
             (db\<lparr>keyid_key := kv_insert (keyid_key db) key (value_enc K cross_signing_key)\<rparr>)))"

definition clean_signatures ::
  "ruma \<Rightarrow> str option \<Rightarrow> str \<Rightarrow> (str \<Rightarrow> bool) \<Rightarrow> json \<Rightarrow> json result" where
  "clean_signatures R sender_user user_id allowed_signatures cross_signing_key =
     (case json_get (ascii ''signatures'') cross_signing_key of
        Some (JObject signatures) \<Rightarrow>
          and_then (collect_result (map (\<lambda>(user, signature).
              if valid_user_id R user then Ok (user, signature)
              else Err (BadDatabase ''Invalid user ID in database.'')) signatures))
            (\<lambda>signatures. Ok (json_set (ascii ''signatures'') (JObject (filter (\<lambda>(sid, _).
               sender_user = Some user_id \<or> sid = user_id \<or> allowed_signatures sid) signatures)) cross_signing_key))
      | _ \<Rightarrow> Ok cross_signing_key)"

definition get_key ::
  "ruma \<Rightarrow> users_codec \<Rightarrow> bytes \<Rightarrow> str option \<Rightarrow> str \<Rightarrow> (str \<Rightarrow> bool) \<Rightarrow> 'a users_db_scheme
     \<Rightarrow> bytes option result" where
  "get_key R K key sender_user user_id allowed_signatures db =
     map_transpose (\<lambda>bytes.
       and_then (ok_or (BadDatabase ''CrossSigningKey in db is invalid.'') (value_dec K bytes)) (\<lambda>cross_signing_key.
       and_then (clean_signatures R sender_user user_id allowed_signatures cross_signing_key)
         (\<lambda>cleaned. Ok (value_enc K cleaned))))
     (kv_get (keyid_key db) key)"

definition get_master_key ::
  "ruma \<Rightarrow> users_codec \<Rightarrow> str option \<Rightarrow> str \<Rightarrow> (str \<Rightarrow> bool) \<Rightarrow> 'a users_db_scheme \<Rightarrow> bytes option result" where
  "get_master_key R K sender_user user_id allowed_signatures db =
     (case kv_get (userid_masterkeyid db) user_id of
        None \<Rightarrow> Ok None | Some key \<Rightarrow> get_key R K key sender_user user_id allowed_signatures db)"

definition get_self_signing_key ::
  "ruma \<Rightarrow> users_codec \<Rightarrow> str option \<Rightarrow> str \<Rightarrow> (str \<Rightarrow> bool) \<Rightarrow> 'a users_db_scheme \<Rightarrow> bytes option result" where
  "get_self_signing_key R K sender_user user_id allowed_signatures db =
     (case kv_get (userid_selfsigningkeyid db) user_id of
        None \<Rightarrow> Ok None | Some key \<Rightarrow> get_key R K key sender_user user_id allowed_signatures db)"

definition get_user_signing_key :: "users_codec \<Rightarrow> str \<Rightarrow> 'a users_db_scheme \<Rightarrow> bytes option result" where
  "get_user_signing_key K user_id db =
     (case kv_get (userid_usersigningkeyid db) user_id of
        None \<Rightarrow> Ok None
      | Some key \<Rightarrow>
          map_transpose (\<lambda>bytes. ok_or (BadDatabase ''CrossSigningKey in db is invalid.'') (raw_dec K bytes))
            (kv_get (keyid_key db) key))"

section \<open>To-device messages\<close>

definition add_to_device_event ::
  "users_codec \<Rightarrow> str \<Rightarrow> str \<Rightarrow> str \<Rightarrow> str \<Rightarrow> json \<Rightarrow> 'a users_db_scheme \<Rightarrow> unit result \<times> 'a users_db_scheme" where
  "add_to_device_event K sender target_user_id target_device_id event_type content db =
     step_then (next_count db) (\<lambda>n db.
       (let key = userdevice target_user_id target_device_id @ [sep] @ to_be_bytes n;
            value = value_enc K (JObject [(ascii ''type'', JString event_type), (ascii ''sender'', JString sender),
              (ascii ''content'', content)])
        in (Ok (), db\<lparr>todeviceid_events := kv_insert (todeviceid_events db) key value\<rparr>)))"

definition get_to_device_events ::
  "users_codec \<Rightarrow> str \<Rightarrow> str \<Rightarrow> 'a users_db_scheme \<Rightarrow> bytes list result" where
  "get_to_device_events K user_id device_id db =
     collect_result (map (\<lambda>(_, value).
         ok_or (BadDatabase ''Event in todeviceid_events is invalid.'') (raw_dec K value))
       (kv_scan_prefix (todeviceid_events db) (userdevice user_id device_id @ [sep])))"

text \<open>
  The loop of \<open>remove_to_device_events\<close>: the slice of the last eight bytes panics on a shorter key;
  the loop ends at the first count above \<open>until\<close>.
\<close>

fun remove_events_until :: "u64 \<Rightarrow> bytes list \<Rightarrow> kvtree \<Rightarrow> unit result \<times> kvtree" where
  "remove_events_until until [] t = (Ok (), t)"
| "remove_events_until until (key # keys) t =
     (if length key < 8 then (Err (Panicked ''slice index starts at an overflowed position''), t)
      else (case u64_from_bytes (drop (length key - 8) key) of
              None \<Rightarrow> remove_events_until until keys t
            | Some count \<Rightarrow>
                if count \<le> until then remove_events_until until keys (kv_remove t key) else (Ok (), t)))"

definition remove_to_device_events ::
  "str \<Rightarrow> str \<Rightarrow> u64 \<Rightarrow> 'a users_db_scheme \<Rightarrow> unit result \<times> 'a users_db_scheme" where
  "remove_to_device_events user_id device_id until db =
     (let prefix = userdevice user_id device_id @ [sep];
          last' = prefix @ to_be_bytes until;
          (r, t) = remove_events_until until
            (map fst (takeWhile (\<lambda>(k, _). starts_with k prefix) (kv_iter_from (todeviceid_events db) last' True)))
            (todeviceid_events db)
      in (r, db\<lparr>todeviceid_events := t\<rparr>))"

section \<open>Filters and OpenID tokens\<close>

definition create_filter ::
  "('f \<Rightarrow> bytes) \<Rightarrow> str \<Rightarrow> str \<Rightarrow> 'f \<Rightarrow> 'a users_db_scheme \<Rightarrow> str \<times> 'a users_db_scheme" where
  "create_filter to_vec filter_id user_id filter' db =
     (filter_id, db\<lparr>userfilterid_filter :=
        kv_insert (userfilterid_filter db) (user_id @ [sep] @ filter_id) (to_vec filter')\<rparr>)"

definition get_filter ::
  "(bytes \<Rightarrow> 'f option option) \<Rightarrow> str \<Rightarrow> str \<Rightarrow> 'a users_db_scheme \<Rightarrow> 'f option result" where
  "get_filter from_slice user_id filter_id db =
     (case kv_get (userfilterid_filter db) (user_id @ [sep] @ filter_id) of
        Some raw \<Rightarrow> ok_or (BadDatabase ''Invalid filter event in db.'') (from_slice raw)
      | None \<Rightarrow> Ok None)"

definition create_openid_token ::
  "str \<Rightarrow> u64 \<Rightarrow> u64 \<Rightarrow> str \<Rightarrow> 'a users_db_scheme \<Rightarrow> (str \<times> u64) result \<times> 'a users_db_scheme" where
  "create_openid_token token openid_token_ttl now user_id db =
     (let expires_in = openid_token_ttl
      in if unat now + unat (expires_in * 1000) \<ge> 2 ^ 64 then (Err (Panicked ''time is valid''), db)
         else
           (let expires_at = now + expires_in * 1000
            in (Ok (token, expires_in), db\<lparr>openidtoken_expiresatuserid :=
                 kv_insert (openidtoken_expiresatuserid db) token (to_be_bytes expires_at @ user_id)\<rparr>)))"

definition find_from_openid_token ::
  "ruma \<Rightarrow> u64 \<Rightarrow> str \<Rightarrow> 'a users_db_scheme \<Rightarrow> str option result \<times> 'a users_db_scheme" where
  "find_from_openid_token R now token db =
     (case kv_get (openidtoken_expiresatuserid db) token of
        None \<Rightarrow> (Ok None, db)
      | Some value \<Rightarrow>
          if length value < 8 then (Err (Panicked ''mid > len''), db)
          else
            step_then (ok_or (BadDatabase ''expires_at in openid_userid is invalid u64.'')
                (u64_from_bytes (take 8 value)), db) (\<lambda>expires_at db.
              if expires_at < now
              then (Ok None, db\<lparr>openidtoken_expiresatuserid := kv_remove (openidtoken_expiresatuserid db) token\<rparr>)
              else (and_then (parse_id (valid_user_id R) ''User ID in openid_userid is invalid unicode.''
                       ''User ID in openid_userid is invalid.'' (drop 8 value)) (\<lambda>u. Ok (Some u)), db)))"

section \<open>Access tokens\<close>

text \<open>
  The two token tables are inverse to each other, every device with a token has metadata, and the
  keys are pairs of identifiers.
\<close>

definition token_inv :: "ruma \<Rightarrow> 'a users_db_scheme \<Rightarrow> bool" where
  "token_inv R db \<longleftrightarrow> kv_wf (token_userdeviceid db)
     \<and> pair_keys (\<lambda>u d. valid_user_id R u) (userdeviceid_token db)
     \<and> pair_keys (\<lambda>u d. valid_user_id R u) (userdeviceid_metadata db)
     \<and> dom (kv_get (userdeviceid_token db)) \<subseteq> dom (kv_get (userdeviceid_metadata db))
     \<and> (\<forall>tok k. kv_get (token_userdeviceid db) tok = Some k \<longleftrightarrow> kv_get (userdeviceid_token db) k = Some tok)"

definition known_device :: "ruma \<Rightarrow> str \<Rightarrow> str \<Rightarrow> bool" where
  "known_device R u d \<longleftrightarrow> utf8 u \<and> utf8 d \<and> valid_user_id R u"

lemma userdevice_inj:
  "known_device R u d \<Longrightarrow> known_device R u' d' \<Longrightarrow> userdevice u d = userdevice u' d' \<longleftrightarrow> u = u' \<and> d = d'"
  by (simp add: userdevice_def known_device_def sep_append_inj utf8_no_sep)

lemma find_from_token_total:
  assumes "token_inv R db"
  shows "find_from_token R tok db = Ok None \<and> kv_get (token_userdeviceid db) tok = None
    \<or> (\<exists>u d. known_device R u d \<and> kv_get (token_userdeviceid db) tok = Some (userdevice u d)
        \<and> find_from_token R tok db = Ok (Some (u, d)))"
proof (cases "kv_get (token_userdeviceid db) tok")
  case (Some k)
  then have "k \<in> dom (kv_get (userdeviceid_token db))" using assms by (auto simp: token_inv_def)
  then obtain u d where k: "k = u @ sep # d" "utf8 u" "utf8 d" "valid_user_id R u"
    using assms unfolding token_inv_def pair_keys_def by blast
  then have "split_sep k = [u, d]" by (simp add: split_sep_append split_sep_id utf8_no_sep)
  then show ?thesis using Some k
    by (intro disjI2 exI [of _ u] exI [of _ d])
      (simp add: find_from_token_def known_device_def userdevice_def string_from_bytes_def)
qed (simp add: find_from_token_def)

lemma find_from_token_iff:
  assumes "token_inv R db" "known_device R u d"
  shows "find_from_token R tok db = Ok (Some (u, d)) \<longleftrightarrow> kv_get (userdeviceid_token db) (userdevice u d) = Some tok"
proof -
  have "kv_get (token_userdeviceid db) tok = Some (userdevice u d) \<longleftrightarrow>
      kv_get (userdeviceid_token db) (userdevice u d) = Some tok" using assms(1) by (simp add: token_inv_def)
  then show ?thesis using find_from_token_total [OF assms(1), of tok] userdevice_inj [OF assms(2)] by auto
qed

lemma token_unique:
  assumes "token_inv R db" "kv_get (userdeviceid_token db) k = Some t" "kv_get (userdeviceid_token db) k' = Some t"
  shows "k = k'"
proof -
  have "kv_get (token_userdeviceid db) t = Some k" "kv_get (token_userdeviceid db) t = Some k'"
    using assms by (simp_all add: token_inv_def)
  then show ?thesis by simp
qed

text \<open>The answer for a token only depends on the token table.\<close>

lemma find_from_token_cong:
  "kv_get (token_userdeviceid db) tok = kv_get (token_userdeviceid db') tok \<Longrightarrow>
   find_from_token R tok db = find_from_token R tok db'"
  by (simp add: find_from_token_def)

lemma set_token_ok:
  assumes inv: "token_inv R db" and dev: "known_device R u d"
    and meta: "kv_get (userdeviceid_metadata db) (userdevice u d) \<noteq> None"
    and fresh: "kv_get (token_userdeviceid db) tok = None"
  shows "\<exists>db'. set_token u d tok db = (Ok (), db') \<and> token_inv R db'
    \<and> find_from_token R tok db' = Ok (Some (u, d))
    \<and> (\<forall>t. t \<noteq> tok \<longrightarrow> find_from_token R t db' =
        (if find_from_token R t db = Ok (Some (u, d)) then Ok None else find_from_token R t db))"
proof -
  let ?k = "userdevice u d"
  define old where "old = kv_get (userdeviceid_token db) ?k"
  define T where "T = (case old of Some o' \<Rightarrow> kv_remove (token_userdeviceid db) o' | None \<Rightarrow> token_userdeviceid db)"
  define db' where "db' = db\<lparr>userdeviceid_token := kv_insert (userdeviceid_token db) ?k tok,
      token_userdeviceid := kv_insert T tok ?k\<rparr>"
  have run: "set_token u d tok db = (Ok (), db')"
    using meta by (auto simp: set_token_def Let_def db'_def T_def old_def split: option.splits)
  have wf: "kv_wf (token_userdeviceid db)" "kv_wf (userdeviceid_token db)" "kv_wf T"
    using inv by (auto simp: token_inv_def pair_keys_def T_def kv_intros split: option.splits)
  have bij: "kv_get (token_userdeviceid db) t = Some k \<longleftrightarrow> kv_get (userdeviceid_token db) k = Some t" for t k
    using inv by (simp add: token_inv_def)
  have T: "kv_get T t = (if kv_get (userdeviceid_token db) ?k = Some t then None else kv_get (token_userdeviceid db) t)" for t
    by (auto simp: T_def old_def kv_simps split: option.splits)
  have new: "kv_get (token_userdeviceid db') t = Some k \<longleftrightarrow> kv_get (userdeviceid_token db') k = Some t" for t k
  proof -
    have "kv_get (userdeviceid_token db) k \<noteq> Some tok" using bij [of tok k] fresh by simp
    moreover have "k = ?k" if "kv_get (userdeviceid_token db) ?k = Some t" "kv_get (userdeviceid_token db) k = Some t"
      using bij [of t k] bij [of t ?k] that by simp
    ultimately show ?thesis using bij [of t k] wf by (auto simp: db'_def kv_simps T)
  qed
  have "pair_keys (\<lambda>u d. valid_user_id R u) (userdeviceid_token db')"
    using inv dev unfolding db'_def
    by (simp add: token_inv_def userdevice_def known_device_def pair_keys_insert)
  moreover have "dom (kv_get (userdeviceid_token db')) \<subseteq> dom (kv_get (userdeviceid_metadata db'))"
    using inv meta wf by (auto simp: token_inv_def db'_def kv_get_insert_map)
  ultimately have inv': "token_inv R db'" using inv new wf by (simp add: token_inv_def db'_def kv_intros)
  have "find_from_token R tok db' = Ok (Some (u, d))"
    using wf by (simp add: find_from_token_iff [OF inv' dev]) (simp add: db'_def kv_simps)
  moreover have "find_from_token R t db' =
      (if find_from_token R t db = Ok (Some (u, d)) then Ok None else find_from_token R t db)" if "t \<noteq> tok" for t
  proof (cases "find_from_token R t db = Ok (Some (u, d))")
    case True
    then have "kv_get (token_userdeviceid db') t = None"
      using that wf by (simp add: find_from_token_iff [OF inv dev] db'_def kv_simps T)
    then show ?thesis using True by (simp add: find_from_token_def)
  next
    case False
    then have "kv_get (token_userdeviceid db') t = kv_get (token_userdeviceid db) t"
      using that wf by (simp add: find_from_token_iff [OF inv dev] db'_def kv_simps T)
    then show ?thesis using False by (simp add: find_from_token_def)
  qed
  ultimately show ?thesis using run inv' by blast
qed

lemma token_inv_metadata:
  assumes "token_inv R db" "known_device R u d"
  shows "token_inv R (db\<lparr>userid_devicelistversion := x, userdeviceid_metadata :=
     kv_insert (userdeviceid_metadata db) (userdevice u d) m\<rparr>)"
proof -
  have wf: "kv_wf (userdeviceid_metadata db)" using assms(1) by (simp add: token_inv_def pair_keys_def)
  then show ?thesis using assms unfolding token_inv_def
    by (auto simp: userdevice_def known_device_def pair_keys_insert kv_get_insert_map)
qed

lemma create_device_ok:
  assumes "token_inv R db" "known_device R u d" "user_exists u db = Ok True"
    and "kv_get (token_userdeviceid db) tok = None"
  shows "\<exists>db'. create_device K now u d tok name db = (Ok (), db') \<and> token_inv R db'
    \<and> find_from_token R tok db' = Ok (Some (u, d))
    \<and> (\<forall>t. t \<noteq> tok \<longrightarrow> find_from_token R t db' =
        (if find_from_token R t db = Ok (Some (u, d)) then Ok None else find_from_token R t db))"
proof -
  define m where "m = dev_enc K \<lparr>device_device_id = d, device_display_name = name,
    device_last_seen_ip = None, device_last_seen_ts = Some now\<rparr>"
  let ?db1 = "db\<lparr>userid_devicelistversion := snd (kv_increment (userid_devicelistversion db) u),
    userdeviceid_metadata := kv_insert (userdeviceid_metadata db) (userdevice u d) m\<rparr>"
  have wf: "kv_wf (userdeviceid_metadata db)" using assms(1) by (simp add: token_inv_def pair_keys_def)
  have run: "create_device K now u d tok name db = set_token u d tok ?db1"
    using assms(3) by (simp add: create_device_def user_exists_def m_def)
  have same: "find_from_token R t ?db1 = find_from_token R t db" for t by (rule find_from_token_cong) simp
  have "kv_get (userdeviceid_metadata ?db1) (userdevice u d) \<noteq> None" "kv_get (token_userdeviceid ?db1) tok = None"
    using wf assms(4) by (simp_all add: kv_simps)
  from set_token_ok [OF token_inv_metadata [OF assms(1,2)] assms(2) this]
  show ?thesis unfolding run same .
qed

lemma remove_device_eq:
  "kv_get (userdeviceid_token (remove_device u d db)) = (kv_get (userdeviceid_token db))(userdevice u d := None)"
  "kv_get (userdeviceid_metadata (remove_device u d db)) = (kv_get (userdeviceid_metadata db))(userdevice u d := None)"
  "kv_get (token_userdeviceid (remove_device u d db)) t =
     (if kv_get (userdeviceid_token db) (userdevice u d) = Some t then None else kv_get (token_userdeviceid db) t)"
  "userid_password (remove_device u d db) = userid_password db"
  "todeviceid_events (remove_device u d db) = kv_remove_prefix (todeviceid_events db) (userdevice u d @ [sep])"
  by (auto simp: remove_device_def Let_def kv_get_remove_map fun_eq_iff split: option.splits)

lemma remove_device_inv:
  assumes inv: "token_inv R db"
  shows "token_inv R (remove_device u d db)"
proof -
  have p: "pair_keys (\<lambda>u d. valid_user_id R u) (userdeviceid_token (remove_device u d db))"
    "pair_keys (\<lambda>u d. valid_user_id R u) (userdeviceid_metadata (remove_device u d db))"
    "kv_wf (token_userdeviceid (remove_device u d db))"
    using inv by (auto simp: token_inv_def remove_device_def Let_def pair_keys_remove kv_intros split: option.splits)
  show ?thesis unfolding token_inv_def using p inv
    by (auto simp: token_inv_def remove_device_eq split: if_splits dest: token_unique [OF inv])
qed

lemma remove_device_tokens:
  assumes inv: "token_inv R db" and dev: "known_device R u d"
  shows "find_from_token R t (remove_device u d db) =
     (if find_from_token R t db = Ok (Some (u, d)) then Ok None else find_from_token R t db)"
proof (cases "find_from_token R t db = Ok (Some (u, d))")
  case True
  then have "kv_get (token_userdeviceid (remove_device u d db)) t = None"
    by (simp add: find_from_token_iff [OF inv dev] remove_device_eq)
  then show ?thesis using True by (simp add: find_from_token_def)
next
  case False
  then have "kv_get (token_userdeviceid (remove_device u d db)) t = kv_get (token_userdeviceid db) t"
    by (simp add: find_from_token_iff [OF inv dev] remove_device_eq)
  then show ?thesis using False by (simp add: find_from_token_def)
qed

lemma remove_devices_tokens:
  assumes "token_inv R db" "\<forall>d \<in> set ds. known_device R u d"
  shows "\<exists>db'. remove_devices u (map Inr ds) db = (Ok (), db') \<and> token_inv R db'
    \<and> userid_password db' = userid_password db
    \<and> (\<forall>t. find_from_token R t db' = (if \<exists>d \<in> set ds. find_from_token R t db = Ok (Some (u, d)) then Ok None
         else find_from_token R t db))"
  using assms
proof (induction ds arbitrary: db)
  case (Cons d ds)
  have inv: "token_inv R (remove_device u d db)" and ds: "\<forall>d \<in> set ds. known_device R u d"
    using Cons.prems remove_device_inv by auto
  obtain db' where db': "remove_devices u (map Inr ds) (remove_device u d db) = (Ok (), db')" "token_inv R db'"
      "userid_password db' = userid_password (remove_device u d db)"
      "\<forall>t. find_from_token R t db' = (if \<exists>d' \<in> set ds. find_from_token R t (remove_device u d db) = Ok (Some (u, d'))
        then Ok None else find_from_token R t (remove_device u d db))"
    using Cons.IH [OF inv ds] by (elim exE conjE) (rule that; assumption)
  have "find_from_token R t db' = (if \<exists>d' \<in> set (d # ds). find_from_token R t db = Ok (Some (u, d')) then Ok None
         else find_from_token R t db)" for t
    using db'(4) [rule_format, of t] remove_device_tokens [OF Cons.prems(1), of u d t] Cons.prems(2) by auto
  then show ?case using db'(1-3) by (auto simp: remove_device_eq)
qed auto

lemma all_device_ids_are:
  assumes inv: "token_inv R db" and u: "utf8 u"
  shows "\<exists>ds. all_device_ids u db = map Inr ds \<and> set ds = {d. kv_get (userdeviceid_metadata db) (userdevice u d) \<noteq> None}
    \<and> (\<forall>d \<in> set ds. utf8 d \<and> valid_user_id R u)"
proof -
  have t: "pair_keys (\<lambda>u d. valid_user_id R u) (userdeviceid_metadata db)" using inv by (simp add: token_inv_def)
  have e: "ok_or (BadDatabase m) (string_from_bytes b) = parse_id (\<lambda>_. True) m m b" for m b
    by (simp add: parse_id_def ok_or_def split: option.splits)
  let ?m = "''Device ID in userdeviceid_metadata is invalid.''"
  note sp = scan_pairs [OF t u, of "\<lambda>_. True", OF TrueI, where m = ?m and m' = ?m]
  show ?thesis using sp(2,3,4) unfolding all_device_ids_def e userdevice_def
    by (intro exI conjI) (assumption | simp)+
qed


section \<open>To-device messages\<close>

text \<open>Every pending message is filed under its device and a count the counter has already passed.\<close>

definition todevice_inv :: "'a users_db_scheme \<Rightarrow> bool" where
  "todevice_inv db \<longleftrightarrow> kv_wf (todeviceid_events db) \<and> kv_wf (global db)
     \<and> (\<forall>k \<in> dom (kv_get (todeviceid_events db)). \<exists>u d n. utf8 u \<and> utf8 d \<and> n \<le> count_of db
          \<and> k = userdevice u d @ sep # to_be_bytes n)"

lemma filter_kv_insert_last:
  assumes "kv_wf t" "P k" "\<forall>(k', v') \<in> set t. P k' \<longrightarrow> k' < k"
  shows "filter (\<lambda>(k, _). P k) (kv_insert t k v) = filter (\<lambda>(k, _). P k) t @ [(k, v)]"
  using assms
proof (induction t)
  case (Cons kv t)
  obtain k' v' where kv: "kv = (k', v')" by (cases kv)
  have IH: "filter (\<lambda>(k, _). P k) (kv_insert t k v) = filter (\<lambda>(k, _). P k) t @ [(k, v)]"
    using Cons by (simp add: kv kv_wf_Cons)
  have gt: "k' < x" if "(x, y) \<in> set t" for x y using Cons.prems(1) that by (force simp: kv kv_wf_Cons)
  have none: "filter (\<lambda>(k, _). P k) t = []" if "k \<le> k'"
  proof (rule ccontr)
    assume "filter (\<lambda>(k, _). P k) t \<noteq> []"
    then obtain x y where "(x, y) \<in> set t" "P x" by (auto simp: filter_empty_conv)
    then show False using gt [of x y] that Cons.prems(3) by fastforce
  qed
  show ?case using IH none Cons.prems(2,3) by (auto simp: kv)
qed simp

lemma filter_kv_insert_other:
  "\<not> P k \<Longrightarrow> filter (\<lambda>(k, _). P k) (kv_insert t k v) = filter (\<lambda>(k, _). P k) t"
  by (induction t k v rule: kv_insert.induct) auto

lemma userdevice_prefix:
  assumes "utf8 u" "utf8 d" "utf8 u'" "utf8 d'"
  shows "starts_with (userdevice u' d' @ sep # x) (userdevice u d @ [sep]) \<longleftrightarrow> u' = u \<and> d' = d"
  using assms sep_prefix_append [of u u' "d @ [sep]" "d' @ sep # x"] sep_prefix_iff [of d d' x]
  by (auto simp: userdevice_def utf8_no_sep)

lemma scan_prefix_filter: "kv_wf t \<Longrightarrow> kv_scan_prefix t p = filter (\<lambda>(k, _). starts_with k p) t"
  unfolding kv_scan_prefix_def
  by (subst kv.forward_prefix_filter, assumption) (auto simp: kv_iter_from_def intro!: filter_cong dest: prefix_le)

lemma collect_result_snoc:
  "collect_result rs = Ok xs \<Longrightarrow> collect_result (rs @ [Inr x]) = Ok (xs @ [x])"
  by (induction rs arbitrary: xs) (auto split: sum.splits)

section \<open>Properties\<close>

definition empty_users_db :: users_db where
  "empty_users_db = statecache_db.extend empty_statecache_db
     \<lparr>userdeviceid_metadata = [], userdeviceid_token = [], token_userdeviceid = [], userid_devicelistversion = [],
      onetimekeyid_onetimekeys = [], userid_lastonetimekeyupdate = [], keyid_key = [], userid_masterkeyid = [],
      userid_selfsigningkeyid = [], userid_usersigningkeyid = [], keychangeid_userid = [], todeviceid_events = [],
      userfilterid_filter = [], openidtoken_expiresatuserid = []\<rparr>"

text \<open>An account \<open>@a\<close> with one device \<open>D\<close> and its token.\<close>

definition one_device_db :: users_db where
  "one_device_db = empty_users_db\<lparr>userid_password := [(ascii ''@a'', [1])],
     userdeviceid_metadata := [(userdevice (ascii ''@a'') (ascii ''D''), [])],
     userdeviceid_token := [(userdevice (ascii ''@a'') (ascii ''D''), ascii ''tok'')],
     token_userdeviceid := [(ascii ''tok'', userdevice (ascii ''@a'') (ascii ''D''))]\<rparr>"

text \<open>A codec for concrete runs, with JSON text as its own value.\<close>

definition text_users_codec :: users_codec where
  "text_users_codec = \<lparr>dev_enc = device_device_id,
     dev_dec = (\<lambda>bs. Some \<lparr>device_device_id = bs, device_display_name = None, device_last_seen_ip = None,
       device_last_seen_ts = None\<rparr>),
     value_enc = (\<lambda>_. [123, 125]), value_dec = (\<lambda>_. Some (JObject [])), raw_enc = id, raw_dec = Some,
     otk_id_enc = (\<lambda>s. 34 # s @ [34]), otk_id_dec = (\<lambda>bs. Some (tl (butlast bs))),
     otk_algorithm = takeWhile (\<lambda>b. b \<noteq> 58), csk_keys = (\<lambda>bs. Some [bs])\<rparr>"

lemma sample_device: "known_device accept_all (ascii ''@a'') (ascii ''D'')"
  by (simp add: known_device_def accept_all_def ascii_def)

lemma one_device_inv: "token_inv accept_all one_device_db" "kv_wf (todeviceid_events one_device_db)"
  "user_exists (ascii ''@a'') one_device_db = Ok True" "kv_wf (userid_password one_device_db)"
proof -
  have "pair_keys (\<lambda>u d. valid_user_id accept_all u) [(userdevice (ascii ''@a'') (ascii ''D''), x)]" for x
    using pair_keys_insert [of "\<lambda>u d. valid_user_id accept_all u" "[]" "ascii ''@a''" "ascii ''D''" x]
      sample_device by (simp add: pair_keys_def userdevice_def known_device_def)
  then show "token_inv accept_all one_device_db"
    by (auto simp: token_inv_def one_device_db_def kv_wf_def kv_get_def dom_def split: if_splits)
qed (simp_all add: one_device_db_def empty_users_db_def statecache_db.defs user_exists_def kv_get_def kv_wf_def)

lemma one_device_token:
  "find_from_token accept_all (ascii ''tok'') one_device_db = Ok (Some (ascii ''@a'', ascii ''D''))"
  by (simp add: find_from_token_iff [OF one_device_inv(1) sample_device]) (simp add: one_device_db_def kv_get_def)

text \<open>
  An access token belongs to one device: giving a device of an existing user a fresh token makes
  the token answer with that device, retires the device's previous token, and changes the answer of
  no other token; the token tables stay inverse to each other.
\<close>

theorem create_device_token:
  assumes "token_inv R db" "known_device R u d" "user_exists u db = Ok True"
    and "kv_get (token_userdeviceid db) tok = None"
  shows "\<exists>db'. create_device K now u d tok name db = (Ok (), db') \<and> token_inv R db'
    \<and> find_from_token R tok db' = Ok (Some (u, d))
    \<and> (\<forall>t. t \<noteq> tok \<longrightarrow> find_from_token R t db' =
        (if find_from_token R t db = Ok (Some (u, d)) then Ok None else find_from_token R t db))"
  using assms by (rule create_device_ok)

theorem create_device_token_witness:
  "\<exists>db'. create_device text_users_codec 0 (ascii ''@a'') (ascii ''D'') (ascii ''new'') None one_device_db = (Ok (), db')
     \<and> find_from_token accept_all (ascii ''new'') db' = Ok (Some (ascii ''@a'', ascii ''D''))
     \<and> find_from_token accept_all (ascii ''tok'') db' = Ok None"
proof -
  have "kv_get (token_userdeviceid one_device_db) (ascii ''new'') = None"
    by (simp add: one_device_db_def kv_get_def ascii_def)
  then obtain db' where db': "create_device text_users_codec 0 (ascii ''@a'') (ascii ''D'') (ascii ''new'') None one_device_db = (Ok (), db')"
      "find_from_token accept_all (ascii ''new'') db' = Ok (Some (ascii ''@a'', ascii ''D''))"
      "\<forall>t. t \<noteq> ascii ''new'' \<longrightarrow> find_from_token accept_all t db' =
        (if find_from_token accept_all t one_device_db = Ok (Some (ascii ''@a'', ascii ''D'')) then Ok None
         else find_from_token accept_all t one_device_db)"
    using create_device_token [OF one_device_inv(1) sample_device one_device_inv(3)] by blast
  moreover have "ascii ''tok'' \<noteq> ascii ''new''" by (simp add: ascii_def)
  ultimately show ?thesis using one_device_token by auto
qed

text \<open>
  Removing a device retires its token and no other, and its metadata and pending to-device
  messages are gone.
\<close>

theorem remove_device_logs_out:
  assumes "token_inv R db" "known_device R u d" "kv_wf (todeviceid_events db)"
  shows "token_inv R (remove_device u d db)
    \<and> (\<forall>t. find_from_token R t (remove_device u d db) =
        (if find_from_token R t db = Ok (Some (u, d)) then Ok None else find_from_token R t db))
    \<and> get_device_metadata K u d (remove_device u d db) = Ok None
    \<and> get_to_device_events K u d (remove_device u d db) = Ok []"
  using remove_device_inv [OF assms(1)] remove_device_tokens [OF assms(1,2)] assms(3)
  by (simp add: get_device_metadata_def remove_device_eq get_to_device_events_def kv_scan_prefix_remove_prefix)

theorem remove_device_logs_out_witness:
  "find_from_token accept_all (ascii ''tok'') one_device_db = Ok (Some (ascii ''@a'', ascii ''D''))
     \<and> find_from_token accept_all (ascii ''tok'') (remove_device (ascii ''@a'') (ascii ''D'') one_device_db) = Ok None"
  using remove_device_logs_out [OF one_device_inv(1) sample_device one_device_inv(2)] one_device_token by simp

text \<open>
  C6: deactivating an account logs every device of the user out and empties the password, and the
  tokens of all other users keep working.
\<close>

theorem deactivate_account_logs_out:
  assumes "token_inv R db" "utf8 u" "kv_wf (userid_password db)"
  shows "\<exists>db'. deactivate_account hash u db = (Ok (), db') \<and> token_inv R db' \<and> is_deactivated u db' = Ok True
    \<and> (\<forall>t. find_from_token R t db' = (if \<exists>d. find_from_token R t db = Ok (Some (u, d)) then Ok None
        else find_from_token R t db))"
proof -
  obtain ds where ds: "all_device_ids u db = map Inr ds"
      "set ds = {d. kv_get (userdeviceid_metadata db) (userdevice u d) \<noteq> None}" "\<forall>d \<in> set ds. utf8 d \<and> valid_user_id R u"
    using all_device_ids_are [OF assms(1,2)] by blast
  have kd: "\<forall>d \<in> set ds. known_device R u d" using ds(3) assms(2) by (simp add: known_device_def)
  obtain db' where db': "remove_devices u (map Inr ds) db = (Ok (), db')" "token_inv R db'"
      "userid_password db' = userid_password db"
      "\<forall>t. find_from_token R t db' = (if \<exists>d \<in> set ds. find_from_token R t db = Ok (Some (u, d)) then Ok None
         else find_from_token R t db)"
    using remove_devices_tokens [OF assms(1) kd] by (elim exE conjE) (rule that; assumption)
  let ?db = "db'\<lparr>userid_password := kv_insert (userid_password db') u []\<rparr>"
  have run: "deactivate_account hash u db = (Ok (), ?db)"
    by (simp add: deactivate_account_def ds(1) db'(1) set_password_def)
  have all: "(\<exists>d \<in> set ds. find_from_token R t db = Ok (Some (u, d))) \<longleftrightarrow> (\<exists>d. find_from_token R t db = Ok (Some (u, d)))" for t
  proof -
    have "d \<in> set ds" if "find_from_token R t db = Ok (Some (u, d))" for d
    proof -
      have "kv_get (token_userdeviceid db) t = Some (userdevice u d)"
        using find_from_token_total [OF assms(1), of t] that by auto
      then show ?thesis using assms(1) unfolding ds(2) by (auto simp: token_inv_def)
    qed
    then show ?thesis by blast
  qed
  have f: "find_from_token R t ?db = find_from_token R t db'" for t by (rule find_from_token_cong) simp
  have inv: "token_inv R ?db" using db'(2) by (simp add: token_inv_def)
  have "is_deactivated u ?db = Ok True" using assms(3) db'(3) by (simp add: is_deactivated_def kv_simps)
  moreover have "\<forall>t. find_from_token R t ?db = (if \<exists>d. find_from_token R t db = Ok (Some (u, d)) then Ok None
        else find_from_token R t db)" unfolding f all [symmetric] by (rule db'(4))
  ultimately show ?thesis using run inv by blast
qed

theorem deactivate_account_logs_out_witness:
  "\<exists>db'. deactivate_account (\<lambda>_. None) (ascii ''@a'') one_device_db = (Ok (), db')
     \<and> is_deactivated (ascii ''@a'') db' = Ok True \<and> find_from_token accept_all (ascii ''tok'') db' = Ok None"
proof -
  have "utf8 (ascii ''@a'')" by (simp add: ascii_def)
  then show ?thesis
    using deactivate_account_logs_out [OF one_device_inv(1) _ one_device_inv(4), of "ascii ''@a''" "\<lambda>_. None"]
      one_device_token by auto
qed

text \<open>
  An OpenID token answers with its user until the time it was issued for has passed, and is
  deleted by the first use after that.
\<close>

theorem openid_token_expires:
  assumes "kv_wf (openidtoken_expiresatuserid db)" "utf8 u" "valid_user_id R u"
    and "unat now + unat (ttl * 1000) < 2 ^ 64"
  shows "\<exists>db'. create_openid_token tok ttl now u db = (Ok (tok, ttl), db')
    \<and> (\<forall>t. t \<le> now + ttl * 1000 \<longrightarrow> find_from_openid_token R t tok db' = (Ok (Some u), db'))
    \<and> (\<forall>t. now + ttl * 1000 < t \<longrightarrow> fst (find_from_openid_token R t tok db') = Ok None
        \<and> (\<forall>t'. fst (find_from_openid_token R t' tok (snd (find_from_openid_token R t tok db'))) = Ok None))"
  using assms by (auto simp: create_openid_token_def Let_def find_from_openid_token_def kv_simps)


theorem openid_token_expires_witness:
  "\<exists>db'. create_openid_token (ascii ''t'') 60 5 (ascii ''@a'') empty_users_db = (Ok (ascii ''t'', 60), db')
     \<and> find_from_openid_token accept_all 60005 (ascii ''t'') db' = (Ok (Some (ascii ''@a'')), db')
     \<and> fst (find_from_openid_token accept_all 60006 (ascii ''t'') db') = Ok None"
proof -
  have "kv_wf (openidtoken_expiresatuserid empty_users_db)" "utf8 (ascii ''@a'')" "valid_user_id accept_all (ascii ''@a'')"
    "unat (5 :: u64) + unat (60 * 1000 :: u64) < 2 ^ 64"
    by (simp_all add: empty_users_db_def statecache_db.defs ascii_def accept_all_def)
  from openid_token_expires [OF this] obtain db' where
    db': "create_openid_token (ascii ''t'') 60 5 (ascii ''@a'') empty_users_db = (Ok (ascii ''t'', 60), db')"
    "\<forall>t. t \<le> 5 + 60 * 1000 \<longrightarrow> find_from_openid_token accept_all t (ascii ''t'') db' = (Ok (Some (ascii ''@a'')), db')"
    "\<forall>t. 5 + 60 * 1000 < t \<longrightarrow> fst (find_from_openid_token accept_all t (ascii ''t'') db') = Ok None"
    by blast
  then show ?thesis by simp
qed


text \<open>
  A to-device message is appended to the queue of its device and of no other: reading the
  queue gives the messages in the order they were sent.
\<close>

theorem to_device_queue:
  assumes "todevice_inv db" "utf8 u" "utf8 d" "count_of db \<noteq> u64_max"
    and "raw_dec K (value_enc K (JObject [(ascii ''type'', JString ty), (ascii ''sender'', JString sender),
      (ascii ''content'', content)])) = Some x"
    and "get_to_device_events K u d db = Ok xs" "utf8 u'" "utf8 d'" "(u', d') \<noteq> (u, d)"
  shows "\<exists>db'. add_to_device_event K sender u d ty content db = (Ok (), db') \<and> todevice_inv db'
    \<and> get_to_device_events K u d db' = Ok (xs @ [x])
    \<and> get_to_device_events K u' d' db' = get_to_device_events K u' d' db"
proof -
  define n where "n = count_of db + 1"
  define key where "key = userdevice u d @ sep # to_be_bytes n"
  define v where "v = value_enc K (JObject [(ascii ''type'', JString ty), (ascii ''sender'', JString sender),
      (ascii ''content'', content)])"
  define db' where "db' = db\<lparr>global := kv_insert (global db) COUNTER (to_be_bytes n),
    todeviceid_events := kv_insert (todeviceid_events db) key v\<rparr>"
  have run: "add_to_device_event K sender u d ty content db = (Ok (), db')"
    by (simp add: add_to_device_event_def next_count_eq Let_def db'_def key_def n_def v_def)
  have wf: "kv_wf (todeviceid_events db)" "kv_wf (global db)" using assms(1) by (simp_all add: todevice_inv_def)
  have cnt: "count_of db < n" "count_of db' = n"
    using less_add_1_iff [OF assms(4), of n] wf by (simp_all add: n_def, simp add: db'_def n_def count_of_def kv_simps)
  have dom': "dom (kv_get (todeviceid_events db')) = insert key (dom (kv_get (todeviceid_events db)))"
    using wf by (simp add: db'_def kv_get_insert_map)
  have "\<exists>u d m. utf8 u \<and> utf8 d \<and> m \<le> n \<and> k = userdevice u d @ sep # to_be_bytes m"
    if k: "k \<in> dom (kv_get (todeviceid_events db'))" for k
  proof (cases "k = key")
    case True
    then show ?thesis using assms(2,3) unfolding key_def by blast
  next
    case False
    then have "k \<in> dom (kv_get (todeviceid_events db))" using k unfolding dom' by blast
    then obtain u2 d2 m where "utf8 u2" "utf8 d2" "m \<le> count_of db" "k = userdevice u2 d2 @ sep # to_be_bytes m"
      using assms(1) unfolding todevice_inv_def by blast
    then show ?thesis using less_imp_le [OF cnt(1)] order_trans by blast
  qed
  moreover have "kv_wf (todeviceid_events db')" "kv_wf (global db')" using wf by (simp_all add: db'_def kv_intros)
  ultimately have inv: "todevice_inv db'" unfolding todevice_inv_def cnt(2) by blast
  have mine: "starts_with key (userdevice u' d' @ [sep]) \<longleftrightarrow> (u', d') = (u, d)" if "utf8 u'" "utf8 d'" for u' d'
    using that assms(2,3) by (auto simp: key_def userdevice_prefix)
  have before: "k < key" if k: "(k, w) \<in> set (todeviceid_events db)" "starts_with k (userdevice u d @ [sep])" for k w
  proof -
    have "k \<in> dom (kv_get (todeviceid_events db))" using k(1) kv_get_in_set [OF wf(1)] by auto
    then obtain u2 d2 m where m: "utf8 u2" "utf8 d2" "m \<le> count_of db" "k = userdevice u2 d2 @ sep # to_be_bytes m"
      using assms(1) unfolding todevice_inv_def by blast
    then have "u2 = u" "d2 = d" using k(2) assms(2,3) by (auto simp: userdevice_prefix)
    moreover have "m < n" using m(3) cnt(1) by simp
    ultimately show ?thesis using m(4) by (simp add: key_def)
  qed
  have "kv_scan_prefix (todeviceid_events db') (userdevice u d @ [sep]) =
      kv_scan_prefix (todeviceid_events db) (userdevice u d @ [sep]) @ [(key, v)]"
    using filter_kv_insert_last [OF wf(1), of "\<lambda>k. starts_with k (userdevice u d @ [sep])" key v] before mine [OF assms(2,3)]
    by (auto simp: scan_prefix_filter wf db'_def kv_intros)
  then have "get_to_device_events K u d db' = Ok (xs @ [x])"
    using assms(5,6) collect_result_snoc by (simp add: get_to_device_events_def flip: v_def)
  moreover have "kv_scan_prefix (todeviceid_events db') (userdevice u' d' @ [sep]) =
      kv_scan_prefix (todeviceid_events db) (userdevice u' d' @ [sep])"
    using filter_kv_insert_other [of "\<lambda>k. starts_with k (userdevice u' d' @ [sep])" key] mine [OF assms(7,8)] assms(9)
    by (simp add: scan_prefix_filter wf db'_def kv_intros)
  ultimately show ?thesis using run inv by (auto simp: get_to_device_events_def)
qed


theorem to_device_queue_witness:
  "\<exists>db'. add_to_device_event text_users_codec [1] (ascii ''@a'') (ascii ''D'') [2] JNull empty_users_db = (Ok (), db')
     \<and> get_to_device_events text_users_codec (ascii ''@a'') (ascii ''D'') db' = Ok [[123, 125]]"
proof -
  have e: "todeviceid_events empty_users_db = []" "global empty_users_db = []"
    by (simp_all add: empty_users_db_def statecache_db.defs empty_statecache_db_def accounts_db.defs empty_accounts_db_def
        timeline_db.defs empty_timeline_db_def state_db.defs empty_state_db_def short_db.defs empty_short_db_def)
  have i: "todevice_inv empty_users_db" by (simp add: todevice_inv_def e)
  have c: "count_of empty_users_db \<noteq> u64_max" by (simp add: count_of_def e)
  have u: "utf8 (ascii ''@a'')" "utf8 (ascii ''D'')" "utf8 (ascii ''E'')" "(ascii ''@a'', ascii ''E'') \<noteq> (ascii ''@a'', ascii ''D'')"
    by (simp_all add: ascii_def)
  have x: "raw_dec text_users_codec (value_enc text_users_codec (JObject [(ascii ''type'', JString [2]),
      (ascii ''sender'', JString [1]), (ascii ''content'', JNull)])) = Some [123, 125]"
    "get_to_device_events text_users_codec (ascii ''@a'') (ascii ''D'') empty_users_db = Ok []"
    by (simp_all add: text_users_codec_def get_to_device_events_def e scan_prefix_filter)
  from to_device_queue [OF i u(1,2) c x u(1,3,4)] show ?thesis unfolding append_Nil by blast
qed

end
