(* ===== verification/AccountData.thy ===== *)
theory AccountData
  imports Users
begin

text \<open>
  Account data: \<^verbatim>\<open>server/src/database/key_value/account_data.rs\<close>. The data of a user, per room or
  global, is filed under a counted id, and a second table maps room, user and type to the id
  that is current. \<open>RoomAccountDataEventType\<close> is the string of the type.
\<close>

record accountdata_db = users_db +
  roomuserdataid_accountdata :: kvtree
  roomusertype_roomuserdataid :: kvtree

definition account_prefix :: "str option \<Rightarrow> str \<Rightarrow> bytes" where
  "account_prefix room_id user_id = (case room_id of Some r \<Rightarrow> r | None \<Rightarrow> []) @ [sep] @ user_id @ [sep]"

definition account_data_update ::
  "users_codec \<Rightarrow> str option \<Rightarrow> str \<Rightarrow> str \<Rightarrow> json \<Rightarrow> 'a accountdata_db_scheme
     \<Rightarrow> unit result \<times> 'a accountdata_db_scheme" where
  "account_data_update K room_id user_id event_type data db =
     (let prefix = account_prefix room_id user_id
      in step_then (next_count db) (\<lambda>n db.
        (let roomuserdataid = prefix @ to_be_bytes n @ [sep] @ event_type;
             key = prefix @ event_type
         in if json_get (ascii ''type'') data = None \<or> json_get (ascii ''content'') data = None
            then (Err (BadRequest InvalidParam ''Account data doesn't have all required fields.''), db)
            else
              (let db = db\<lparr>roomuserdataid_accountdata :=
                     kv_insert (roomuserdataid_accountdata db) roomuserdataid (value_enc K data)\<rparr>;
                   prev = kv_get (roomusertype_roomuserdataid db) key;
                   db = db\<lparr>roomusertype_roomuserdataid :=
                     kv_insert (roomusertype_roomuserdataid db) key roomuserdataid\<rparr>
               in (Ok (), (case prev of
                     Some prev \<Rightarrow> db\<lparr>roomuserdataid_accountdata := kv_remove (roomuserdataid_accountdata db) prev\<rparr>
                   | None \<Rightarrow> db))))))"

definition account_data_get ::
  "users_codec \<Rightarrow> str option \<Rightarrow> str \<Rightarrow> str \<Rightarrow> 'a accountdata_db_scheme \<Rightarrow> bytes option result" where
  "account_data_get K room_id user_id kind db =
     (let key = account_prefix room_id user_id @ kind
      in map_transpose (\<lambda>data. ok_or (BadDatabase ''could not deserialize'') (raw_dec K data))
        (Option.bind (kv_get (roomusertype_roomuserdataid db) key) (kv_get (roomuserdataid_accountdata db))))"

definition changes_since ::
  "users_codec \<Rightarrow> bytes \<Rightarrow> u64 \<Rightarrow> 'a accountdata_db_scheme \<Rightarrow> (str \<rightharpoonup> bytes) result" where
  "changes_since K pre since db =
     (let first_possible = pre @ to_be_bytes (since + 1)
      in and_then (collect_result (map (\<lambda>(k, v).
           and_then (ok_or (BadDatabase ''RoomUserData ID in db is invalid.'') (string_from_bytes (last_part k))) (\<lambda>kind.
           and_then (ok_or (BadDatabase ''Database contains invalid account data.'') (raw_dec K v)) (\<lambda>data.
           Ok (kind, data))))
           (takeWhile (\<lambda>(k, _). starts_with k pre)
             (kv_iter_from (roomuserdataid_accountdata db) first_possible False))))
         (\<lambda>rs. Ok (fold (\<lambda>(kind, data) userdata. userdata(kind \<mapsto> data)) rs Map.empty)))"

definition global_changes_since ::
  "users_codec \<Rightarrow> str \<Rightarrow> u64 \<Rightarrow> 'a accountdata_db_scheme \<Rightarrow> (str \<rightharpoonup> bytes) result" where
  "global_changes_since K user_id since db = changes_since K ([sep] @ user_id @ [sep]) since db"

definition room_changes_since ::
  "users_codec \<Rightarrow> str \<Rightarrow> str \<Rightarrow> u64 \<Rightarrow> 'a accountdata_db_scheme \<Rightarrow> (str \<rightharpoonup> bytes) result" where
  "room_changes_since K room_id user_id since db = changes_since K (room_id @ [sep] @ user_id @ [sep]) since db"

section \<open>Lemmas\<close>

text \<open>The id under which data is filed, and the invariant: the index points at ids of its own
  room, user and type, with counts the counter has passed.\<close>

definition data_id :: "str \<Rightarrow> str \<Rightarrow> str \<Rightarrow> u64 \<Rightarrow> bytes" where
  "data_id r u t n = r @ sep # u @ sep # to_be_bytes n @ sep # t"

definition data_key :: "str \<Rightarrow> str \<Rightarrow> str \<Rightarrow> bytes" where
  "data_key r u t = r @ sep # u @ sep # t"

lemma data_id_inj:
  assumes "utf8 r" "utf8 u" "utf8 r'" "utf8 u'"
  shows "data_id r u t n = data_id r' u' t' n' \<longleftrightarrow> r = r' \<and> u = u' \<and> t = t' \<and> n = n'"
  using assms by (auto simp: data_id_def sep_append_inj utf8_no_sep append_eq_append_conv)

lemma data_key_inj:
  assumes "utf8 r" "utf8 u" "utf8 r'" "utf8 u'"
  shows "data_key r u t = data_key r' u' t' \<longleftrightarrow> r = r' \<and> u = u' \<and> t = t'"
  using assms by (auto simp: data_key_def sep_append_inj utf8_no_sep)

definition accountdata_inv :: "'a accountdata_db_scheme \<Rightarrow> bool" where
  "accountdata_inv db \<longleftrightarrow> kv_wf (roomuserdataid_accountdata db) \<and> kv_wf (roomusertype_roomuserdataid db)
     \<and> (\<forall>k v. kv_get (roomusertype_roomuserdataid db) k = Some v \<longrightarrow>
         (\<exists>r u t n. utf8 r \<and> utf8 u \<and> k = data_key r u t \<and> v = data_id r u t n \<and> n \<le> count_of db))"

definition room_of :: "str option \<Rightarrow> str" where
  "room_of room_id = (case room_id of Some r \<Rightarrow> r | None \<Rightarrow> [])"

lemma account_data_update_eq:
  assumes "json_get (ascii ''type'') data \<noteq> None" "json_get (ascii ''content'') data \<noteq> None"
  shows "\<exists>db'. account_data_update K room u t data db = (Ok (), db')
    \<and> count_of db' = count_of (snd (next_count db))
    \<and> roomusertype_roomuserdataid db' = kv_insert (roomusertype_roomuserdataid db) (data_key (room_of room) u t)
        (data_id (room_of room) u t (count_of db + 1))
    \<and> roomuserdataid_accountdata db' =
        (let t' = kv_insert (roomuserdataid_accountdata db) (data_id (room_of room) u t (count_of db + 1)) (value_enc K data)
         in case kv_get (roomusertype_roomuserdataid db) (data_key (room_of room) u t) of
              Some prev \<Rightarrow> kv_remove t' prev | None \<Rightarrow> t')"
proof -
  have e: "account_prefix room u @ t = data_key (room_of room) u t"
    "account_prefix room u @ to_be_bytes n @ sep # t = data_id (room_of room) u t n" for n
    by (simp_all add: account_prefix_def room_of_def data_key_def data_id_def)
  show ?thesis using assms
    by (auto simp: account_data_update_def Let_def next_count_eq e count_of_def split: option.splits)
qed

section \<open>Properties\<close>

text \<open>
  Account data reads back as it was last written, per room (or globally), user and type, writing
  one kind changes no other, and data without its two required fields is refused.
\<close>

theorem account_data_round_trip:
  assumes "accountdata_inv db" "kv_wf (global db)" "count_of db \<noteq> u64_max"
    and "utf8 (room_of room)" "utf8 u" "utf8 (room_of room')" "utf8 u'"
    and "raw_dec K (value_enc K data) = Some x"
  shows "if json_get (ascii ''type'') data = None \<or> json_get (ascii ''content'') data = None
    then fst (account_data_update K room u t data db)
      = Err (BadRequest InvalidParam ''Account data doesn't have all required fields.'')
    else (\<exists>db'. account_data_update K room u t data db = (Ok (), db') \<and> accountdata_inv db'
      \<and> account_data_get K room u t db' = Ok (Some x)
      \<and> ((room_of room', u', t') \<noteq> (room_of room, u, t) \<longrightarrow>
           account_data_get K room' u' t' db' = account_data_get K room' u' t' db))"
proof (cases "json_get (ascii ''type'') data = None \<or> json_get (ascii ''content'') data = None")
  case True
  then show ?thesis by (auto simp: account_data_update_def Let_def next_count_eq)
next
  case False
  define n where "n = count_of db + 1"
  let ?r = "room_of room"
  have j: "json_get (ascii ''type'') data \<noteq> None" "json_get (ascii ''content'') data \<noteq> None" using False by auto
  obtain db' where db': "account_data_update K room u t data db = (Ok (), db')"
    "count_of db' = count_of (snd (next_count db))"
    "roomusertype_roomuserdataid db' = kv_insert (roomusertype_roomuserdataid db) (data_key ?r u t) (data_id ?r u t n)"
    "roomuserdataid_accountdata db' =
        (let t' = kv_insert (roomuserdataid_accountdata db) (data_id ?r u t n) (value_enc K data)
         in case kv_get (roomusertype_roomuserdataid db) (data_key ?r u t) of
              Some prev \<Rightarrow> kv_remove t' prev | None \<Rightarrow> t')"
    using account_data_update_eq [OF j, of K room u t db] unfolding n_def [symmetric]
    by (elim exE conjE) (rule that; assumption)
  have wf: "kv_wf (roomuserdataid_accountdata db)" "kv_wf (roomusertype_roomuserdataid db)"
    using assms(1) by (simp_all add: accountdata_inv_def)
  have cnt: "count_of db' = n" "count_of db < n"
    using less_add_1_iff [OF assms(3), of n] by (simp_all add: db'(2) count_of_next [OF assms(2)] n_def)
  have old: "\<exists>m. v = data_id r2 u2 t2 m \<and> m < n"
    if v: "kv_get (roomusertype_roomuserdataid db) (data_key r2 u2 t2) = Some v" "utf8 r2" "utf8 u2" for r2 u2 t2 v
  proof -
    obtain r3 u3 t3 m where m: "utf8 r3" "utf8 u3" "data_key r2 u2 t2 = data_key r3 u3 t3" "v = data_id r3 u3 t3 m"
        "m \<le> count_of db" using assms(1) v(1) unfolding accountdata_inv_def by blast
    then have "v = data_id r2 u2 t2 m" using data_key_inj [OF v(2,3) m(1,2)] by simp
    then show ?thesis using le_less_trans [OF m(5) cnt(2)] by blast
  qed
  have get: "kv_get (roomuserdataid_accountdata db') (data_id r2 u2 t2 m) =
      (if (r2, u2, t2, m) = (?r, u, t, n) then Some (value_enc K data)
       else kv_get (roomuserdataid_accountdata db) (data_id r2 u2 t2 m))"
    if "utf8 r2" "utf8 u2" "(r2, u2, t2) \<noteq> (?r, u, t) \<or> m = n" for r2 u2 t2 m
  proof (cases "kv_get (roomusertype_roomuserdataid db) (data_key ?r u t)")
    case None
    then show ?thesis using that wf data_id_inj [OF that(1,2) assms(4,5)] by (auto simp: db'(4) kv_simps)
  next
    case (Some prev)
    then obtain p where "prev = data_id ?r u t p" "p < n" using old assms(4,5) by blast
    then show ?thesis using Some that wf data_id_inj [OF that(1,2) assms(4,5)] by (auto simp: db'(4) kv_simps)
  qed
  have "account_data_get K room u t db' = Ok (Some x)"
  proof -
    have "account_prefix room u @ t = data_key ?r u t" by (simp add: account_prefix_def room_of_def data_key_def)
    then show ?thesis using get [OF assms(4,5), of t n] wf assms(8)
      by (simp add: account_data_get_def Let_def db'(3) kv_simps)
  qed
  moreover have "account_data_get K room' u' t' db' = account_data_get K room' u' t' db"
    if ne: "(room_of room', u', t') \<noteq> (?r, u, t)"
  proof -
    have k: "account_prefix room' u' @ t' = data_key (room_of room') u' t'"
      by (simp add: account_prefix_def room_of_def data_key_def)
    have same: "kv_get (roomusertype_roomuserdataid db') (data_key (room_of room') u' t') =
        kv_get (roomusertype_roomuserdataid db) (data_key (room_of room') u' t')"
      using ne wf data_key_inj [OF assms(6,7,4,5)] by (auto simp: db'(3) kv_simps)
    show ?thesis
    proof (cases "kv_get (roomusertype_roomuserdataid db) (data_key (room_of room') u' t')")
      case None
      then show ?thesis by (simp add: account_data_get_def Let_def k same)
    next
      case (Some v)
      then obtain m where m: "v = data_id (room_of room') u' t' m" using old assms(6,7) by blast
      have "kv_get (roomuserdataid_accountdata db') v = kv_get (roomuserdataid_accountdata db) v"
        unfolding m using get [OF assms(6,7), of t' m] ne by auto
      then show ?thesis using Some by (simp add: account_data_get_def Let_def k same)
    qed
  qed
  moreover have "accountdata_inv db'"
  proof -
    have "kv_wf (roomuserdataid_accountdata db')" "kv_wf (roomusertype_roomuserdataid db')"
      using wf by (auto simp: db'(3,4) Let_def kv_intros split: option.splits)
    moreover have "\<exists>r u t m. utf8 r \<and> utf8 u \<and> k = data_key r u t \<and> v = data_id r u t m \<and> m \<le> n"
      if kv: "kv_get (roomusertype_roomuserdataid db') k = Some v" for k v
    proof (cases "k = data_key ?r u t")
      case True
      then show ?thesis using kv wf assms(4,5) by (auto simp: db'(3) kv_simps)
    next
      case False
      then have "kv_get (roomusertype_roomuserdataid db) k = Some v" using kv wf by (simp add: db'(3) kv_simps)
      then obtain r2 u2 t2 m where "utf8 r2" "utf8 u2" "k = data_key r2 u2 t2" "v = data_id r2 u2 t2 m" "m \<le> count_of db"
        using assms(1) unfolding accountdata_inv_def by blast
      then show ?thesis using less_imp_le [OF cnt(2)] order_trans by blast
    qed
    ultimately show ?thesis unfolding accountdata_inv_def cnt(1) by blast
  qed
  ultimately show ?thesis using False db'(1) by simp
qed

definition empty_accountdata_db :: accountdata_db where
  "empty_accountdata_db = users_db.extend empty_users_db
     \<lparr>roomuserdataid_accountdata = [], roomusertype_roomuserdataid = []\<rparr>"

lemma empty_accountdata_global: "global empty_accountdata_db = []"
  by (simp add: empty_accountdata_db_def users_db.defs empty_users_db_def statecache_db.defs empty_statecache_db_def
      accounts_db.defs empty_accounts_db_def timeline_db.defs empty_timeline_db_def state_db.defs empty_state_db_def
      short_db.defs empty_short_db_def)

theorem account_data_round_trip_witness:
  "\<exists>db'. account_data_update text_users_codec None (ascii ''@a'') (ascii ''m.x'')
       (JObject [(ascii ''type'', JNull), (ascii ''content'', JNull)]) empty_accountdata_db = (Ok (), db')
     \<and> account_data_get text_users_codec None (ascii ''@a'') (ascii ''m.x'') db' = Ok (Some [123, 125])"
proof -
  let ?d = "JObject [(ascii ''type'', JNull), (ascii ''content'', JNull)]"
  have i: "accountdata_inv empty_accountdata_db"
    by (simp add: accountdata_inv_def empty_accountdata_db_def users_db.defs)
  have g: "kv_wf (global empty_accountdata_db)" "count_of empty_accountdata_db \<noteq> u64_max"
    by (simp_all add: empty_accountdata_global count_of_def)
  have u: "utf8 (room_of None)" "utf8 (ascii ''@a'')" by (simp_all add: room_of_def ascii_def)
  have x: "raw_dec text_users_codec (value_enc text_users_codec ?d) = Some [123, 125]" by (simp add: text_users_codec_def)
  have j: "json_get (ascii ''type'') ?d \<noteq> None" "json_get (ascii ''content'') ?d \<noteq> None"
    by (simp_all add: ascii_def)
  show ?thesis using account_data_round_trip [OF i g u u x, of "ascii ''m.x''" "ascii ''m.x''"] j by auto
qed

end
