(* ===== verification/SolanaAuth.thy ===== *)
theory SolanaAuth
  imports Prelude "HOL-Library.AList"
begin

text \<open>
  Wallet login: \<^verbatim>\<open>server/src/api/client_server/solana_auth.rs\<close>. A client asks for a nonce, signs
  a message that names the server and the nonce, and sends the signature back; the nonce is taken
  out of the store before the signature is checked. The store of nonces is an association list
  (a hash map of the source) from a nonce to the instant it was created, in nanoseconds. Base58,
  hex and ed25519 are third-party crates and parameters.
\<close>

record solana_crypto =
  bs58_decode :: "str \<Rightarrow> bytes option"
  valid_verifying_key :: "bytes \<Rightarrow> bool"
  ed25519_verify :: "bytes \<Rightarrow> bytes \<Rightarrow> bytes \<Rightarrow> bool"
  hex_encode :: "bytes \<Rightarrow> str"

type_synonym nonces = "(str \<times> nat) list"

definition NONCE_TTL :: nat where
  "NONCE_TTL = 300 * 1000000000"

definition MAX_NONCES :: nat where
  "MAX_NONCES = 10000"

record nonce_response =
  response_nonce :: str
  response_message :: str
  expires_in_seconds :: nat

record solana_login_request =
  address :: str
  signature :: str
  request_nonce :: str

definition format_sign_message :: "str \<Rightarrow> str \<Rightarrow> str" where
  "format_sign_message server_name nonce =
     ascii ''Sign in to '' @ server_name @ [10, 10] @ ascii ''Nonce: '' @ nonce @ [10, 10] @
     ascii ''This signature will not trigger a blockchain transaction or cost any fees.''"

definition generate_random_nonce :: "solana_crypto \<Rightarrow> bytes \<Rightarrow> str" where
  "generate_random_nonce S random = hex_encode S random"

text \<open>\<open>random\<close> is what the random generator returns, \<open>now\<close> the instant of the call.\<close>

definition generate_nonce ::
  "solana_crypto \<Rightarrow> str \<Rightarrow> bytes \<Rightarrow> nat \<Rightarrow> str \<Rightarrow> nonces \<Rightarrow> nonce_response result \<times> nonces" where
  "generate_nonce S server_name random now addr nonces =
     (case bs58_decode S addr of
        None \<Rightarrow> (Err (BadRequest InvalidParam ''Invalid base58 address.''), nonces)
      | Some pubkey_bytes \<Rightarrow>
          if length pubkey_bytes \<noteq> 32
          then (Err (BadRequest InvalidParam ''Solana address must decode to exactly 32 bytes.''), nonces)
          else
            (let nonce = generate_random_nonce S random;
                 message = format_sign_message server_name nonce;
                 nonces = (if MAX_NONCES < length nonces
                           then filter (\<lambda>(_, created). now - created < NONCE_TTL) nonces else nonces)
             in (Ok \<lparr>response_nonce = nonce, response_message = message,
                     expires_in_seconds = NONCE_TTL div 1000000000\<rparr>,
                 AList.update nonce now nonces)))"

definition verify_solana_login ::
  "solana_crypto \<Rightarrow> str \<Rightarrow> nat \<Rightarrow> solana_login_request \<Rightarrow> nonces \<Rightarrow> (str \<times> str) result \<times> nonces" where
  "verify_solana_login S server_name now request nonces =
     (case bs58_decode S (address request) of
        None \<Rightarrow> (Err (BadRequest Forbidden ''Invalid base58 address.''), nonces)
      | Some pubkey_bytes \<Rightarrow>
     if length pubkey_bytes \<noteq> 32
     then (Err (BadRequest Forbidden ''Solana address must decode to exactly 32 bytes.''), nonces)
     else if \<not> valid_verifying_key S pubkey_bytes
     then (Err (BadRequest Forbidden ''Invalid ed25519 public key.''), nonces)
     else (case bs58_decode S (signature request) of
        None \<Rightarrow> (Err (BadRequest Forbidden ''Invalid base58 signature.''), nonces)
      | Some sig_bytes \<Rightarrow>
     if length sig_bytes \<noteq> 64
     then (Err (BadRequest Forbidden ''Signature must be exactly 64 bytes.''), nonces)
     else
       (let message = format_sign_message server_name (request_nonce request)
        in case map_of nonces (request_nonce request) of
             None \<Rightarrow> (Err (BadRequest Forbidden ''Nonce not found or already used.''), nonces)
           | Some created \<Rightarrow>
               (let nonces = AList.delete (request_nonce request) nonces
                in if NONCE_TTL < now - created
                   then (Err (BadRequest Forbidden ''Nonce has expired.''), nonces)
                   else if \<not> ed25519_verify S pubkey_bytes message sig_bytes
                   then (Err (BadRequest Forbidden ''Signature verification failed.''), nonces)
                   else (Ok (ascii ''solana_'' @ hex_encode S pubkey_bytes, address request), nonces)))))"

section \<open>Runs of the two endpoints\<close>

text \<open>
  Calls arrive in some order, each at an instant no earlier than the one before; the lock makes each
  of them one step. The trace records what was issued and what was accepted.
\<close>

datatype auth_event = Issued str nat | Accepted str str nat | Refused

inductive auth_step ::
  "solana_crypto \<Rightarrow> str \<Rightarrow> nat \<times> nonces \<Rightarrow> auth_event \<Rightarrow> nat \<times> nonces \<Rightarrow> bool" for S server_name where
  issue: "t \<le> now \<Longrightarrow> generate_nonce S server_name random now addr ns = (Ok r, ns') \<Longrightarrow>
    auth_step S server_name (t, ns) (Issued (response_nonce r) now) (now, ns')"
| no_issue: "t \<le> now \<Longrightarrow> generate_nonce S server_name random now addr ns = (Err e, ns') \<Longrightarrow>
    auth_step S server_name (t, ns) Refused (now, ns')"
| accept: "t \<le> now \<Longrightarrow> verify_solana_login S server_name now req ns = (Ok (l, a), ns') \<Longrightarrow>
    auth_step S server_name (t, ns) (Accepted (request_nonce req) l now) (now, ns')"
| refuse: "t \<le> now \<Longrightarrow> verify_solana_login S server_name now req ns = (Err e, ns') \<Longrightarrow>
    auth_step S server_name (t, ns) Refused (now, ns')"

inductive_cases auth_stepE: "auth_step S server_name c e c'"

inductive auth_run ::
  "solana_crypto \<Rightarrow> str \<Rightarrow> auth_event list \<Rightarrow> nat \<times> nonces \<Rightarrow> bool" for S server_name where
  start: "auth_run S server_name [] (t, [])"
| step: "auth_run S server_name es c \<Longrightarrow> auth_step S server_name c e c' \<Longrightarrow> auth_run S server_name (es @ [e]) c'"

fun issues :: "str \<Rightarrow> auth_event list \<Rightarrow> nat" where
  "issues n [] = 0"
| "issues n (Issued n' t # es) = (if n' = n then 1 else 0) + issues n es"
| "issues n (_ # es) = issues n es"

fun accepts :: "str \<Rightarrow> auth_event list \<Rightarrow> nat" where
  "accepts n [] = 0"
| "accepts n (Accepted n' l t # es) = (if n' = n then 1 else 0) + accepts n es"
| "accepts n (_ # es) = accepts n es"

lemma issues_append [simp]: "issues n (xs @ ys) = issues n xs + issues n ys"
  by (induction xs rule: issues.induct) auto

lemma accepts_append [simp]: "accepts n (xs @ ys) = accepts n xs + accepts n ys"
  by (induction xs rule: accepts.induct) auto

lemma generate_nonce_store:
  assumes "generate_nonce S server_name random now addr ns = (Ok r, ns')"
  shows "\<exists>ms. set ms \<subseteq> set ns \<and> (distinct (map fst ns) \<longrightarrow> distinct (map fst ms))
    \<and> ns' = AList.update (response_nonce r) now ms"
proof -
  let ?ms = "if MAX_NONCES < length ns then filter (\<lambda>(_, created). now - created < NONCE_TTL) ns else ns"
  have "ns' = AList.update (response_nonce r) now ?ms"
    using assms by (auto simp: generate_nonce_def Let_def split: option.splits if_splits)
  moreover have "set ?ms \<subseteq> set ns" "distinct (map fst ns) \<longrightarrow> distinct (map fst ?ms)"
    by (auto simp: distinct_map_filter)
  ultimately show ?thesis by blast
qed

lemma verify_accepts:
  assumes "verify_solana_login S server_name now req ns = (Ok (l, a), ns')"
  shows "\<exists>pk sig created. bs58_decode S (address req) = Some pk \<and> length pk = 32 \<and> valid_verifying_key S pk
    \<and> bs58_decode S (signature req) = Some sig \<and> length sig = 64
    \<and> map_of ns (request_nonce req) = Some created \<and> now - created \<le> NONCE_TTL
    \<and> ed25519_verify S pk (format_sign_message server_name (request_nonce req)) sig
    \<and> l = ascii ''solana_'' @ hex_encode S pk \<and> a = address req \<and> ns' = AList.delete (request_nonce req) ns"
  using assms by (auto simp: verify_solana_login_def Let_def split: option.splits if_splits)

lemma verify_refuses:
  assumes "verify_solana_login S server_name now req ns = (Err e, ns')"
  shows "ns' = ns \<or> ns' = AList.delete (request_nonce req) ns"
  using assms by (auto simp: verify_solana_login_def Let_def split: option.splits if_splits)

lemma generate_refuses: "generate_nonce S server_name random now addr ns = (Err e, ns') \<Longrightarrow> ns' = ns"
  by (auto simp: generate_nonce_def Let_def split: option.splits if_splits)

text \<open>
  The invariant of a run: the keys of the store are distinct, a nonce in the store has been issued
  more often than accepted, and its creation instant is in the trace.
\<close>

definition auth_inv :: "auth_event list \<Rightarrow> nonces \<Rightarrow> bool" where
  "auth_inv es ns \<longleftrightarrow> distinct (map fst ns)
     \<and> (\<forall>n. accepts n es + (if map_of ns n = None then 0 else 1) \<le> issues n es)
     \<and> (\<forall>n t. map_of ns n = Some t \<longrightarrow> Issued n t \<in> set es)"

lemma auth_inv_sub:
  assumes "auth_inv es ns" "distinct (map fst ms)" "set ms \<subseteq> set ns"
  shows "auth_inv es ms"
proof -
  have "map_of ms n = Some t \<Longrightarrow> map_of ns n = Some t" for n t
    using assms by (auto simp: auth_inv_def dest!: map_of_SomeD)
  moreover have "(if map_of ms n = None then 0 else 1) \<le> (if map_of ns n = None then 0 else 1 :: nat)" for n
    using calculation by (cases "map_of ms n") auto
  ultimately show ?thesis using assms unfolding auth_inv_def by (meson add_left_mono order_trans)
qed

lemma auth_inv_delete: "auth_inv es ns \<Longrightarrow> auth_inv es (AList.delete n ns)"
  by (rule auth_inv_sub) (auto simp: auth_inv_def distinct_map_filter AList.delete_eq)

lemma auth_inv_issue:
  assumes "auth_inv es ms"
  shows "auth_inv (es @ [Issued n now]) (AList.update n now ms)"
proof -
  have "accepts m es + (if ((map_of ms)(n \<mapsto> now)) m = None then 0 else 1) \<le> issues m (es @ [Issued n now])" for m
  proof -
    have "accepts m es + (if map_of ms m = None then 0 else 1) \<le> issues m es" using assms by (simp add: auth_inv_def)
    then show ?thesis by (cases "m = n") (auto split: if_splits)
  qed
  then show ?thesis using assms unfolding auth_inv_def by (auto simp: update_conv' distinct_update split: if_splits)
qed

lemma auth_inv_accept:
  assumes "auth_inv es ns" "map_of ns n = Some created"
  shows "auth_inv (es @ [Accepted n l now]) (AList.delete n ns)"
proof -
  have "accepts m (es @ [Accepted n l now]) + (if ((map_of ns)(n := None)) m = None then 0 else 1) \<le> issues m es" for m
  proof -
    have "accepts m es + (if map_of ns m = None then 0 else 1) \<le> issues m es" using assms(1) by (simp add: auth_inv_def)
    then show ?thesis using assms(2) by (cases "m = n") (auto split: if_splits)
  qed
  then show ?thesis using auth_inv_delete [OF assms(1), of n] unfolding auth_inv_def by (auto simp: delete_conv')
qed

lemma auth_run_inv: "auth_run S server_name es c \<Longrightarrow> auth_inv es (snd c)"
proof (induction rule: auth_run.induct)
  case (start t)
  then show ?case by (simp add: auth_inv_def)
next
  case (step es c e c')
  note inv = step.IH
  show ?case using step.hyps(2)
  proof (cases rule: auth_step.cases)
    case (issue t now random addr ns r ns')
    then obtain ms where ms: "set ms \<subseteq> set ns" "distinct (map fst ms)" "ns' = AList.update (response_nonce r) now ms"
      using generate_nonce_store [of S server_name random now addr ns r ns'] inv by (auto simp: auth_inv_def)
    have i: "auth_inv es ms" using auth_inv_sub [OF _ ms(2,1)] inv issue by simp
    show ?thesis unfolding issue ms(3) snd_conv by (rule auth_inv_issue [OF i])
  next
    case (no_issue t now random addr ns e ns')
    then show ?thesis using inv generate_refuses [of S server_name random now addr ns e ns'] by (auto simp: auth_inv_def)
  next
    case (accept t now req ns l a ns')
    then obtain created where a: "map_of ns (request_nonce req) = Some created" "ns' = AList.delete (request_nonce req) ns"
      using verify_accepts [of S server_name now req ns l a ns'] by blast
    have i: "auth_inv es ns" using inv accept by simp
    show ?thesis unfolding accept snd_conv a(2) by (rule auth_inv_accept [OF i a(1)])
  next
    case (refuse t now req ns e ns')
    then have "auth_inv es ns'" using verify_refuses [of S server_name now req ns e ns'] inv auth_inv_delete by auto
    then show ?thesis using refuse by (auto simp: auth_inv_def)
  qed
qed


section \<open>Properties\<close>

text \<open>
  C3: no replay: in every run of the two endpoints, in any order and with any number of concurrent
  clients, a nonce is accepted at most as often as it was issued, and an accepted nonce was issued
  before, at most five minutes earlier.
\<close>

theorem nonce_no_replay:
  assumes "auth_run S server_name es c"
  shows "accepts n es \<le> issues n es
    \<and> (auth_step S server_name c (Accepted n l now) c' \<longrightarrow> (\<exists>t. Issued n t \<in> set es \<and> now - t \<le> NONCE_TTL))"
proof -
  have inv: "auth_inv es (snd c)" using assms by (rule auth_run_inv)
  have "\<exists>t. Issued n t \<in> set es \<and> now - t \<le> NONCE_TTL" if "auth_step S server_name c (Accepted n l now) c'"
    using that
  proof (cases rule: auth_step.cases)
    case (accept t req ns a ns')
    then obtain created where "map_of ns n = Some created" "now - created \<le> NONCE_TTL"
      using verify_accepts [of S server_name now req ns l a ns'] by blast
    moreover have "Issued n created \<in> set es" using inv accept(1) calculation(1) by (simp add: auth_inv_def)
    ultimately show ?thesis by blast
  qed
  moreover have "accepts n es \<le> issues n es" using inv unfolding auth_inv_def by (meson add_leE)
  ultimately show ?thesis by blast
qed

text \<open>
  C10: a login succeeds only with a signature of the challenge by the key of the address, and
  distinct keys log in as distinct accounts: the local parts of two successful logins are equal
  exactly when the addresses decode to the same key. The hypothesis on the hex crate is that its
  encoding is one-to-one.
\<close>

theorem solana_login_sound:
  assumes "inj (hex_encode S)" "verify_solana_login S server_name now req ns = (Ok (l, a), ns')"
    and "verify_solana_login S server_name' now' req' ms = (Ok (l', a'), ms')"
  shows "(\<exists>pk sig. bs58_decode S (address req) = Some pk \<and> bs58_decode S (signature req) = Some sig
      \<and> ed25519_verify S pk (format_sign_message server_name (request_nonce req)) sig)
    \<and> (l = l' \<longleftrightarrow> bs58_decode S (address req) = bs58_decode S (address req'))
    \<and> map_of ns' (request_nonce req) = None"
proof -
  obtain pk sig where 1: "bs58_decode S (address req) = Some pk" "bs58_decode S (signature req) = Some sig"
      "ed25519_verify S pk (format_sign_message server_name (request_nonce req)) sig"
      "l = ascii ''solana_'' @ hex_encode S pk" "ns' = AList.delete (request_nonce req) ns"
    using verify_accepts [OF assms(2)] by blast
  obtain pk' where 2: "bs58_decode S (address req') = Some pk'" "l' = ascii ''solana_'' @ hex_encode S pk'"
    using verify_accepts [OF assms(3)] by blast
  have "map_of ns' (request_nonce req) = None" by (simp add: 1(5) delete_conv')
  then show ?thesis using 1(1-4) 2 injD [OF assms(1)] by auto
qed

text \<open>
  A toy signature scheme for concrete runs: Base58 and hex are the identity, every key is valid, and
  a signature is 64 bytes that start with its key.
\<close>

definition toy_crypto :: solana_crypto where
  "toy_crypto = \<lparr>bs58_decode = Some, valid_verifying_key = (\<lambda>_. True),
     ed25519_verify = (\<lambda>pk _ sig. take 32 sig = pk), hex_encode = id\<rparr>"

definition toy_request :: solana_login_request where
  "toy_request = \<lparr>address = replicate 32 7, signature = replicate 64 7, request_nonce = [1, 2]\<rparr>"

lemma toy_login: "verify_solana_login toy_crypto [] 100 toy_request [([1, 2], 50)]
    = (Ok (ascii ''solana_'' @ replicate 32 7, replicate 32 7), [])"
  by (simp add: verify_solana_login_def toy_crypto_def toy_request_def Let_def NONCE_TTL_def AList.delete_eq
      take_replicate)

lemma toy_issue: "generate_nonce toy_crypto [] [1, 2] 50 (replicate 32 7) []
    = (Ok \<lparr>response_nonce = [1, 2], response_message = format_sign_message [] [1, 2], expires_in_seconds = 300\<rparr>,
       [([1, 2], 50)])"
  by (simp add: generate_nonce_def toy_crypto_def generate_random_nonce_def Let_def MAX_NONCES_def NONCE_TTL_def)

theorem nonce_no_replay_witness:
  "\<exists>es. auth_run toy_crypto [] es (100, []) \<and> accepts [1, 2] es = 1 \<and> accepts [1, 2] es \<le> issues [1, 2] es"
proof -
  let ?es = "[] @ [Issued [1, 2] 50] @ [Accepted [1, 2] (ascii ''solana_'' @ replicate 32 7) 100]"
  have r: "auth_run toy_crypto [] ([] @ [Issued [1, 2] 50]) (50, [([1, 2], 50)])"
    using auth_run.step [OF auth_run.start auth_step.issue [OF _ toy_issue, of 0]] by simp
  have "auth_run toy_crypto [] (([] @ [Issued [1, 2] 50]) @ [Accepted [1, 2] (ascii ''solana_'' @ replicate 32 7) 100])
      (100, [])"
    using auth_run.step [OF r auth_step.accept [OF _ toy_login]] by (simp add: toy_request_def)
  then show ?thesis using nonce_no_replay [of toy_crypto "[]" _ "(100, [])" "[1, 2]"]
    by (intro exI [of _ ?es]) simp
qed

theorem solana_login_sound_witness:
  "\<exists>pk sig. bs58_decode toy_crypto (address toy_request) = Some pk
     \<and> bs58_decode toy_crypto (signature toy_request) = Some sig
     \<and> ed25519_verify toy_crypto pk (format_sign_message [] (request_nonce toy_request)) sig"
proof -
  have "inj (hex_encode toy_crypto)" by (simp add: toy_crypto_def)
  from conjunct1 [OF solana_login_sound [OF this toy_login toy_login]] show ?thesis .
qed

end
