(* ===== verification/Session.thy ===== *)
theory Session
  imports AccountData SolanaAuth
begin

text \<open>
  Logging in and out: \<^verbatim>\<open>server/src/api/client_server/session.rs\<close>. \<open>login_route\<close> dispatches to the
  wallet login or to the password, token and application service logins; both end by giving the
  device a fresh access token. What the handlers ask of other crates and of the configuration is
  in the record \<open>login_env\<close>; the random strings and the clocks are arguments.
\<close>

record session_db = accountdata_db +
  solana_nonces :: nonces
  admin_messages :: "str list"

text \<open>
  \<open>exclusive_user_id\<close> is \<open>services().appservice.is_exclusive_user_id\<close> for the registered services;
  \<open>jwt_subject\<close> is absent without a decoding key, and otherwise decodes and validates a token to its
  subject; \<open>push_rules_value\<close> is the serialised default push rules of a user.
\<close>

record login_env =
  login_ruma :: ruma
  login_codec :: users_codec
  login_crypto :: solana_crypto
  server_name :: str
  allow_solana_auth :: bool
  to_lowercase :: "str \<Rightarrow> str"
  parse_with_server_name :: "str \<Rightarrow> str \<Rightarrow> str option"
  exclusive_user_id :: "str \<Rightarrow> bool"
  argon2_verify :: "str \<Rightarrow> str \<Rightarrow> bool option"
  argon2_hash :: "str \<Rightarrow> str option"
  jwt_subject :: "(str \<Rightarrow> str option) option"
  push_rules_value :: "str \<Rightarrow> json"

datatype login_info =
    PasswordLogin "str option" "str option" str
  | TokenLogin str
  | ApplicationServiceLogin "str option" "str option"
  | OtherLogin

text \<open>\<open>json_body\<close> is the request body when it is a JSON object; \<open>appservice_match\<close> is
  \<open>is_user_match\<close> of the application service that made the request.\<close>

record login_request =
  json_body :: "(str \<times> json) list option"
  login_info :: login_info
  login_device_id :: "str option"
  initial_device_display_name :: "str option"
  appservice_match :: "(str \<Rightarrow> bool) option"

record login_random =
  random_device_id :: str
  random_token :: str
  now_instant :: nat
  now_millis :: u64

record login_response =
  login_user_id :: str
  access_token :: str
  home_server :: str
  response_device_id :: str

section \<open>Issuing a token\<close>

text \<open>The end of both login handlers: reuse the device or create it, with a new token.\<close>

definition issue_token ::
  "login_env \<Rightarrow> login_random \<Rightarrow> login_request \<Rightarrow> str \<Rightarrow> 'a users_db_scheme \<Rightarrow> login_response result \<times> 'a users_db_scheme" where
  "issue_token L rnd body user_id db =
     (let device_id = (case login_device_id body of Some d \<Rightarrow> d | None \<Rightarrow> random_device_id rnd);
          token = random_token rnd;
          device_exists = (case login_device_id body of
              Some d \<Rightarrow> list_ex (\<lambda>x. x = Ok d) (all_device_ids user_id db) | None \<Rightarrow> False)
      in step_then (if device_exists then set_token user_id device_id token db
                    else create_device (login_codec L) (now_millis rnd) user_id device_id token
                           (initial_device_display_name body) db)
           (\<lambda>_ db. (Ok \<lparr>login_user_id = user_id, access_token = token, home_server = server_name L,
                        response_device_id = device_id\<rparr>, db)))"

section \<open>Wallet login\<close>

definition get_string :: "(str \<times> json) list \<Rightarrow> string \<Rightarrow> str result" where
  "get_string m key =
     (case map_of m (ascii key) of
        Some (JString s) \<Rightarrow> Ok s
      | _ \<Rightarrow> Err (BadRequest MissingParam ''Missing required Solana auth field.''))"

text \<open>What \<open>handle_solana_login\<close> does for a user it has not seen before.\<close>

definition register_wallet ::
  "login_env \<Rightarrow> str \<Rightarrow> str \<Rightarrow> 'a session_db_scheme \<Rightarrow> unit result \<times> 'a session_db_scheme" where
  "register_wallet L user_id base58_address db =
     step_then (set_password (argon2_hash L) user_id None db) (\<lambda>_ db.
       (let db = set_displayname user_id (Some base58_address) db
        in step_then (account_data_update (login_codec L) None user_id (ascii ''m.push_rules'')
               (push_rules_value L user_id) db) (\<lambda>_ db.
          (Ok (), db\<lparr>admin_messages := admin_messages db @ [ascii ''New Solana user '' @ base58_address
              @ ascii '' registered ('' @ user_id @ ascii '').'']\<rparr>))))"

definition handle_solana_login ::
  "login_env \<Rightarrow> login_random \<Rightarrow> login_request \<Rightarrow> (str \<times> json) list \<Rightarrow> 'a session_db_scheme
     \<Rightarrow> login_response result \<times> 'a session_db_scheme" where
  "handle_solana_login L rnd body m db =
     (if \<not> allow_solana_auth L
      then (Err (BadRequest Unknown ''Solana authentication is not enabled on this server.''), db)
      else
        step_then (and_then (get_string m ''address'') (\<lambda>a. and_then (get_string m ''signature'') (\<lambda>s.
            and_then (get_string m ''nonce'') (\<lambda>n. Ok \<lparr>address = a, signature = s, request_nonce = n\<rparr>))), db)
          (\<lambda>solana_request db.
        (let (r, ns) = verify_solana_login (login_crypto L) (server_name L) (now_instant rnd) solana_request
               (solana_nonces db)
         in step_then (r, db\<lparr>solana_nonces := ns\<rparr>) (\<lambda>(hex_localpart, base58_address) db.
         step_then (ok_or (BadRequest InvalidUsername ''Generated username is invalid.'')
             (parse_with_server_name L hex_localpart (server_name L)), db) (\<lambda>user_id db.
         step_then (user_exists user_id db, db) (\<lambda>exists db.
         step_then (if \<not> exists then register_wallet L user_id base58_address db else (Ok (), db)) (\<lambda>_ db.
         issue_token L rnd body user_id db)))))))"

section \<open>The other logins\<close>

definition parse_login_user ::
  "login_env \<Rightarrow> str option \<Rightarrow> str option \<Rightarrow> str result" where
  "parse_login_user L identifier user =
     (case identifier of
        Some user_id \<Rightarrow> ok_or (BadRequest InvalidUsername ''Username is invalid.'')
          (parse_with_server_name L (to_lowercase L user_id) (server_name L))
      | None \<Rightarrow>
          (case user of
             Some user \<Rightarrow> if valid_user_id (login_ruma L) user then Ok user
               else Err (BadRequest InvalidUsername ''Username is invalid.'')
           | None \<Rightarrow> Err (BadRequest Forbidden ''Bad login type.'')))"

definition login_user :: "login_env \<Rightarrow> login_request \<Rightarrow> 'a session_db_scheme \<Rightarrow> str result" where
  "login_user L body db =
     (case login_info body of
        PasswordLogin identifier user password \<Rightarrow>
          and_then (parse_login_user L identifier user) (\<lambda>user_id.
          if exclusive_user_id L user_id then Err (BadRequest Exclusive ''User id reserved by appservice.'')
          else and_then (password_hash user_id db) (\<lambda>o'.
          and_then (ok_or (BadRequest Forbidden ''Wrong username or password.'') o') (\<lambda>hash.
          if hash = [] then Err (BadRequest UserDeactivated ''The user has been deactivated'')
          else if (case argon2_verify L hash password of Some b \<Rightarrow> b | None \<Rightarrow> False) then Ok user_id
          else Err (BadRequest Forbidden ''Wrong username or password.''))))
      | TokenLogin token \<Rightarrow>
          (case jwt_subject L of
             None \<Rightarrow> Err (BadRequest Unknown ''Token login is not supported (server has no jwt decoding key).'')
           | Some decode \<Rightarrow>
               and_then (ok_or (BadRequest InvalidUsername ''Token is invalid.'') (decode token)) (\<lambda>sub.
               and_then (ok_or (BadRequest InvalidUsername ''Username is invalid.'')
                 (parse_with_server_name L (to_lowercase L sub) (server_name L))) (\<lambda>user_id.
               if exclusive_user_id L user_id then Err (BadRequest Exclusive ''User id reserved by appservice.'')
               else Ok user_id)))
      | ApplicationServiceLogin identifier user \<Rightarrow>
          and_then (parse_login_user L identifier user) (\<lambda>user_id.
          case appservice_match body of
            Some matches \<Rightarrow>
              if matches user_id then Ok user_id else Err (BadRequest Exclusive ''User is not in namespace.'')
          | None \<Rightarrow> Err (BadRequest MissingToken ''Missing appservice token.''))
      | OtherLogin \<Rightarrow> Err (BadRequest Unknown ''Unsupported login type.''))"

definition login_route ::
  "login_env \<Rightarrow> login_random \<Rightarrow> login_request \<Rightarrow> 'a session_db_scheme \<Rightarrow> login_response result \<times> 'a session_db_scheme" where
  "login_route L rnd body db =
     (case json_body body of
        Some m \<Rightarrow>
          if map_of m (ascii ''type'') = Some (JString (ascii ''m.login.solana.signature''))
          then handle_solana_login L rnd body m db
          else step_then (login_user L body db, db) (\<lambda>user_id db. issue_token L rnd body user_id db)
      | None \<Rightarrow> step_then (login_user L body db, db) (\<lambda>user_id db. issue_token L rnd body user_id db))"

section \<open>Logging out\<close>

text \<open>\<open>sender_user\<close> and \<open>sender_device\<close> are what the request was authenticated as; the handlers
  expect them to be present.\<close>

definition logout_route ::
  "str option \<Rightarrow> str option \<Rightarrow> (str \<Rightarrow> bool) option \<Rightarrow> 'a users_db_scheme \<Rightarrow> unit result \<times> 'a users_db_scheme" where
  "logout_route sender_user sender_device appservice db =
     (case (sender_user, sender_device) of
        (Some u, Some d) \<Rightarrow>
          (case appservice of
             Some matches \<Rightarrow>
               if \<not> matches u then (Err (BadRequest Exclusive ''User is not in namespace.''), db)
               else (Ok (), remove_device u d db)
           | None \<Rightarrow> (Ok (), remove_device u d db))
      | _ \<Rightarrow> (Err (Panicked ''user is authenticated''), db))"

definition logout_all_route ::
  "str option \<Rightarrow> (str \<Rightarrow> bool) option \<Rightarrow> 'a users_db_scheme \<Rightarrow> unit result \<times> 'a users_db_scheme" where
  "logout_all_route sender_user appservice db =
     (case sender_user of
        None \<Rightarrow> (Err (Panicked ''user is authenticated''), db)
      | Some u \<Rightarrow>
          (case appservice of
             None \<Rightarrow> (Err (BadRequest MissingToken ''Missing appservice token.''), db)
           | Some matches \<Rightarrow>
               if \<not> matches u then (Err (BadRequest Exclusive ''User is not in namespace.''), db)
               else (Ok (), fold (remove_device u) (oks (all_device_ids u db)) db)))"


section \<open>Lemmas\<close>

lemma issue_token_ok:
  assumes inv: "token_inv (login_ruma L) db" and fresh: "kv_get (token_userdeviceid db) (random_token rnd) = None"
    and u: "utf8 u" "valid_user_id (login_ruma L) u"
    and d: "utf8 (random_device_id rnd)" "\<forall>d. login_device_id body = Some d \<longrightarrow> utf8 d"
    and run: "issue_token L rnd body u db = (Ok r, db')"
  shows "token_inv (login_ruma L) db' \<and> login_user_id r = u
    \<and> find_from_token (login_ruma L) (access_token r) db' = Ok (Some (u, response_device_id r))"
proof -
  let ?R = "login_ruma L"
  define dev where "dev = (case login_device_id body of Some d \<Rightarrow> d | None \<Rightarrow> random_device_id rnd)"
  have kd: "known_device ?R u dev" using u d by (auto simp: known_device_def dev_def split: option.splits)
  let ?exists = "case login_device_id body of
      Some d \<Rightarrow> list_ex (\<lambda>x. x = Ok d) (all_device_ids u db) | None \<Rightarrow> False"
  let ?op = "if ?exists then set_token u dev (random_token rnd) db
    else create_device (login_codec L) (now_millis rnd) u dev (random_token rnd) (initial_device_display_name body) db"
  have r: "fst ?op = Ok () \<and> db' = snd ?op \<and> r = \<lparr>login_user_id = u, access_token = random_token rnd,
      home_server = server_name L, response_device_id = dev\<rparr>"
    using run by (auto simp: issue_token_def Let_def dev_def [symmetric] step_then_def split: prod.splits sum.splits if_splits)
  have "token_inv ?R (snd ?op) \<and> find_from_token ?R (random_token rnd) (snd ?op) = Ok (Some (u, dev))"
  proof (cases ?exists)
    case True
    then have "Inr dev \<in> set (all_device_ids u db)" by (auto simp: dev_def list_ex_iff split: option.splits)
    then have "kv_get (userdeviceid_metadata db) (userdevice u dev) \<noteq> None"
      using all_device_ids_are [OF inv u(1)] by auto
    then show ?thesis using set_token_ok [OF inv kd _ fresh] True by auto
  next
    case False
    then have "user_exists u db = Ok True" using r by (auto simp: create_device_def user_exists_def split: if_splits)
    then show ?thesis
      using create_device_ok [OF inv kd _ fresh, of "login_codec L" "now_millis rnd" "initial_device_display_name body"] False
      by auto
  qed
  then show ?thesis using r by simp
qed

lemma token_inv_cong:
  "token_userdeviceid db' = token_userdeviceid db \<Longrightarrow> userdeviceid_token db' = userdeviceid_token db \<Longrightarrow>
   userdeviceid_metadata db' = userdeviceid_metadata db \<Longrightarrow> token_inv R db' = token_inv R db"
  by (simp add: token_inv_def)

lemma register_wallet_frame:
  assumes "register_wallet L u a db = (Ok (), db')"
  shows "token_userdeviceid db' = token_userdeviceid db" "userdeviceid_token db' = userdeviceid_token db"
    "userdeviceid_metadata db' = userdeviceid_metadata db"
    "userid_password db' = kv_insert (userid_password db) u []"
  using assms
  by (auto simp: register_wallet_def set_password_def set_displayname_def account_data_update_def Let_def next_count_eq
      split: if_splits option.splits)

text \<open>What a successful wallet login went through.\<close>

lemma handle_solana_login_steps:
  assumes "handle_solana_login L rnd body m db = (Ok r, db')"
  shows "\<exists>u l a ns db1. parse_with_server_name L l (server_name L) = Some u
    \<and> (if kv_get (userid_password db) u = None then register_wallet L u a (db\<lparr>solana_nonces := ns\<rparr>) = (Ok (), db1)
       else db1 = db\<lparr>solana_nonces := ns\<rparr>)
    \<and> issue_token L rnd body u db1 = (Ok r, db')"
proof -
  have st: "\<exists>a db2. p = (Ok a, db2) \<and> f a db2 = (Ok r, db')" if "step_then p f = (Ok r, db')"
    for p :: "'x result \<times> 'b session_db_scheme" and f r db'
    using that by (cases p; cases "fst p") auto
  show ?thesis using assms
    by (force simp: handle_solana_login_def user_exists_def case_prod_beta Let_def ok_or_def
        split: if_splits option.splits dest!: st)
qed


text \<open>The documented grammar of ruma: what its parsers return are valid user ids, and they are strings.\<close>

definition ids_are_strings :: "login_env \<Rightarrow> bool" where
  "ids_are_strings L \<longleftrightarrow> (\<forall>u. valid_user_id (login_ruma L) u \<longrightarrow> utf8 u)
     \<and> (\<forall>l s u. parse_with_server_name L l s = Some u \<longrightarrow> valid_user_id (login_ruma L) u)"

lemma parse_login_user_valid:
  assumes "ids_are_strings L" "parse_login_user L i us = Ok u"
  shows "utf8 u \<and> valid_user_id (login_ruma L) u"
  using assms by (auto simp: parse_login_user_def ids_are_strings_def ok_or_def split: option.splits if_splits)

lemma login_user_valid:
  assumes "ids_are_strings L" "login_user L body db = Ok u"
  shows "utf8 u \<and> valid_user_id (login_ruma L) u"
proof (cases "login_info body")
  case (PasswordLogin i us pw)
  then have "parse_login_user L i us = Ok u"
    using assms(2) by (auto simp: login_user_def and_then_eq_Inr split: if_splits)
  then show ?thesis using parse_login_user_valid [OF assms(1)] by blast
next
  case (TokenLogin t)
  then show ?thesis using assms
    by (auto simp: login_user_def ids_are_strings_def and_then_eq_Inr ok_or_def split: if_splits option.splits)
next
  case (ApplicationServiceLogin i us)
  then have "parse_login_user L i us = Ok u"
    using assms(2) by (auto simp: login_user_def and_then_eq_Inr split: if_splits option.splits)
  then show ?thesis using parse_login_user_valid [OF assms(1)] by blast
next
  case OtherLogin
  then show ?thesis using assms(2) by (simp add: login_user_def)
qed

section \<open>Properties\<close>

text \<open>
  C15: whatever way a user logs in, the access token of a successful response authenticates requests
  as the user and device of that response, and the token tables stay consistent.
\<close>

theorem login_token_authenticates:
  assumes "ids_are_strings L" "token_inv (login_ruma L) db"
    and "kv_get (token_userdeviceid db) (random_token rnd) = None"
    and "utf8 (random_device_id rnd)" "\<forall>d. login_device_id body = Some d \<longrightarrow> utf8 d"
    and "login_route L rnd body db = (Ok r, db')"
  shows "token_inv (login_ruma L) db'
    \<and> find_from_token (login_ruma L) (access_token r) db' = Ok (Some (login_user_id r, response_device_id r))"
proof -
  have "\<exists>u db1. utf8 u \<and> valid_user_id (login_ruma L) u \<and> token_inv (login_ruma L) db1
      \<and> token_userdeviceid db1 = token_userdeviceid db \<and> issue_token L rnd body u db1 = (Ok r, db')"
  proof (cases "\<exists>m. handle_solana_login L rnd body m db = (Ok r, db')")
    case True
    then obtain u l a ns db1 m where s: "parse_with_server_name L l (server_name L) = Some u"
      "if kv_get (userid_password db) u = None then register_wallet L u a (db\<lparr>solana_nonces := ns\<rparr>) = (Ok (), db1)
       else db1 = db\<lparr>solana_nonces := ns\<rparr>" "issue_token L rnd body u db1 = (Ok r, db')"
      using handle_solana_login_steps by blast
    have f: "token_userdeviceid db1 = token_userdeviceid db" "userdeviceid_token db1 = userdeviceid_token db"
      "userdeviceid_metadata db1 = userdeviceid_metadata db"
      using s(2) register_wallet_frame [of L u a "db\<lparr>solana_nonces := ns\<rparr>" db1] by (auto split: if_splits)
    then have "token_inv (login_ruma L) db1" using assms(2) token_inv_cong [of db1 db] by blast
    then show ?thesis using s(1,3) f(1) assms(1) unfolding ids_are_strings_def by blast
  next
    case False
    then have "\<exists>u. login_user L body db = Ok u \<and> issue_token L rnd body u db = (Ok r, db')"
      using assms(6) by (cases "login_user L body db")
        (auto simp: login_route_def split: option.splits if_splits)
    then show ?thesis using login_user_valid [OF assms(1)] assms(2) by blast
  qed
  then obtain u db1 where u: "utf8 u" "valid_user_id (login_ruma L) u" "token_inv (login_ruma L) db1"
      "token_userdeviceid db1 = token_userdeviceid db" "issue_token L rnd body u db1 = (Ok r, db')" by blast
  then have "kv_get (token_userdeviceid db1) (random_token rnd) = None" using assms(3) by simp
  from issue_token_ok [OF u(3) this u(1,2) assms(4,5) u(5)] show ?thesis by simp
qed

text \<open>
  C26: the account that a first wallet login creates is marked as deactivated from the start, since
  it has the empty password: \<open>is_deactivated\<close> holds of it and a password login to it is refused as
  deactivated, although the login just succeeded.
\<close>

theorem wallet_account_is_deactivated:
  assumes "handle_solana_login L rnd body m db = (Ok r, db')" "kv_wf (userid_password db)"
    and "user_exists (login_user_id r) db = Ok False"
  shows "is_deactivated (login_user_id r) db' = Ok True"
proof -
  obtain u l a ns db1 where s: "if kv_get (userid_password db) u = None
       then register_wallet L u a (db\<lparr>solana_nonces := ns\<rparr>) = (Ok (), db1) else db1 = db\<lparr>solana_nonces := ns\<rparr>"
      "issue_token L rnd body u db1 = (Ok r, db')"
    using handle_solana_login_steps [OF assms(1)] by blast
  have p: "login_user_id r = u" "userid_password db' = userid_password db1"
    using s(2) by (auto simp: issue_token_def Let_def set_token_def create_device_def step_then_def
        split: prod.splits sum.splits if_splits option.splits)
  then have "userid_password db1 = kv_insert (userid_password db) u []"
    using s(1) assms(3) register_wallet_frame(4) [of L u a "db\<lparr>solana_nonces := ns\<rparr>" db1]
    by (simp add: user_exists_def split: if_splits)
  then show ?thesis using p assms(2) by (simp add: is_deactivated_def kv_simps)
qed


text \<open>A concrete first wallet login, with the toy signature scheme.\<close>

definition toy_env :: login_env where
  "toy_env = \<lparr>login_ruma = accept_all\<lparr>valid_user_id := utf8\<rparr>, login_codec = text_users_codec, login_crypto = toy_crypto,
     server_name = [], allow_solana_auth = True, to_lowercase = id,
     parse_with_server_name = (\<lambda>_ _. Some (ascii ''@w:x'')), exclusive_user_id = (\<lambda>_. False),
     argon2_verify = (\<lambda>_ _. None), argon2_hash = (\<lambda>_. None), jwt_subject = None,
     push_rules_value = (\<lambda>_. JObject [(ascii ''type'', JNull), (ascii ''content'', JNull)])\<rparr>"

definition toy_random :: login_random where
  "toy_random = \<lparr>random_device_id = ascii ''D'', random_token = ascii ''tok'', now_instant = 100, now_millis = 0\<rparr>"

definition toy_fields :: "(str \<times> json) list" where
  "toy_fields = [(ascii ''type'', JString (ascii ''m.login.solana.signature'')),
     (ascii ''address'', JString (address toy_request)), (ascii ''signature'', JString (signature toy_request)),
     (ascii ''nonce'', JString (request_nonce toy_request))]"

definition toy_body :: login_request where
  "toy_body = \<lparr>json_body = Some toy_fields, login_info = OtherLogin, login_device_id = None,
     initial_device_display_name = None, appservice_match = None\<rparr>"

definition toy_db :: session_db where
  "toy_db = accountdata_db.extend empty_accountdata_db \<lparr>solana_nonces = [([1, 2], 50)], admin_messages = []\<rparr>"

lemma toy_db_tables [simp]:
  "solana_nonces toy_db = [([1, 2], 50)]" "userid_password toy_db = []" "userdeviceid_metadata toy_db = []"
  "userdeviceid_token toy_db = []" "token_userdeviceid toy_db = []" "roomusertype_roomuserdataid toy_db = []"
  by (simp_all add: toy_db_def accountdata_db.defs empty_accountdata_db_def users_db.defs empty_users_db_def
      statecache_db.defs empty_statecache_db_def accounts_db.defs empty_accounts_db_def timeline_db.defs)

lemma toy_env_fields [simp]:
  "allow_solana_auth toy_env" "login_crypto toy_env = toy_crypto" "server_name toy_env = []"
  "parse_with_server_name toy_env l s = Some (ascii ''@w:x'')" "login_codec toy_env = text_users_codec"
  "push_rules_value toy_env u = JObject [(ascii ''type'', JNull), (ascii ''content'', JNull)]"
  "login_device_id toy_body = None" "now_instant toy_random = 100"
  by (simp_all add: toy_env_def toy_body_def toy_random_def)

lemma toy_strings: "get_string toy_fields ''address'' = Ok (address toy_request)"
  "get_string toy_fields ''signature'' = Ok (signature toy_request)"
  "get_string toy_fields ''nonce'' = Ok (request_nonce toy_request)"
  "map_of toy_fields (ascii ''type'') = Some (JString (ascii ''m.login.solana.signature''))"
  by (simp_all add: get_string_def toy_fields_def ascii_def)

lemma toy_account_data:
  "\<exists>db'. account_data_update text_users_codec None u t (JObject [(ascii ''type'', JNull), (ascii ''content'', JNull)]) db
     = (Ok (), db') \<and> userid_password db' = userid_password db"
  by (auto simp: account_data_update_def Let_def next_count_eq ascii_def split: option.splits)

lemma kv_get_insert_self: "map_of (kv_insert t k v) k = Some v"
  by (induction t k v rule: kv_insert.induct) auto

lemma toy_run: "\<exists>r db'. handle_solana_login toy_env toy_random toy_body toy_fields toy_db = (Ok r, db')
    \<and> login_user_id r = ascii ''@w:x''"
proof -
  let ?u = "ascii ''@w:x''"
  have req: "\<lparr>address = address toy_request, signature = signature toy_request, request_nonce = request_nonce toy_request\<rparr>
      = toy_request" by (simp add: toy_request_def)
  have w: "\<exists>db1. register_wallet toy_env ?u a (toy_db\<lparr>solana_nonces := ns\<rparr>) = (Ok (), db1)
      \<and> userid_password db1 = [(?u, [])]" for a ns
    using toy_account_data [of ?u "ascii ''m.push_rules''"
        "set_displayname ?u (Some a) (toy_db\<lparr>solana_nonces := ns, userid_password := [(?u, [])]\<rparr>)"]
    by (auto simp: register_wallet_def set_password_def set_displayname_def Let_def)
  have i: "\<exists>r db'. issue_token toy_env toy_random toy_body ?u db1 = (Ok r, db') \<and> login_user_id r = ?u"
    if "userid_password db1 = [(?u, [])]" for db1 :: session_db
    using that by (auto simp: issue_token_def Let_def create_device_def set_token_def user_exists_def kv_get_def
        kv_get_insert_self split: option.splits)
  obtain db1 where db1: "register_wallet toy_env ?u (replicate 32 7) (toy_db\<lparr>solana_nonces := []\<rparr>) = (Ok (), db1)"
      "userid_password db1 = [(?u, [])]" using w by blast
  show ?thesis using i [OF db1(2)]
    by (simp add: handle_solana_login_def toy_strings req toy_login user_exists_def db1(1))
qed

theorem login_token_authenticates_witness:
  "\<exists>r db'. login_route toy_env toy_random toy_body toy_db = (Ok r, db')
     \<and> find_from_token (login_ruma toy_env) (access_token r) db' = Ok (Some (login_user_id r, response_device_id r))"
proof -
  obtain r db' where run: "handle_solana_login toy_env toy_random toy_body toy_fields toy_db = (Ok r, db')"
    using toy_run by blast
  then have l: "login_route toy_env toy_random toy_body toy_db = (Ok r, db')"
    by (simp add: login_route_def toy_body_def toy_strings)
  have "ids_are_strings toy_env" "token_inv (login_ruma toy_env) toy_db"
    "kv_get (token_userdeviceid toy_db) (random_token toy_random) = None" "utf8 (random_device_id toy_random)"
    "\<forall>d. login_device_id toy_body = Some d \<longrightarrow> utf8 d"
    by (simp_all add: ids_are_strings_def token_inv_def pair_keys_def toy_random_def)
      (simp_all add: toy_env_def ascii_def)
  from login_token_authenticates [OF this l] show ?thesis using l by blast
qed

theorem wallet_account_is_deactivated_witness:
  "\<exists>r db'. handle_solana_login toy_env toy_random toy_body toy_fields toy_db = (Ok r, db')
     \<and> is_deactivated (login_user_id r) db' = Ok True"
proof -
  obtain r db' where run: "handle_solana_login toy_env toy_random toy_body toy_fields toy_db = (Ok r, db')"
    using toy_run by blast
  then show ?thesis using wallet_account_is_deactivated [OF run] by (simp add: user_exists_def)
qed

end
