(* ===== verification/Text.thy ===== *)
theory Text
  imports Prelude
begin

text \<open>
  Characters of strings and what the code does with them: \<open>str::chars\<close>, \<open>str::split_terminator\<close>,
  \<open>str::trim\<close> and the \<open>HtmlEscape\<close> formatter of \<^verbatim>\<open>server/src/utils/mod.rs\<close>. A character is the list of its
  UTF-8 bytes.
\<close>

section \<open>Characters\<close>

definition char_len :: "byte \<Rightarrow> nat" where
  "char_len b = (if b \<le> 0x7F then 1 else if b \<le> 0xDF then 2 else if b \<le> 0xEF then 3 else 4)"

function chars :: "str \<Rightarrow> str list" where
  "chars [] = []"
| "chars (b # bs) = (b # take (char_len b - 1) bs) # chars (drop (char_len b - 1) bs)"
  by pat_completeness auto
termination by (relation "measure length") auto

text \<open>\<open>str::split\<close> and \<open>str::split_terminator\<close>, which leaves out a last piece that is empty.\<close>

fun split_chars :: "(str \<Rightarrow> bool) \<Rightarrow> str list \<Rightarrow> str list" where
  "split_chars P [] = [[]]"
| "split_chars P (c # cs) =
     (if P c then [] # split_chars P cs
      else (case split_chars P cs of [] \<Rightarrow> [c] | p # ps \<Rightarrow> (c @ p) # ps))"

definition split_terminator :: "(str \<Rightarrow> bool) \<Rightarrow> str \<Rightarrow> str list" where
  "split_terminator P s =
     (let pieces = split_chars P (chars s) in if last pieces = [] then butlast pieces else pieces)"

text \<open>\<open>char::is_whitespace\<close> (the property \<open>White_Space\<close>) and \<open>str::trim\<close>.\<close>

definition is_whitespace :: "str \<Rightarrow> bool" where
  "is_whitespace c =
     (case c of
        [a] \<Rightarrow> in_range 9 13 a \<or> a = 32
      | [a, b] \<Rightarrow> a = 0xC2 \<and> (b = 0x85 \<or> b = 0xA0)
      | [a, b, d] \<Rightarrow>
          a = 0xE1 \<and> b = 0x9A \<and> d = 0x80
          \<or> a = 0xE2 \<and> b = 0x80 \<and> (in_range 0x80 0x8A d \<or> d = 0xA8 \<or> d = 0xA9 \<or> d = 0xAF)
          \<or> a = 0xE2 \<and> b = 0x81 \<and> d = 0x9F
          \<or> a = 0xE3 \<and> b = 0x80 \<and> d = 0x80
      | _ \<Rightarrow> False)"

definition trim_str :: "str \<Rightarrow> str" where
  "trim_str s = concat (rev (dropWhile is_whitespace (rev (dropWhile is_whitespace (chars s)))))"

lemma concat_chars: "concat (chars s) = s"
  by (induction s rule: chars.induct) auto

lemma set_split_chars: "p \<in> set (split_chars P cs) \<Longrightarrow> set p \<subseteq> set (concat cs)"
  by (induction cs arbitrary: p) (fastforce split: list.splits if_splits)+

text \<open>A character of a well-formed string is one ASCII byte or has no ASCII byte.\<close>

lemma utf8_first_char:
  assumes "utf8 (b # bs)"
  shows "(char_len b = 1 \<or> (\<forall>x \<in> set (b # take (char_len b - 1) bs). 0x80 \<le> x)) \<and> utf8 (drop (char_len b - 1) bs)"
proof (cases "b \<le> 0x7F")
  case True
  then show ?thesis using assms by (simp add: char_len_def)
next
  case False
  then have b: "0x80 \<le> b" by (simp add: word_le_nat_alt)
  consider "in_range 0xC2 0xDF b" | "\<not> in_range 0xC2 0xDF b" "in_range 0xE0 0xEF b"
    | "\<not> in_range 0xC2 0xDF b" "\<not> in_range 0xE0 0xEF b" "in_range 0xF0 0xF4 b"
    using assms False by (auto split: if_splits)
  then show ?thesis
  proof cases
    case 1
    then have "char_len b = 2" using False by (simp add: char_len_def in_range_def)
    moreover obtain c cs where "bs = c # cs" "cont c" "utf8 cs"
      using assms False 1 by (auto split: list.splits)
    ultimately show ?thesis using b by (simp add: in_range_def)
  next
    case 2
    then have n: "char_len b = 3" using False by (auto simp: char_len_def in_range_def word_le_nat_alt)
    obtain c d cs where cs: "bs = c # d # cs" "0x80 \<le> c" "cont d" "utf8 cs"
      using assms False 2 by (auto simp: in_range_def word_le_nat_alt split: list.splits if_splits)
    then show ?thesis using b n by (simp add: in_range_def numeral_2_eq_2)
  next
    case 3
    then have n: "char_len b = 4" using False by (auto simp: char_len_def in_range_def word_le_nat_alt)
    obtain c d e cs where cs: "bs = c # d # e # cs" "0x80 \<le> c" "cont d" "cont e" "utf8 cs"
      using assms False 3 by (auto simp: in_range_def word_le_nat_alt split: list.splits if_splits)
    then show ?thesis using b n by (simp add: in_range_def numeral_3_eq_3)
  qed
qed

lemma utf8_chars: "utf8 s \<Longrightarrow> c \<in> set (chars s) \<Longrightarrow> (\<exists>b. c = [b]) \<or> (\<forall>x \<in> set c. 0x80 \<le> x)"
proof (induction s rule: chars.induct)
  case (2 b bs)
  note first = utf8_first_char [OF "2.prems"(1)]
  show ?case
  proof (cases "c = b # take (char_len b - 1) bs")
    case True
    then show ?thesis using first by auto
  next
    case False
    then show ?thesis using "2.IH" "2.prems"(2) first by auto
  qed
qed simp

section \<open>HTML\<close>

definition html_replacement :: "str \<Rightarrow> str option" where
  "html_replacement ch =
     (if ch = ascii ''>'' then Some (ascii ''&gt;'')
      else if ch = ascii ''<'' then Some (ascii ''&lt;'')
      else if ch = ascii ''&'' then Some (ascii ''&amp;'')
      else if ch = [39] then Some (ascii ''&#39;'')
      else if ch = [34] then Some (ascii ''&quot;'')
      else None)"

text \<open>The loop over \<open>char_indices\<close>: \<open>i\<close> is the index of the next character, \<open>written\<close> (\<open>last\<close> in the code) the end of what is written.\<close>

fun html_loop :: "str \<Rightarrow> nat \<Rightarrow> nat \<Rightarrow> str list \<Rightarrow> str \<Rightarrow> str" where
  "html_loop s i written [] out = (if written < length s then out @ drop written s else out)"
| "html_loop s i written (ch # cs) out =
     (case html_replacement ch of
        Some r \<Rightarrow> html_loop s (i + length ch) (i + 1) cs (out @ drop written (take i s) @ r)
      | None \<Rightarrow> html_loop s (i + length ch) written cs out)"

definition html_escape :: "str \<Rightarrow> str" where
  "html_escape s = html_loop s 0 0 (chars s) []"

definition html_char :: "str \<Rightarrow> str" where
  "html_char ch = (case html_replacement ch of Some r \<Rightarrow> r | None \<Rightarrow> ch)"

lemma html_replacement_one: "html_replacement ch = Some r \<Longrightarrow> length ch = 1"
  by (auto simp: html_replacement_def ascii_def split: if_splits)

lemma html_loop_correct:
  "written \<le> length pre \<Longrightarrow>
   html_loop (pre @ concat cs) (length pre) written cs out = out @ drop written pre @ concat (map html_char cs)"
proof (induction cs arbitrary: pre written out)
  case (Cons ch cs)
  have IH: "html_loop (pre @ ch @ concat cs) (length pre + length ch) l cs o' =
      o' @ drop l (pre @ ch) @ concat (map html_char cs)" if "l \<le> length pre + length ch" for l o'
    using Cons.IH [of l "pre @ ch" o'] that by simp
  show ?case
  proof (cases "html_replacement ch")
    case None
    then show ?thesis using IH [of written out] Cons.prems by (simp add: html_char_def [of ch])
  next
    case (Some r)
    then show ?thesis using html_replacement_one [OF Some] IH by (simp add: html_char_def [of ch])
  qed
qed simp

lemma html_escape_map: "html_escape s = concat (map html_char (chars s))"
  using html_loop_correct [of 0 "[]" "chars s" "[]"] by (simp add: html_escape_def concat_chars)

lemma html_char_safe:
  assumes "(\<exists>b. c = [b]) \<or> (\<forall>x \<in> set c. 0x80 \<le> x)" "x \<in> set (html_char c)"
  shows "x \<notin> set (ascii ''<>'') \<and> x \<noteq> 34 \<and> x \<noteq> 39"
proof (cases "html_replacement c")
  case None
  from assms(1) show ?thesis
  proof
    assume "\<exists>b. c = [b]"
    then show ?thesis using None assms(2) by (auto simp: html_char_def html_replacement_def ascii_def split: if_splits)
  next
    assume "\<forall>x \<in> set c. 0x80 \<le> x"
    then have "0x80 \<le> x" using None assms(2) by (simp add: html_char_def)
    then show ?thesis by (auto simp: ascii_def)
  qed
next
  case (Some r)
  then show ?thesis using assms(2) by (auto simp: html_char_def html_replacement_def ascii_def split: if_splits)
qed

text \<open>
  Escaped text has no character that could open or close a tag or an attribute value, and the
  copying loop replaces each character on its own.
\<close>

theorem html_escape_safe:
  assumes "utf8 s"
  shows "set (html_escape s) \<inter> {60, 62, 34, 39} = {} \<and> html_escape s = concat (map html_char (chars s))"
  using html_char_safe utf8_chars [OF assms] by (fastforce simp: html_escape_map ascii_def)

theorem html_escape_safe_witness:
  "html_escape (ascii ''a<b'') = ascii ''a&lt;b''"
proof -
  have "utf8 (ascii ''a<b'')" by code_simp
  then have "html_escape (ascii ''a<b'') = concat (map html_char (chars (ascii ''a<b'')))"
    using html_escape_safe by blast
  also have "\<dots> = ascii ''a&lt;b''" by code_simp
  finally show ?thesis .
qed

end
