(* ===== verification/Uiaa.thy ===== *)
theory Uiaa
  imports Session Text "HOL-Library.Countable"
begin

text \<open>
  Interactive authentication and the handlers it guards: \<^verbatim>\<open>server/src/database/key_value/uiaa.rs\<close>,
  \<^verbatim>\<open>server/src/service/uiaa/mod.rs\<close>, \<^verbatim>\<open>server/src/api/client_server/device.rs\<close> and the password and
  deactivation handlers of \<^verbatim>\<open>server/src/api/client_server/account.rs\<close>. A session is a row of stages passed so
  far; a request without authentication data opens one, each later request adds a stage, and the
  request that completes a flow is carried out and closes it.
\<close>

section \<open>Sessions\<close>

datatype auth_type = PasswordStage | RegistrationTokenStage | DummyStage | OtherStage str

record uiaa_info =
  uiaa_flows :: "auth_type list list"
  uiaa_completed :: "auth_type list"
  uiaa_session :: "str option"
  uiaa_auth_error :: "(error_kind \<times> string) option"

datatype user_identifier = UserIdOrLocalpart str | OtherIdentifier

datatype auth_data =
    PasswordAuth user_identifier str "str option"
  | RegistrationTokenAuth str "str option"
  | DummyAuth "str option"
  | OtherAuth "str option"

fun auth_session :: "auth_data \<Rightarrow> str option" where
  "auth_session (PasswordAuth _ _ s) = s"
| "auth_session (RegistrationTokenAuth _ s) = s"
| "auth_session (DummyAuth s) = s"
| "auth_session (OtherAuth s) = s"

record uiaa_db = session_db +
  userdevicesessionid_uiaainfo :: kvtree
  userdevicesessionid_uiaarequest :: "(str \<times> str \<times> str) \<rightharpoonup> json"

record uiaa_env =
  uiaa_login :: login_env
  uiaa_enc :: "uiaa_info \<Rightarrow> bytes"
  uiaa_dec :: "bytes \<Rightarrow> uiaa_info option"
  registration_token :: "str option"

definition uiaa_key :: "str \<Rightarrow> str \<Rightarrow> str \<Rightarrow> bytes" where
  "uiaa_key user_id device_id session = user_id @ [sep] @ device_id @ [sep] @ session"

definition set_uiaa_request ::
  "str \<Rightarrow> str \<Rightarrow> str \<Rightarrow> json \<Rightarrow> 'a uiaa_db_scheme \<Rightarrow> 'a uiaa_db_scheme" where
  "set_uiaa_request user_id device_id session request db =
     db\<lparr>userdevicesessionid_uiaarequest :=
          (userdevicesessionid_uiaarequest db)((user_id, device_id, session) \<mapsto> request)\<rparr>"

definition get_uiaa_request :: "str \<Rightarrow> str \<Rightarrow> str \<Rightarrow> 'a uiaa_db_scheme \<Rightarrow> json option" where
  "get_uiaa_request user_id device_id session db = userdevicesessionid_uiaarequest db (user_id, device_id, session)"

definition update_uiaa_session ::
  "uiaa_env \<Rightarrow> str \<Rightarrow> str \<Rightarrow> str \<Rightarrow> uiaa_info option \<Rightarrow> 'a uiaa_db_scheme \<Rightarrow> 'a uiaa_db_scheme" where
  "update_uiaa_session E user_id device_id session uiaainfo db =
     db\<lparr>userdevicesessionid_uiaainfo :=
          (case uiaainfo of
             Some info \<Rightarrow> kv_insert (userdevicesessionid_uiaainfo db) (uiaa_key user_id device_id session) (uiaa_enc E info)
           | None \<Rightarrow> kv_remove (userdevicesessionid_uiaainfo db) (uiaa_key user_id device_id session))\<rparr>"

definition get_uiaa_session ::
  "uiaa_env \<Rightarrow> str \<Rightarrow> str \<Rightarrow> str \<Rightarrow> 'a uiaa_db_scheme \<Rightarrow> uiaa_info result" where
  "get_uiaa_session E user_id device_id session db =
     and_then (ok_or (BadRequest Forbidden ''UIAA session does not exist.'')
                 (kv_get (userdevicesessionid_uiaainfo db) (uiaa_key user_id device_id session)))
       (\<lambda>bytes. ok_or (BadDatabase ''UiaaInfo in userdeviceid_uiaainfo is invalid.'') (uiaa_dec E bytes))"

definition uiaa_create ::
  "uiaa_env \<Rightarrow> str \<Rightarrow> str \<Rightarrow> uiaa_info \<Rightarrow> json \<Rightarrow> 'a uiaa_db_scheme \<Rightarrow> unit result \<times> 'a uiaa_db_scheme" where
  "uiaa_create E user_id device_id uiaainfo body_json db =
     (case uiaa_session uiaainfo of
        None \<Rightarrow> (Err (Panicked ''session should be set''), db)
      | Some session \<Rightarrow>
          (Ok (), update_uiaa_session E user_id device_id session (Some uiaainfo)
                    (set_uiaa_request user_id device_id session body_json db)))"

text \<open>
  The \<open>match auth\<close> of \<open>try_auth\<close>: whether the function goes on, with the stage added, or returns
  with the error filled in.
\<close>

definition check_stage ::
  "uiaa_env \<Rightarrow> auth_data \<Rightarrow> uiaa_info \<Rightarrow> 'a uiaa_db_scheme \<Rightarrow> (bool \<times> uiaa_info) result" where
  "check_stage E auth info db =
     (case auth of
        PasswordAuth identifier password _ \<Rightarrow>
          (case identifier of
             OtherIdentifier \<Rightarrow> Err (BadRequest Unrecognized ''Identifier type not recognized.'')
           | UserIdOrLocalpart username \<Rightarrow>
               and_then (ok_or (BadRequest InvalidParam ''User ID is invalid.'')
                   (parse_with_server_name (uiaa_login E) username (server_name (uiaa_login E)))) (\<lambda>user_id.
               and_then (password_hash user_id db) (\<lambda>hash.
               if (case hash of
                     Some h \<Rightarrow> (case argon2_verify (uiaa_login E) h password of Some b \<Rightarrow> b | None \<Rightarrow> False)
                   | None \<Rightarrow> True)
               then Ok (True, info\<lparr>uiaa_completed := uiaa_completed info @ [PasswordStage]\<rparr>)
               else Ok (False, info\<lparr>uiaa_auth_error := Some (Forbidden, ''Invalid username or password.'')\<rparr>))))
      | RegistrationTokenAuth token _ \<Rightarrow>
          if Some (trim_str token) = registration_token E
          then Ok (True, info\<lparr>uiaa_completed := uiaa_completed info @ [RegistrationTokenStage]\<rparr>)
          else Ok (False, info\<lparr>uiaa_auth_error := Some (Forbidden, ''Invalid registration token.'')\<rparr>)
      | DummyAuth _ \<Rightarrow> Ok (True, info\<lparr>uiaa_completed := uiaa_completed info @ [DummyStage]\<rparr>)
      | OtherAuth _ \<Rightarrow> Ok (True, info))"

definition flow_completed :: "uiaa_info \<Rightarrow> bool" where
  "flow_completed info = list_ex (list_all (\<lambda>stage. stage \<in> set (uiaa_completed info))) (uiaa_flows info)"

definition try_auth ::
  "uiaa_env \<Rightarrow> str \<Rightarrow> str \<Rightarrow> str \<Rightarrow> auth_data \<Rightarrow> uiaa_info \<Rightarrow> 'a uiaa_db_scheme
     \<Rightarrow> (bool \<times> uiaa_info) result \<times> 'a uiaa_db_scheme" where
  "try_auth E rnd user_id device_id auth uiaainfo db =
     step_then (case auth_session auth of
                  Some session \<Rightarrow> get_uiaa_session E user_id device_id session db
                | None \<Rightarrow> Ok uiaainfo, db) (\<lambda>info db.
       let session = (case uiaa_session info of Some s \<Rightarrow> s | None \<Rightarrow> rnd);
           info = info\<lparr>uiaa_session := Some session\<rparr>
       in step_then (check_stage E auth info db, db) (\<lambda>(passed, info) db.
          if \<not> passed then (Ok (False, info), db)
          else if \<not> flow_completed info
          then (Ok (False, info), update_uiaa_session E user_id device_id session (Some info) db)
          else (Ok (True, info), update_uiaa_session E user_id device_id session None db)))"

section \<open>Guarded handlers\<close>

text \<open>A handler fails with an ordinary error or with \<open>Error::Uiaa\<close>, which asks for another stage.\<close>

datatype route_error = UiaaError uiaa_info | PlainError error

definition plain :: "'a result \<times> 's \<Rightarrow> (route_error + 'a) \<times> 's" where
  "plain p = (case p of (Inl e, s) \<Rightarrow> (Inl (PlainError e), s) | (Inr a, s) \<Rightarrow> (Inr a, s))"

definition route_then ::
  "(route_error + 'a) \<times> 's \<Rightarrow> ('a \<Rightarrow> 's \<Rightarrow> (route_error + 'b) \<times> 's) \<Rightarrow> (route_error + 'b) \<times> 's" where
  "route_then p f = (case p of (Inl e, s) \<Rightarrow> (Inl e, s) | (Inr a, s) \<Rightarrow> f a s)"

definition password_flow :: uiaa_info where
  "password_flow = \<lparr>uiaa_flows = [[PasswordStage]], uiaa_completed = [], uiaa_session = None, uiaa_auth_error = None\<rparr>"

definition uiaa_guard ::
  "uiaa_env \<Rightarrow> str \<Rightarrow> str \<Rightarrow> str \<Rightarrow> auth_data option \<Rightarrow> json option \<Rightarrow> uiaa_info \<Rightarrow> 'a uiaa_db_scheme
     \<Rightarrow> (route_error + unit) \<times> 'a uiaa_db_scheme" where
  "uiaa_guard E rnd sender_user sender_device auth body_json uiaainfo db =
     (case auth of
        Some auth \<Rightarrow>
          route_then (plain (try_auth E rnd sender_user sender_device auth uiaainfo db)) (\<lambda>(worked, uiaainfo) db.
            if \<not> worked then (Inl (UiaaError uiaainfo), db) else (Inr (), db))
      | None \<Rightarrow>
          (case body_json of
             Some json \<Rightarrow>
               (let uiaainfo = uiaainfo\<lparr>uiaa_session := Some rnd\<rparr>
                in route_then (plain (uiaa_create E sender_user sender_device uiaainfo json db)) (\<lambda>_ db.
                     (Inl (UiaaError uiaainfo), db)))
           | None \<Rightarrow> (Inl (PlainError (BadRequest NotJson ''Not json.'')), db)))"

definition get_devices_route :: "users_codec \<Rightarrow> str \<Rightarrow> 'a users_db_scheme \<Rightarrow> device list" where
  "get_devices_route K sender_user db = oks (all_user_devices_metadata K sender_user db)"

definition get_device_route :: "users_codec \<Rightarrow> str \<Rightarrow> str \<Rightarrow> 'a users_db_scheme \<Rightarrow> device result" where
  "get_device_route K sender_user device_id db =
     and_then (get_device_metadata K sender_user device_id db) (ok_or (BadRequest NotFound ''Device not found.''))"

definition update_device_route ::
  "users_codec \<Rightarrow> str \<Rightarrow> str \<Rightarrow> str option \<Rightarrow> 'a users_db_scheme \<Rightarrow> unit result \<times> 'a users_db_scheme" where
  "update_device_route K sender_user device_id display_name db =
     step_then (and_then (get_device_metadata K sender_user device_id db)
                  (ok_or (BadRequest NotFound ''Device not found.'')), db) (\<lambda>device db.
       update_device_metadata K sender_user device_id (device\<lparr>device_display_name := display_name\<rparr>) db)"

definition delete_device_route ::
  "uiaa_env \<Rightarrow> str \<Rightarrow> str \<Rightarrow> str \<Rightarrow> auth_data option \<Rightarrow> json option \<Rightarrow> str \<Rightarrow> 'a uiaa_db_scheme
     \<Rightarrow> (route_error + unit) \<times> 'a uiaa_db_scheme" where
  "delete_device_route E rnd sender_user sender_device auth body_json device_id db =
     route_then (uiaa_guard E rnd sender_user sender_device auth body_json password_flow db) (\<lambda>_ db.
       (Inr (), remove_device sender_user device_id db))"

definition delete_devices_route ::
  "uiaa_env \<Rightarrow> str \<Rightarrow> str \<Rightarrow> str \<Rightarrow> auth_data option \<Rightarrow> json option \<Rightarrow> str list \<Rightarrow> 'a uiaa_db_scheme
     \<Rightarrow> (route_error + unit) \<times> 'a uiaa_db_scheme" where
  "delete_devices_route E rnd sender_user sender_device auth body_json devices db =
     route_then (uiaa_guard E rnd sender_user sender_device auth body_json password_flow db) (\<lambda>_ db.
       (Inr (), fold (remove_device sender_user) devices db))"

definition change_password_route ::
  "uiaa_env \<Rightarrow> str \<Rightarrow> str option \<Rightarrow> str option \<Rightarrow> auth_data option \<Rightarrow> json option \<Rightarrow> str \<Rightarrow> bool \<Rightarrow> 'a uiaa_db_scheme
     \<Rightarrow> (route_error + unit) \<times> 'a uiaa_db_scheme" where
  "change_password_route E rnd sender_user sender_device auth body_json new_password logout_devices db =
     (case sender_user of
        None \<Rightarrow> (Inl (PlainError (BadRequest MissingToken ''Missing access token.'')), db)
      | Some u \<Rightarrow>
          (case sender_device of
             None \<Rightarrow> (Inl (PlainError (Panicked ''user is authenticated'')), db)
           | Some d \<Rightarrow>
               route_then (uiaa_guard E rnd u d auth body_json password_flow db) (\<lambda>_ db.
               route_then (plain (set_password (argon2_hash (uiaa_login E)) u (Some new_password) db)) (\<lambda>_ db.
                 let db = (if logout_devices
                           then fold (remove_device u) (filter (\<lambda>i. i \<noteq> d) (oks (all_device_ids u db))) db else db)
                 in (Inr (), db\<lparr>admin_messages := admin_messages db
                       @ [ascii ''User '' @ u @ ascii '' changed their password.'']\<rparr>)))))"

text \<open>\<open>leave_all_rooms\<close> sends leave events through the event handler; it is an argument.\<close>

definition deactivate_route ::
  "uiaa_env \<Rightarrow> (str \<Rightarrow> 'a uiaa_db_scheme \<Rightarrow> unit result \<times> 'a uiaa_db_scheme) \<Rightarrow> str \<Rightarrow> str option \<Rightarrow> str option
     \<Rightarrow> auth_data option \<Rightarrow> json option \<Rightarrow> 'a uiaa_db_scheme \<Rightarrow> (route_error + unit) \<times> 'a uiaa_db_scheme" where
  "deactivate_route E leave_all_rooms rnd sender_user sender_device auth body_json db =
     (case sender_user of
        None \<Rightarrow> (Inl (PlainError (BadRequest MissingToken ''Missing access token.'')), db)
      | Some u \<Rightarrow>
          (case sender_device of
             None \<Rightarrow> (Inl (PlainError (Panicked ''user is authenticated'')), db)
           | Some d \<Rightarrow>
               route_then (uiaa_guard E rnd u d auth body_json password_flow db) (\<lambda>_ db.
               route_then (plain (leave_all_rooms u db)) (\<lambda>_ db.
               route_then (plain (deactivate_account (argon2_hash (uiaa_login E)) u db)) (\<lambda>_ db.
                 (Inr (), db\<lparr>admin_messages := admin_messages db
                     @ [ascii ''User '' @ u @ ascii '' deactivated their account.'']\<rparr>))))))"

definition whoami_route ::
  "str \<Rightarrow> str option \<Rightarrow> bool \<Rightarrow> 'a accounts_db_scheme \<Rightarrow> (str \<times> str option \<times> bool) result" where
  "whoami_route sender_user sender_device from_appservice db =
     and_then (is_deactivated sender_user db) (\<lambda>deactivated.
       Ok (sender_user, sender_device, deactivated \<and> \<not> from_appservice))"

section \<open>A session counts exactly the stages that were passed\<close>

text \<open>The stage a piece of authentication data passes, if any.\<close>

definition passes :: "uiaa_env \<Rightarrow> auth_data \<Rightarrow> 'a uiaa_db_scheme \<Rightarrow> auth_type \<Rightarrow> bool" where
  "passes E auth db stage =
     (\<exists>i. check_stage E auth \<lparr>uiaa_flows = [], uiaa_completed = [], uiaa_session = None, uiaa_auth_error = None\<rparr> db
        = Ok (True, i) \<and> stage \<in> set (uiaa_completed i))"

lemma plain_simps [simp]: "plain (Inl e, s) = (Inl (PlainError e), s)" "plain (Inr a, s) = (Inr a, s)"
  by (simp_all add: plain_def)

lemma plain_not_uiaa [simp]: "plain x \<noteq> (Inl (UiaaError i), y)"
  by (auto simp: plain_def split: prod.splits sum.splits)

lemma route_then_simps [simp]: "route_then (Inl e, s) f = (Inl e, s)" "route_then (Inr a, s) f = f a s"
  by (simp_all add: route_then_def)

lemma check_stage_info:
  assumes "check_stage E auth info db = Ok (b, info')"
  shows "uiaa_flows info' = uiaa_flows info" "uiaa_session info' = uiaa_session info"
    "b \<Longrightarrow> set (uiaa_completed info') \<subseteq> set (uiaa_completed info) \<union> {st. passes E auth db st}"
  using assms
  by (auto simp: check_stage_def passes_def and_then_def ok_or_def
      split: auth_data.splits user_identifier.splits sum.splits option.splits if_splits)

lemma passes_cong:
  "userid_password db' = userid_password db \<Longrightarrow> passes E auth db' st = passes E auth db st"
proof -
  assume "userid_password db' = userid_password db"
  then have "password_hash u db' = password_hash u db" for u by (simp add: password_hash_def)
  then show ?thesis unfolding passes_def check_stage_def by (simp only:)
qed

definition codec_ok :: "uiaa_env \<Rightarrow> bool" where
  "codec_ok E \<longleftrightarrow> (\<forall>i. uiaa_dec E (uiaa_enc E i) = Some i)"

text \<open>The session of a user and device holds only stages that satisfy \<open>P\<close>, for the given flows.\<close>

definition session_holds ::
  "uiaa_env \<Rightarrow> str \<Rightarrow> str \<Rightarrow> str \<Rightarrow> auth_type list list \<Rightarrow> (auth_type \<Rightarrow> bool) \<Rightarrow> 'a uiaa_db_scheme \<Rightarrow> bool" where
  "session_holds E u d s flows P db \<longleftrightarrow> kv_wf (userdevicesessionid_uiaainfo db)
     \<and> (\<forall>i. get_uiaa_session E u d s db = Ok i \<longrightarrow>
          uiaa_session i = Some s \<and> uiaa_flows i = flows \<and> (\<forall>st \<in> set (uiaa_completed i). P st))"

lemma get_update_session:
  assumes "codec_ok E" "kv_wf (userdevicesessionid_uiaainfo db)"
  shows "get_uiaa_session E u d s (update_uiaa_session E u d s (Some i) db) = Ok i"
    and "get_uiaa_session E u d s (update_uiaa_session E u d s None db)
       = Err (BadRequest Forbidden ''UIAA session does not exist.'')"
  using assms by (simp_all add: get_uiaa_session_def update_uiaa_session_def kv_simps codec_ok_def)

lemma try_auth_session:
  assumes "codec_ok E" "auth_session auth = Some s" "session_holds E u d s flows P db"
    and "\<forall>st. passes E auth db st \<longrightarrow> P st"
    and run: "try_auth E rnd u d auth info db = (Ok (b, info'), db')"
  shows "session_holds E u d s flows P db'" "userid_password db' = userid_password db"
    and "b \<Longrightarrow> \<exists>flow \<in> set flows. \<forall>st \<in> set flow. P st"
    and "b \<Longrightarrow> get_uiaa_session E u d s db' = Err (BadRequest Forbidden ''UIAA session does not exist.'')"
proof -
  have wf: "kv_wf (userdevicesessionid_uiaainfo db)" using assms(3) by (simp add: session_holds_def)
  obtain i where i: "get_uiaa_session E u d s db = Ok i"
    using run assms(2) by (cases "get_uiaa_session E u d s db") (auto simp: try_auth_def)
  have i': "uiaa_session i = Some s" "uiaa_flows i = flows" "\<forall>st \<in> set (uiaa_completed i). P st"
    using assms(3) i by (auto simp: session_holds_def)
  have same: "i\<lparr>uiaa_session := Some s\<rparr> = i" using i'(1) by (cases i) simp
  obtain c where c: "check_stage E auth i db = Ok c"
    using run assms(2) i i'(1) same by (cases "check_stage E auth i db") (auto simp: try_auth_def Let_def)
  obtain q j where qj: "c = (q, j)" by (cases c)
  note J = check_stage_info [OF c [unfolded qj]]
  have run': "(if \<not> q then (Ok (False, j), db) else if \<not> flow_completed j then (Ok (False, j), update_uiaa_session E u d s (Some j) db)
      else (Ok (True, j), update_uiaa_session E u d s None db)) = (Ok (b, info'), db')"
    using run by (simp add: try_auth_def Let_def qj assms(2) i i'(1) c same cong: if_cong)
  have P: "q \<Longrightarrow> \<forall>st \<in> set (uiaa_completed j). P st" using J(3) i'(3) assms(4) by auto
  note G = get_update_session [OF assms(1) wf, of u d s]
  show "userid_password db' = userid_password db"
    using run' by (auto simp: update_uiaa_session_def split: if_splits)
  have wf': "kv_wf (userdevicesessionid_uiaainfo db')"
    using run' wf by (auto simp: update_uiaa_session_def kv_intros split: if_splits)
  show "session_holds E u d s flows P db'"
    using run' assms(3) P i' J G wf' by (auto simp: session_holds_def split: if_splits)
  show "\<exists>flow \<in> set flows. \<forall>st \<in> set flow. P st" if b
    using that run' P J(2) J(1) i'(2) by (auto simp: flow_completed_def list_ex_iff list_all_iff split: if_splits)
  show "get_uiaa_session E u d s db' = Err (BadRequest Forbidden ''UIAA session does not exist.'')" if b
    using that run' G(2) by (auto split: if_splits)
qed

text \<open>A client that makes one attempt after another with the same session.\<close>

fun attempts ::
  "uiaa_env \<Rightarrow> str \<Rightarrow> str \<Rightarrow> str \<Rightarrow> uiaa_info \<Rightarrow> auth_data list \<Rightarrow> 'a uiaa_db_scheme \<Rightarrow> bool result \<times> 'a uiaa_db_scheme" where
  "attempts E rnd u d info [] db = (Ok False, db)"
| "attempts E rnd u d info (auth # auths) db =
     step_then (try_auth E rnd u d auth info db) (\<lambda>(worked, _) db.
       if worked then (Ok True, db) else attempts E rnd u d info auths db)"

lemma attempts_session:
  assumes "codec_ok E" "\<forall>a \<in> set auths. auth_session a = Some s" "session_holds E u d s flows P db"
    and "\<forall>a \<in> set auths. \<forall>st. passes E a db st \<longrightarrow> P st"
    and "attempts E rnd u d info auths db = (Ok True, db')"
  shows "(\<exists>flow \<in> set flows. \<forall>st \<in> set flow. P st)
    \<and> get_uiaa_session E u d s db' = Err (BadRequest Forbidden ''UIAA session does not exist.'')"
  using assms(2-)
proof (induction auths arbitrary: db)
  case (Cons a auths)
  obtain w i db1 where t: "try_auth E rnd u d a info db = (Ok (w, i), db1)"
    using Cons.prems(4) by (cases "try_auth E rnd u d a info db" rule: prod.exhaust; cases "fst (try_auth E rnd u d a info db)")
      (auto simp: step_then_def)
  note T = try_auth_session [OF assms(1) _ Cons.prems(2) _ t]
  have s: "auth_session a = Some s" and p: "\<forall>st. passes E a db st \<longrightarrow> P st" using Cons.prems by simp_all
  show ?case
  proof (cases w)
    case True
    then show ?thesis using T(3,4) [OF s p] Cons.prems(4) t by simp
  next
    case False
    have "\<forall>a \<in> set auths. \<forall>st. passes E a db1 st \<longrightarrow> P st"
      using Cons.prems(3) by (simp add: passes_cong [OF T(2) [OF s p]])
    then show ?thesis using Cons.IH [OF _ T(1) [OF s p]] Cons.prems(1,4) t False by simp
  qed
qed simp

lemma passes_password:
  "passes E (PasswordAuth (UserIdOrLocalpart name) password s) db st \<longleftrightarrow> st = PasswordStage
     \<and> (\<exists>v. parse_with_server_name (uiaa_login E) name (server_name (uiaa_login E)) = Some v
        \<and> (password_hash v db = Ok None
           \<or> (\<exists>h. password_hash v db = Ok (Some h) \<and> argon2_verify (uiaa_login E) h password = Some True)))"
  by (auto simp: passes_def check_stage_def and_then_def ok_or_def split: sum.splits option.splits if_splits)

section \<open>What the guard leaves alone\<close>

lemma try_auth_frame:
  "\<exists>t. snd (try_auth E rnd u d auth info db) = db\<lparr>userdevicesessionid_uiaainfo := t\<rparr>"
proof -
  have [simp]: "\<exists>t. db = db\<lparr>userdevicesessionid_uiaainfo := t\<rparr>"
    by (rule exI [of _ "userdevicesessionid_uiaainfo db"]) simp
  show ?thesis
    by (auto simp: try_auth_def step_then_def Let_def update_uiaa_session_def split: sum.splits prod.splits)
qed

lemma uiaa_guard_frame:
  assumes "uiaa_guard E rnd u d auth body info db = (r, db')"
  shows "\<exists>t q. db' = db\<lparr>userdevicesessionid_uiaarequest := q, userdevicesessionid_uiaainfo := t\<rparr>"
proof -
  have same: "db\<lparr>userdevicesessionid_uiaainfo := t\<rparr>
      = db\<lparr>userdevicesessionid_uiaarequest := userdevicesessionid_uiaarequest db, userdevicesessionid_uiaainfo := t\<rparr>" for t
    by simp
  show ?thesis
  proof (cases auth)
    case (Some a)
    obtain t where "snd (try_auth E rnd u d a info db) = db\<lparr>userdevicesessionid_uiaainfo := t\<rparr>"
      using try_auth_frame by blast
    then have "db' = db\<lparr>userdevicesessionid_uiaainfo := t\<rparr>"
      using assms Some by (auto simp: uiaa_guard_def route_then_def plain_def split: prod.splits sum.splits if_splits)
    then show ?thesis unfolding same by (intro exI)
  next
    case None
    show ?thesis
    proof (cases body)
      case (Some j)
      let ?info = "info\<lparr>uiaa_session := Some rnd\<rparr>"
      have "db' = db\<lparr>userdevicesessionid_uiaarequest := (userdevicesessionid_uiaarequest db)((u, d, rnd) \<mapsto> j),
          userdevicesessionid_uiaainfo :=
            kv_insert (userdevicesessionid_uiaainfo db) (uiaa_key u d rnd) (uiaa_enc E ?info)\<rparr>"
        using assms None Some
        by (simp add: uiaa_guard_def uiaa_create_def update_uiaa_session_def set_uiaa_request_def Let_def)
      then show ?thesis by (intro exI)
    next
      case body: None
      then have "db' = db\<lparr>userdevicesessionid_uiaarequest := userdevicesessionid_uiaarequest db,
          userdevicesessionid_uiaainfo := userdevicesessionid_uiaainfo db\<rparr>"
        using assms None by (simp add: uiaa_guard_def)
      then show ?thesis by (intro exI)
    qed
  qed
qed

lemma find_from_token_known:
  assumes "token_inv R db" "find_from_token R t db = Ok (Some (u, d))"
  shows "kv_get (userdeviceid_metadata db) (userdevice u d) \<noteq> None"
proof -
  have "kv_get (token_userdeviceid db) t = Some (userdevice u d)"
    using find_from_token_total [OF assms(1), of t] assms(2) by auto
  then show ?thesis using assms(1) by (auto simp: token_inv_def)
qed

lemma remove_devices_fold: "remove_devices u (map Inr ds) db = (Ok (), fold (remove_device u) ds db)"
  by (induction ds arbitrary: db) auto

lemma oks_Inr [simp]: "oks (map Inr xs) = xs"
  by (induction xs) auto

section \<open>Properties\<close>

text \<open>
  C11: interactive authentication succeeds only when every stage of one flow was passed by an attempt of
  this session, and a success closes the session.
\<close>

theorem uiaa_completes_only_passed:
  assumes "codec_ok E" "kv_wf (userdevicesessionid_uiaainfo db)"
    and "uiaa_session info = Some s" "uiaa_completed info = []"
    and "uiaa_create E u d info json db = (Ok (), db1)"
    and "\<forall>a \<in> set auths. auth_session a = Some s"
    and "attempts E rnd u d info auths db1 = (Ok True, db2)"
  shows "(\<exists>flow \<in> set (uiaa_flows info). \<forall>st \<in> set flow. \<exists>a \<in> set auths. passes E a db st)
    \<and> get_uiaa_session E u d s db2 = Err (BadRequest Forbidden ''UIAA session does not exist.'')"
proof -
  have db1: "db1 = update_uiaa_session E u d s (Some info) (set_uiaa_request u d s json db)"
    using assms(3,5) by (simp add: uiaa_create_def)
  have wf: "kv_wf (userdevicesessionid_uiaainfo (set_uiaa_request u d s json db))"
    using assms(2) by (simp add: set_uiaa_request_def)
  have pw: "userid_password db1 = userid_password db"
    by (simp add: db1 update_uiaa_session_def set_uiaa_request_def)
  let ?P = "\<lambda>st. \<exists>a \<in> set auths. passes E a db st"
  have "session_holds E u d s (uiaa_flows info) ?P db1"
    using get_update_session(1) [OF assms(1) wf] wf assms(3,4)
    by (simp add: session_holds_def db1 update_uiaa_session_def kv_intros)
  moreover have "\<forall>a \<in> set auths. \<forall>st. passes E a db1 st \<longrightarrow> ?P st" by (auto simp: passes_cong [OF pw])
  ultimately show ?thesis using attempts_session [OF assms(1,6) _ _ assms(7)] by blast
qed

text \<open>A concrete environment: passwords are their own hashes, session records are numbered.\<close>

instance auth_type :: countable by countable_datatype

instance error_kind :: countable by countable_datatype

definition sample_uiaa_env :: uiaa_env where
  "sample_uiaa_env = \<lparr>uiaa_login = toy_env\<lparr>argon2_hash := Some\<rparr>,
     uiaa_enc = (\<lambda>i. replicate (to_nat (uiaa_flows i, uiaa_completed i, uiaa_session i, uiaa_auth_error i)) 0),
     uiaa_dec = (\<lambda>bs. case from_nat (length bs) of (f, c, s, e) \<Rightarrow>
        Some \<lparr>uiaa_flows = f, uiaa_completed = c, uiaa_session = s, uiaa_auth_error = e\<rparr>),
     registration_token = None\<rparr>"

definition sample_uiaa_db :: uiaa_db where
  "sample_uiaa_db = session_db.extend (accountdata_db.extend (users_db.extend one_device_db
       \<lparr>roomuserdataid_accountdata = [], roomusertype_roomuserdataid = []\<rparr>)
       \<lparr>solana_nonces = [], admin_messages = []\<rparr>)
     \<lparr>userdevicesessionid_uiaainfo = [], userdevicesessionid_uiaarequest = Map.empty\<rparr>"

lemma sample_codec: "codec_ok sample_uiaa_env"
  by (simp add: codec_ok_def sample_uiaa_env_def)

lemma sample_login [simp]:
  "parse_with_server_name (uiaa_login sample_uiaa_env) n s = Some (ascii ''@w:x'')"
  "argon2_hash (uiaa_login sample_uiaa_env) p = Some p"
  by (simp_all add: sample_uiaa_env_def toy_env_def)

lemma sample_tables [simp]:
  "userdeviceid_metadata sample_uiaa_db = userdeviceid_metadata one_device_db"
  "userdeviceid_token sample_uiaa_db = userdeviceid_token one_device_db"
  "token_userdeviceid sample_uiaa_db = token_userdeviceid one_device_db"
  "userid_password sample_uiaa_db = userid_password one_device_db"
  "userdevicesessionid_uiaainfo sample_uiaa_db = []"
  by (simp_all add: sample_uiaa_db_def users_db.defs accountdata_db.defs session_db.defs)

lemma sample_no_password: "kv_get (userid_password one_device_db) (ascii ''@w:x'') = None"
  by (simp add: one_device_db_def kv_get_def ascii_def)

definition dummy_flow :: uiaa_info where
  "dummy_flow = \<lparr>uiaa_flows = [[DummyStage]], uiaa_completed = [], uiaa_session = Some [1], uiaa_auth_error = None\<rparr>"

theorem uiaa_completes_only_passed_witness:
  "passes sample_uiaa_env (DummyAuth (Some [1])) sample_uiaa_db DummyStage"
proof -
  let ?E = sample_uiaa_env and ?u = "ascii ''@a''" and ?d = "ascii ''D''"
  let ?db0 = "set_uiaa_request ?u ?d [1] JNull sample_uiaa_db"
  let ?db1 = "update_uiaa_session ?E ?u ?d [1] (Some dummy_flow) ?db0"
  have c: "uiaa_create ?E ?u ?d dummy_flow JNull sample_uiaa_db = (Ok (), ?db1)"
    by (simp add: uiaa_create_def dummy_flow_def)
  have "get_uiaa_session ?E ?u ?d [1] ?db1 = Ok dummy_flow"
    by (rule get_update_session(1) [OF sample_codec]) (simp add: set_uiaa_request_def)
  then obtain db2 where "attempts ?E [] ?u ?d dummy_flow [DummyAuth (Some [1])] ?db1 = (Ok True, db2)"
    by (simp add: try_auth_def check_stage_def Let_def dummy_flow_def flow_completed_def)
  from uiaa_completes_only_passed [OF sample_codec _ _ _ c _ this, of "[1]"] show ?thesis
    by (simp add: dummy_flow_def)
qed

text \<open>
  C28: the password stage is not bound to the account of the session. Whatever the password, naming any
  user without a password row, such as one that does not exist, lets the holder of an access token
  delete devices of the account.
\<close>

theorem uiaa_password_not_bound:
  assumes "parse_with_server_name (uiaa_login E) name (server_name (uiaa_login E)) = Some v"
    and "kv_get (userid_password db) v = None"
  shows "\<exists>db'. delete_device_route E rnd u d (Some (PasswordAuth (UserIdOrLocalpart name) password None)) body dev db
      = (Inr (), db') \<and> get_device_metadata K u dev db' = Ok None"
proof -
  have "password_hash v db = Ok None" using assms(2) by (simp add: password_hash_def)
  then show ?thesis
    using assms(1)
    by (simp add: delete_device_route_def uiaa_guard_def try_auth_def check_stage_def password_flow_def
        flow_completed_def Let_def get_device_metadata_def remove_device_eq)
qed

theorem uiaa_password_not_bound_witness:
  "\<exists>db'. delete_device_route sample_uiaa_env [] (ascii ''@a'') (ascii ''D'')
      (Some (PasswordAuth (UserIdOrLocalpart (ascii ''w'')) [] None)) None (ascii ''D'') sample_uiaa_db = (Inr (), db')
    \<and> get_device_metadata text_users_codec (ascii ''@a'') (ascii ''D'') db' = Ok None"
  by (rule uiaa_password_not_bound [where v = "ascii ''@w:x''"]) (simp_all add: sample_no_password)

text \<open>
  C29: a request that interactive authentication refuses, or that fails later in the password handler,
  changes nothing but the records of authentication sessions.
\<close>

theorem uiaa_refusal_changes_nothing:
  assumes "delete_device_route E rnd u d auth body dev db = (Inl e, db')
    \<or> delete_devices_route E rnd u d auth body devs db = (Inl e, db')
    \<or> change_password_route E rnd (Some u) (Some d) auth body pw logout db = (Inl e, db')
    \<or> deactivate_route E leave_all_rooms rnd (Some u) (Some d) auth body db = (Inl (UiaaError i), db')"
  shows "\<exists>t q. db' = db\<lparr>userdevicesessionid_uiaarequest := q, userdevicesessionid_uiaainfo := t\<rparr>"
proof -
  obtain r db1 where g: "uiaa_guard E rnd u d auth body password_flow db = (r, db1)"
    by (cases "uiaa_guard E rnd u d auth body password_flow db")
  have "db' = db1"
    using assms
  proof (elim disjE)
    assume "change_password_route E rnd (Some u) (Some d) auth body pw logout db = (Inl e, db')"
    then show ?thesis using g
      by (auto simp: change_password_route_def set_password_def route_then_def plain_def Let_def
          split: sum.splits option.splits prod.splits)
  next
    assume "deactivate_route E leave_all_rooms rnd (Some u) (Some d) auth body db = (Inl (UiaaError i), db')"
    then show ?thesis using g
      by (auto simp: deactivate_route_def route_then_def split: sum.splits prod.splits)
  qed (use g in \<open>auto simp: delete_device_route_def delete_devices_route_def route_then_def split: sum.splits\<close>)
  then show ?thesis using uiaa_guard_frame [OF g] by blast
qed

theorem uiaa_refusal_changes_nothing_witness:
  "\<exists>e db' t q. delete_device_route sample_uiaa_env [1] (ascii ''@a'') (ascii ''D'') None (Some JNull) (ascii ''D'')
      sample_uiaa_db = (Inl e, db')
    \<and> db' = sample_uiaa_db\<lparr>userdevicesessionid_uiaarequest := q, userdevicesessionid_uiaainfo := t\<rparr>"
proof -
  obtain e db' where r: "delete_device_route sample_uiaa_env [1] (ascii ''@a'') (ascii ''D'') None (Some JNull) (ascii ''D'')
      sample_uiaa_db = (Inl e, db')"
    by (simp add: delete_device_route_def uiaa_guard_def uiaa_create_def Let_def)
  from uiaa_refusal_changes_nothing [OF disjI1, OF r] r show ?thesis by (elim exE) (intro exI conjI)
qed

text \<open>
  A password change that asks to log out the other devices sets the new hash, ends every session of
  the user but the one that made the request, and leaves the tokens of other users alone.
\<close>

theorem change_password_logs_out:
  assumes inv: "token_inv R db" and u: "utf8 u" and wf: "kv_wf (userid_password db)"
    and g: "uiaa_guard E rnd u d auth body password_flow db = (Inr (), db1)"
    and h: "argon2_hash (uiaa_login E) pw = Some h" "utf8 h"
  shows "\<exists>db'. change_password_route E rnd (Some u) (Some d) auth body pw True db = (Inr (), db')
    \<and> password_hash u db' = Ok (Some h)
    \<and> (\<forall>t. find_from_token R t db' =
        (if \<exists>d'. d' \<noteq> d \<and> find_from_token R t db = Ok (Some (u, d')) then Ok None else find_from_token R t db))"
proof -
  obtain t q where db1: "db1 = db\<lparr>userdevicesessionid_uiaarequest := q, userdevicesessionid_uiaainfo := t\<rparr>"
    using uiaa_guard_frame [OF g] by blast
  let ?db2 = "db1\<lparr>userid_password := kv_insert (userid_password db1) u h\<rparr>"
  have inv2: "token_inv R ?db2" using inv by (simp add: token_inv_def db1)
  have f2: "find_from_token R x ?db2 = find_from_token R x db" for x by (simp add: find_from_token_def db1)
  obtain ds where ds: "all_device_ids u ?db2 = map Inr ds"
      "set ds = {d. kv_get (userdeviceid_metadata ?db2) (userdevice u d) \<noteq> None}" "\<forall>d \<in> set ds. utf8 d \<and> valid_user_id R u"
    using all_device_ids_are [OF inv2 u] by blast
  let ?ds = "filter (\<lambda>i. i \<noteq> d) ds"
  have kd: "\<forall>d \<in> set ?ds. known_device R u d" using ds(3) u by (auto simp: known_device_def)
  obtain db3 where db3: "remove_devices u (map Inr ?ds) ?db2 = (Ok (), db3)"
      "userid_password db3 = userid_password ?db2"
      "\<forall>x. find_from_token R x db3 = (if \<exists>d' \<in> set ?ds. find_from_token R x ?db2 = Ok (Some (u, d')) then Ok None
         else find_from_token R x ?db2)"
    using remove_devices_tokens [OF inv2 kd] by (elim exE conjE) (rule that; assumption)
  have fold: "fold (remove_device u) ?ds ?db2 = db3" using db3(1) by (simp add: remove_devices_fold)
  let ?db' = "db3\<lparr>admin_messages := admin_messages db3 @ [ascii ''User '' @ u @ ascii '' changed their password.'']\<rparr>"
  have run: "change_password_route E rnd (Some u) (Some d) auth body pw True db = (Inr (), ?db')"
    using fold ds(1) by (simp add: change_password_route_def g set_password_def h(1) Let_def)
  have known: "d' \<in> set ds" if "find_from_token R x db = Ok (Some (u, d'))" for x d'
  proof -
    have "find_from_token R x ?db2 = Ok (Some (u, d'))" using that f2 by simp
    then show ?thesis using find_from_token_known [OF inv2] ds(2) by blast
  qed
  have others: "(\<exists>d' \<in> set ?ds. find_from_token R x db = Ok (Some (u, d')))
      \<longleftrightarrow> (\<exists>d'. d' \<noteq> d \<and> find_from_token R x db = Ok (Some (u, d')))" for x
    using known by auto
  have fin: "find_from_token R x ?db' = find_from_token R x db3" for x by (simp add: find_from_token_def)
  have "\<forall>x. find_from_token R x ?db' =
      (if \<exists>d'. d' \<noteq> d \<and> find_from_token R x db = Ok (Some (u, d')) then Ok None else find_from_token R x db)"
    unfolding fin using db3(3) unfolding f2 others .
  moreover have "password_hash u ?db' = Ok (Some h)"
    using wf h(2) by (simp add: password_hash_def db3(2) db1 kv_simps)
  ultimately show ?thesis using run by blast
qed

theorem change_password_logs_out_witness:
  "\<exists>db'. change_password_route sample_uiaa_env [] (Some (ascii ''@a'')) (Some (ascii ''D''))
      (Some (PasswordAuth (UserIdOrLocalpart (ascii ''w'')) [] None)) None (ascii ''h'') True sample_uiaa_db = (Inr (), db')
    \<and> password_hash (ascii ''@a'') db' = Ok (Some (ascii ''h''))
    \<and> find_from_token accept_all (ascii ''tok'') db' = Ok (Some (ascii ''@a'', ascii ''D''))"
proof -
  let ?auth = "Some (PasswordAuth (UserIdOrLocalpart (ascii ''w'')) [] None)"
  obtain db1 where g: "uiaa_guard sample_uiaa_env [] (ascii ''@a'') (ascii ''D'') ?auth None password_flow sample_uiaa_db = (Inr (), db1)"
    by (simp add: uiaa_guard_def try_auth_def check_stage_def password_flow_def flow_completed_def Let_def
        password_hash_def sample_no_password)
  have inv: "token_inv accept_all sample_uiaa_db" using one_device_inv(1) by (simp add: token_inv_def)
  have f: "find_from_token accept_all (ascii ''tok'') sample_uiaa_db = Ok (Some (ascii ''@a'', ascii ''D''))"
    using one_device_token by (simp add: find_from_token_def)
  have "utf8 (ascii ''@a'')" "utf8 (ascii ''h'')" by (simp_all add: ascii_def)
  from change_password_logs_out [OF inv this(1) _ g _ this(2), of "ascii ''h''"] one_device_inv(4) f
  show ?thesis by auto
qed

end
