(* ===== verification/Edus.thy ===== *)
theory Edus
  imports AccountData "HOL-Library.AList"
begin

text \<open>
  Ephemeral room data: read receipts and private read markers
  (\<^verbatim>\<open>server/src/database/key_value/rooms/edus/read_receipt.rs\<close>), presence
  (\<^verbatim>\<open>rooms/edus/presence.rs\<close> and the service in front of it, which is switched off) and typing
  notifications (\<^verbatim>\<open>server/src/service/rooms/edus/typing/mod.rs\<close>). The in-memory \<open>BTreeMap\<close>s of the
  typing service are association lists with distinct keys; the clock is an argument.
\<close>

section \<open>State\<close>

record edus_db = accountdata_db +
  readreceiptid_readreceipt :: kvtree
  roomuserid_privateread :: kvtree
  roomuserid_lastprivatereadupdate :: kvtree
  presenceid_presence :: kvtree
  userid_lastpresenceupdate :: kvtree
  typing :: "(str \<times> (str \<times> u64) list) list"
  last_typing_updates :: "(str \<times> u64) list"

section \<open>Read receipts\<close>

text \<open>ruma's \<open>ReceiptEvent\<close>: per event, per receipt type, the users and their receipts.\<close>

datatype receipt_type = ReadReceipt | ReadPrivateReceipt | FullyReadReceipt | OtherReceipt str

datatype receipt_thread = Unthreaded | OtherThread str

record receipt =
  receipt_ts :: "u64 option"
  receipt_thread :: receipt_thread

type_synonym receipt_content = "(str \<times> (receipt_type \<times> (str \<times> receipt) list) list) list"

record receipt_event =
  re_content :: receipt_content
  re_room_id :: str

datatype presence_state = Online | Offline | Unavailable | OtherPresence str

record presence_event =
  pr_sender :: str
  pr_presence :: presence_state
  pr_last_active_ago :: "u64 option"
  pr_other_fields :: bytes

text \<open>
  \<open>serde_json\<close> at the types of this theory: a receipt event, a canonical JSON object (read from
  bytes and printed as raw JSON) and a presence event. \<open>uint_sub\<close> is subtraction of ruma's \<open>UInt\<close>.
\<close>

record edu_codec =
  receipt_enc :: "receipt_event \<Rightarrow> bytes"
  canonical_dec :: "bytes \<Rightarrow> (str \<times> json) list option"
  canonical_raw :: "(str \<times> json) list \<Rightarrow> bytes"
  presence_enc :: "presence_event \<Rightarrow> bytes"
  presence_dec :: "bytes \<Rightarrow> presence_event option"
  uint_sub :: "u64 \<Rightarrow> u64 \<Rightarrow> u64"

text \<open>A slice \<open>&bs[i..j]\<close>; out of range it panics.\<close>

definition slice :: "nat \<Rightarrow> nat \<Rightarrow> bytes \<Rightarrow> bytes result" where
  "slice i j bs = (if i \<le> j \<and> j \<le> length bs then Ok (take (j - i) (drop i bs))
                   else Err (Panicked ''slice index out of range''))"

definition readreceipt_update ::
  "edu_codec \<Rightarrow> str \<Rightarrow> str \<Rightarrow> receipt_event \<Rightarrow> 'a edus_db_scheme \<Rightarrow> unit result \<times> 'a edus_db_scheme" where
  "readreceipt_update K user_id room_id event db =
     (let prefix = room_id @ [sep];
          last_possible_key = prefix @ to_be_bytes u64_max;
          db = (case find (\<lambda>(key, _). last_part key = user_id)
                  (takeWhile (\<lambda>(key, _). starts_with key prefix)
                    (kv_iter_from (readreceiptid_readreceipt db) last_possible_key True)) of
                  Some (old, _) \<Rightarrow>
                    db\<lparr>readreceiptid_readreceipt := kv_remove (readreceiptid_readreceipt db) old\<rparr>
                | None \<Rightarrow> db)
      in step_then (next_count db) (\<lambda>n db.
           (let room_latest_id = prefix @ to_be_bytes n @ [sep] @ user_id
            in (Ok (), db\<lparr>readreceiptid_readreceipt :=
                 kv_insert (readreceiptid_readreceipt db) room_latest_id (receipt_enc K event)\<rparr>))))"

text \<open>A row of the scan: user, count and the event without its \<open>room_id\<close>.\<close>

definition read_receipt_row ::
  "edu_codec \<Rightarrow> ruma \<Rightarrow> nat \<Rightarrow> bytes \<times> bytes \<Rightarrow> (str \<times> u64 \<times> bytes) result" where
  "read_receipt_row K R n row =
     and_then (and_then (slice n (n + 8) (fst row)) (\<lambda>bs.
         ok_or (BadDatabase ''Invalid readreceiptid count in db.'') (u64_from_bytes bs))) (\<lambda>count.
     and_then (and_then (slice (n + 9) (length (fst row)) (fst row))
         (parse_id (valid_user_id R) ''Invalid readreceiptid userid bytes in db.''
            ''Invalid readreceiptid userid in db.'')) (\<lambda>user_id.
     and_then (ok_or (BadDatabase ''Read receipt in roomlatestid_roomlatest is invalid json.'')
         (canonical_dec K (snd row))) (\<lambda>json.
     Ok (user_id, count, canonical_raw K (AList.delete (ascii ''room_id'') json)))))"

definition readreceipts_since ::
  "edu_codec \<Rightarrow> ruma \<Rightarrow> str \<Rightarrow> u64 \<Rightarrow> 'a edus_db_scheme \<Rightarrow> (str \<times> u64 \<times> bytes) result list" where
  "readreceipts_since K R room_id since db =
     (let prefix = room_id @ [sep];
          first_possible_edu = prefix @ to_be_bytes (since + 1)
      in map (read_receipt_row K R (length prefix))
           (takeWhile (\<lambda>(k, _). starts_with k prefix)
             (kv_iter_from (readreceiptid_readreceipt db) first_possible_edu False)))"

definition private_read_set ::
  "str \<Rightarrow> str \<Rightarrow> u64 \<Rightarrow> 'a edus_db_scheme \<Rightarrow> unit result \<times> 'a edus_db_scheme" where
  "private_read_set room_id user_id count db =
     (let key = room_id @ [sep] @ user_id;
          db = db\<lparr>roomuserid_privateread := kv_insert (roomuserid_privateread db) key (to_be_bytes count)\<rparr>
      in step_then (next_count db) (\<lambda>n db.
           (Ok (), db\<lparr>roomuserid_lastprivatereadupdate :=
              kv_insert (roomuserid_lastprivatereadupdate db) key (to_be_bytes n)\<rparr>)))"

definition private_read_get :: "str \<Rightarrow> str \<Rightarrow> 'a edus_db_scheme \<Rightarrow> u64 option result" where
  "private_read_get room_id user_id db =
     map_transpose (\<lambda>v. ok_or (BadDatabase ''Invalid private read marker bytes'') (u64_from_bytes v))
       (kv_get (roomuserid_privateread db) (room_id @ [sep] @ user_id))"

definition last_privateread_update :: "str \<Rightarrow> str \<Rightarrow> 'a edus_db_scheme \<Rightarrow> u64 result" where
  "last_privateread_update user_id room_id db =
     and_then (map_transpose (\<lambda>v.
         ok_or (BadDatabase ''Count in roomuserid_lastprivatereadupdate is invalid.'') (u64_from_bytes v))
         (kv_get (roomuserid_lastprivatereadupdate db) (room_id @ [sep] @ user_id)))
       (\<lambda>n. Ok (case n of Some n \<Rightarrow> n | None \<Rightarrow> 0))"

section \<open>Presence\<close>

definition update_presence_db ::
  "edu_codec \<Rightarrow> u64 \<Rightarrow> str \<Rightarrow> str \<Rightarrow> presence_event \<Rightarrow> 'a edus_db_scheme \<Rightarrow> unit result \<times> 'a edus_db_scheme" where
  "update_presence_db K now user_id room_id presence db =
     step_then (next_count db) (\<lambda>count db.
       (let presence_id = room_id @ [sep] @ to_be_bytes count @ [sep] @ pr_sender presence;
            db = db\<lparr>presenceid_presence :=
              kv_insert (presenceid_presence db) presence_id (presence_enc K presence)\<rparr>
        in (Ok (), db\<lparr>userid_lastpresenceupdate :=
              kv_insert (userid_lastpresenceupdate db) user_id (to_be_bytes now)\<rparr>)))"

definition ping_presence_db :: "u64 \<Rightarrow> str \<Rightarrow> 'a edus_db_scheme \<Rightarrow> 'a edus_db_scheme" where
  "ping_presence_db now user_id db =
     db\<lparr>userid_lastpresenceupdate := kv_insert (userid_lastpresenceupdate db) user_id (to_be_bytes now)\<rparr>"

definition last_presence_update :: "str \<Rightarrow> 'a edus_db_scheme \<Rightarrow> u64 option result" where
  "last_presence_update user_id db =
     map_transpose (\<lambda>v. ok_or (BadDatabase ''Invalid timestamp in userid_lastpresenceupdate.'') (u64_from_bytes v))
       (kv_get (userid_lastpresenceupdate db) user_id)"

text \<open>\<open>UInt::try_from(u64)\<close> refuses what a JavaScript number cannot hold.\<close>

definition max_safe_uint :: u64 where
  "max_safe_uint = 9007199254740991"

definition parse_presence_event :: "edu_codec \<Rightarrow> u64 \<Rightarrow> bytes \<Rightarrow> presence_event result" where
  "parse_presence_event K now bs =
     and_then (ok_or (BadDatabase ''Invalid presence event in db.'') (presence_dec K bs)) (\<lambda>presence.
     if max_safe_uint < now then Err (Panicked ''time is valid'')
     else Ok (presence\<lparr>pr_last_active_ago :=
       (if pr_presence presence = Online then None
        else map_option (uint_sub K now) (pr_last_active_ago presence))\<rparr>))"

definition get_presence_event ::
  "edu_codec \<Rightarrow> u64 \<Rightarrow> str \<Rightarrow> str \<Rightarrow> u64 \<Rightarrow> 'a edus_db_scheme \<Rightarrow> presence_event option result" where
  "get_presence_event K now room_id user_id count db =
     map_transpose (parse_presence_event K now)
       (kv_get (presenceid_presence db) (room_id @ [sep] @ to_be_bytes count @ [sep] @ user_id))"

definition presence_since_db ::
  "edu_codec \<Rightarrow> ruma \<Rightarrow> u64 \<Rightarrow> str \<Rightarrow> u64 \<Rightarrow> 'a edus_db_scheme \<Rightarrow> (str \<rightharpoonup> presence_event) result" where
  "presence_since_db K R now room_id since db =
     (let prefix = room_id @ [sep];
          first_possible_edu = prefix @ to_be_bytes (since + 1)
      in and_then (collect_result (map (\<lambda>(key, value).
            and_then (parse_id (valid_user_id R) ''Invalid UserId bytes in presenceid_presence.''
                ''Invalid UserId in presenceid_presence.'' (last_part key)) (\<lambda>user_id.
            and_then (parse_presence_event K now value) (\<lambda>presence. Ok (user_id, presence))))
          (takeWhile (\<lambda>(key, _). starts_with key prefix)
            (kv_iter_from (presenceid_presence db) first_possible_edu False))))
          (\<lambda>rows. Ok (fold (\<lambda>(user_id, presence) m. m(user_id \<mapsto> presence)) rows Map.empty)))"

text \<open>The service in front of the tables has every call to them commented out.\<close>

definition update_presence :: "str \<Rightarrow> str \<Rightarrow> presence_event \<Rightarrow> 'a edus_db_scheme \<Rightarrow> unit result \<times> 'a edus_db_scheme" where
  "update_presence user_id room_id presence db = (Ok (), db)"

definition ping_presence :: "str \<Rightarrow> 'a edus_db_scheme \<Rightarrow> unit result \<times> 'a edus_db_scheme" where
  "ping_presence user_id db = (Ok (), db)"

definition get_last_presence_event :: "str \<Rightarrow> str \<Rightarrow> 'a edus_db_scheme \<Rightarrow> presence_event option result" where
  "get_last_presence_event user_id room_id db = Ok None"

definition presence_since :: "str \<Rightarrow> u64 \<Rightarrow> 'a edus_db_scheme \<Rightarrow> (str \<rightharpoonup> presence_event) result" where
  "presence_since room_id since db = Ok Map.empty"

section \<open>Typing\<close>

definition typing_room :: "str \<Rightarrow> 'a edus_db_scheme \<Rightarrow> (str \<times> u64) list" where
  "typing_room room_id db = (case map_of (typing db) room_id of Some room \<Rightarrow> room | None \<Rightarrow> [])"

text \<open>The tail shared by the operations that change the typing users: a new count for the room.
  The broadcast to waiting sync requests is not modelled.\<close>

definition typing_changed :: "str \<Rightarrow> 'a edus_db_scheme \<Rightarrow> unit result \<times> 'a edus_db_scheme" where
  "typing_changed room_id db =
     step_then (next_count db) (\<lambda>n db.
       (Ok (), db\<lparr>last_typing_updates := AList.update room_id n (last_typing_updates db)\<rparr>))"

definition typing_add :: "str \<Rightarrow> str \<Rightarrow> u64 \<Rightarrow> 'a edus_db_scheme \<Rightarrow> unit result \<times> 'a edus_db_scheme" where
  "typing_add user_id room_id timeout db =
     typing_changed room_id (db\<lparr>typing :=
       AList.update room_id (AList.update user_id timeout (typing_room room_id db)) (typing db)\<rparr>)"

definition typing_remove :: "str \<Rightarrow> str \<Rightarrow> 'a edus_db_scheme \<Rightarrow> unit result \<times> 'a edus_db_scheme" where
  "typing_remove user_id room_id db =
     typing_changed room_id (db\<lparr>typing :=
       AList.update room_id (AList.delete user_id (typing_room room_id db)) (typing db)\<rparr>)"

definition typings_maintain :: "u64 \<Rightarrow> str \<Rightarrow> 'a edus_db_scheme \<Rightarrow> unit result \<times> 'a edus_db_scheme" where
  "typings_maintain now room_id db =
     (case map_of (typing db) room_id of
        None \<Rightarrow> (Ok (), db)
      | Some room \<Rightarrow>
          (let removable = map fst (filter (\<lambda>(user, timeout). timeout < now) room)
           in if removable = [] then (Ok (), db)
              else typing_changed room_id (db\<lparr>typing :=
                AList.update room_id (fold AList.delete removable (typing_room room_id db)) (typing db)\<rparr>)))"

definition last_typing_update :: "u64 \<Rightarrow> str \<Rightarrow> 'a edus_db_scheme \<Rightarrow> u64 result \<times> 'a edus_db_scheme" where
  "last_typing_update now room_id db =
     step_then (typings_maintain now room_id db) (\<lambda>_ db.
       (Ok (case map_of (last_typing_updates db) room_id of Some n \<Rightarrow> n | None \<Rightarrow> 0), db))"

definition typings_all :: "str \<Rightarrow> 'a edus_db_scheme \<Rightarrow> str list" where
  "typings_all room_id db = sort (map fst (typing_room room_id db))"

section \<open>Lemmas\<close>

lemma find_SomeD: "find P xs = Some x \<Longrightarrow> x \<in> set xs \<and> P x"
  by (induction xs) (auto split: if_splits)

definition receipt_id :: "str \<Rightarrow> u64 \<Rightarrow> str \<Rightarrow> bytes" where
  "receipt_id r n u = r @ sep # to_be_bytes n @ sep # u"

lemma receipt_id_inj:
  assumes "utf8 r" "utf8 r'"
  shows "receipt_id r n u = receipt_id r' n' u' \<longleftrightarrow> (r, n, u) = (r', n', u')"
  using assms by (auto simp: receipt_id_def sep_append_inj utf8_no_sep append_eq_append_conv)

lemma last_part_receipt_id [simp]: "utf8 u \<Longrightarrow> last_part (receipt_id r n u) = u"
  using hd_rsplit_sep [of u "r @ sep # to_be_bytes n"] by (simp add: last_part_def receipt_id_def utf8_no_sep)

lemma receipt_id_prefix:
  "utf8 r \<Longrightarrow> utf8 r' \<Longrightarrow> starts_with (receipt_id r' n u) (r @ [sep]) \<longleftrightarrow> r' = r"
  by (auto simp: receipt_id_def sep_prefix_iff utf8_no_sep)

lemma append_cmp_same_length:
  "length a = length b \<Longrightarrow> a @ x < b @ y \<longleftrightarrow> a < b \<or> a = b \<and> x < y"
  "length a = length b \<Longrightarrow> a @ x \<le> b @ y \<longleftrightarrow> a < b \<or> a = b \<and> x \<le> y"
  for a b x y :: bytes
  by (induction a b rule: list_induct2) auto

lemma receipt_id_le:
  "receipt_id r n u \<le> r @ sep # to_be_bytes m \<longleftrightarrow> n < m"
  "r @ sep # to_be_bytes m \<le> receipt_id r n u \<longleftrightarrow> m \<le> n"
  using append_cmp_same_length(2) [of "to_be_bytes n" "to_be_bytes m" "sep # u" "[]"]
    append_cmp_same_length(2) [of "to_be_bytes m" "to_be_bytes n" "[]" "sep # u"]
  by (auto simp: receipt_id_def order_le_less)

text \<open>The receipt of a user in a room: its count and its stored event.\<close>

definition receipt_at :: "str \<Rightarrow> str \<Rightarrow> u64 \<Rightarrow> bytes \<Rightarrow> 'a edus_db_scheme \<Rightarrow> bool" where
  "receipt_at r u n v db \<longleftrightarrow> kv_get (readreceiptid_readreceipt db) (receipt_id r n u) = Some v"

definition receipts_inv :: "'a edus_db_scheme \<Rightarrow> bool" where
  "receipts_inv db \<longleftrightarrow> kv_wf (global db) \<and> kv_wf (readreceiptid_readreceipt db)
     \<and> (\<forall>k v. kv_get (readreceiptid_readreceipt db) k = Some v \<longrightarrow>
          (\<exists>r n u. utf8 r \<and> utf8 u \<and> k = receipt_id r n u \<and> n \<le> count_of db))
     \<and> (\<forall>r u n m v w. utf8 r \<longrightarrow> receipt_at r u n v db \<longrightarrow> receipt_at r u m w db \<longrightarrow> n = m)"

lemma receipt_keys:
  assumes "receipts_inv db" "kv_get (readreceiptid_readreceipt db) k = Some v"
  obtains r n u where "utf8 r" "utf8 u" "k = receipt_id r n u" "n \<le> count_of db" "receipt_at r u n v db"
  using assms unfolding receipts_inv_def receipt_at_def by blast

lemma receipts_wf: "receipts_inv db \<Longrightarrow> kv_wf (readreceiptid_readreceipt db)"
  by (simp add: receipts_inv_def)

lemma receipt_unique:
  "receipts_inv db \<Longrightarrow> utf8 r \<Longrightarrow> receipt_at r u n v db \<Longrightarrow> receipt_at r u m w db \<Longrightarrow> n = m \<and> v = w"
proof -
  assume a: "receipts_inv db" "utf8 r" "receipt_at r u n v db" "receipt_at r u m w db"
  then have "n = m" unfolding receipts_inv_def by blast
  with a(3,4) show ?thesis by (simp add: receipt_at_def)
qed

lemma receipt_count: "receipts_inv db \<Longrightarrow> utf8 r \<Longrightarrow> receipt_at r u n v db \<Longrightarrow> n \<le> count_of db \<and> utf8 u"
  by (auto simp: receipt_at_def receipt_id_inj elim!: receipt_keys)

text \<open>The backward scan finds the one old receipt of the user, if there is one.\<close>

lemma find_old_receipt:
  assumes inv: "receipts_inv db" and r: "utf8 r" and u: "utf8 u" and c: "count_of db \<noteq> u64_max"
  shows "find (\<lambda>(key, _). last_part key = u) (takeWhile (\<lambda>(key, _). starts_with key (r @ [sep]))
      (kv_iter_from (readreceiptid_readreceipt db) ((r @ [sep]) @ to_be_bytes u64_max) True)) = x \<longleftrightarrow>
    (case x of None \<Rightarrow> \<forall>n v. \<not> receipt_at r u n v db
     | Some (k, v) \<Rightarrow> \<exists>n. k = receipt_id r n u \<and> receipt_at r u n v db)"
    (is "find ?P ?rows = x \<longleftrightarrow> _")
proof -
  have rows: "set ?rows = {(k, v). \<exists>n u'. utf8 u' \<and> k = receipt_id r n u' \<and> receipt_at r u' n v db}"
  proof -
    have "set ?rows = {(k, v). kv_get (readreceiptid_readreceipt db) k = Some v \<and> starts_with k (r @ [sep])
        \<and> k \<le> (r @ [sep]) @ to_be_bytes u64_max}"
      using receipts_wf [OF inv] by (intro kv.set_scan_until) simp_all
    moreover have "n < u64_max" if "n \<le> count_of db" for n
      using that c by (metis order_le_less order_le_less_trans word_order.extremum)
    ultimately show ?thesis using r
      by (auto simp: receipt_id_prefix receipt_id_le elim!: receipt_keys [OF inv])
        (auto simp: receipt_at_def receipt_id_prefix receipt_id_le dest: receipt_count [OF inv r, unfolded receipt_at_def])
  qed
  show ?thesis
  proof (cases "find ?P ?rows")
    case None
    have "\<not> receipt_at r u n v db" for n v
    proof
      assume "receipt_at r u n v db"
      then have "(receipt_id r n u, v) \<in> set ?rows" using rows u by blast
      with None u show False by (auto simp: find_None_iff)
    qed
    with None show ?thesis by (cases x) auto
  next
    case (Some row)
    obtain k v where row: "row = (k, v)" by (cases row)
    from Some have "row \<in> set ?rows" "?P row" by (blast dest: find_SomeD)+
    then obtain n where n: "k = receipt_id r n u" "receipt_at r u n v db"
      using rows row by auto
    have uniq: "m = n \<and> w = v" if "receipt_at r u m w db" for m w
      using that n(2) receipt_unique [OF inv r] by blast
    show ?thesis unfolding Some row using n
      by (cases x) (auto dest: uniq)
  qed
qed

lemma readreceipt_update_eq:
  assumes inv: "receipts_inv db" and r: "utf8 r" and u: "utf8 u" and c: "count_of db \<noteq> u64_max"
  obtains db' where "readreceipt_update K u r e db = (Ok (), db')"
    "count_of db' = count_of db + 1" "kv_wf (global db')" "kv_wf (readreceiptid_readreceipt db')"
    "\<And>k. kv_get (readreceiptid_readreceipt db') k =
       (if k = receipt_id r (count_of db + 1) u then Some (receipt_enc K e)
        else if \<exists>n. k = receipt_id r n u then None else kv_get (readreceiptid_readreceipt db) k)"
proof -
  define x where "x = find (\<lambda>(key, _). last_part key = u) (takeWhile (\<lambda>(key, _). starts_with key (r @ [sep]))
      (kv_iter_from (readreceiptid_readreceipt db) ((r @ [sep]) @ to_be_bytes u64_max) True))"
  define t where "t = (case x of Some (old, _) \<Rightarrow> kv_remove (readreceiptid_readreceipt db) old
    | None \<Rightarrow> readreceiptid_readreceipt db)"
  have x: "case x of None \<Rightarrow> \<forall>n v. \<not> receipt_at r u n v db
     | Some (k, v) \<Rightarrow> \<exists>n. k = receipt_id r n u \<and> receipt_at r u n v db"
    using find_old_receipt [OF assms, of x] x_def by blast
  have g: "kv_wf (global db)" "kv_wf (readreceiptid_readreceipt db)" using inv by (simp_all add: receipts_inv_def)
  have t: "kv_wf t" using g by (auto simp: t_def kv_intros split: option.splits)
  have get: "kv_get t k = (if \<exists>n. k = receipt_id r n u then None else kv_get (readreceiptid_readreceipt db) k)" for k
  proof (cases x)
    case None
    then show ?thesis using x by (auto simp: t_def receipt_at_def)
  next
    case (Some row)
    then obtain n v where n: "x = Some (receipt_id r n u, v)" "receipt_at r u n v db" using x by (cases row) auto
    have "kv_get (readreceiptid_readreceipt db) (receipt_id r m u) = None" if "m \<noteq> n" for m
      using receipt_unique [OF inv r n(2), of m] that
      by (cases "kv_get (readreceiptid_readreceipt db) (receipt_id r m u)") (auto simp: receipt_at_def)
    then show ?thesis using n(1) r by (auto simp: t_def kv_simps receipt_id_inj)
  qed
  define db0 where "db0 = (case x of Some (old, _) \<Rightarrow> db\<lparr>readreceiptid_readreceipt := kv_remove (readreceiptid_readreceipt db) old\<rparr>
    | None \<Rightarrow> db)"
  have db0: "readreceiptid_readreceipt db0 = t" "global db0 = global db" "count_of db0 = count_of db"
    by (auto simp: db0_def t_def count_of_def split: option.splits)
  let ?db' = "snd (next_count db0)\<lparr>readreceiptid_readreceipt := kv_insert t (receipt_id r (count_of db + 1) u) (receipt_enc K e)\<rparr>"
  have "readreceipt_update K u r e db = (Ok (), ?db')"
    unfolding readreceipt_update_def Let_def x_def [symmetric] db0_def [symmetric]
    by (simp add: next_count_eq db0 receipt_id_def)
  moreover have "count_of ?db' = count_of db + 1"
    using count_of_next [of db0] g by (simp add: db0 count_of_def)
  moreover have "kv_wf (global ?db')" "kv_wf (readreceiptid_readreceipt ?db')"
    using g t by (simp_all add: next_count_eq db0 kv_intros)
  moreover have "kv_get (readreceiptid_readreceipt ?db') k =
       (if k = receipt_id r (count_of db + 1) u then Some (receipt_enc K e)
        else if \<exists>n. k = receipt_id r n u then None else kv_get (readreceiptid_readreceipt db) k)" for k
    using get t by (simp add: kv_simps)
  ultimately show ?thesis by (rule that)
qed

lemma receipts_inv_update:
  assumes "receipts_inv db" "utf8 r" "utf8 u" "unat (count_of db) + 1 < 2 ^ 64"
  shows "receipts_inv (snd (readreceipt_update K u r e db))"
proof -
  have c: "count_of db \<noteq> u64_max" using assms(4) unat_max_minus [of 0] by auto
  obtain db' where db': "readreceipt_update K u r e db = (Ok (), db')"
    "count_of db' = count_of db + 1" "kv_wf (global db')" "kv_wf (readreceiptid_readreceipt db')"
    "\<And>k. kv_get (readreceiptid_readreceipt db') k =
       (if k = receipt_id r (count_of db + 1) u then Some (receipt_enc K e)
        else if \<exists>n. k = receipt_id r n u then None else kv_get (readreceiptid_readreceipt db) k)"
    by (rule readreceipt_update_eq [OF assms(1-3) c, where K = K and e = e]) (rule that)
  have "\<exists>r n u. utf8 r \<and> utf8 u \<and> k = receipt_id r n u \<and> n \<le> count_of db'"
    if "kv_get (readreceiptid_readreceipt db') k = Some v" for k v
  proof (cases "k = receipt_id r (count_of db + 1) u")
    case True
    then show ?thesis using assms(2,3) db'(2) by auto
  next
    case False
    then have "kv_get (readreceiptid_readreceipt db) k = Some v" using that by (auto simp: db'(5) split: if_splits)
    then obtain r' n u' where "utf8 r'" "utf8 u'" "k = receipt_id r' n u'" "n \<le> count_of db"
      by (rule receipt_keys [OF assms(1)])
    then show ?thesis using db'(2) less_Suc_u64 [OF assms(4)] order.strict_implies_order by metis
  qed
  moreover have "n = m" if "utf8 r'" "receipt_at r' u' n v db'" "receipt_at r' u' m w db'" for r' u' n m v w
    using that assms(2) receipt_unique [OF assms(1) that(1), of u' n v m w]
    by (auto simp: receipt_at_def db'(5) receipt_id_inj split: if_splits)
  ultimately show ?thesis using db' by (auto simp: receipts_inv_def)
qed

lemma receipt_at_update:
  assumes "receipts_inv db" "utf8 r" "utf8 u" "unat (count_of db) + 1 < 2 ^ 64" "utf8 r'"
  shows "fst (readreceipt_update K u r e db) = Ok ()"
    and "receipt_at r' u' n v (snd (readreceipt_update K u r e db)) \<longleftrightarrow>
      (if (r', u') = (r, u) then n = count_of db + 1 \<and> v = receipt_enc K e else receipt_at r' u' n v db)"
proof -
  have c: "count_of db \<noteq> u64_max" using assms(4) unat_max_minus [of 0] by auto
  obtain db' where db': "readreceipt_update K u r e db = (Ok (), db')"
    "\<And>k. kv_get (readreceiptid_readreceipt db') k =
       (if k = receipt_id r (count_of db + 1) u then Some (receipt_enc K e)
        else if \<exists>n. k = receipt_id r n u then None else kv_get (readreceiptid_readreceipt db) k)"
    by (rule readreceipt_update_eq [OF assms(1-3) c, where K = K and e = e]) (rule that)
  have "receipt_at r' u' n v db' \<longleftrightarrow>
      (if (r', u') = (r, u) then n = count_of db + 1 \<and> v = receipt_enc K e else receipt_at r' u' n v db)"
    using assms(2,5) by (auto simp: receipt_at_def db'(2) receipt_id_inj)
  then show "fst (readreceipt_update K u r e db) = Ok ()"
    "receipt_at r' u' n v (snd (readreceipt_update K u r e db)) \<longleftrightarrow>
      (if (r', u') = (r, u) then n = count_of db + 1 \<and> v = receipt_enc K e else receipt_at r' u' n v db)"
    using db'(1) by simp_all
qed

definition typing_wf :: "'a edus_db_scheme \<Rightarrow> bool" where
  "typing_wf db \<longleftrightarrow> (\<forall>r room. map_of (typing db) r = Some room \<longrightarrow> distinct (map fst room))"

lemma fold_delete_filter: "fold AList.delete ks xs = filter (\<lambda>(k, _). k \<notin> set ks) xs"
  by (induction ks arbitrary: xs) (auto simp: AList.delete_eq intro: filter_cong)

lemma distinct_expired:
  assumes "distinct (map fst room)"
  shows "filter (\<lambda>(k, _). k \<notin> set (map fst (filter (\<lambda>(_, t). t < now) room))) room
    = filter (\<lambda>(_, t). \<not> t < (now :: u64)) room"
  using assms by (intro filter_cong refl) (force simp: image_iff dest: eq_key_imp_eq_value)

section \<open>Sample data\<close>

definition empty_edus_db :: edus_db where
  "empty_edus_db = accountdata_db.extend empty_accountdata_db
     \<lparr>readreceiptid_readreceipt = [], roomuserid_privateread = [], roomuserid_lastprivatereadupdate = [],
      presenceid_presence = [], userid_lastpresenceupdate = [], typing = [], last_typing_updates = []\<rparr>"

definition text_edu_codec :: edu_codec where
  "text_edu_codec = \<lparr>receipt_enc = (\<lambda>e. re_room_id e), canonical_dec = (\<lambda>bs. Some [(ascii ''room_id'', JString bs)]),
     canonical_raw = (\<lambda>j. concat (map fst j)), presence_enc = pr_other_fields, presence_dec = (\<lambda>_. None), uint_sub = (-)\<rparr>"

definition sample_receipt :: receipt_event where
  "sample_receipt = \<lparr>re_content = [], re_room_id = ascii ''!r''\<rparr>"

lemma empty_edus_global: "global empty_edus_db = []"
  using empty_accountdata_global by (simp add: empty_edus_db_def accountdata_db.defs)

lemma empty_edus_inv: "receipts_inv empty_edus_db"
  by (simp add: receipts_inv_def empty_edus_global receipt_at_def) (simp add: empty_edus_db_def accountdata_db.defs)

lemma empty_edus_count: "count_of empty_edus_db = 0"
  by (simp add: count_of_def empty_edus_global)

section \<open>Properties\<close>

text \<open>
  A read receipt replaces the user's previous one in that room and no other receipt: every user
  keeps at most one receipt per room, filed under the count it was made with.
\<close>

theorem read_receipt_replaces:
  assumes "receipts_inv db" "utf8 r" "utf8 u" "unat (count_of db) + 1 < 2 ^ 64" "utf8 r'"
  shows "fst (readreceipt_update K u r e db) = Ok ()
    \<and> receipts_inv (snd (readreceipt_update K u r e db))
    \<and> (receipt_at r' u' n v (snd (readreceipt_update K u r e db)) \<longleftrightarrow>
        (if (r', u') = (r, u) then n = count_of db + 1 \<and> v = receipt_enc K e else receipt_at r' u' n v db))"
  using receipts_inv_update [OF assms(1-4)] receipt_at_update [OF assms] by auto

theorem read_receipt_replaces_witness:
  "receipt_at (ascii ''!r'') (ascii ''@a'') 1 (ascii ''!r'')
     (snd (readreceipt_update text_edu_codec (ascii ''@a'') (ascii ''!r'') sample_receipt empty_edus_db))"
proof -
  have u: "utf8 (ascii ''!r'')" "utf8 (ascii ''@a'')" by (simp_all add: ascii_def)
  have "unat (count_of empty_edus_db) + 1 < 2 ^ 64" by (simp add: empty_edus_count)
  from read_receipt_replaces [OF empty_edus_inv u this u(1), where K = text_edu_codec and e = sample_receipt
      and u' = "ascii ''@a''" and n = 1 and v = "ascii ''!r''"]
  show ?thesis by (simp add: empty_edus_count text_edu_codec_def sample_receipt_def)
qed

text \<open>
  What a room reports since a position is exactly the receipts filed later, each with its user
  and count and without its room id; rows that do not decode are errors, never silently dropped.
\<close>

theorem readreceipts_since_complete:
  assumes "receipts_inv db" "utf8 r" "since \<noteq> u64_max"
    and "\<forall>u n v. receipt_at r u n v db \<longrightarrow> valid_user_id R u \<and> canonical_dec K v \<noteq> None"
  shows "set (readreceipts_since K R r since db) =
    {Ok (u, n, canonical_raw K (AList.delete (ascii ''room_id'') j)) | u n v j.
       receipt_at r u n v db \<and> since < n \<and> canonical_dec K v = Some j}"
proof -
  let ?p = "r @ [sep]" and ?row = "read_receipt_row K R (length (r @ [sep]))"
  let ?rows = "takeWhile (\<lambda>(k, _). starts_with k ?p)
      (kv_iter_from (readreceiptid_readreceipt db) (?p @ to_be_bytes (since + 1)) False)"
  have "set ?rows = {(k, v). kv_get (readreceiptid_readreceipt db) k = Some v \<and> starts_with k ?p
      \<and> ?p @ to_be_bytes (since + 1) \<le> k}"
    using receipts_wf [OF assms(1)] by (intro kv.set_scan_since) simp_all
  moreover have "since + 1 \<le> n \<longleftrightarrow> since < n" for n using less_add_1_iff [of since n] assms(3) by simp
  ultimately have rows: "set ?rows = {(receipt_id r n u, v) | u n v. receipt_at r u n v db \<and> since < n}"
    using assms(2) by (auto simp: receipt_id_prefix receipt_id_le elim!: receipt_keys [OF assms(1)])
      (auto simp: receipt_at_def receipt_id_prefix receipt_id_le)
  have row: "?row (receipt_id r n u, v) = Ok (u, n, canonical_raw K (AList.delete (ascii ''room_id'') j))"
    if "receipt_at r u n v db" "canonical_dec K v = Some j" for u n v j
    using that assms(4) receipt_count [OF assms(1,2)]
    by (auto simp: read_receipt_row_def slice_def receipt_id_def)
  have "?row ` {(receipt_id r n u, v) | u n v. receipt_at r u n v db \<and> since < n} =
    {Ok (u, n, canonical_raw K (AList.delete (ascii ''room_id'') j)) | u n v j.
       receipt_at r u n v db \<and> since < n \<and> canonical_dec K v = Some j}" (is "?A = ?B")
  proof (intro equalityI subsetI)
    fix x assume "x \<in> ?A"
    then obtain u n v where x: "x = ?row (receipt_id r n u, v)" "receipt_at r u n v db" "since < n" by blast
    moreover obtain j where j: "canonical_dec K v = Some j" using assms(4) x(2) by blast
    ultimately have "x = Ok (u, n, canonical_raw K (AList.delete (ascii ''room_id'') j))" using row by simp
    then show "x \<in> ?B" using x j by blast
  next
    fix x assume "x \<in> ?B"
    then obtain u n v j where x: "x = Ok (u, n, canonical_raw K (AList.delete (ascii ''room_id'') j))"
      "receipt_at r u n v db" "since < n" "canonical_dec K v = Some j" by blast
    then have "x = ?row (receipt_id r n u, v)" using row by simp
    then show "x \<in> ?A" using x(2,3) by blast
  qed
  then show ?thesis unfolding readreceipts_since_def Let_def set_map rows .
qed

theorem readreceipts_since_complete_witness:
  "set (readreceipts_since text_edu_codec accept_all (ascii ''!r'') 0
     (snd (readreceipt_update text_edu_codec (ascii ''@a'') (ascii ''!r'') sample_receipt empty_edus_db)))
   \<noteq> {}"
proof -
  let ?db = "snd (readreceipt_update text_edu_codec (ascii ''@a'') (ascii ''!r'') sample_receipt empty_edus_db)"
  have u: "utf8 (ascii ''!r'')" "utf8 (ascii ''@a'')" by (simp_all add: ascii_def)
  have c: "unat (count_of empty_edus_db) + 1 < 2 ^ 64" "count_of empty_edus_db \<noteq> u64_max" by (simp_all add: empty_edus_count)
  have inv: "receipts_inv ?db" using receipts_inv_update [OF empty_edus_inv u c(1)] .
  have r: "receipt_at (ascii ''!r'') (ascii ''@a'') 1 (receipt_enc text_edu_codec sample_receipt) ?db"
    using receipt_at_update(2) [OF empty_edus_inv u c(1) u(1)] by (simp add: empty_edus_count)
  have dec: "canonical_dec text_edu_codec v = Some [(ascii ''room_id'', JString v)]" for v by (simp add: text_edu_codec_def)
  have "\<forall>u n v. receipt_at (ascii ''!r'') u n v ?db \<longrightarrow> valid_user_id accept_all u \<and> canonical_dec text_edu_codec v \<noteq> None"
    by (simp add: accept_all_def dec)
  moreover have "\<exists>u n. (\<exists>v. receipt_at (ascii ''!r'') u n v ?db) \<and> (0 :: u64) < n"
    using r by (intro exI [of _ "ascii ''@a''"] exI [of _ 1]) auto
  ultimately show ?thesis using readreceipts_since_complete [OF inv u(1), of 0 accept_all text_edu_codec] dec by auto
qed

text \<open>
  Once typing notifications are maintained, a room lists exactly the users whose timeout has not
  passed, in order; the room gets a new count exactly if somebody was dropped, and no other room changes.
\<close>

theorem typings_maintained:
  assumes "typing_wf db" "kv_wf (global db)"
  shows "let db' = snd (typings_maintain now r db);
             late = filter (\<lambda>(_, timeout). timeout < now) (typing_room r db)
    in fst (typings_maintain now r db) = Ok ()
      \<and> typings_all r db' = sort (map fst (filter (\<lambda>(_, timeout). \<not> timeout < now) (typing_room r db)))
      \<and> (r' \<noteq> r \<longrightarrow> typings_all r' db' = typings_all r' db)
      \<and> count_of db' = (if late = [] then count_of db else count_of db + 1)
      \<and> map_of (last_typing_updates db') r =
          (if late = [] then map_of (last_typing_updates db) r else Some (count_of db + 1))"
proof (cases "map_of (typing db) r")
  case None
  then show ?thesis by (simp add: typings_maintain_def typing_room_def typings_all_def)
next
  case (Some room)
  then have d: "distinct (map fst room)" using assms(1) by (auto simp: typing_wf_def)
  have tr: "typing_room r db = room" using Some by (simp add: typing_room_def)
  show ?thesis
  proof (cases "filter (\<lambda>(_, timeout). timeout < now) room = []")
    case True
    then have "filter (\<lambda>(_, timeout). \<not> timeout < now) room = room"
      by (auto simp: filter_empty_conv intro!: filter_True)
    then show ?thesis using True Some tr by (simp add: typings_maintain_def typings_all_def Let_def)
  next
    case False
    then show ?thesis using Some tr distinct_expired [OF d, of now] assms(2)
      by (simp add: typings_maintain_def typing_changed_def typings_all_def typing_room_def Let_def
          next_count_eq count_of_def kv_simps fold_delete_filter update_conv')
  qed
qed

theorem typings_maintained_witness:
  "typings_all (ascii ''!r'') (snd (typings_maintain 5 (ascii ''!r'')
     (empty_edus_db\<lparr>typing := [(ascii ''!r'', [(ascii ''@b'', 9), (ascii ''@a'', 3)])]\<rparr>))) = [ascii ''@b'']"
proof -
  let ?db = "empty_edus_db\<lparr>typing := [(ascii ''!r'', [(ascii ''@b'', 9), (ascii ''@a'', 3)])]\<rparr>"
  have "typing_wf ?db" by (simp add: typing_wf_def ascii_def)
  moreover have "kv_wf (global ?db)" by (simp add: empty_edus_global)
  ultimately show ?thesis using typings_maintained [of ?db 5 "ascii ''!r''" "ascii ''!r''"]
    by (simp add: Let_def typing_room_def)
qed

end
