(* ===== verification/Search.thy ===== *)
theory Search
  imports Edus Text
begin

text \<open>
  Intersections of ordered listings: \<open>utils::common_elements\<close> (\<^verbatim>\<open>server/src/utils/mod.rs\<close>) and its two
  clients, the message search of \<^verbatim>\<open>server/src/database/key_value/rooms/search.rs\<close> and the rooms
  several users share, of \<^verbatim>\<open>server/src/database/key_value/rooms/user.rs\<close>.

  The inverted index has one row per room, word and message. The Unicode tables of the standard
  library (which characters are alphanumeric, what their lower case is) are a parameter.
\<close>

section \<open>Common elements of several listings\<close>

definition bytes_cmp :: "bytes \<Rightarrow> bytes \<Rightarrow> ordering" where
  "bytes_cmp a b = (if a < b then Less else if a = b then Equal else Greater)"

text \<open>The \<open>while let Some(element) = it.peek()\<close> loop: the answer, and what is left of the iterator.\<close>

fun seek :: "('a \<Rightarrow> 'a \<Rightarrow> ordering) \<Rightarrow> 'a \<Rightarrow> 'a list \<Rightarrow> bool \<times> 'a list" where
  "seek check_order target [] = (False, [])"
| "seek check_order target (element # it) =
     (case check_order element target of
        Greater \<Rightarrow> (False, element # it)
      | Equal \<Rightarrow> (True, element # it)
      | Less \<Rightarrow> seek check_order target it)"

text \<open>\<open>other_iterators.iter_mut().all(..)\<close> stops at the first iterator that does not have the target.\<close>

fun all_seek :: "('a \<Rightarrow> 'a \<Rightarrow> ordering) \<Rightarrow> 'a \<Rightarrow> 'a list list \<Rightarrow> bool \<times> 'a list list" where
  "all_seek check_order target [] = (True, [])"
| "all_seek check_order target (it # its) =
     (let (found, it') = seek check_order target it
      in if found then let (b, its') = all_seek check_order target its in (b, it' # its')
         else (False, it' # its))"

fun filter_common :: "('a \<Rightarrow> 'a \<Rightarrow> ordering) \<Rightarrow> 'a list \<Rightarrow> 'a list list \<Rightarrow> 'a list" where
  "filter_common check_order [] other_iterators = []"
| "filter_common check_order (target # first_iterator) other_iterators =
     (let (b, others) = all_seek check_order target other_iterators;
          rest = filter_common check_order first_iterator others
      in if b then target # rest else rest)"

definition common_elements :: "'a list list \<Rightarrow> ('a \<Rightarrow> 'a \<Rightarrow> ordering) \<Rightarrow> 'a list option" where
  "common_elements iterators check_order =
     (case iterators of
        [] \<Rightarrow> None
      | first_iterator # others \<Rightarrow> Some (filter_common check_order first_iterator others))"

text \<open>What \<open>common_elements\<close> relies on: a comparison that is a strict total order.\<close>

locale total_check =
  fixes check_order :: "'a \<Rightarrow> 'a \<Rightarrow> ordering"
  assumes check_Equal: "check_order a b = Equal \<longleftrightarrow> a = b"
    and check_swap: "check_order a b = Greater \<longleftrightarrow> check_order b a = Less"
    and check_trans: "check_order a b = Less \<Longrightarrow> check_order b c = Less \<Longrightarrow> check_order a c = Less"
begin

definition before :: "'a \<Rightarrow> 'a \<Rightarrow> bool" where
  "before a b \<longleftrightarrow> check_order a b = Less"

definition trim :: "'a \<Rightarrow> 'a list \<Rightarrow> 'a list" where
  "trim target it = dropWhile (\<lambda>e. before e target) it"

lemma before_irrefl: "\<not> before a a"
  using check_Equal [of a a] by (simp add: before_def)

lemma before_trans: "before a b \<Longrightarrow> before b c \<Longrightarrow> before a c"
  unfolding before_def by (rule check_trans)

lemma seek_correct:
  "sorted_wrt before it \<Longrightarrow> seek check_order target it = (target \<in> set it, trim target it)"
proof (induction it)
  case (Cons e it)
  show ?case
  proof (cases "check_order e target")
    case Less
    then have "e \<noteq> target" "before e target" using check_Equal [of e target] by (auto simp: before_def)
    then show ?thesis using Cons Less by (auto simp: trim_def)
  next
    case Equal
    then show ?thesis using check_Equal [of e target] before_irrefl by (simp add: trim_def)
  next
    case Greater
    then have b: "before target e" using check_swap [of e target] by (simp add: before_def)
    have "target \<notin> set (e # it)"
      using Cons.prems b before_irrefl [of target] before_trans [of target e target] by auto
    moreover have "\<not> before e target" using Greater by (simp add: before_def)
    ultimately show ?thesis using Greater by (simp add: trim_def)
  qed
qed (simp add: trim_def)

lemma sorted_trim: "sorted_wrt before it \<Longrightarrow> sorted_wrt before (trim target it)"
  unfolding trim_def by (induction it) auto

lemma trim_keeps:
  "before target x \<Longrightarrow> sorted_wrt before it \<Longrightarrow> x \<in> set (trim target it) \<longleftrightarrow> x \<in> set it"
proof (induction it)
  case (Cons e it)
  then show ?case using before_irrefl before_trans [of x target x] by (auto simp: trim_def)
qed (simp add: trim_def)

lemma all_seek_correct:
  assumes "\<forall>it \<in> set its. sorted_wrt before it"
  shows "fst (all_seek check_order target its) \<longleftrightarrow> (\<forall>it \<in> set its. target \<in> set it)"
    and "\<forall>it \<in> set (snd (all_seek check_order target its)). sorted_wrt before it"
    and "before target x \<Longrightarrow>
      (\<forall>it \<in> set (snd (all_seek check_order target its)). x \<in> set it) \<longleftrightarrow> (\<forall>it \<in> set its. x \<in> set it)"
  using assms
  by (induction its)
     (auto simp: seek_correct sorted_trim trim_keeps split_beta Let_def split: if_splits)

lemma filter_common_correct:
  assumes "sorted_wrt before first" "\<forall>it \<in> set others. sorted_wrt before it"
  shows "filter_common check_order first others = filter (\<lambda>x. \<forall>it \<in> set others. x \<in> set it) first"
  using assms
proof (induction first arbitrary: others)
  case (Cons t first)
  let ?others = "snd (all_seek check_order t others)"
  have IH: "filter_common check_order first ?others = filter (\<lambda>x. \<forall>it \<in> set ?others. x \<in> set it) first"
    using Cons all_seek_correct(2) by auto
  have "filter (\<lambda>x. \<forall>it \<in> set ?others. x \<in> set it) first = filter (\<lambda>x. \<forall>it \<in> set others. x \<in> set it) first"
    using Cons.prems by (intro filter_cong refl all_seek_correct(3)) auto
  then show ?case using IH all_seek_correct(1) [OF Cons.prems(2), of t] by (simp add: split_beta Let_def)
qed simp

end

interpretation ascending: total_check bytes_cmp
  by unfold_locales (auto simp: bytes_cmp_def split: if_splits)

interpretation descending: total_check "\<lambda>a b. bytes_cmp b a"
  by unfold_locales (auto simp: bytes_cmp_def split: if_splits)

lemma ascending_before [simp]: "ascending.before = (<)"
  by (intro ext) (unfold ascending.before_def, auto simp: bytes_cmp_def split: if_splits)

lemma descending_before [simp]: "descending.before = (>)"
  by (intro ext) (unfold descending.before_def, auto simp: bytes_cmp_def split: if_splits)

lemma common_elements_ascending:
  "sorted_wrt (<) first \<Longrightarrow> \<forall>it \<in> set others. sorted_wrt (<) it \<Longrightarrow>
   common_elements (first # others) bytes_cmp = Some (filter (\<lambda>x. \<forall>it \<in> set others. x \<in> set it) first)"
  using ascending.filter_common_correct [of first others] by (simp add: common_elements_def)

lemma common_elements_descending:
  "sorted_wrt (>) first \<Longrightarrow> \<forall>it \<in> set others. sorted_wrt (>) it \<Longrightarrow>
   common_elements (first # others) (\<lambda>a b. bytes_cmp b a)
     = Some (filter (\<lambda>x. \<forall>it \<in> set others. x \<in> set it) first)"
  using descending.filter_common_correct [of first others] by (simp add: common_elements_def)

section \<open>The inverted index\<close>

record search_db = edus_db +
  tokenids :: kvtree

record unicode =
  alphanumeric :: "str \<Rightarrow> bool"
  to_lowercase :: "str \<Rightarrow> str"

definition tokenize :: "unicode \<Rightarrow> str \<Rightarrow> str list" where
  "tokenize U body =
     map (to_lowercase U)
       (filter (\<lambda>word. length word \<le> 50)
         (filter (\<lambda>s. s \<noteq> []) (split_terminator (\<lambda>c. \<not> alphanumeric U c) body)))"

definition token_key :: "u64 \<Rightarrow> str \<Rightarrow> bytes \<Rightarrow> bytes" where
  "token_key shortroomid word pdu_id = to_be_bytes shortroomid @ word @ [sep] @ pdu_id"

definition index_pdu :: "unicode \<Rightarrow> u64 \<Rightarrow> bytes \<Rightarrow> str \<Rightarrow> 'a search_db_scheme \<Rightarrow> 'a search_db_scheme" where
  "index_pdu U shortroomid pdu_id message_body db =
     db\<lparr>tokenids := kv_insert_batch (tokenids db)
          (map (\<lambda>word. (token_key shortroomid word pdu_id, [])) (tokenize U message_body))\<rparr>"

definition deindex_pdu :: "unicode \<Rightarrow> u64 \<Rightarrow> bytes \<Rightarrow> str \<Rightarrow> 'a search_db_scheme \<Rightarrow> 'a search_db_scheme" where
  "deindex_pdu U shortroomid pdu_id message_body db =
     db\<lparr>tokenids := kv_remove_keys (tokenids db)
          (map (\<lambda>word. token_key shortroomid word pdu_id) (tokenize U message_body))\<rparr>"

text \<open>The messages with one word, newest first.\<close>

definition word_pdus :: "u64 \<Rightarrow> str \<Rightarrow> 'a search_db_scheme \<Rightarrow> bytes list" where
  "word_pdus shortroomid word db =
     (let prefix2 = to_be_bytes shortroomid @ word @ [sep];
          last_possible_id = prefix2 @ to_be_bytes u64_max
      in map (\<lambda>(key, _). drop (length prefix2) key)
           (takeWhile (\<lambda>(k, _). starts_with k prefix2) (kv_iter_from (tokenids db) last_possible_id True)))"

definition search_pdus ::
  "unicode \<Rightarrow> str \<Rightarrow> str \<Rightarrow> 'a search_db_scheme \<Rightarrow> (bytes list \<times> str list) option result" where
  "search_pdus U room_id search_string db =
     and_then (get_shortroomid room_id db) (\<lambda>short.
     and_then (ok_or (Panicked ''room exists'') short) (\<lambda>shortroomid.
       let words = tokenize U search_string
       in case common_elements (map (\<lambda>word. word_pdus shortroomid word db) words) (\<lambda>a b. bytes_cmp b a) of
            None \<Rightarrow> Ok None
          | Some it \<Rightarrow> Ok (Some (it, words))))"

section \<open>Rooms in common\<close>

definition joined_room_part :: "bytes \<Rightarrow> bytes result" where
  "joined_room_part key =
     (case dropWhile (\<lambda>b. b \<noteq> sep) key of
        [] \<Rightarrow> Err (BadDatabase ''Invalid userroomid_joined in db.'')
      | _ # room_id \<Rightarrow> Ok room_id)"

definition get_shared_rooms :: "ruma \<Rightarrow> str list \<Rightarrow> 'a statecache_db_scheme \<Rightarrow> str result list result" where
  "get_shared_rooms R users db =
     (case common_elements
             (map (\<lambda>user_id. oks (map (\<lambda>(key, _). joined_room_part key)
                                    (kv_scan_prefix (userroomid_joined db) (user_id @ [sep])))) users)
             bytes_cmp of
        None \<Rightarrow> Err (Panicked ''users is not empty'')
      | Some it \<Rightarrow>
          Ok (map (parse_id (valid_room_id R) ''Invalid RoomId bytes in userroomid_joined''
                     ''Invalid RoomId in userroomid_joined.'') it))"

section \<open>Words\<close>

text \<open>\<open>str::to_lowercase\<close> returns UTF-8, which has no byte \<open>0xff\<close>.\<close>

definition lowercase_ok :: "unicode \<Rightarrow> bool" where
  "lowercase_ok U \<longleftrightarrow> (\<forall>s. sep \<notin> set s \<longrightarrow> sep \<notin> set (to_lowercase U s))"

lemma tokenize_no_sep:
  assumes "lowercase_ok U" "sep \<notin> set body" "w \<in> set (tokenize U body)"
  shows "sep \<notin> set w"
proof -
  have "sep \<notin> set p" if "p \<in> set (split_chars P (chars body))" for p P
    using set_split_chars [OF that] assms(2) by (auto simp: concat_chars)
  then have "sep \<notin> set p" if "p \<in> set (split_terminator P body)" for p P
    using that by (auto simp: split_terminator_def Let_def split: if_splits dest: in_set_butlastD)
  then show ?thesis using assms(1,3) by (auto simp: tokenize_def lowercase_ok_def)
qed

section \<open>The index finds what it holds\<close>

definition indexed :: "u64 \<Rightarrow> bytes \<Rightarrow> str \<Rightarrow> 'a search_db_scheme \<Rightarrow> bool" where
  "indexed shortroomid pdu_id word db \<longleftrightarrow> kv_get (tokenids db) (token_key shortroomid word pdu_id) \<noteq> None"

lemma token_key_inj [simp]:
  assumes "sep \<notin> set w" "sep \<notin> set w'"
  shows "token_key s w p = token_key s' w' p' \<longleftrightarrow> s = s' \<and> w = w' \<and> p = p'"
  using sep_append_inj [OF assms] by (auto simp: token_key_def)

lemma indexed_index:
  assumes "kv_wf (tokenids db)" "sep \<notin> set w" "\<forall>w' \<in> set (tokenize U body). sep \<notin> set w'"
  shows "indexed s p' w (index_pdu U s p body db) \<longleftrightarrow>
    indexed s p' w db \<or> p' = p \<and> w \<in> set (tokenize U body)"
proof -
  let ?kvs = "map (\<lambda>w. (token_key s w p, [] :: bytes)) (tokenize U body)"
  have "kv_get (kv_insert_batch (tokenids db) ?kvs) (token_key s w p') \<noteq> None \<longleftrightarrow>
      kv_get (tokenids db) (token_key s w p') \<noteq> None \<or> token_key s w p' \<in> fst ` set ?kvs"
    using map_of_eq_None_iff [of "rev ?kvs" "token_key s w p'"]
    by (cases "map_of (rev ?kvs) (token_key s w p')") (simp_all only: kv_get_insert_batch [OF assms(1)], auto)
  moreover have "token_key s w p' \<in> fst ` set ?kvs \<longleftrightarrow> p' = p \<and> w \<in> set (tokenize U body)"
    using assms(2,3) by (auto simp: image_iff)
  ultimately show ?thesis by (simp add: indexed_def index_pdu_def)
qed

lemma indexed_deindex:
  assumes "kv_wf (tokenids db)" "sep \<notin> set w" "\<forall>w' \<in> set (tokenize U body). sep \<notin> set w'"
  shows "indexed s p' w (deindex_pdu U s p body db) \<longleftrightarrow>
    indexed s p' w db \<and> \<not> (p' = p \<and> w \<in> set (tokenize U body))"
  using assms by (auto simp: indexed_def deindex_pdu_def kv_get_remove_keys)

lemma drop_prefix_less:
  "prefix p a \<Longrightarrow> prefix p b \<Longrightarrow> drop (length p) a < drop (length p) b \<longleftrightarrow> a < (b :: bytes)"
  by (auto simp: prefix_def)

lemma sorted_drop_prefix:
  "sorted_wrt (>) ks \<Longrightarrow> \<forall>k \<in> set ks. prefix p k \<Longrightarrow> sorted_wrt (>) (map (\<lambda>k. drop (length p) k :: bytes) ks)"
  unfolding sorted_wrt_map by (rule sorted_wrt_mono_rel) (simp_all add: drop_prefix_less)

lemma sorted_drop_prefix_ascending:
  "sorted_wrt (<) ks \<Longrightarrow> \<forall>k \<in> set ks. prefix p k \<Longrightarrow> sorted_wrt (<) (map (\<lambda>k. drop (length p) k :: bytes) ks)"
  unfolding sorted_wrt_map by (rule sorted_wrt_mono_rel) (simp_all add: drop_prefix_less)

lemma word_pdus_correct:
  assumes "kv_wf (tokenids db)"
  shows "sorted_wrt (>) (word_pdus s w db)"
    and "set (word_pdus s w db) = {p. p \<le> to_be_bytes u64_max \<and> indexed s p w db}"
proof -
  let ?p = "to_be_bytes s @ w @ [sep]"
  let ?rows = "takeWhile (\<lambda>(k, _). starts_with k ?p) (kv_iter_from (tokenids db) (?p @ to_be_bytes u64_max) True)"
  have pre: "starts_with (?p @ to_be_bytes u64_max) ?p" by (rule prefixI) (rule refl)
  have S: "set ?rows = {(k, v). kv_get (tokenids db) k = Some v \<and> starts_with k ?p \<and> k \<le> ?p @ to_be_bytes u64_max}"
    by (rule kv.set_scan_until [OF assms pre])
  have so: "sorted_wrt (>) (map fst ?rows)" by (rule kv.sorted_scan_until [OF assms pre])
  have W: "word_pdus s w db = map (\<lambda>k. drop (length ?p) k) (map fst ?rows)"
    by (simp add: word_pdus_def Let_def split_beta comp_def)
  have keys: "\<forall>k \<in> set (map fst ?rows). prefix ?p k" using S by auto
  then show "sorted_wrt (>) (word_pdus s w db)" unfolding W by (rule sorted_drop_prefix [OF so])
  show "set (word_pdus s w db) = {p. p \<le> to_be_bytes u64_max \<and> indexed s p w db}"
  proof (intro set_eqI iffI)
    fix p assume "p \<in> set (word_pdus s w db)"
    then obtain k v where kv: "(k, v) \<in> set ?rows" "p = drop (length ?p) k" unfolding W by auto
    then obtain z where z: "k = ?p @ z" using keys by (force simp: prefix_def)
    then have "p = z" using kv(2) by simp
    moreover have "?p @ z \<le> ?p @ to_be_bytes u64_max" "kv_get (tokenids db) k = Some v"
      using kv(1) unfolding S z by blast+
    ultimately show "p \<in> {p. p \<le> to_be_bytes u64_max \<and> indexed s p w db}"
      using z append_le_append [of ?p] by (simp add: indexed_def token_key_def)
  next
    fix p assume "p \<in> {p. p \<le> to_be_bytes u64_max \<and> indexed s p w db}"
    then obtain v where v: "p \<le> to_be_bytes u64_max" "kv_get (tokenids db) (?p @ p) = Some v"
      by (auto simp: indexed_def token_key_def)
    then have "(?p @ p, v) \<in> set ?rows" unfolding S using append_le_append [of ?p] by (auto simp: prefix_def)
    then have "?p @ p \<in> set (map fst ?rows)" by force
    then show "p \<in> set (word_pdus s w db)" unfolding W set_map [of "drop (length ?p)"]
      by (rule rev_image_eqI) simp
  qed
qed

lemma search_pdus_correct:
  assumes "kv_wf (tokenids db)" "get_shortroomid room db = Ok (Some s)" "tokenize U q \<noteq> []"
  obtains ids where "search_pdus U room q db = Ok (Some (ids, tokenize U q))" "sorted_wrt (>) ids"
    "set ids = {p. p \<le> to_be_bytes u64_max \<and> (\<forall>w \<in> set (tokenize U q). indexed s p w db)}"
proof -
  obtain w ws where w: "tokenize U q = w # ws" using assms(3) by (cases "tokenize U q") auto
  note W = word_pdus_correct [OF assms(1), of s]
  let ?ids = "filter (\<lambda>x. \<forall>it \<in> set (map (\<lambda>w. word_pdus s w db) ws). x \<in> set it) (word_pdus s w db)"
  have "common_elements (map (\<lambda>w. word_pdus s w db) (tokenize U q)) (\<lambda>a b. bytes_cmp b a) = Some ?ids"
    unfolding w list.map using W(1) by (intro common_elements_descending) auto
  then have "search_pdus U room q db = Ok (Some (?ids, tokenize U q))"
    by (simp add: search_pdus_def assms(2))
  moreover have "sorted_wrt (>) ?ids" using W(1) by (rule sorted_wrt_filter)
  moreover have "set ?ids = {p. p \<le> to_be_bytes u64_max \<and> (\<forall>w \<in> set (tokenize U q). indexed s p w db)}"
    by (auto simp: w W(2))
  ultimately show ?thesis by (rule that)
qed

section \<open>Properties\<close>

text \<open>
  C27: on strictly ascending listings, \<open>common_elements\<close>, which moves through all of them once,
  returns the elements of the first listing that every other listing has.
\<close>

theorem common_elements_is_intersection:
  assumes "sorted_wrt (<) first" "\<forall>it \<in> set others. sorted_wrt (<) it"
  shows "common_elements (first # others) bytes_cmp = Some (filter (\<lambda>x. \<forall>it \<in> set others. x \<in> set it) first)"
  using assms by (rule common_elements_ascending)

theorem common_elements_is_intersection_witness:
  "common_elements [[[1], [2], [4]], [[2], [3], [4]], [[1], [4]]] bytes_cmp = Some [[4]]"
  by (subst common_elements_is_intersection) simp_all

text \<open>
  C14: a message is found by a search exactly when every word of the search is a word of its body,
  results come newest first, and once its words are taken out of the index the message is not found
  any more.
\<close>

theorem search_finds_exactly:
  assumes "kv_wf (tokenids db)" "get_shortroomid room db = Ok (Some s)" "lowercase_ok U"
    and "sep \<notin> set body" "sep \<notin> set q" "tokenize U q \<noteq> []" "p \<le> to_be_bytes u64_max"
    and fresh: "\<forall>w. kv_get (tokenids db) (token_key s w p) = None"
  shows "(\<exists>ids. search_pdus U room q (index_pdu U s p body db) = Ok (Some (ids, tokenize U q))
      \<and> sorted_wrt (>) ids \<and> (p \<in> set ids \<longleftrightarrow> set (tokenize U q) \<subseteq> set (tokenize U body)))
    \<and> (\<exists>ids. search_pdus U room q (deindex_pdu U s p body (index_pdu U s p body db)) = Ok (Some (ids, tokenize U q))
      \<and> p \<notin> set ids)"
proof -
  let ?db1 = "index_pdu U s p body db" and ?db2 = "deindex_pdu U s p body (index_pdu U s p body db)"
  have wf: "kv_wf (tokenids ?db1)" "kv_wf (tokenids ?db2)"
    using assms(1) by (simp_all add: index_pdu_def deindex_pdu_def kv_intros)
  have r: "get_shortroomid room ?db1 = Ok (Some s)" "get_shortroomid room ?db2 = Ok (Some s)"
    using assms(2) by (simp_all add: index_pdu_def deindex_pdu_def get_shortroomid_def)
  have b: "\<forall>w \<in> set (tokenize U body). sep \<notin> set w" and nq: "sep \<notin> set w" if "w \<in> set (tokenize U q)" for w
    using tokenize_no_sep assms(3,4,5) that by blast+
  have old: "\<not> indexed s p w db" for w using fresh by (simp add: indexed_def)
  have i1: "indexed s p w ?db1 \<longleftrightarrow> w \<in> set (tokenize U body)"
    and i2: "\<not> indexed s p w ?db2" if "w \<in> set (tokenize U q)" for w
    using indexed_index [OF assms(1) nq [OF that] b [OF that]] indexed_deindex [OF wf(1) nq [OF that] b [OF that]]
      old by blast+
  obtain ids where "search_pdus U room q ?db1 = Ok (Some (ids, tokenize U q))" "sorted_wrt (>) ids"
    "set ids = {x. x \<le> to_be_bytes u64_max \<and> (\<forall>w \<in> set (tokenize U q). indexed s x w ?db1)}"
    by (rule search_pdus_correct [OF wf(1) r(1) assms(6)])
  then have found: "\<exists>ids. search_pdus U room q ?db1 = Ok (Some (ids, tokenize U q)) \<and> sorted_wrt (>) ids
      \<and> (p \<in> set ids \<longleftrightarrow> set (tokenize U q) \<subseteq> set (tokenize U body))"
    using assms(7) i1 by (intro exI [of _ ids]) (auto simp: subset_iff)
  obtain ids where "search_pdus U room q ?db2 = Ok (Some (ids, tokenize U q))"
    "set ids = {x. x \<le> to_be_bytes u64_max \<and> (\<forall>w \<in> set (tokenize U q). indexed s x w ?db2)}"
    by (rule search_pdus_correct [OF wf(2) r(2) assms(6)])
  moreover from this have "p \<notin> set ids"
    using i2 assms(6) by (cases "tokenize U q") auto
  ultimately have "\<exists>ids. search_pdus U room q ?db2 = Ok (Some (ids, tokenize U q)) \<and> p \<notin> set ids" by blast
  then show ?thesis using found by blast
qed

text \<open>A search in English: letters and digits, lower case by adding 32.\<close>

definition english :: unicode where
  "english = \<lparr>alphanumeric = (\<lambda>c. case c of [b] \<Rightarrow> in_range 48 57 b \<or> in_range 65 90 b \<or> in_range 97 122 b | _ \<Rightarrow> False),
     to_lowercase = map (\<lambda>b. if in_range 65 90 b then b + 32 else b)\<rparr>"

definition empty_search_db :: search_db where
  "empty_search_db = edus_db.extend empty_edus_db \<lparr>tokenids = []\<rparr>"

definition one_room_db :: search_db where
  "one_room_db = empty_search_db\<lparr>roomid_shortroomid := [(ascii ''!r:x'', to_be_bytes 7)]\<rparr>"

lemma english_ok: "lowercase_ok english"
  by (auto simp: lowercase_ok_def english_def in_range_def)

theorem search_finds_exactly_witness:
  "\<exists>ids. search_pdus english (ascii ''!r:x'') (ascii ''Day'')
      (index_pdu english 7 (to_be_bytes 7 @ to_be_bytes 1) (ascii ''Good day'') one_room_db)
      = Ok (Some (ids, tokenize english (ascii ''Day'')))
    \<and> sorted_wrt (>) ids \<and> to_be_bytes 7 @ to_be_bytes 1 \<in> set ids"
proof -
  have t: "tokenize english (ascii ''Day'') = [ascii ''day'']"
    "tokenize english (ascii ''Good day'') = [ascii ''good'', ascii ''day'']"
    by code_simp+
  have "\<exists>ids. search_pdus english (ascii ''!r:x'') (ascii ''Day'')
      (index_pdu english 7 (to_be_bytes 7 @ to_be_bytes 1) (ascii ''Good day'') one_room_db)
      = Ok (Some (ids, tokenize english (ascii ''Day'')))
    \<and> sorted_wrt (>) ids \<and> (to_be_bytes 7 @ to_be_bytes 1 \<in> set ids \<longleftrightarrow>
      set (tokenize english (ascii ''Day'')) \<subseteq> set (tokenize english (ascii ''Good day'')))"
  proof (rule search_finds_exactly [OF _ _ english_ok, THEN conjunct1])
    show "kv_wf (tokenids one_room_db)" by (simp add: one_room_db_def empty_search_db_def edus_db.defs)
    show "get_shortroomid (ascii ''!r:x'') one_room_db = Ok (Some 7)"
      by (simp add: one_room_db_def get_shortroomid_def kv_get_def map_transpose_def)
    show "sep \<notin> set (ascii ''Good day'')" "sep \<notin> set (ascii ''Day'')" by code_simp+
    show "to_be_bytes 7 @ to_be_bytes 1 \<le> to_be_bytes u64_max"
      using append_less_same_length [of "to_be_bytes 7" "to_be_bytes u64_max" "to_be_bytes 1" "[]"] by simp
    show "\<forall>w. kv_get (tokenids one_room_db) (token_key 7 w (to_be_bytes 7 @ to_be_bytes 1)) = None"
      by (simp add: one_room_db_def empty_search_db_def edus_db.defs)
  qed (simp add: t)
  then show ?thesis by (simp add: t)
qed

text \<open>The listing of one user.\<close>

lemma joined_rooms_listed:
  assumes wf: "kv_wf (userroomid_joined db)" and nu: "sep \<notin> set u"
  defines "it \<equiv> oks (map (\<lambda>(key, _). joined_room_part key) (kv_scan_prefix (userroomid_joined db) (u @ [sep])))"
  shows "sorted_wrt (<) it \<and> set it = {r. is_joined u r db = Ok True}"
proof -
  let ?rows = "kv_scan_prefix (userroomid_joined db) (u @ [sep])"
  have S: "set ?rows = {(k, v). kv_get (userroomid_joined db) k = Some v \<and> starts_with k (u @ [sep])}"
    by (rule kv_scan_prefix_set [OF wf])
  have part: "(\<lambda>(key, _). joined_room_part key) x = Ok (drop (length (u @ [sep])) (fst x))" if "x \<in> set ?rows" for x
    using that nu unfolding S by (auto simp: joined_room_part_def prefix_def dropWhile_sep split: prod.splits)
  have it: "it = map (\<lambda>k. drop (length (u @ [sep])) k) (map fst ?rows)"
    unfolding it_def map_map comp_def by (rule oks_map_Inr) (rule part)
  have pre: "\<forall>k \<in> set (map fst ?rows). prefix (u @ [sep]) k" using S by auto
  have so: "sorted_wrt (<) (map fst ?rows)" by (rule kv_scan_prefix_sorted [OF wf])
  have "sorted_wrt (<) it" unfolding it by (rule sorted_drop_prefix_ascending [OF so pre])
  moreover have "set it = {r. is_joined u r db = Ok True}"
  proof (intro set_eqI iffI)
    fix r assume "r \<in> set it"
    then obtain k v where "(k, v) \<in> set ?rows" "r = drop (length (u @ [sep])) k" unfolding it by auto
    then show "r \<in> {r. is_joined u r db = Ok True}"
      unfolding S by (auto simp: prefix_def is_joined_def get_userroom_id_bytes_def)
  next
    fix r assume "r \<in> {r. is_joined u r db = Ok True}"
    then obtain v where "(u @ [sep] @ r, v) \<in> set ?rows"
      unfolding S by (auto simp: is_joined_def get_userroom_id_bytes_def prefix_def)
    then show "r \<in> set it" unfolding it by force
  qed
  ultimately show ?thesis by blast
qed

text \<open>
  The rooms several users share are exactly the rooms in which each of them is joined, in
  ascending order.
\<close>

theorem shared_rooms_correct:
  assumes wf: "kv_wf (userroomid_joined db)" and "users \<noteq> []" and u: "\<forall>u \<in> set users. sep \<notin> set u"
    and rooms: "\<forall>u r. kv_get (userroomid_joined db) (get_userroom_id_bytes u r) \<noteq> None \<longrightarrow> utf8 r \<and> valid_room_id R r"
  shows "\<exists>rooms. get_shared_rooms R users db = Ok (map Ok rooms) \<and> sorted_wrt (<) rooms
    \<and> set rooms = {r. \<forall>u \<in> set users. is_joined u r db = Ok True}"
proof -
  let ?it = "\<lambda>u. oks (map (\<lambda>(key, _). joined_room_part key) (kv_scan_prefix (userroomid_joined db) (u @ [sep])))"
  have it: "sorted_wrt (<) (?it u) \<and> set (?it u) = {r. is_joined u r db = Ok True}" if "u \<in> set users" for u
    using joined_rooms_listed [OF wf] u that by blast
  obtain v vs where v: "users = v # vs" using assms(2) by (cases users) auto
  let ?rooms = "filter (\<lambda>x. \<forall>it \<in> set (map ?it vs). x \<in> set it) (?it v)"
  have ce: "common_elements (map ?it users) bytes_cmp = Some ?rooms"
    unfolding v list.map by (intro common_elements_ascending) (use it v in auto)
  have S: "set ?rooms = {r. \<forall>u \<in> set users. is_joined u r db = Ok True}" using it by (auto simp: v)
  have "parse_id (valid_room_id R) m n r = Ok r" if "r \<in> set ?rooms" for r m n
  proof -
    have "is_joined v r db = Ok True" using that S v by auto
    then have "utf8 r \<and> valid_room_id R r" using rooms by (auto simp: is_joined_def)
    then show ?thesis by (simp add: parse_id_def)
  qed
  then have "get_shared_rooms R users db = Ok (map Ok ?rooms)"
    unfolding get_shared_rooms_def ce option.case by (intro arg_cong [of _ _ Ok] map_cong refl)
  moreover have "sorted_wrt (<) ?rooms" using it v by (simp add: sorted_wrt_filter)
  ultimately show ?thesis using S by blast
qed

lemma mark_as_joined_table:
  "userroomid_joined (mark_as_joined u r db) = kv_insert (userroomid_joined db) (get_userroom_id_bytes u r) []"
  by (simp add: mark_as_joined_def get_room_and_user_byte_ids_def Let_def)

theorem shared_rooms_correct_witness:
  "\<exists>rooms. get_shared_rooms accept_all [ascii ''@a:x'', ascii ''@b:x'']
      (mark_as_joined (ascii ''@b:x'') (ascii ''!r:x'')
        (mark_as_joined (ascii ''@a:x'') (ascii ''!r:x'') empty_statecache_db)) = Ok (map Ok rooms)
    \<and> sorted_wrt (<) rooms \<and> ascii ''!r:x'' \<in> set rooms"
proof -
  let ?db = "mark_as_joined (ascii ''@b:x'') (ascii ''!r:x'')
        (mark_as_joined (ascii ''@a:x'') (ascii ''!r:x'') empty_statecache_db)"
  let ?t = "kv_insert (kv_insert [] (ascii ''@a:x'' @ [sep] @ ascii ''!r:x'') []) (ascii ''@b:x'' @ [sep] @ ascii ''!r:x'') []"
  have t: "userroomid_joined ?db = ?t"
    by (simp add: mark_as_joined_table empty_statecache_db_def accounts_db.defs get_userroom_id_bytes_def del: kv_insert.simps)
  have wf: "kv_wf (userroomid_joined ?db)" unfolding t by (intro kv_intros)
  have "\<exists>rooms. get_shared_rooms accept_all [ascii ''@a:x'', ascii ''@b:x''] ?db = Ok (map Ok rooms)
    \<and> sorted_wrt (<) rooms \<and> set rooms = {r. \<forall>u \<in> set [ascii ''@a:x'', ascii ''@b:x'']. is_joined u r ?db = Ok True}"
  proof (rule shared_rooms_correct [OF wf])
    show "\<forall>u \<in> set [ascii ''@a:x'', ascii ''@b:x'']. sep \<notin> set u" by code_simp
    show "\<forall>u r. kv_get (userroomid_joined ?db) (get_userroom_id_bytes u r) \<noteq> None \<longrightarrow> utf8 r \<and> valid_room_id accept_all r"
    proof (intro allI impI)
      fix u r assume "kv_get (userroomid_joined ?db) (get_userroom_id_bytes u r) \<noteq> None"
      then have "u @ sep # r = ascii ''@a:x'' @ sep # ascii ''!r:x'' \<or> u @ sep # r = ascii ''@b:x'' @ sep # ascii ''!r:x''"
        unfolding t by (auto simp: kv_get_def get_userroom_id_bytes_def split: if_splits)
      then have "suffix r (ascii ''!r:x'')"
        by (auto simp: append_eq_append_conv2 append_eq_Cons_conv Cons_eq_append_conv ascii_def suffix_def)
      then show "utf8 r \<and> valid_room_id accept_all r"
        by (auto simp: accept_all_def ascii_def suffix_def append_eq_Cons_conv Cons_eq_append_conv)
    qed
  qed simp
  then obtain rooms where "get_shared_rooms accept_all [ascii ''@a:x'', ascii ''@b:x''] ?db = Ok (map Ok rooms)"
    "sorted_wrt (<) rooms" "set rooms = {r. \<forall>u \<in> set [ascii ''@a:x'', ascii ''@b:x'']. is_joined u r ?db = Ok True}"
    by blast
  moreover from this(3) have "ascii ''!r:x'' \<in> set rooms"
    by (simp add: is_joined_def t kv_simps kv_intros get_userroom_id_bytes_def del: kv_insert.simps)
  ultimately show ?thesis by blast
qed

end
