(* ===== verification/RoomMeta.thy ===== *)
theory RoomMeta
  imports Search
begin

text \<open>
  What is kept beside the events of a room: aliases (\<^verbatim>\<open>rooms/alias.rs\<close> of the storage layer and
  \<^verbatim>\<open>service/rooms/alias/mod.rs\<close>, with \<open>user_is_admin\<close> of \<^verbatim>\<open>service/admin/mod.rs\<close>), the public directory
  (\<^verbatim>\<open>rooms/directory.rs\<close>), existence and blocking (\<^verbatim>\<open>rooms/metadata.rs\<close>), lazily loaded members
  (\<^verbatim>\<open>rooms/lazy_load.rs\<close>, \<^verbatim>\<open>service/rooms/lazy_loading/mod.rs\<close>), notification counts and sync tokens
  (\<^verbatim>\<open>rooms/user.rs\<close>), relations and references (\<^verbatim>\<open>rooms/pdu_metadata.rs\<close>) and threads
  (\<^verbatim>\<open>rooms/threads.rs\<close>).
\<close>

record rooms_db = search_db +
  alias_userid :: kvtree
  alias_roomid :: kvtree
  aliasid_alias :: kvtree
  publicroomids :: kvtree
  disabledroomids :: kvtree
  lazyloadedids :: kvtree
  roomuserid_lastnotificationread :: kvtree
  roomsynctoken_shortstatehash :: kvtree
  tofrom_relation :: kvtree
  referencedevents :: kvtree
  softfailedeventids :: kvtree
  threadid_userids :: kvtree
  lazy_load_waiting :: "(str \<times> str \<times> str \<times> pdu_count) \<rightharpoonup> str list"

section \<open>Aliases\<close>

text \<open>
  \<open>alias_localpart\<close> is \<open>RoomAliasId::alias\<close>; \<open>can_change_aliases\<close> is whether the power levels of a room let a user
  send its canonical alias event.
\<close>

record alias_env =
  alias_ruma :: ruma
  alias_localpart :: "str \<Rightarrow> str"
  admin_alias :: str
  server_user :: str
  can_change_aliases :: "str \<Rightarrow> str \<Rightarrow> bool result"

definition set_alias_db ::
  "alias_env \<Rightarrow> str \<Rightarrow> str \<Rightarrow> str \<Rightarrow> 'a rooms_db_scheme \<Rightarrow> unit result \<times> 'a rooms_db_scheme" where
  "set_alias_db E alias room_id user_id db =
     (let db = db\<lparr>alias_userid := kv_insert (alias_userid db) (alias_localpart E alias) user_id,
                  alias_roomid := kv_insert (alias_roomid db) (alias_localpart E alias) room_id\<rparr>
      in step_then (next_count db) (\<lambda>count db.
           (Ok (), db\<lparr>aliasid_alias := kv_insert (aliasid_alias db) (room_id @ [sep] @ to_be_bytes count) alias\<rparr>)))"

definition remove_alias_db ::
  "alias_env \<Rightarrow> str \<Rightarrow> 'a rooms_db_scheme \<Rightarrow> unit result \<times> 'a rooms_db_scheme" where
  "remove_alias_db E alias db =
     (case kv_get (alias_roomid db) (alias_localpart E alias) of
        Some room_id \<Rightarrow>
          (Ok (), db\<lparr>aliasid_alias := kv_remove_prefix (aliasid_alias db) (room_id @ [sep]),
                     alias_roomid := kv_remove (alias_roomid db) (alias_localpart E alias),
                     alias_userid := kv_remove (alias_userid db) (alias_localpart E alias)\<rparr>)
      | None \<Rightarrow> (Err (BadRequest NotFound ''Alias does not exist.''), db))"

definition resolve_local_alias :: "alias_env \<Rightarrow> str \<Rightarrow> 'a rooms_db_scheme \<Rightarrow> str option result" where
  "resolve_local_alias E alias db =
     map_transpose (parse_id (valid_room_id (alias_ruma E)) ''Room ID in alias_roomid is invalid unicode.''
         ''Room ID in alias_roomid is invalid.'')
       (kv_get (alias_roomid db) (alias_localpart E alias))"

definition local_aliases_for_room :: "alias_env \<Rightarrow> str \<Rightarrow> 'a rooms_db_scheme \<Rightarrow> str result list" where
  "local_aliases_for_room E room_id db =
     map (\<lambda>(_, bytes). parse_id (valid_alias_id (alias_ruma E)) ''Invalid alias bytes in aliasid_alias.''
             ''Invalid alias in aliasid_alias.'' bytes)
       (kv_scan_prefix (aliasid_alias db) (room_id @ [sep]))"

definition who_created_alias :: "alias_env \<Rightarrow> str \<Rightarrow> 'a rooms_db_scheme \<Rightarrow> str option result" where
  "who_created_alias E alias db =
     map_transpose (parse_id (valid_user_id (alias_ruma E)) ''User ID in alias_userid is invalid unicode.''
         ''User ID in alias_roomid is invalid.'')
       (kv_get (alias_userid db) (alias_localpart E alias))"

definition get_admin_room :: "alias_env \<Rightarrow> 'a rooms_db_scheme \<Rightarrow> str option result" where
  "get_admin_room E db = resolve_local_alias E (admin_alias E) db"

definition user_is_admin :: "alias_env \<Rightarrow> str \<Rightarrow> 'a rooms_db_scheme \<Rightarrow> bool result" where
  "user_is_admin E user_id db =
     and_then (get_admin_room E db) (\<lambda>room.
       case room of None \<Rightarrow> Ok False | Some admin_room \<Rightarrow> is_joined user_id admin_room db)"

definition set_alias ::
  "alias_env \<Rightarrow> str \<Rightarrow> str \<Rightarrow> str \<Rightarrow> 'a rooms_db_scheme \<Rightarrow> unit result \<times> 'a rooms_db_scheme" where
  "set_alias E alias room_id user_id db =
     (if alias = admin_alias E \<and> user_id \<noteq> server_user E
      then (Err (BadRequest Forbidden ''Only the server user can set this alias''), db)
      else set_alias_db E alias room_id user_id db)"

definition user_can_remove_alias :: "alias_env \<Rightarrow> str \<Rightarrow> str \<Rightarrow> 'a rooms_db_scheme \<Rightarrow> bool result" where
  "user_can_remove_alias E alias user_id db =
     and_then (resolve_local_alias E alias db) (\<lambda>room.
       case room of
         None \<Rightarrow> Err (BadRequest NotFound ''Alias not found.'')
       | Some room_id \<Rightarrow>
           and_then (who_created_alias E alias db) (\<lambda>creator.
             if (case creator of Some user \<Rightarrow> user = user_id | None \<Rightarrow> False) then Ok True
             else and_then (user_is_admin E user_id db) (\<lambda>admin.
               if admin \<or> server_user E = user_id then Ok True
               else can_change_aliases E room_id user_id)))"

definition remove_alias ::
  "alias_env \<Rightarrow> str \<Rightarrow> str \<Rightarrow> 'a rooms_db_scheme \<Rightarrow> unit result \<times> 'a rooms_db_scheme" where
  "remove_alias E alias user_id db =
     step_then (user_can_remove_alias E alias user_id db, db) (\<lambda>allowed db.
       if allowed then remove_alias_db E alias db
       else (Err (BadRequest Forbidden ''User is not permitted to remove this alias.''), db))"

section \<open>Directory and metadata\<close>

definition set_public :: "str \<Rightarrow> 'a rooms_db_scheme \<Rightarrow> 'a rooms_db_scheme" where
  "set_public room_id db = db\<lparr>publicroomids := kv_insert (publicroomids db) room_id []\<rparr>"

definition set_not_public :: "str \<Rightarrow> 'a rooms_db_scheme \<Rightarrow> 'a rooms_db_scheme" where
  "set_not_public room_id db = db\<lparr>publicroomids := kv_remove (publicroomids db) room_id\<rparr>"

definition is_public_room :: "str \<Rightarrow> 'a rooms_db_scheme \<Rightarrow> bool" where
  "is_public_room room_id db = (kv_get (publicroomids db) room_id \<noteq> None)"

definition public_rooms :: "ruma \<Rightarrow> 'a rooms_db_scheme \<Rightarrow> str result list" where
  "public_rooms R db =
     map (\<lambda>(bytes, _). parse_id (valid_room_id R) ''Room ID in publicroomids is invalid unicode.''
             ''Room ID in publicroomids is invalid.'' bytes) (kv_iter (publicroomids db))"

definition room_exists :: "str \<Rightarrow> 'a timeline_db_scheme \<Rightarrow> bool result" where
  "room_exists room_id db =
     and_then (get_shortroomid room_id db) (\<lambda>short.
       case short of
         None \<Rightarrow> Ok False
       | Some b \<Rightarrow>
           Ok (case kv_iter_from (pduid_pdu db) (to_be_bytes b) False of
                 [] \<Rightarrow> False | (k, _) # _ \<Rightarrow> starts_with k (to_be_bytes b)))"

definition iter_room_ids :: "ruma \<Rightarrow> 'a short_db_scheme \<Rightarrow> str result list" where
  "iter_room_ids R db =
     map (\<lambda>(bytes, _). parse_id (valid_room_id R) ''Room ID in publicroomids is invalid unicode.''
             ''Room ID in roomid_shortroomid is invalid.'' bytes) (kv_iter (roomid_shortroomid db))"

definition is_disabled :: "str \<Rightarrow> 'a rooms_db_scheme \<Rightarrow> bool" where
  "is_disabled room_id db = (kv_get (disabledroomids db) room_id \<noteq> None)"

definition disable_room :: "str \<Rightarrow> bool \<Rightarrow> 'a rooms_db_scheme \<Rightarrow> 'a rooms_db_scheme" where
  "disable_room room_id disabled db =
     (if disabled then db\<lparr>disabledroomids := kv_insert (disabledroomids db) room_id []\<rparr>
      else db\<lparr>disabledroomids := kv_remove (disabledroomids db) room_id\<rparr>)"

section \<open>Lazily loaded members\<close>

definition lazy_prefix :: "str \<Rightarrow> str \<Rightarrow> str \<Rightarrow> bytes" where
  "lazy_prefix user_id device_id room_id = user_id @ [sep] @ device_id @ [sep] @ room_id @ [sep]"

definition lazy_load_was_sent_before :: "str \<Rightarrow> str \<Rightarrow> str \<Rightarrow> str \<Rightarrow> 'a rooms_db_scheme \<Rightarrow> bool" where
  "lazy_load_was_sent_before user_id device_id room_id ll_user db =
     (kv_get (lazyloadedids db) (lazy_prefix user_id device_id room_id @ ll_user) \<noteq> None)"

definition lazy_load_confirm_delivery_db ::
  "str \<Rightarrow> str \<Rightarrow> str \<Rightarrow> str list \<Rightarrow> 'a rooms_db_scheme \<Rightarrow> 'a rooms_db_scheme" where
  "lazy_load_confirm_delivery_db user_id device_id room_id confirmed_user_ids db =
     db\<lparr>lazyloadedids := fold (\<lambda>ll_id t. kv_insert t (lazy_prefix user_id device_id room_id @ ll_id) [])
          confirmed_user_ids (lazyloadedids db)\<rparr>"

definition lazy_load_reset :: "str \<Rightarrow> str \<Rightarrow> str \<Rightarrow> 'a rooms_db_scheme \<Rightarrow> 'a rooms_db_scheme" where
  "lazy_load_reset user_id device_id room_id db =
     db\<lparr>lazyloadedids := kv_remove_prefix (lazyloadedids db) (lazy_prefix user_id device_id room_id)\<rparr>"

definition lazy_load_mark_sent ::
  "str \<Rightarrow> str \<Rightarrow> str \<Rightarrow> str list \<Rightarrow> pdu_count \<Rightarrow> 'a rooms_db_scheme \<Rightarrow> 'a rooms_db_scheme" where
  "lazy_load_mark_sent user_id device_id room_id lazy_load count db =
     db\<lparr>lazy_load_waiting := (lazy_load_waiting db)((user_id, device_id, room_id, count) \<mapsto> lazy_load)\<rparr>"

definition lazy_load_confirm_delivery ::
  "str \<Rightarrow> str \<Rightarrow> str \<Rightarrow> pdu_count \<Rightarrow> 'a rooms_db_scheme \<Rightarrow> 'a rooms_db_scheme" where
  "lazy_load_confirm_delivery user_id device_id room_id since db =
     (case lazy_load_waiting db (user_id, device_id, room_id, since) of
        Some user_ids \<Rightarrow>
          lazy_load_confirm_delivery_db user_id device_id room_id user_ids
            (db\<lparr>lazy_load_waiting := (lazy_load_waiting db)((user_id, device_id, room_id, since) := None)\<rparr>)
      | None \<Rightarrow> db)"

section \<open>Notifications and sync tokens\<close>

definition reset_notification_counts ::
  "str \<Rightarrow> str \<Rightarrow> 'a rooms_db_scheme \<Rightarrow> unit result \<times> 'a rooms_db_scheme" where
  "reset_notification_counts user_id room_id db =
     (let (roomuser_id, userroom_id) = get_room_and_user_byte_ids room_id user_id;
          db = db\<lparr>userroomid_notificationcount := kv_insert (userroomid_notificationcount db) userroom_id (to_be_bytes 0),
                  userroomid_highlightcount := kv_insert (userroomid_highlightcount db) userroom_id (to_be_bytes 0)\<rparr>
      in step_then (next_count db) (\<lambda>count db.
           (Ok (), db\<lparr>roomuserid_lastnotificationread :=
              kv_insert (roomuserid_lastnotificationread db) roomuser_id (to_be_bytes count)\<rparr>)))"

definition count_in :: "string \<Rightarrow> bytes option \<Rightarrow> u64 result" where
  "count_in msg row = (case row of Some bytes \<Rightarrow> ok_or (BadDatabase msg) (u64_from_bytes bytes) | None \<Rightarrow> Ok 0)"

definition notification_count :: "str \<Rightarrow> str \<Rightarrow> 'a timeline_db_scheme \<Rightarrow> u64 result" where
  "notification_count user_id room_id db = count_in ''Invalid notification count in db.''
     (kv_get (userroomid_notificationcount db) (get_userroom_id_bytes user_id room_id))"

definition highlight_count :: "str \<Rightarrow> str \<Rightarrow> 'a timeline_db_scheme \<Rightarrow> u64 result" where
  "highlight_count user_id room_id db = count_in ''Invalid highlight count in db.''
     (kv_get (userroomid_highlightcount db) (get_userroom_id_bytes user_id room_id))"

definition last_notification_read :: "str \<Rightarrow> str \<Rightarrow> 'a rooms_db_scheme \<Rightarrow> u64 result" where
  "last_notification_read user_id room_id db =
     count_in ''Count in roomuserid_lastprivatereadupdate is invalid.''
       (kv_get (roomuserid_lastnotificationread db) (room_id @ [sep] @ user_id))"

definition existing_shortroomid :: "str \<Rightarrow> 'a short_db_scheme \<Rightarrow> u64 result" where
  "existing_shortroomid room_id db =
     and_then (get_shortroomid room_id db) (ok_or (Panicked ''room exists''))"

definition associate_token_shortstatehash ::
  "str \<Rightarrow> u64 \<Rightarrow> u64 \<Rightarrow> 'a rooms_db_scheme \<Rightarrow> unit result \<times> 'a rooms_db_scheme" where
  "associate_token_shortstatehash room_id token shortstatehash db =
     step_then (existing_shortroomid room_id db, db) (\<lambda>shortroomid db.
       (Ok (), db\<lparr>roomsynctoken_shortstatehash :=
          kv_insert (roomsynctoken_shortstatehash db) (to_be_bytes shortroomid @ to_be_bytes token)
            (to_be_bytes shortstatehash)\<rparr>))"

definition get_token_shortstatehash :: "str \<Rightarrow> u64 \<Rightarrow> 'a rooms_db_scheme \<Rightarrow> u64 option result" where
  "get_token_shortstatehash room_id token db =
     and_then (existing_shortroomid room_id db) (\<lambda>shortroomid.
       map_transpose (\<lambda>bytes. ok_or (BadDatabase ''Invalid shortstatehash in roomsynctoken_shortstatehash'')
           (u64_from_bytes bytes))
         (kv_get (roomsynctoken_shortstatehash db) (to_be_bytes shortroomid @ to_be_bytes token)))"

section \<open>Relations, references and threads\<close>

definition add_relation :: "u64 \<Rightarrow> u64 \<Rightarrow> 'a rooms_db_scheme \<Rightarrow> 'a rooms_db_scheme" where
  "add_relation from_count to_count db =
     db\<lparr>tofrom_relation := kv_insert (tofrom_relation db) (to_be_bytes to_count @ to_be_bytes from_count) []\<rparr>"

text \<open>The event of a relation or thread, without its transaction id for everybody but its sender.\<close>

definition shown_pdu :: "'j pdu_codec \<Rightarrow> str \<Rightarrow> string \<Rightarrow> bytes \<Rightarrow> 'a timeline_db_scheme \<Rightarrow> pdu result" where
  "shown_pdu C user_id msg pduid db =
     and_then (get_pdu_from_id C pduid db) (\<lambda>p.
     and_then (ok_or (BadDatabase msg) p) (\<lambda>pdu.
       if pdu_sender pdu \<noteq> user_id then remove_transaction_id C pdu else Ok pdu))"

definition relation_row ::
  "'j pdu_codec \<Rightarrow> str \<Rightarrow> u64 \<Rightarrow> 'a rooms_db_scheme \<Rightarrow> bytes \<Rightarrow> (pdu_count \<times> pdu) result" where
  "relation_row C user_id shortroomid db tofrom =
     and_then (ok_or (BadDatabase ''Invalid count in tofrom_relation.'') (u64_from_bytes (drop 8 tofrom))) (\<lambda>from_count.
     and_then (shown_pdu C user_id ''Pdu in tofrom_relation is invalid.''
                 (to_be_bytes shortroomid @ to_be_bytes from_count) db) (\<lambda>pdu.
       Ok (Normal from_count, pdu)))"

definition relations_until ::
  "'j pdu_codec \<Rightarrow> str \<Rightarrow> u64 \<Rightarrow> u64 \<Rightarrow> pdu_count \<Rightarrow> 'a rooms_db_scheme \<Rightarrow> (pdu_count \<times> pdu) result list" where
  "relations_until C user_id shortroomid target until db =
     (let p = to_be_bytes target;
          current = (case until of
              Normal x \<Rightarrow> p @ to_be_bytes (x - 1)
            | Backfilled x \<Rightarrow> p @ to_be_bytes 0 @ to_be_bytes (u64_max - x - 1))
      in map (\<lambda>(tofrom, _). relation_row C user_id shortroomid db tofrom)
           (takeWhile (\<lambda>(k, _). starts_with k p) (kv_iter_from (tofrom_relation db) current True)))"

definition mark_as_referenced :: "str \<Rightarrow> str list \<Rightarrow> 'a rooms_db_scheme \<Rightarrow> 'a rooms_db_scheme" where
  "mark_as_referenced room_id event_ids db =
     db\<lparr>referencedevents := fold (\<lambda>prev t. kv_insert t (room_id @ prev) []) event_ids (referencedevents db)\<rparr>"

definition is_event_referenced :: "str \<Rightarrow> str \<Rightarrow> 'a rooms_db_scheme \<Rightarrow> bool" where
  "is_event_referenced room_id event_id db = (kv_get (referencedevents db) (room_id @ event_id) \<noteq> None)"

definition mark_event_soft_failed :: "str \<Rightarrow> 'a rooms_db_scheme \<Rightarrow> 'a rooms_db_scheme" where
  "mark_event_soft_failed event_id db = db\<lparr>softfailedeventids := kv_insert (softfailedeventids db) event_id []\<rparr>"

definition is_event_soft_failed :: "str \<Rightarrow> 'a rooms_db_scheme \<Rightarrow> bool" where
  "is_event_soft_failed event_id db = (kv_get (softfailedeventids db) event_id \<noteq> None)"

definition thread_row ::
  "'j pdu_codec \<Rightarrow> str \<Rightarrow> 'a rooms_db_scheme \<Rightarrow> bytes \<Rightarrow> (u64 \<times> pdu) result" where
  "thread_row C user_id db pduid =
     and_then (ok_or (BadDatabase ''Invalid pduid in threadid_userids.'') (u64_from_bytes (drop 8 pduid))) (\<lambda>count.
     and_then (shown_pdu C user_id ''Invalid pduid reference in threadid_userids'' pduid db) (\<lambda>pdu. Ok (count, pdu)))"

definition threads_until ::
  "'j pdu_codec \<Rightarrow> str \<Rightarrow> str \<Rightarrow> u64 \<Rightarrow> 'a rooms_db_scheme \<Rightarrow> (u64 \<times> pdu) result list result" where
  "threads_until C user_id room_id until db =
     and_then (existing_shortroomid room_id db) (\<lambda>short.
       let p = to_be_bytes short; current = p @ to_be_bytes (until - 1)
       in Ok (map (\<lambda>(pduid, _). thread_row C user_id db pduid)
            (takeWhile (\<lambda>(k, _). starts_with k p) (kv_iter_from (threadid_userids db) current True))))"

definition update_participants :: "bytes \<Rightarrow> str list \<Rightarrow> 'a rooms_db_scheme \<Rightarrow> 'a rooms_db_scheme" where
  "update_participants root_id participants db =
     db\<lparr>threadid_userids := kv_insert (threadid_userids db) root_id (join_sep participants)\<rparr>"

definition get_participants :: "ruma \<Rightarrow> bytes \<Rightarrow> 'a rooms_db_scheme \<Rightarrow> str list option" where
  "get_participants R root_id db =
     (case kv_get (threadid_userids db) root_id of
        Some users \<Rightarrow> Some (oks (map (parse_id (valid_user_id R) ''Invalid UserId bytes in threadid_userids.''
                                    ''Invalid UserId in threadid_userids.'') (split_sep users)))
      | None \<Rightarrow> None)"

section \<open>Typed tables\<close>

text \<open>A table whose keys and values have given shapes.\<close>

definition table_ok :: "(bytes \<Rightarrow> bool) \<Rightarrow> (bytes \<Rightarrow> bool) \<Rightarrow> kvtree \<Rightarrow> bool" where
  "table_ok P Q t \<longleftrightarrow> kv_wf t \<and> (\<forall>k v. kv_get t k = Some v \<longrightarrow> P k \<and> Q v)"

lemma table_ok_wf: "table_ok P Q t \<Longrightarrow> kv_wf t"
  by (simp add: table_ok_def)

lemma table_ok_insert: "table_ok P Q t \<Longrightarrow> P k \<Longrightarrow> Q v \<Longrightarrow> table_ok P Q (kv_insert t k v)"
  by (simp add: table_ok_def kv_intros kv_simps)

lemma table_ok_remove: "table_ok P Q t \<Longrightarrow> table_ok P Q (kv_remove t k)"
  by (simp add: table_ok_def kv_intros kv_simps)

lemma table_ok_remove_prefix: "table_ok P Q t \<Longrightarrow> table_ok P Q (kv_remove_prefix t p)"
  by (auto simp: table_ok_def kv_intros kv_get_remove_prefix split: if_splits)

lemma table_ok_Nil: "table_ok P Q []"
  by (simp add: table_ok_def)

lemmas table_ok_intros = table_ok_insert table_ok_remove table_ok_remove_prefix table_ok_Nil

definition id_ok :: "(str \<Rightarrow> bool) \<Rightarrow> bytes \<Rightarrow> bool" where
  "id_ok valid bs \<longleftrightarrow> utf8 bs \<and> valid bs"

definition is_u64 :: "bytes \<Rightarrow> bool" where
  "is_u64 bs \<longleftrightarrow> length bs = 8"

lemma parse_id_ok: "id_ok valid bs \<Longrightarrow> parse_id valid m n bs = Ok bs"
  by (simp add: id_ok_def parse_id_def)

lemma is_u64_to_be_bytes [simp]: "is_u64 (to_be_bytes n)"
  by (simp add: is_u64_def)

lemma count_in_ok: "(\<And>v. row = Some v \<Longrightarrow> is_u64 v) \<Longrightarrow> \<exists>n. count_in m row = Ok n"
  by (cases row) (auto simp: count_in_def is_u64_def u64_from_bytes_def)

definition rooms_typed :: "ruma \<Rightarrow> 'a rooms_db_scheme \<Rightarrow> bool" where
  "rooms_typed R db \<longleftrightarrow>
     table_ok (\<lambda>_. True) (id_ok (valid_room_id R)) (alias_roomid db)
   \<and> table_ok (\<lambda>_. True) (id_ok (valid_user_id R)) (alias_userid db)
   \<and> table_ok (\<lambda>_. True) (id_ok (valid_alias_id R)) (aliasid_alias db)
   \<and> table_ok (id_ok (valid_room_id R)) (\<lambda>_. True) (publicroomids db)
   \<and> table_ok (\<lambda>_. True) is_u64 (userroomid_notificationcount db)
   \<and> table_ok (\<lambda>_. True) is_u64 (userroomid_highlightcount db)
   \<and> table_ok (\<lambda>_. True) is_u64 (roomuserid_lastnotificationread db)
   \<and> table_ok (\<lambda>_. True) is_u64 (roomsynctoken_shortstatehash db)
   \<and> table_ok (\<lambda>k. length k = 16) (\<lambda>_. True) (tofrom_relation db)"

text \<open>The operations that write these tables, on identifiers that the parameter types of the code allow.\<close>

inductive meta_step :: "alias_env \<Rightarrow> 'a rooms_db_scheme \<Rightarrow> 'a rooms_db_scheme \<Rightarrow> bool" for E :: alias_env where
  "id_ok (valid_alias_id (alias_ruma E)) a \<Longrightarrow> id_ok (valid_room_id (alias_ruma E)) r \<Longrightarrow>
     id_ok (valid_user_id (alias_ruma E)) u \<Longrightarrow> meta_step E db (snd (set_alias E a r u db))"
| "meta_step E db (snd (remove_alias E a u db))"
| "id_ok (valid_room_id (alias_ruma E)) r \<Longrightarrow> meta_step E db (set_public r db)"
| "meta_step E db (set_not_public r db)"
| "meta_step E db (snd (reset_notification_counts u r db))"
| "meta_step E db (snd (associate_token_shortstatehash r token h db))"
| "meta_step E db (add_relation f t db)"
| "meta_step E db (increment_notification_counts r notifies highlights db)"

lemma table_ok_increment:
  "table_ok (\<lambda>_. True) is_u64 t \<Longrightarrow> table_ok (\<lambda>_. True) is_u64 (snd (kv_increment t k))"
  by (simp add: kv_increment_eq Let_def table_ok_intros)

lemma table_ok_increment_batch:
  "table_ok (\<lambda>_. True) is_u64 t \<Longrightarrow> table_ok (\<lambda>_. True) is_u64 (kv_increment_batch t ks)"
  unfolding kv_increment_batch_def by (induction ks arbitrary: t) (auto simp: table_ok_increment)

lemma meta_step_typed:
  assumes "meta_step E db db'" "rooms_typed (alias_ruma E) db"
  shows "rooms_typed (alias_ruma E) db'"
  using assms
proof cases
  case (1 a r u)
  then show ?thesis using assms(2)
    by (auto simp: rooms_typed_def set_alias_def set_alias_db_def Let_def next_count_eq intro: table_ok_intros)
next
  case (2 a u)
  then show ?thesis using assms(2)
    by (auto simp: rooms_typed_def remove_alias_def remove_alias_db_def step_then_def intro: table_ok_intros
        split: sum.splits option.splits)
next
  case (3 r)
  then show ?thesis using assms(2) by (simp add: rooms_typed_def set_public_def table_ok_intros)
next
  case (4 r)
  then show ?thesis using assms(2) by (simp add: rooms_typed_def set_not_public_def table_ok_intros)
next
  case (5 u r)
  then show ?thesis using assms(2)
    by (simp add: rooms_typed_def reset_notification_counts_def get_room_and_user_byte_ids_def Let_def next_count_eq table_ok_intros)
next
  case (6 r token h)
  then show ?thesis using assms(2)
    by (auto simp: rooms_typed_def associate_token_shortstatehash_def step_then_def table_ok_intros split: sum.splits)
next
  case (7 f t)
  then show ?thesis using assms(2) by (simp add: rooms_typed_def add_relation_def table_ok_intros)
next
  case (8 r ns hs)
  then show ?thesis using assms(2)
    by (simp add: rooms_typed_def increment_notification_counts_def table_ok_increment_batch)
qed

section \<open>The unread counters\<close>

text \<open>
  The two writers of the counters: an event notifies and highlights users of its room, a user reads a room.
\<close>

datatype count_op = Notified str "str list" "str list" | WasRead str str

fun count_op_db :: "count_op \<Rightarrow> 'a rooms_db_scheme \<Rightarrow> 'a rooms_db_scheme" where
  "count_op_db (Notified room notifies highlights) db = increment_notification_counts room notifies highlights db"
| "count_op_db (WasRead user room) db = snd (reset_notification_counts user room db)"

text \<open>Their specification, on the two counts of one user in one room.\<close>

fun count_op_spec :: "str \<Rightarrow> str \<Rightarrow> count_op \<Rightarrow> u64 \<times> u64 \<Rightarrow> u64 \<times> u64" where
  "count_op_spec user room (Notified room' notifies highlights) (n, h) =
     (if room' = room then (n + of_nat (count_list notifies user), h + of_nat (count_list highlights user)) else (n, h))"
| "count_op_spec user room (WasRead user' room') (n, h) = (if user' = user \<and> room' = room then (0, 0) else (n, h))"

fun count_op_users :: "count_op \<Rightarrow> str set" where
  "count_op_users (Notified _ notifies highlights) = set notifies \<union> set highlights"
| "count_op_users (WasRead user _) = {user}"

definition counts_ok :: "'a timeline_db_scheme \<Rightarrow> bool" where
  "counts_ok db \<longleftrightarrow> table_ok (\<lambda>_. True) is_u64 (userroomid_notificationcount db)
     \<and> table_ok (\<lambda>_. True) is_u64 (userroomid_highlightcount db)"

lemma userroom_id_inj:
  "utf8 u \<Longrightarrow> utf8 u' \<Longrightarrow> get_userroom_id_bytes u r = get_userroom_id_bytes u' r' \<longleftrightarrow> u = u' \<and> r = r'"
  using sep_append_inj [of u u' r r'] by (auto simp: get_userroom_id_bytes_def utf8_no_sep)

lemma count_in_increment:
  assumes "table_ok (\<lambda>_. True) is_u64 t" "count_in m (kv_get t k) = Ok n"
  shows "count_in m (kv_get (snd (kv_increment t k')) k) = Ok (if k' = k then n + 1 else n)"
proof -
  have "count_in m (kv_get (snd (kv_increment t k)) k) = Ok (n + 1)"
    using assms by (auto simp: kv_increment_eq Let_def count_in_def table_ok_def kv_simps ok_or_def split: option.splits)
  then show ?thesis using assms by (auto simp: table_ok_def kv_get_increment)
qed

lemma count_in_increment_batch:
  assumes "table_ok (\<lambda>_. True) is_u64 t" "count_in m (kv_get t k) = Ok n"
  shows "count_in m (kv_get (kv_increment_batch t ks) k) = Ok (n + of_nat (count_list ks k))"
  using assms unfolding kv_increment_batch_def
proof (induction ks arbitrary: t n)
  case (Cons k' ks)
  from Cons.IH [OF table_ok_increment [OF Cons.prems(1)] count_in_increment [OF Cons.prems, of k']]
  show ?case by (simp add: add.assoc)
qed simp

lemma count_list_map_key:
  "utf8 u \<Longrightarrow> \<forall>v \<in> set us. utf8 v \<Longrightarrow>
     count_list (map (\<lambda>v. get_userroom_id_bytes v r') us) (get_userroom_id_bytes u r) = (if r' = r then count_list us u else 0)"
  by (induction us) (auto simp: userroom_id_inj)

lemma count_op_correct:
  assumes "counts_ok db" "utf8 u" "\<forall>v \<in> count_op_users op. utf8 v"
    and "notification_count u r db = Ok n" "highlight_count u r db = Ok h"
  shows "counts_ok (count_op_db op db)
    \<and> notification_count u r (count_op_db op db) = Ok (fst (count_op_spec u r op (n, h)))
    \<and> highlight_count u r (count_op_db op db) = Ok (snd (count_op_spec u r op (n, h)))"
proof (cases op)
  case (Notified r' ns hs)
  have t: "table_ok (\<lambda>_. True) is_u64 (userroomid_notificationcount db)"
    "table_ok (\<lambda>_. True) is_u64 (userroomid_highlightcount db)" using assms(1) by (simp_all add: counts_ok_def)
  have us: "\<forall>v \<in> set ns. utf8 v" "\<forall>v \<in> set hs. utf8 v" using assms(3) Notified by auto
  show ?thesis
    using count_in_increment_batch [OF t(1) assms(4) [unfolded notification_count_def], of "map (\<lambda>v. get_userroom_id_bytes v r') ns"]
      count_in_increment_batch [OF t(2) assms(5) [unfolded highlight_count_def], of "map (\<lambda>v. get_userroom_id_bytes v r') hs"]
    by (simp add: Notified counts_ok_def increment_notification_counts_def notification_count_def highlight_count_def
        count_list_map_key assms(2) us t table_ok_increment_batch)
next
  case (WasRead u' r')
  have "utf8 u'" using assms(3) WasRead by simp
  then show ?thesis using assms(1,2,4,5)
    by (auto simp: WasRead counts_ok_def table_ok_def reset_notification_counts_def get_room_and_user_byte_ids_def Let_def
        next_count_eq notification_count_def highlight_count_def count_in_def kv_simps kv_intros userroom_id_inj)
qed

section \<open>Relations\<close>

lemma relations_rows:
  assumes "table_ok (\<lambda>k. length k = 16) (\<lambda>_. True) (tofrom_relation db)" "x \<noteq> 0"
  obtains froms where "relations_until C u s t (Normal x) db =
      map (\<lambda>f. relation_row C u s db (to_be_bytes t @ to_be_bytes f)) froms"
    "sorted_wrt (>) froms"
    "set froms = {f. f < x \<and> kv_get (tofrom_relation db) (to_be_bytes t @ to_be_bytes f) \<noteq> None}"
proof -
  let ?p = "to_be_bytes t" and ?T = "tofrom_relation db"
  let ?rows = "takeWhile (\<lambda>(k, _). starts_with k ?p) (kv_iter_from ?T (?p @ to_be_bytes (x - 1)) True)"
  have wf: "kv_wf ?T" using assms(1) by (rule table_ok_wf)
  have pre: "starts_with (?p @ to_be_bytes (x - 1)) ?p" by simp
  have S: "set ?rows = {(k, v). kv_get ?T k = Some v \<and> starts_with k ?p \<and> k \<le> ?p @ to_be_bytes (x - 1)}"
    by (rule kv.set_scan_until [OF wf pre])
  have so: "sorted_wrt (>) (map fst ?rows)" by (rule kv.sorted_scan_until [OF wf pre])
  define num where "num = (\<lambda>k. the (u64_from_bytes (drop 8 k)))"
  have key: "k = ?p @ to_be_bytes (num k) \<and> num k < x \<and> kv_get ?T k \<noteq> None" if kin: "k \<in> set (map fst ?rows)" for k
  proof -
    obtain v where kv: "kv_get ?T k = Some v" "starts_with k ?p" "k \<le> ?p @ to_be_bytes (x - 1)"
      using kin S by auto
    then obtain z where z: "k = ?p @ z" by (auto simp: prefix_def)
    have "length k = 16" using assms(1) kv(1) by (auto simp: table_ok_def)
    then have "length z = 8" using z by simp
    then obtain f where f: "u64_from_bytes z = Some f" by (simp add: u64_from_bytes_def)
    then have zf: "z = to_be_bytes f" by (simp add: u64_from_bytes_Some)
    then have "num k = f" using z by (simp add: num_def)
    then show ?thesis using kv z zf le_minus_1_iff [OF assms(2), of f] by simp
  qed
  have "relations_until C u s t (Normal x) db = map (\<lambda>k. relation_row C u s db k) (map fst ?rows)"
    by (simp add: relations_until_def Let_def split_beta comp_def)
  also have "\<dots> = map (\<lambda>f. relation_row C u s db (?p @ to_be_bytes f)) (map num (map fst ?rows))"
    unfolding map_map [of _ num] by (rule map_cong [OF refl]) (use key in auto)
  finally have 1: "relations_until C u s t (Normal x) db =
      map (\<lambda>f. relation_row C u s db (?p @ to_be_bytes f)) (map num (map fst ?rows))" .
  have 2: "sorted_wrt (>) (map num (map fst ?rows))"
    unfolding sorted_wrt_map [of _ num]
  proof (rule sorted_wrt_mono_rel [OF _ so])
    fix a b assume ab: "a \<in> set (map fst ?rows)" "b \<in> set (map fst ?rows)" "b < a"
    then have "?p @ to_be_bytes (num b) < ?p @ to_be_bytes (num a)" using key by metis
    then show "num b < num a" by simp
  qed
  have 3: "set (map num (map fst ?rows)) = {f. f < x \<and> kv_get ?T (?p @ to_be_bytes f) \<noteq> None}"
  proof (intro set_eqI iffI)
    fix f assume "f \<in> set (map num (map fst ?rows))"
    then obtain k where "k \<in> set (map fst ?rows)" "f = num k" by auto
    then show "f \<in> {f. f < x \<and> kv_get ?T (?p @ to_be_bytes f) \<noteq> None}" using key by auto
  next
    fix f assume "f \<in> {f. f < x \<and> kv_get ?T (?p @ to_be_bytes f) \<noteq> None}"
    then obtain v where v: "f < x" "kv_get ?T (?p @ to_be_bytes f) = Some v" by auto
    then have "(?p @ to_be_bytes f, v) \<in> set ?rows" unfolding S using le_minus_1_iff [OF assms(2), of f] by simp
    then have "?p @ to_be_bytes f \<in> set (map fst ?rows)" by force
    moreover have "f = num (?p @ to_be_bytes f)" by (simp add: num_def)
    ultimately show "f \<in> set (map num (map fst ?rows))" unfolding set_map [of num] by (rule rev_image_eqI)
  qed
  show ?thesis by (rule that [OF 1 2 3])
qed

section \<open>Lazy loading keys\<close>

lemma lazy_key_inj:
  assumes "utf8 u" "utf8 d" "utf8 r" "utf8 u'" "utf8 d'" "utf8 r'"
  shows "prefix (lazy_prefix u d r) (lazy_prefix u' d' r' @ l) \<longleftrightarrow> u = u' \<and> d = d' \<and> r = r'"
  using sep_prefix_append [of u u' "d @ [sep] @ r @ [sep]" "d' @ [sep] @ r' @ [sep] @ l"]
    sep_prefix_append [of d d' "r @ [sep]" "r' @ [sep] @ l"] sep_prefix_iff [of r r' l] assms
  by (simp add: lazy_prefix_def utf8_no_sep)

lemma lazy_key_eq:
  assumes "utf8 u" "utf8 d" "utf8 r" "utf8 u'" "utf8 d'" "utf8 r'"
  shows "lazy_prefix u d r @ l = lazy_prefix u' d' r' @ l' \<longleftrightarrow> u = u' \<and> d = d' \<and> r = r' \<and> l = l'"
proof
  assume eq: "lazy_prefix u d r @ l = lazy_prefix u' d' r' @ l'"
  then have "prefix (lazy_prefix u d r) (lazy_prefix u' d' r' @ l')" by (metis prefixI)
  then have "u = u' \<and> d = d' \<and> r = r'" using lazy_key_inj [OF assms] by blast
  then show "u = u' \<and> d = d' \<and> r = r' \<and> l = l'" using eq by simp
qed simp

lemma fold_insert_keys:
  "kv_wf t \<Longrightarrow> kv_wf (fold (\<lambda>x t. kv_insert t (f x) []) xs t)
    \<and> (kv_get (fold (\<lambda>x t. kv_insert t (f x) []) xs t) k \<noteq> None \<longleftrightarrow> kv_get t k \<noteq> None \<or> k \<in> f ` set xs)"
  by (induction xs arbitrary: t) (auto simp: kv_intros kv_simps)

section \<open>Properties\<close>

definition empty_rooms_db :: rooms_db where
  "empty_rooms_db = search_db.extend empty_search_db
     \<lparr>alias_userid = [], alias_roomid = [], aliasid_alias = [], publicroomids = [], disabledroomids = [],
      lazyloadedids = [], roomuserid_lastnotificationread = [], roomsynctoken_shortstatehash = [],
      tofrom_relation = [], referencedevents = [], softfailedeventids = [], threadid_userids = [],
      lazy_load_waiting = Map.empty\<rparr>"

definition sample_alias_env :: alias_env where
  "sample_alias_env = \<lparr>alias_ruma = accept_all, alias_localpart = (\<lambda>a. a), admin_alias = ascii ''#admins:x'',
     server_user = ascii ''@conduit:x'', can_change_aliases = (\<lambda>_ _. Ok False)\<rparr>"

lemma empty_rooms_typed: "rooms_typed R empty_rooms_db"
  by (simp add: rooms_typed_def empty_rooms_db_def search_db.defs empty_search_db_def edus_db.defs empty_edus_db_def
      accountdata_db.defs empty_accountdata_db_def users_db.defs empty_users_db_def statecache_db.defs empty_statecache_db_def accounts_db.defs empty_accounts_db_def timeline_db.defs empty_timeline_db_def state_db.defs table_ok_Nil)

lemma empty_rooms_tables [simp]:
  "alias_roomid empty_rooms_db = []" "alias_userid empty_rooms_db = []" "aliasid_alias empty_rooms_db = []"
  "lazyloadedids empty_rooms_db = []" "tofrom_relation empty_rooms_db = []" "lazy_load_waiting empty_rooms_db = Map.empty"
  by (simp_all add: empty_rooms_db_def search_db.defs)

text \<open>
  These tables stay typed. Whatever sequence of their writers runs on valid identifiers, reading an alias, the
  public rooms or a counter does not report a broken database.
\<close>

theorem room_tables_typed:
  assumes "(meta_step E)\<^sup>*\<^sup>* db0 db" "rooms_typed (alias_ruma E) db0"
  shows "(\<exists>x. resolve_local_alias E a db = Ok x) \<and> (\<exists>x. who_created_alias E a db = Ok x)
    \<and> (\<exists>xs. local_aliases_for_room E r db = map Ok xs) \<and> (\<exists>xs. public_rooms (alias_ruma E) db = map Ok xs)
    \<and> (\<exists>n. notification_count u r db = Ok n) \<and> (\<exists>n. highlight_count u r db = Ok n)
    \<and> (\<exists>n. last_notification_read u r db = Ok n)
    \<and> (existing_shortroomid r db = Ok s \<longrightarrow> (\<exists>x. get_token_shortstatehash r token db = Ok x))"
proof -
  have T: "rooms_typed (alias_ruma E) db"
    using assms by (induction rule: rtranclp_induct) (auto intro: meta_step_typed)
  have parsed: "\<exists>xs. map (\<lambda>x. parse_id valid m n (f x)) ys = map Ok xs"
    if "\<forall>x \<in> set ys. id_ok valid (f x)" for ys :: "(bytes \<times> bytes) list" and valid m n f
    using that by (intro exI [of _ "map f ys"]) (simp add: parse_id_ok)
  have lookup: "\<exists>x. map_transpose (parse_id valid m n) (kv_get t k) = Ok x" if "table_ok P (id_ok valid) t" for P t k valid m n
    using that by (cases "kv_get t k") (auto simp: table_ok_def parse_id_ok)
  have aliases: "\<exists>xs. local_aliases_for_room E r db = map Ok xs"
    unfolding local_aliases_for_room_def split_beta
    by (rule parsed) (use T kv_scan_prefix_set [of "aliasid_alias db" "r @ [sep]"] in
        \<open>auto simp: rooms_typed_def table_ok_def\<close>)
  have pub: "\<exists>xs. public_rooms (alias_ruma E) db = map Ok xs"
    unfolding public_rooms_def split_beta
    by (rule parsed) (use T kv_get_in_set [of "publicroomids db"] in \<open>auto simp: rooms_typed_def table_ok_def kv_iter_def\<close>)
  have counts: "(\<exists>n. notification_count u r db = Ok n) \<and> (\<exists>n. highlight_count u r db = Ok n)
      \<and> (\<exists>n. last_notification_read u r db = Ok n)"
    unfolding notification_count_def highlight_count_def last_notification_read_def
    by (intro conjI count_in_ok) (use T in \<open>auto simp: rooms_typed_def table_ok_def\<close>)
  have token: "existing_shortroomid r db = Ok s \<longrightarrow> (\<exists>x. get_token_shortstatehash r token db = Ok x)"
  proof
    assume e: "existing_shortroomid r db = Ok s"
    show "\<exists>x. get_token_shortstatehash r token db = Ok x"
    proof (cases "kv_get (roomsynctoken_shortstatehash db) (to_be_bytes s @ to_be_bytes token)")
      case (Some v)
      then have "length v = 8" using T by (auto simp: rooms_typed_def table_ok_def is_u64_def)
      then show ?thesis using Some e by (simp add: get_token_shortstatehash_def u64_from_bytes_def)
    qed (use e in \<open>simp add: get_token_shortstatehash_def\<close>)
  qed
  have "(\<exists>x. resolve_local_alias E a db = Ok x) \<and> (\<exists>x. who_created_alias E a db = Ok x)"
    unfolding resolve_local_alias_def who_created_alias_def
    by (intro conjI lookup) (use T in \<open>auto simp: rooms_typed_def\<close>)
  then show ?thesis using aliases pub counts token by blast
qed

theorem room_tables_typed_witness:
  "\<exists>xs. public_rooms accept_all (set_public (ascii ''!r:x'') empty_rooms_db) = map Ok xs"
proof -
  have "id_ok (valid_room_id accept_all) (ascii ''!r:x'')" by (simp add: id_ok_def accept_all_def ascii_def)
  then have "(meta_step sample_alias_env)\<^sup>*\<^sup>* empty_rooms_db (set_public (ascii ''!r:x'') empty_rooms_db)"
    by (intro r_into_rtranclp meta_step.intros(3)) (simp add: sample_alias_env_def)
  from room_tables_typed [OF this empty_rooms_typed] show ?thesis by (simp add: sample_alias_env_def)
qed

text \<open>
  C30: the unread counters are exact. Whatever events arrive and rooms are read, in any order, the
  notification and the highlight count of a user in a room are those at the start plus one for each
  event that notified or highlighted that user there, or only the events since the user last read that room;
  other users and rooms do not matter. The counts are 64-bit words.
\<close>

theorem notification_counts_exact:
  assumes "counts_ok db" "utf8 u" "\<forall>op \<in> set ops. \<forall>v \<in> count_op_users op. utf8 v"
    and "notification_count u r db = Ok n" "highlight_count u r db = Ok h"
  shows "notification_count u r (fold count_op_db ops db) = Ok (fst (fold (count_op_spec u r) ops (n, h)))
    \<and> highlight_count u r (fold count_op_db ops db) = Ok (snd (fold (count_op_spec u r) ops (n, h)))"
  using assms
proof (induction ops arbitrary: db n h)
  case (Cons op ops)
  obtain n' h' where s: "count_op_spec u r op (n, h) = (n', h')" by (cases "count_op_spec u r op (n, h)")
  have "\<forall>v \<in> count_op_users op. utf8 v" using Cons.prems(3) by simp
  from count_op_correct [OF Cons.prems(1,2) this Cons.prems(4,5)] Cons.IH [of "count_op_db op db" n' h'] Cons.prems(2,3)
  show ?case by (simp add: s)
qed simp

theorem notification_counts_exact_witness:
  "notification_count (ascii ''@a'') (ascii ''!r'') (fold count_op_db
      [Notified (ascii ''!r'') [ascii ''@a''] [], WasRead (ascii ''@a'') (ascii ''!r''),
       Notified (ascii ''!r'') [ascii ''@a'', ascii ''@b''] [ascii ''@a''], Notified (ascii ''!s'') [ascii ''@a''] []] empty_rooms_db) = Ok 1"
proof -
  have t: "userroomid_notificationcount empty_rooms_db = []" "userroomid_highlightcount empty_rooms_db = []"
    by (simp_all add: empty_rooms_db_def search_db.defs empty_search_db_def edus_db.defs empty_edus_db_def
      accountdata_db.defs empty_accountdata_db_def users_db.defs empty_users_db_def statecache_db.defs
      empty_statecache_db_def accounts_db.defs empty_accounts_db_def timeline_db.defs empty_timeline_db_def state_db.defs)
  let ?ops = "[Notified (ascii ''!r'') [ascii ''@a''] [], WasRead (ascii ''@a'') (ascii ''!r''),
       Notified (ascii ''!r'') [ascii ''@a'', ascii ''@b''] [ascii ''@a''], Notified (ascii ''!s'') [ascii ''@a''] []]"
  have c: "counts_ok empty_rooms_db" using t by (simp add: counts_ok_def table_ok_def)
  have u: "utf8 (ascii ''@a'')" "\<forall>op \<in> set ?ops. \<forall>v \<in> count_op_users op. utf8 v" by (simp_all add: ascii_def)
  have z: "notification_count (ascii ''@a'') (ascii ''!r'') empty_rooms_db = Ok 0"
    "highlight_count (ascii ''@a'') (ascii ''!r'') empty_rooms_db = Ok 0"
    using t by (simp_all add: notification_count_def highlight_count_def count_in_def)
  from notification_counts_exact [OF c u z] show ?thesis by (simp add: ascii_def)
qed

text \<open>
  An alias that was set resolves to its room and knows its creator, every alias with another local
  part resolves as before, and an alias that was removed does not resolve any more.
\<close>

theorem alias_resolution:
  assumes "rooms_typed (alias_ruma E) db" "id_ok (valid_room_id (alias_ruma E)) r" "id_ok (valid_user_id (alias_ruma E)) u"
    and "set_alias E a r u db = (Ok (), db')"
  shows "resolve_local_alias E a db' = Ok (Some r) \<and> who_created_alias E a db' = Ok (Some u)
    \<and> (\<forall>b. alias_localpart E b \<noteq> alias_localpart E a \<longrightarrow> resolve_local_alias E b db' = resolve_local_alias E b db)
    \<and> (\<exists>db''. remove_alias E a u db' = (Ok (), db'') \<and> resolve_local_alias E a db'' = Ok None)"
proof -
  have wf: "kv_wf (alias_roomid db)" "kv_wf (alias_userid db)"
    using assms(1) by (auto simp: rooms_typed_def dest: table_ok_wf)
  have t: "alias_roomid db' = kv_insert (alias_roomid db) (alias_localpart E a) r"
    "alias_userid db' = kv_insert (alias_userid db) (alias_localpart E a) u"
    using assms(4) by (auto simp: set_alias_def set_alias_db_def Let_def next_count_eq split: if_splits)
  have R: "resolve_local_alias E a db' = Ok (Some r)" and W: "who_created_alias E a db' = Ok (Some u)"
    using assms(2,3) by (simp_all add: resolve_local_alias_def who_created_alias_def t kv_simps wf parse_id_ok)
  have "user_can_remove_alias E a u db' = Ok True" by (simp add: user_can_remove_alias_def R W)
  then have "\<exists>db''. remove_alias E a u db' = (Ok (), db'') \<and> resolve_local_alias E a db'' = Ok None"
    by (simp add: remove_alias_def remove_alias_db_def t kv_simps wf resolve_local_alias_def)
  moreover have "\<forall>b. alias_localpart E b \<noteq> alias_localpart E a \<longrightarrow> resolve_local_alias E b db' = resolve_local_alias E b db"
    by (simp add: resolve_local_alias_def t kv_simps wf)
  ultimately show ?thesis using R W by blast
qed

lemma set_alias_total:
  "a \<noteq> admin_alias E \<or> u = server_user E \<Longrightarrow> \<exists>db'. set_alias E a r u db = (Ok (), db')"
  by (auto simp: set_alias_def set_alias_db_def Let_def next_count_eq)

lemma sample_alias_ids:
  "id_ok (valid_room_id (alias_ruma sample_alias_env)) (ascii ''!r:x'')"
  "id_ok (valid_user_id (alias_ruma sample_alias_env)) (ascii ''@a:x'')"
  "id_ok (valid_alias_id (alias_ruma sample_alias_env)) (ascii ''#a:x'')"
  "ascii ''#a:x'' \<noteq> admin_alias sample_alias_env" "ascii ''#b:x'' \<noteq> admin_alias sample_alias_env"
  by (simp_all add: id_ok_def sample_alias_env_def accept_all_def ascii_def)

theorem alias_resolution_witness:
  "\<exists>db'. set_alias sample_alias_env (ascii ''#a:x'') (ascii ''!r:x'') (ascii ''@a:x'') empty_rooms_db = (Ok (), db')
     \<and> resolve_local_alias sample_alias_env (ascii ''#a:x'') db' = Ok (Some (ascii ''!r:x''))"
proof -
  obtain db' where run: "set_alias sample_alias_env (ascii ''#a:x'') (ascii ''!r:x'') (ascii ''@a:x'') empty_rooms_db = (Ok (), db')"
    using set_alias_total [of "ascii ''#a:x''" sample_alias_env] sample_alias_ids(4) by blast
  from alias_resolution [OF empty_rooms_typed sample_alias_ids(1,2) run] run show ?thesis by blast
qed

text \<open>
  C31: removing one alias of a room empties the room's list of aliases, although its other aliases still
  resolve to it.
\<close>

theorem remove_alias_forgets_siblings:
  assumes "rooms_typed (alias_ruma E) db" "utf8 r"
    and "resolve_local_alias E a db = Ok (Some r)" "resolve_local_alias E b db = Ok (Some r)"
    and "alias_localpart E a \<noteq> alias_localpart E b" "user_can_remove_alias E a u db = Ok True"
  shows "\<exists>db'. remove_alias E a u db = (Ok (), db') \<and> local_aliases_for_room E r db' = []
    \<and> resolve_local_alias E b db' = Ok (Some r)"
proof -
  have wf: "kv_wf (alias_roomid db)" "kv_wf (aliasid_alias db)"
    using assms(1) by (auto simp: rooms_typed_def dest: table_ok_wf)
  have "kv_get (alias_roomid db) (alias_localpart E a) = Some r"
    using assms(3) by (cases "kv_get (alias_roomid db) (alias_localpart E a)")
      (auto simp: resolve_local_alias_def map_transpose_def parse_id_def string_from_bytes_def and_then_def ok_or_def
        split: if_splits sum.splits option.splits)
  then show ?thesis
    using assms(4,5,6) wf
    by (simp add: remove_alias_def remove_alias_db_def local_aliases_for_room_def kv_scan_prefix_remove_prefix
        resolve_local_alias_def kv_get_remove)
qed

theorem remove_alias_forgets_siblings_witness:
  "\<exists>(db :: rooms_db) db'. local_aliases_for_room sample_alias_env (ascii ''!r:x'') db \<noteq> []
     \<and> remove_alias sample_alias_env (ascii ''#a:x'') (ascii ''@a:x'') db = (Ok (), db')
     \<and> local_aliases_for_room sample_alias_env (ascii ''!r:x'') db' = []
     \<and> resolve_local_alias sample_alias_env (ascii ''#b:x'') db' = Ok (Some (ascii ''!r:x''))"
proof -
  let ?E = sample_alias_env and ?r = "ascii ''!r:x''" and ?u = "ascii ''@a:x''"
  let ?db = "empty_rooms_db\<lparr>alias_roomid := kv_insert (kv_insert [] (ascii ''#a:x'') ?r) (ascii ''#b:x'') ?r,
      alias_userid := kv_insert (kv_insert [] (ascii ''#a:x'') ?u) (ascii ''#b:x'') ?u,
      aliasid_alias := kv_insert [] (?r @ [sep]) (ascii ''#a:x'')\<rparr>"
  have ids: "id_ok (valid_room_id accept_all) ?r" "id_ok (valid_user_id accept_all) ?u"
    "id_ok (valid_alias_id accept_all) (ascii ''#a:x'')" "ascii ''#a:x'' \<noteq> ascii ''#b:x''" "utf8 ?r"
    by (simp_all add: id_ok_def accept_all_def ascii_def)
  have E: "alias_ruma ?E = accept_all" "alias_localpart ?E = (\<lambda>a. a)" by (simp_all add: sample_alias_env_def)
  have T: "rooms_typed (alias_ruma ?E) ?db"
    using empty_rooms_typed [of accept_all] ids by (simp add: rooms_typed_def E table_ok_intros del: kv_insert.simps)
  have R: "resolve_local_alias ?E (ascii ''#a:x'') ?db = Ok (Some ?r)" "resolve_local_alias ?E (ascii ''#b:x'') ?db = Ok (Some ?r)"
    "who_created_alias ?E (ascii ''#a:x'') ?db = Ok (Some ?u)"
    using ids by (simp_all add: resolve_local_alias_def who_created_alias_def E kv_simps kv_intros parse_id_ok del: kv_insert.simps)
  then have "user_can_remove_alias ?E (ascii ''#a:x'') ?u ?db = Ok True" by (simp add: user_can_remove_alias_def)
  then obtain db' where "remove_alias ?E (ascii ''#a:x'') ?u ?db = (Ok (), db')" "local_aliases_for_room ?E ?r db' = []"
    "resolve_local_alias ?E (ascii ''#b:x'') db' = Ok (Some ?r)"
    using remove_alias_forgets_siblings [OF T ids(5) R(1,2)] ids(4) E by auto
  moreover have "local_aliases_for_room ?E ?r ?db \<noteq> []"
    by (simp add: local_aliases_for_room_def kv_scan_prefix_def kv_iter_from_def)
  ultimately show ?thesis by blast
qed

text \<open>
  A user other than the server user cannot change who is an administrator by setting an alias: as long as
  the admin alias is the only alias of this server with its local part, the admin room stays the same.
\<close>

theorem admin_room_protected:
  assumes "rooms_typed (alias_ruma E) db" "u \<noteq> server_user E"
    and "alias_localpart E a = alias_localpart E (admin_alias E) \<longrightarrow> a = admin_alias E"
  shows "get_admin_room E (snd (set_alias E a r u db)) = get_admin_room E db
    \<and> user_is_admin E v (snd (set_alias E a r u db)) = user_is_admin E v db"
proof (cases "a = admin_alias E")
  case True
  then show ?thesis using assms(2) by (simp add: set_alias_def)
next
  case False
  have wf: "kv_wf (alias_roomid db)" using assms(1) by (auto simp: rooms_typed_def dest: table_ok_wf)
  have "get_admin_room E (snd (set_alias E a r u db)) = get_admin_room E db"
    using False assms(3)
    by (simp add: set_alias_def set_alias_db_def Let_def next_count_eq get_admin_room_def resolve_local_alias_def kv_get_insert wf)
  moreover have "is_joined v x (snd (set_alias E a r u db)) = is_joined v x db" for x
    by (simp add: is_joined_def set_alias_def set_alias_db_def Let_def next_count_eq)
  ultimately show ?thesis unfolding user_is_admin_def by (simp only:)
qed

theorem admin_room_protected_witness:
  "get_admin_room sample_alias_env (snd (set_alias sample_alias_env (ascii ''#admins:x'') (ascii ''!r:x'') (ascii ''@a:x'') empty_rooms_db))
     = get_admin_room sample_alias_env empty_rooms_db"
proof -
  have "ascii ''@a:x'' \<noteq> server_user sample_alias_env" by (simp add: sample_alias_env_def ascii_def)
  then show ?thesis
    using admin_room_protected [OF empty_rooms_typed, of "ascii ''@a:x''" sample_alias_env "ascii ''#admins:x''"]
    by (simp add: sample_alias_env_def)
qed

text \<open>
  The relations of an event before a position are listed completely and newest first.
\<close>

theorem relations_until_complete:
  assumes "rooms_typed R db" "x \<noteq> 0"
  shows "\<exists>froms. relations_until C u s t (Normal x) db =
      map (\<lambda>f. relation_row C u s db (to_be_bytes t @ to_be_bytes f)) froms
    \<and> sorted_wrt (>) froms
    \<and> set froms = {f. f < x \<and> kv_get (tofrom_relation db) (to_be_bytes t @ to_be_bytes f) \<noteq> None}"
proof -
  have T: "table_ok (\<lambda>k. length k = 16) (\<lambda>_. True) (tofrom_relation db)" using assms(1) by (simp add: rooms_typed_def)
  show ?thesis by (rule relations_rows [OF T assms(2), of C u s t]) blast
qed

theorem relations_until_complete_witness:
  "\<forall>(C :: unit pdu_codec) u. \<exists>froms. 3 \<in> set froms
    \<and> relations_until C u 1 2 (Normal 9) (add_relation 3 2 empty_rooms_db) =
      map (\<lambda>f. relation_row C u 1 (add_relation 3 2 empty_rooms_db) (to_be_bytes 2 @ to_be_bytes f)) froms"
proof (intro allI)
  fix C :: "unit pdu_codec" and u
  let ?db = "add_relation 3 2 empty_rooms_db"
  have T: "rooms_typed accept_all ?db"
    using meta_step_typed [OF meta_step.intros(7), of sample_alias_env empty_rooms_db 3 2] empty_rooms_typed
    by (simp add: sample_alias_env_def)
  have "kv_get (tofrom_relation ?db) (to_be_bytes 2 @ to_be_bytes 3) \<noteq> None"
    by (simp add: add_relation_def kv_get_def)
  moreover have "(3 :: u64) < 9" by simp
  ultimately show "\<exists>froms. 3 \<in> set froms \<and> relations_until C u 1 2 (Normal 9) ?db =
      map (\<lambda>f. relation_row C u 1 ?db (to_be_bytes 2 @ to_be_bytes f)) froms"
    using relations_until_complete [OF T, of 9 C u 1 2] by auto
qed

text \<open>
  Confirming a sync marks exactly the members that were waiting on it as sent to this device in this
  room, and a reset forgets exactly the marks of this device in this room.
\<close>

theorem lazy_load_exact:
  assumes "kv_wf (lazyloadedids db)" "lazy_load_waiting db (u, d, r, since) = Some ls"
    and "utf8 u" "utf8 d" "utf8 r" "utf8 u'" "utf8 d'" "utf8 r'"
  shows "(lazy_load_was_sent_before u' d' r' l (lazy_load_confirm_delivery u d r since db) \<longleftrightarrow>
      lazy_load_was_sent_before u' d' r' l db \<or> (u', d', r') = (u, d, r) \<and> l \<in> set ls)
    \<and> (lazy_load_was_sent_before u' d' r' l (lazy_load_reset u d r db) \<longleftrightarrow>
      lazy_load_was_sent_before u' d' r' l db \<and> (u', d', r') \<noteq> (u, d, r))"
proof -
  note P = lazy_key_inj [OF assms(3-8), of l]
  note Q = lazy_key_eq [OF assms(6-8,3-5), of l]
  have "lazy_prefix u' d' r' @ l \<in> (\<lambda>x. lazy_prefix u d r @ x) ` set ls \<longleftrightarrow> (u', d', r') = (u, d, r) \<and> l \<in> set ls"
    using Q by (auto simp: image_iff)
  then have "lazy_load_was_sent_before u' d' r' l (lazy_load_confirm_delivery u d r since db) \<longleftrightarrow>
      lazy_load_was_sent_before u' d' r' l db \<or> (u', d', r') = (u, d, r) \<and> l \<in> set ls"
    using fold_insert_keys [OF assms(1), of "\<lambda>x. lazy_prefix u d r @ x" ls "lazy_prefix u' d' r' @ l"] assms(2)
    by (simp add: lazy_load_was_sent_before_def lazy_load_confirm_delivery_def lazy_load_confirm_delivery_db_def)
  moreover have "lazy_load_was_sent_before u' d' r' l (lazy_load_reset u d r db) \<longleftrightarrow>
      lazy_load_was_sent_before u' d' r' l db \<and> (u', d', r') \<noteq> (u, d, r)"
    using P assms(1) by (auto simp: lazy_load_was_sent_before_def lazy_load_reset_def kv_get_remove_prefix)
  ultimately show ?thesis by blast
qed

theorem lazy_load_exact_witness:
  "lazy_load_was_sent_before [97] [98] [99] [100]
     (lazy_load_confirm_delivery [97] [98] [99] (Normal 1) (lazy_load_mark_sent [97] [98] [99] [[100]] (Normal 1) empty_rooms_db))"
proof -
  let ?db = "lazy_load_mark_sent [97] [98] [99] [[100]] (Normal 1) empty_rooms_db"
  have "kv_wf (lazyloadedids ?db)" "lazy_load_waiting ?db ([97], [98], [99], Normal 1) = Some [[100]]"
    by (simp_all add: lazy_load_mark_sent_def)
  from lazy_load_exact [OF this, of "[97]" "[98]" "[99]" "[100]"] show ?thesis by simp
qed

end
