(* ===== verification/AppService.thy ===== *)
theory AppService
  imports Globals "HOL-Library.AList" "HOL-Library.Countable"
begin

text \<open>
  Application services, pushers and transaction ids: \<^verbatim>\<open>server/src/database/key_value/appservice.rs\<close>,
  \<^verbatim>\<open>server/src/service/appservice/mod.rs\<close>, \<^verbatim>\<open>server/src/database/key_value/pusher.rs\<close> and
  \<^verbatim>\<open>server/src/database/key_value/transaction_ids.rs\<close>. A registration is stored as YAML and kept in memory with its
  compiled namespaces; the memory is rebuilt from the table when the server starts.
\<close>

section \<open>Registrations\<close>

record namespace =
  namespace_exclusive :: bool
  namespace_regex :: str

text \<open>The fields of ruma's \<open>Registration\<close>; \<open>registration_key\<close> is its \<open>id\<close>.\<close>

record registration =
  registration_key :: str
  registration_url :: "str option"
  as_token :: str
  hs_token :: str
  sender_localpart :: str
  users_namespaces :: "namespace list"
  aliases_namespaces :: "namespace list"
  rooms_namespaces :: "namespace list"
  rate_limited :: "bool option"
  protocols :: "str list option"

text \<open>
  \<open>regex_set\<close> is \<open>RegexSet::new\<close>, with a compiled set represented by its \<open>is_match\<close>; the YAML codec and
  \<open>UserId::localpart\<close> are further parameters.
\<close>

record appservice_env =
  regex_set :: "str list \<Rightarrow> (str \<Rightarrow> bool) option"
  yaml_enc :: "registration \<Rightarrow> bytes"
  yaml_dec :: "bytes \<Rightarrow> registration option"
  user_localpart :: "str \<Rightarrow> str"

record namespace_matcher =
  exclusive_set :: "(str \<Rightarrow> bool) option"
  non_exclusive_set :: "(str \<Rightarrow> bool) option"

record registration_entry =
  entry_registration :: registration
  entry_users :: namespace_matcher
  entry_aliases :: namespace_matcher
  entry_rooms :: namespace_matcher

record services_db =
  id_appserviceregistrations :: kvtree
  registration_cache :: "(str \<times> registration_entry) list"
  senderkey_pusher :: kvtree
  userdevicetxnid_response :: kvtree

definition is_exclusive_match :: "namespace_matcher \<Rightarrow> str \<Rightarrow> bool" where
  "is_exclusive_match m heystack = (case exclusive_set m of Some f \<Rightarrow> f heystack | None \<Rightarrow> False)"

definition is_match :: "namespace_matcher \<Rightarrow> str \<Rightarrow> bool" where
  "is_match m heystack =
     (if is_exclusive_match m heystack then True
      else case non_exclusive_set m of Some f \<Rightarrow> f heystack | None \<Rightarrow> False)"

text \<open>\<open>TryFrom<Vec<Namespace>>\<close>: an empty group is not compiled.\<close>

definition compile_group :: "appservice_env \<Rightarrow> str list \<Rightarrow> (str \<Rightarrow> bool) option result" where
  "compile_group A regexes =
     (if regexes = [] then Ok None else and_then (ok_or RegexError (regex_set A regexes)) (\<lambda>f. Ok (Some f)))"

definition namespace_try_from :: "appservice_env \<Rightarrow> namespace list \<Rightarrow> namespace_matcher result" where
  "namespace_try_from A value =
     (let exclusive = map namespace_regex (filter namespace_exclusive value);
          non_exclusive = map namespace_regex (filter (\<lambda>n. \<not> namespace_exclusive n) value)
      in and_then (compile_group A exclusive) (\<lambda>e.
         and_then (compile_group A non_exclusive) (\<lambda>n. Ok \<lparr>exclusive_set = e, non_exclusive_set = n\<rparr>)))"

definition registration_try_from :: "appservice_env \<Rightarrow> registration \<Rightarrow> registration_entry result" where
  "registration_try_from A value =
     and_then (namespace_try_from A (users_namespaces value)) (\<lambda>users.
     and_then (namespace_try_from A (aliases_namespaces value)) (\<lambda>aliases.
     and_then (namespace_try_from A (rooms_namespaces value)) (\<lambda>rooms.
       Ok \<lparr>entry_registration = value, entry_users = users, entry_aliases = aliases, entry_rooms = rooms\<rparr>)))"

definition is_user_match :: "appservice_env \<Rightarrow> registration_entry \<Rightarrow> str \<Rightarrow> bool" where
  "is_user_match A info user_id \<longleftrightarrow> is_match (entry_users info) user_id
     \<or> sender_localpart (entry_registration info) = user_localpart A user_id"

definition is_exclusive_user_match :: "appservice_env \<Rightarrow> registration_entry \<Rightarrow> str \<Rightarrow> bool" where
  "is_exclusive_user_match A info user_id \<longleftrightarrow> is_exclusive_match (entry_users info) user_id
     \<or> sender_localpart (entry_registration info) = user_localpart A user_id"

subsection \<open>Storage\<close>

definition register_appservice_db ::
  "appservice_env \<Rightarrow> registration \<Rightarrow> 'a services_db_scheme \<Rightarrow> str \<times> 'a services_db_scheme" where
  "register_appservice_db A yaml db =
     (registration_key yaml,
      db\<lparr>id_appserviceregistrations :=
           kv_insert (id_appserviceregistrations db) (registration_key yaml) (yaml_enc A yaml)\<rparr>)"

definition unregister_appservice_db :: "str \<Rightarrow> 'a services_db_scheme \<Rightarrow> 'a services_db_scheme" where
  "unregister_appservice_db service_name db =
     db\<lparr>id_appserviceregistrations := kv_remove (id_appserviceregistrations db) service_name\<rparr>"

definition get_registration_db :: "appservice_env \<Rightarrow> str \<Rightarrow> 'a services_db_scheme \<Rightarrow> registration option result" where
  "get_registration_db A i db =
     map_transpose (\<lambda>bytes. ok_or (BadDatabase ''Invalid registration bytes in id_appserviceregistrations.'')
         (yaml_dec A bytes))
       (kv_get (id_appserviceregistrations db) i)"

definition iter_ids_db :: "'a services_db_scheme \<Rightarrow> str result list" where
  "iter_ids_db db =
     map (\<lambda>(i, _). ok_or (BadDatabase ''Invalid id bytes in id_appserviceregistrations.'') (string_from_bytes i))
       (kv_iter (id_appserviceregistrations db))"

definition all_registrations :: "appservice_env \<Rightarrow> 'a services_db_scheme \<Rightarrow> (str \<times> registration) list result" where
  "all_registrations A db =
     collect_result (map (\<lambda>i. and_then (get_registration_db A i db) (\<lambda>r.
         and_then (ok_or (Panicked ''iter_ids only returns appservices that exist'') r) (\<lambda>r. Ok (i, r))))
       (oks (iter_ids_db db)))"

subsection \<open>The service\<close>

text \<open>A \<open>BTreeMap\<close> keyed by id: an ordered association list.\<close>

fun btree_insert :: "str \<Rightarrow> 'v \<Rightarrow> (str \<times> 'v) list \<Rightarrow> (str \<times> 'v) list" where
  "btree_insert k v [] = [(k, v)]"
| "btree_insert k v ((k', v') # m) =
     (if k < k' then (k, v) # (k', v') # m
      else if k = k' then (k, v) # m else (k', v') # btree_insert k v m)"

definition build_cache :: "appservice_env \<Rightarrow> 'a services_db_scheme \<Rightarrow> (str \<times> registration_entry) list result" where
  "build_cache A db =
     and_then (all_registrations A db) (\<lambda>rs.
       fold (\<lambda>(i, r) acc. and_then acc (\<lambda>m.
           case registration_try_from A r of
             Inr e \<Rightarrow> Ok (btree_insert i e m)
           | Inl _ \<Rightarrow> Err (Panicked ''Should be validated on registration''))) rs (Ok []))"

definition register_appservice ::
  "appservice_env \<Rightarrow> registration \<Rightarrow> 'a services_db_scheme \<Rightarrow> str result \<times> 'a services_db_scheme" where
  "register_appservice A yaml db =
     step_then (registration_try_from A yaml, db) (\<lambda>info db.
       let db = db\<lparr>registration_cache := btree_insert (registration_key yaml) info (registration_cache db)\<rparr>;
           (i, db) = register_appservice_db A yaml db
       in (Ok i, db))"

definition unregister_appservice :: "str \<Rightarrow> 'a services_db_scheme \<Rightarrow> unit result \<times> 'a services_db_scheme" where
  "unregister_appservice service_name db =
     (case map_of (registration_cache db) service_name of
        None \<Rightarrow> (Err (AdminCommand ''Appservice not found''), db)
      | Some _ \<Rightarrow>
          (Ok (), unregister_appservice_db service_name
             (db\<lparr>registration_cache := AList.delete service_name (registration_cache db)\<rparr>)))"

definition get_registration :: "str \<Rightarrow> 'a services_db_scheme \<Rightarrow> registration option" where
  "get_registration i db = map_option entry_registration (map_of (registration_cache db) i)"

definition iter_ids :: "'a services_db_scheme \<Rightarrow> str list" where
  "iter_ids db = map fst (registration_cache db)"

definition find_from_as_token :: "str \<Rightarrow> 'a services_db_scheme \<Rightarrow> registration_entry option" where
  "find_from_as_token token db =
     List.find (\<lambda>info. as_token (entry_registration info) = token) (map snd (registration_cache db))"

definition is_exclusive_user_id :: "appservice_env \<Rightarrow> str \<Rightarrow> 'a services_db_scheme \<Rightarrow> bool" where
  "is_exclusive_user_id A user_id db = list_ex (\<lambda>(_, info). is_exclusive_user_match A info user_id) (registration_cache db)"

definition is_exclusive_alias :: "str \<Rightarrow> 'a services_db_scheme \<Rightarrow> bool" where
  "is_exclusive_alias alias db = list_ex (\<lambda>(_, info). is_exclusive_match (entry_aliases info) alias) (registration_cache db)"

definition is_exclusive_room_id :: "str \<Rightarrow> 'a services_db_scheme \<Rightarrow> bool" where
  "is_exclusive_room_id room_id db = list_ex (\<lambda>(_, info). is_exclusive_match (entry_rooms info) room_id) (registration_cache db)"

section \<open>Transaction ids\<close>

definition txn_key :: "str \<Rightarrow> str option \<Rightarrow> str \<Rightarrow> bytes" where
  "txn_key user_id device_id txn_id =
     user_id @ [sep] @ (case device_id of Some d \<Rightarrow> d | None \<Rightarrow> []) @ [sep] @ txn_id"

definition add_txnid ::
  "str \<Rightarrow> str option \<Rightarrow> str \<Rightarrow> bytes \<Rightarrow> 'a services_db_scheme \<Rightarrow> 'a services_db_scheme" where
  "add_txnid user_id device_id txn_id data db =
     db\<lparr>userdevicetxnid_response := kv_insert (userdevicetxnid_response db) (txn_key user_id device_id txn_id) data\<rparr>"

definition existing_txnid :: "str \<Rightarrow> str option \<Rightarrow> str \<Rightarrow> 'a services_db_scheme \<Rightarrow> bytes option" where
  "existing_txnid user_id device_id txn_id db =
     kv_get (userdevicetxnid_response db) (txn_key user_id device_id txn_id)"

section \<open>Pushers\<close>

text \<open>A pusher \<open>'p\<close> has a push key; what is stored for it is its serialised action.\<close>

datatype 'p pusher_action = PostPusher 'p | DeletePusher str

record 'p pusher_codec =
  pushkey_of :: "'p \<Rightarrow> str"
  pusher_enc :: "'p \<Rightarrow> bytes"
  pusher_dec :: "bytes \<Rightarrow> 'p option"

definition set_pusher ::
  "'p pusher_codec \<Rightarrow> str \<Rightarrow> 'p pusher_action \<Rightarrow> 'a services_db_scheme \<Rightarrow> 'a services_db_scheme" where
  "set_pusher K sender pusher db =
     (case pusher of
        PostPusher data \<Rightarrow>
          db\<lparr>senderkey_pusher := kv_insert (senderkey_pusher db) (sender @ [sep] @ pushkey_of K data) (pusher_enc K data)\<rparr>
      | DeletePusher pushkey \<Rightarrow>
          db\<lparr>senderkey_pusher := kv_remove (senderkey_pusher db) (sender @ [sep] @ pushkey)\<rparr>)"

definition get_pusher :: "'p pusher_codec \<Rightarrow> str \<Rightarrow> str \<Rightarrow> 'a services_db_scheme \<Rightarrow> 'p option result" where
  "get_pusher K sender pushkey db =
     map_transpose (\<lambda>push. ok_or (BadDatabase ''Invalid Pusher in db.'') (pusher_dec K push))
       (kv_get (senderkey_pusher db) (sender @ [sep] @ pushkey))"

definition get_pushers :: "'p pusher_codec \<Rightarrow> str \<Rightarrow> 'a services_db_scheme \<Rightarrow> 'p list result" where
  "get_pushers K sender db =
     collect_result (map (\<lambda>(_, push). ok_or (BadDatabase ''Invalid Pusher in db.'') (pusher_dec K push))
       (kv_scan_prefix (senderkey_pusher db) (sender @ [sep])))"

definition get_pushkeys :: "str \<Rightarrow> 'a services_db_scheme \<Rightarrow> str result list" where
  "get_pushkeys sender db =
     map (\<lambda>(k, _).
       case splitn_sep 2 k of
         [_, push_key] \<Rightarrow> ok_or (BadDatabase ''Invalid pusher bytes in senderkey_pusher'') (string_from_bytes push_key)
       | _ \<Rightarrow> Err (BadDatabase ''Invalid senderkey_pusher in db''))
     (kv_scan_prefix (senderkey_pusher db) (sender @ [sep]))"

section \<open>The memory follows the table\<close>

text \<open>Every registration in memory is the compiled form of the row of its id, in the order of the table.\<close>

definition cache_matches :: "appservice_env \<Rightarrow> 'a services_db_scheme \<Rightarrow> bool" where
  "cache_matches A db \<longleftrightarrow> kv_wf (id_appserviceregistrations db)
     \<and> list_all2 (\<lambda>(i, bs) (j, e). i = j \<and> utf8 i \<and> yaml_dec A bs = Some (entry_registration e)
          \<and> registration_try_from A (entry_registration e) = Ok e)
        (id_appserviceregistrations db) (registration_cache db)"

lemma registration_try_from_keeps: "registration_try_from A r = Ok e \<Longrightarrow> entry_registration e = r"
  by (auto simp: registration_try_from_def and_then_eq_Inr)

lemma list_all2_insert:
  assumes "list_all2 (\<lambda>(i, bs) (j, e). i = j \<and> P i bs e) t m" "P k v w"
  shows "list_all2 (\<lambda>(i, bs) (j, e). i = j \<and> P i bs e) (kv_insert t k v) (btree_insert k w m)"
  using assms by (induction t m rule: list_all2_induct) (auto split: prod.splits)

lemma AList_delete_filter: "AList.delete k m = filter (\<lambda>(i, _). i \<noteq> k) m"
  by (induction m) (auto simp: AList.delete_eq)

lemma list_all2_delete:
  assumes "list_all2 (\<lambda>(i, bs) (j, e). i = j \<and> P i bs e) t m"
  shows "list_all2 (\<lambda>(i, bs) (j, e). i = j \<and> P i bs e) (kv_remove t k) (AList.delete k m)"
  unfolding AList_delete_filter kv_remove_def
  using assms by (induction t m rule: list_all2_induct) (auto split: prod.splits)

text \<open>Inserting in key order appends.\<close>

lemma btree_insert_last: "\<forall>(i, _) \<in> set m. i < k \<Longrightarrow> btree_insert k v m = m @ [(k, v)]"
  by (induction m) (auto simp: less_le_not_le)

lemma all_registrations_rows:
  assumes "list_all2 (\<lambda>(i, bs) (j, e). i = j \<and> utf8 i \<and> yaml_dec A bs = Some (entry_registration e) \<and> Q e) t m"
    and "\<forall>(k, v) \<in> set t. kv_get (id_appserviceregistrations db) k = Some v"
  shows "map (\<lambda>i. and_then (get_registration_db A i db) (\<lambda>r.
      and_then (ok_or (Panicked msg) r) (\<lambda>r. Ok (i, r)))) (map fst t)
    = map Ok (map (\<lambda>(i, e). (i, entry_registration e)) m) \<and> (\<forall>i \<in> set (map fst t). utf8 i)"
  using assms by (induction t m rule: list_all2_induct) (auto simp: get_registration_db_def)

lemma build_fold:
  assumes "sorted_wrt (<) (map fst (pre @ m))" "\<forall>(i, e) \<in> set m. registration_try_from A (entry_registration e) = Ok e"
  shows "fold (\<lambda>(i, r) acc. and_then acc (\<lambda>m.
           case registration_try_from A r of
             Inr e \<Rightarrow> Ok (btree_insert i e m)
           | Inl _ \<Rightarrow> Err (Panicked msg))) (map (\<lambda>(i, e). (i, entry_registration e)) m) (Ok pre) = Ok (pre @ m)"
  using assms
proof (induction m arbitrary: pre)
  case (Cons x m)
  obtain i e where x: "x = (i, e)" by (cases x)
  have "\<forall>(j, _) \<in> set pre. j < i" using Cons.prems(1) by (auto simp: x sorted_wrt_append)
  then have ins: "btree_insert i e pre = pre @ [(i, e)]" by (rule btree_insert_last)
  have e: "registration_try_from A (entry_registration e) = Ok e" using Cons.prems(2) by (simp add: x)
  have s: "sorted_wrt (<) (map fst ((pre @ [(i, e)]) @ m))" using Cons.prems(1) by (simp add: x)
  have m: "\<forall>(i, e) \<in> set m. registration_try_from A (entry_registration e) = Ok e" using Cons.prems(2) by simp
  show ?case using Cons.IH [OF s m] by (simp add: x e ins)
qed simp

lemma build_cache_matches:
  assumes "cache_matches A db"
  shows "build_cache A db = Ok (registration_cache db)"
proof -
  let ?t = "id_appserviceregistrations db" and ?m = "registration_cache db"
  have wf: "kv_wf ?t" and l: "list_all2 (\<lambda>(i, bs) (j, e). i = j \<and> utf8 i \<and> yaml_dec A bs = Some (entry_registration e)
      \<and> registration_try_from A (entry_registration e) = Ok e) ?t ?m"
    using assms by (simp_all add: cache_matches_def)
  have keys: "map fst ?t = map fst ?m"
    using l by (induction rule: list_all2_induct) auto
  have rows: "\<forall>(k, v) \<in> set ?t. kv_get ?t k = Some v" using wf by (auto simp: kv_get_in_set)
  note R = all_registrations_rows [OF l rows, where msg = "''iter_ids only returns appservices that exist''"]
  have "utf8 (fst x)" if "x \<in> set ?t" for x using conjunct2 [OF R] that by simp
  then have "iter_ids_db db = map Ok (map fst ?t)" by (simp add: iter_ids_db_def kv_iter_def split_beta)
  moreover have "oks (map Ok xs) = xs" for xs :: "str list" by (induction xs) auto
  ultimately have ids: "oks (iter_ids_db db) = map fst ?t" by (simp only:)
  have "collect_result (map Ok xs) = Ok xs" for xs :: "(str \<times> registration) list"
    using collect_result_map_Inr [of xs Ok "\<lambda>x. x"] by simp
  then have all: "all_registrations A db = Ok (map (\<lambda>(i, e). (i, entry_registration e)) ?m)"
    unfolding all_registrations_def ids using conjunct1 [OF R] by (simp only:)
  have "sorted_wrt (<) (map fst ([] @ ?m))" using wf keys by (simp add: kv_wf_def)
  moreover have "\<forall>(i, e) \<in> set ?m. registration_try_from A (entry_registration e) = Ok e"
    using l by (induction rule: list_all2_induct) auto
  ultimately show ?thesis unfolding build_cache_def all using build_fold [of "[]" ?m A] by simp
qed

text \<open>The YAML codec round-trips.\<close>

definition yaml_ok :: "appservice_env \<Rightarrow> bool" where
  "yaml_ok A \<longleftrightarrow> (\<forall>r. yaml_dec A (yaml_enc A r) = Some r)"

inductive appservice_step :: "appservice_env \<Rightarrow> 'a services_db_scheme \<Rightarrow> 'a services_db_scheme \<Rightarrow> bool" for A :: appservice_env where
  register: "utf8 (registration_key r) \<Longrightarrow> appservice_step A db (snd (register_appservice A r db))"
| unregister: "appservice_step A db (snd (unregister_appservice name db))"

lemma appservice_step_matches:
  assumes "appservice_step A db db'" "cache_matches A db" "yaml_ok A"
  shows "cache_matches A db'"
  using assms(1)
proof cases
  case (register r)
  show ?thesis
  proof (cases "registration_try_from A r")
    case (Inl e)
    then show ?thesis using register assms(2) by (simp add: register_appservice_def)
  next
    case (Inr e)
    have "entry_registration e = r" using Inr by (rule registration_try_from_keeps)
    then show ?thesis using register Inr assms(2,3)
      by (auto simp: register_appservice_def register_appservice_db_def cache_matches_def Let_def yaml_ok_def kv_intros
          intro!: list_all2_insert)
  qed
next
  case (unregister name)
  then show ?thesis using assms(2)
    by (auto simp: unregister_appservice_def unregister_appservice_db_def cache_matches_def kv_intros
        intro!: list_all2_delete split: option.splits)
qed

section \<open>Properties\<close>

text \<open>
  C32: a restart changes nothing. After any registrations and removals, the memory that start-up builds
  from the table is the memory the running server has.
\<close>

theorem restart_rebuilds_registrations:
  assumes "yaml_ok A" "cache_matches A db0" "(appservice_step A)\<^sup>*\<^sup>* db0 db"
  shows "build_cache A db = Ok (registration_cache db)"
proof -
  have "cache_matches A db"
    using assms(3,2) by (induction rule: rtranclp_induct) (auto intro: appservice_step_matches assms(1))
  then show ?thesis by (rule build_cache_matches)
qed

definition sample_appservice_env :: appservice_env where
  "sample_appservice_env = \<lparr>regex_set = (\<lambda>rs. Some (\<lambda>s. s \<in> set rs)),
     yaml_enc = (\<lambda>r. replicate (to_nat ((registration_key r, registration_url r, as_token r, hs_token r, sender_localpart r, rate_limited r, protocols r),
        map (\<lambda>n. (namespace_exclusive n, namespace_regex n)) (users_namespaces r),
        map (\<lambda>n. (namespace_exclusive n, namespace_regex n)) (aliases_namespaces r),
        map (\<lambda>n. (namespace_exclusive n, namespace_regex n)) (rooms_namespaces r))) 0),
     yaml_dec = (\<lambda>bs. case from_nat (length bs) of ((i, u, t, h, l, limited, ps), us, as, rs) \<Rightarrow>
        Some \<lparr>registration_key = i, registration_url = u, as_token = t, hs_token = h, sender_localpart = l,
          users_namespaces = map (\<lambda>(e, r). \<lparr>namespace_exclusive = e, namespace_regex = r\<rparr>) us,
          aliases_namespaces = map (\<lambda>(e, r). \<lparr>namespace_exclusive = e, namespace_regex = r\<rparr>) as,
          rooms_namespaces = map (\<lambda>(e, r). \<lparr>namespace_exclusive = e, namespace_regex = r\<rparr>) rs,
          rate_limited = limited, protocols = ps\<rparr>),
     user_localpart = (\<lambda>u. takeWhile (\<lambda>b. b \<noteq> 58) (tl u))\<rparr>"

definition sample_registration :: registration where
  "sample_registration = \<lparr>registration_key = ascii ''irc'', registration_url = Some (ascii ''http://irc''),
     as_token = ascii ''t'', hs_token = ascii ''h'', sender_localpart = ascii ''bot'',
     users_namespaces = [\<lparr>namespace_exclusive = True, namespace_regex = ascii ''@irc:x''\<rparr>],
     aliases_namespaces = [], rooms_namespaces = [], rate_limited = None, protocols = None\<rparr>"

definition empty_services_db :: services_db where
  "empty_services_db = \<lparr>id_appserviceregistrations = [], registration_cache = [], senderkey_pusher = [],
     userdevicetxnid_response = []\<rparr>"

lemma sample_yaml_ok: "yaml_ok sample_appservice_env"
proof -
  have "(\<lambda>n. \<lparr>namespace_exclusive = namespace_exclusive n, namespace_regex = namespace_regex n\<rparr>) = (\<lambda>n. n)"
    by (rule ext) simp
  then show ?thesis by (simp add: yaml_ok_def sample_appservice_env_def comp_def)
qed

theorem restart_rebuilds_registrations_witness:
  "\<exists>e. build_cache sample_appservice_env (snd (register_appservice sample_appservice_env sample_registration empty_services_db))
     = Ok [(ascii ''irc'', e)] \<and> entry_registration e = sample_registration
     \<and> is_exclusive_user_match sample_appservice_env e (ascii ''@irc:x'')"
proof -
  let ?A = sample_appservice_env
  have m: "cache_matches ?A empty_services_db" by (simp add: cache_matches_def empty_services_db_def)
  have "utf8 (registration_key sample_registration)" by (simp add: sample_registration_def ascii_def)
  then have "(appservice_step ?A)\<^sup>*\<^sup>* empty_services_db (snd (register_appservice ?A sample_registration empty_services_db))"
    by (intro r_into_rtranclp appservice_step.register)
  from restart_rebuilds_registrations [OF sample_yaml_ok m this] show ?thesis
    by (simp add: register_appservice_def register_appservice_db_def registration_try_from_def namespace_try_from_def
        compile_group_def Let_def sample_registration_def empty_services_db_def is_exclusive_user_match_def
        is_exclusive_match_def) (simp add: sample_appservice_env_def)
qed

text \<open>
  A transaction id finds the answer that was stored for it, of the same user and device only.
\<close>

theorem txnid_round_trip:
  assumes "kv_wf (userdevicetxnid_response db)" "utf8 u" "utf8 u'"
    and "\<forall>x. d = Some x \<or> d' = Some x \<longrightarrow> utf8 x"
  shows "existing_txnid u' d' t' (add_txnid u d t data db) =
    (if u' = u \<and> t' = t \<and> (case d' of Some x \<Rightarrow> x | None \<Rightarrow> []) = (case d of Some x \<Rightarrow> x | None \<Rightarrow> [])
     then Some data else existing_txnid u' d' t' db)"
proof -
  let ?dev = "\<lambda>d. case d of Some x \<Rightarrow> x | None \<Rightarrow> []"
  have n: "sep \<notin> set (?dev d)" "sep \<notin> set (?dev d')" "sep \<notin> set u" "sep \<notin> set u'"
    using assms(2-4) by (auto simp: utf8_no_sep split: option.splits)
  have "txn_key u' d' t' = txn_key u d t \<longleftrightarrow> u' = u \<and> ?dev d' = ?dev d \<and> t' = t"
    using sep_append_inj [OF n(4,3), of "?dev d' @ sep # t'" "?dev d @ sep # t"] sep_append_inj [OF n(2,1), of t' t]
    by (simp add: txn_key_def)
  then show ?thesis using assms(1) by (auto simp: existing_txnid_def add_txnid_def kv_get_insert)
qed

theorem txnid_round_trip_witness:
  "existing_txnid (ascii ''@a'') None (ascii ''1'') (add_txnid (ascii ''@a'') None (ascii ''1'') [7] empty_services_db) = Some [7]"
proof -
  have "kv_wf (userdevicetxnid_response empty_services_db)" "utf8 (ascii ''@a'')"
    by (simp_all add: empty_services_db_def ascii_def)
  then show ?thesis by (subst txnid_round_trip) simp_all
qed

end
