(* ===== verification/Delivery.thy ===== *)
theory Delivery
  imports RoomMeta AppService
begin

text \<open>
  What one request of the sender does: \<open>handle_events\<close> of \<^verbatim>\<open>server/src/service/sending/mod.rs\<close>, with the
  push notices of \<^verbatim>\<open>server/src/service/pusher/mod.rs\<close>, the requests to application services of
  \<^verbatim>\<open>server/src/api/appservice_server.rs\<close> and the parts of \<^verbatim>\<open>pdu.rs\<close> and \<^verbatim>\<open>state_accessor/mod.rs\<close> they read.
  The other side is a function from what is transmitted to its answer; every transmission is
  recorded with the answer it got. A request reads one snapshot of the tables and of the services, and
  the limit on concurrent requests is left out.
\<close>

section \<open>Destinations and what is transmitted to them\<close>

datatype outgoing_kind =
    ToAppservice str
  | ToPush str str
  | ToServer str

datatype sending_event = SendPdu bytes | SendEdu bytes

datatype push_format = EventIdOnly | OtherFormat str

record http_pusher =
  push_url :: str
  push_format :: "push_format option"
  push_data :: bytes

datatype pusher_kind = HttpPusher http_pusher | EmailPusher | OtherPusher

record pusher =
  pusher_app_id :: str
  pusher_pushkey :: str
  pusher_kind :: pusher_kind

datatype tweak = TweakHighlight bool | TweakSound str | TweakCustom str

datatype push_action = NotifyAction | SetTweakAction tweak | OtherAction

record notification =
  nf_app_id :: str
  nf_pushkey :: str
  nf_data :: bytes
  nf_format :: "push_format option"
  nf_tweaks :: "tweak list"
  nf_high_priority :: bool
  nf_event_id :: str
  nf_room_id :: str
  nf_unread :: u64
  nf_sender :: "str option"
  nf_event_type :: "str option"
  nf_content :: "bytes option"
  nf_user_is_target :: bool
  nf_sender_display_name :: "str option"
  nf_room_name :: "str option"

text \<open>
  A transmission: the transaction for a server with the JSON of its events, the transaction for an
  application service, the notification for a push gateway. The identifiers of PDUs stand beside the
  bodies made of them; the printed form of an event for an application service is not spelled out.
\<close>

datatype exchange =
    ServerTransaction str str "(bytes \<times> bytes) list" "bytes list"
  | AppTransaction registration str "(bytes \<times> str \<times> pdu) list"
  | PushNotification str notification

type_synonym exchanges = "(exchange \<times> unit result) list"

text \<open>
  Functions of ruma and \<open>serde_json\<close>: raw JSON of a canonical object and of a stored EDU, URL-safe
  base64, push rules and what they say of an event, and the parts of a create event. Values
  of ruma that the code only passes on (rule sets, power levels, authorization rules) are bytes.
\<close>

record delivery_env =
  dl_env :: env
  dl_codec :: "(str \<times> json) list pdu_codec"
  dl_users :: users_codec
  dl_pushers :: "pusher pusher_codec"
  to_raw_value :: "(str \<times> json) list \<Rightarrow> bytes"
  edu_raw :: "bytes \<Rightarrow> bytes option"
  base64_url :: "bytes \<Rightarrow> str"
  push_rules_dec :: "bytes \<Rightarrow> bytes option"
  server_default :: "str \<Rightarrow> bytes"
  ruleset_actions :: "bytes \<Rightarrow> pdu \<Rightarrow> str \<Rightarrow> str \<Rightarrow> str \<Rightarrow> bytes \<Rightarrow> push_action list"
  localpart_of :: "str \<Rightarrow> str"
  power_levels_dec :: "bytes \<Rightarrow> bytes option"
  create_version :: "pdu \<Rightarrow> str option"
  version_rules :: "str \<Rightarrow> bytes option"
  create_creators :: "bytes \<Rightarrow> pdu \<Rightarrow> str list option"
  room_power_levels :: "bytes option \<Rightarrow> bytes \<Rightarrow> str list \<Rightarrow> bytes"
  room_name_dec :: "bytes \<Rightarrow> str option"

text \<open>The state of a request: the tables, whose caches reads may fill, and the transmissions so far.\<close>

definition reading :: "('d \<Rightarrow> 'a result \<times> 'd) \<Rightarrow> 'd \<times> exchanges \<Rightarrow> 'a result \<times> 'd \<times> exchanges" where
  "reading f st = (case f (fst st) of (r, db) \<Rightarrow> (r, db, snd st))"

definition transmit ::
  "(exchange \<Rightarrow> unit result) \<Rightarrow> exchange \<Rightarrow> 'd \<times> exchanges \<Rightarrow> unit result \<times> 'd \<times> exchanges" where
  "transmit net x st = (net x, fst st, snd st @ [(x, net x)])"

section \<open>Push notices\<close>

definition power_levels ::
  "delivery_env \<Rightarrow> str \<Rightarrow> 'a timeline_db_scheme \<Rightarrow> bytes result \<times> 'a timeline_db_scheme" where
  "power_levels W room_id db =
     step_then (room_state_get (dl_env W) (dl_codec W) room_id (ascii ''m.room.power_levels'') [] db) (\<lambda>ev db.
     step_then (map_transpose (\<lambda>ev. ok_or (BadDatabase ''invalid m.room.power_levels event.'')
         (power_levels_dec W (pdu_content ev))) ev, db) (\<lambda>levels db.
     step_then (room_state_get (dl_env W) (dl_codec W) room_id (ascii ''m.room.create'') [] db) (\<lambda>create db.
     step_then (ok_or (BadDatabase ''Found room without m.room.create event.'') create, db) (\<lambda>create db.
     step_then (ok_or (BadDatabase ''Room Create content had invalid room version'') (create_version W create), db)
       (\<lambda>version db.
     step_then (ok_or (Panicked ''Supported room version must have rules.'') (version_rules W version), db) (\<lambda>rules db.
     step_then (ok_or (BadDatabase ''RoomCreateEvent has invalid creators'') (create_creators W rules create), db)
       (\<lambda>creators db. (Ok (room_power_levels W levels rules creators), db))))))))"

definition get_name ::
  "delivery_env \<Rightarrow> str \<Rightarrow> 'a timeline_db_scheme \<Rightarrow> str option result \<times> 'a timeline_db_scheme" where
  "get_name W room_id db =
     step_then (room_state_get (dl_env W) (dl_codec W) room_id (ascii ''m.room.name'') [] db) (\<lambda>ev db.
       (map_transpose (\<lambda>s. ok_or (BadDatabase ''Invalid room name event in database.'')
          (room_name_dec W (pdu_content s))) ev, db))"

definition get_actions ::
  "delivery_env \<Rightarrow> str \<Rightarrow> bytes \<Rightarrow> bytes \<Rightarrow> pdu \<Rightarrow> str \<Rightarrow> 'a accounts_db_scheme \<Rightarrow> push_action list result" where
  "get_actions W user ruleset levels pdu room_id db =
     and_then (displayname user db) (\<lambda>name.
       Ok (ruleset_actions W ruleset pdu room_id user
             (case name of Some n \<Rightarrow> n | None \<Rightarrow> localpart_of W user) levels))"

text \<open>The loop over the actions: whether to notify, if any action says so, and the tweaks.\<close>

fun notify_decision :: "push_action list \<Rightarrow> bool option \<Rightarrow> tweak list \<Rightarrow> (bool option \<times> tweak list) result" where
  "notify_decision [] notify tweaks = Ok (notify, tweaks)"
| "notify_decision (SetTweakAction tweak # actions) notify tweaks = notify_decision actions notify (tweaks @ [tweak])"
| "notify_decision (action # actions) notify tweaks =
     (if notify \<noteq> None
      then Err (BadDatabase ''Malformed pushrule contains more than one of these actions: [\"dont_notify\", \"notify\", \"coalesce\"]'')
      else notify_decision actions (Some (action = NotifyAction)) tweaks)"

fun urgent :: "tweak \<Rightarrow> bool" where
  "urgent (TweakHighlight b) = b"
| "urgent (TweakSound _) = True"
| "urgent (TweakCustom _) = False"

definition send_notice ::
  "delivery_env \<Rightarrow> (exchange \<Rightarrow> unit result) \<Rightarrow> u64 \<Rightarrow> pusher \<Rightarrow> tweak list \<Rightarrow> pdu
     \<Rightarrow> 'a accounts_db_scheme \<times> exchanges \<Rightarrow> unit result \<times> 'a accounts_db_scheme \<times> exchanges" where
  "send_notice W net unread pusher tweaks event st =
     (case pusher_kind pusher of
        HttpPusher http \<Rightarrow>
          step_then (pdu_room_id (env_ruma (dl_env W)) event, st) (\<lambda>room_id st.
            (let event_id_only = push_format http = Some EventIdOnly;
                 notifi = \<lparr>nf_app_id = pusher_app_id pusher, nf_pushkey = pusher_pushkey pusher,
                   nf_data = push_data http, nf_format = push_format http,
                   nf_tweaks = (if event_id_only then [] else tweaks),
                   nf_high_priority = (pdu_kind event = ascii ''m.room.encrypted'' \<or> list_ex urgent tweaks),
                   nf_event_id = pdu_event_id event, nf_room_id = room_id, nf_unread = unread,
                   nf_sender = None, nf_event_type = None, nf_content = None, nf_user_is_target = False,
                   nf_sender_display_name = None, nf_room_name = None\<rparr>
             in if event_id_only then transmit net (PushNotification (push_url http) notifi) st
                else
                  step_then (displayname (pdu_sender event) (fst st), st) (\<lambda>sender_name st.
                  step_then (reading (get_name W room_id) st) (\<lambda>room_name st.
                    transmit net (PushNotification (push_url http) (notifi\<lparr>nf_sender := Some (pdu_sender event),
                      nf_event_type := Some (pdu_kind event), nf_content := Some (pdu_content event),
                      nf_user_is_target := (pdu_kind event = ascii ''m.room.member''
                         \<and> pdu_state_key event = Some (pdu_sender event)),
                      nf_sender_display_name := sender_name, nf_room_name := room_name\<rparr>)) st))))
      | EmailPusher \<Rightarrow> (Ok (), st)
      | OtherPusher \<Rightarrow> (Ok (), st))"

definition send_push_notice ::
  "delivery_env \<Rightarrow> (exchange \<Rightarrow> unit result) \<Rightarrow> str \<Rightarrow> u64 \<Rightarrow> pusher \<Rightarrow> bytes \<Rightarrow> pdu
     \<Rightarrow> 'a accounts_db_scheme \<times> exchanges \<Rightarrow> unit result \<times> 'a accounts_db_scheme \<times> exchanges" where
  "send_push_notice W net user unread pusher ruleset pdu st =
     step_then (pdu_room_id (env_ruma (dl_env W)) pdu, st) (\<lambda>room_id st.
     step_then (reading (power_levels W room_id) st) (\<lambda>levels st.
     step_then (get_actions W user ruleset levels pdu room_id (fst st), st) (\<lambda>actions st.
     step_then (notify_decision actions None [], st) (\<lambda>(notify, tweaks) st.
       if notify = Some True then send_notice W net unread pusher tweaks pdu st else (Ok (), st)))))"

definition redacted :: "users_codec \<Rightarrow> pdu \<Rightarrow> bool" where
  "redacted K pdu =
     (case pdu_unsigned_field pdu of
        None \<Rightarrow> False
      | Some uns \<Rightarrow>
          (case value_dec K uns of
             None \<Rightarrow> False
           | Some v \<Rightarrow> json_get (ascii ''redacted_because'') v \<noteq> None))"

definition rules_for_user :: "delivery_env \<Rightarrow> str \<Rightarrow> 'a accountdata_db_scheme \<Rightarrow> bytes" where
  "rules_for_user W user db =
     (case Option.bind (case account_data_get (dl_users W) None user (ascii ''m.push_rules'') db of
              Inr event \<Rightarrow> event | Inl _ \<Rightarrow> None) (push_rules_dec W) of
        Some rules \<Rightarrow> rules
      | None \<Rightarrow> server_default W user)"

text \<open>The loop of the push arm. The result of a notice is dropped (\<open>let _response\<close>); a panic is not.\<close>

fun push_pdus ::
  "delivery_env \<Rightarrow> (exchange \<Rightarrow> unit result) \<Rightarrow> services_db \<Rightarrow> str \<Rightarrow> str \<Rightarrow> pdu list
     \<Rightarrow> 'a accountdata_db_scheme \<times> exchanges \<Rightarrow> unit result \<times> 'a accountdata_db_scheme \<times> exchanges" where
  "push_pdus W net srv userid pushkey [] st = (Ok (), st)"
| "push_pdus W net srv userid pushkey (pdu # pdus) st =
     (if redacted (dl_users W) pdu then push_pdus W net srv userid pushkey pdus st
      else
        step_then (get_pusher (dl_pushers W) userid pushkey srv, st) (\<lambda>pusher st.
          case pusher of
            None \<Rightarrow> push_pdus W net srv userid pushkey pdus st
          | Some pusher \<Rightarrow>
              step_then (pdu_room_id (env_ruma (dl_env W)) pdu, st) (\<lambda>room_id st.
              step_then (notification_count userid room_id (fst st), st) (\<lambda>unread st.
                if unat unread \<ge> 2 ^ 53 then (Err (Panicked ''notification count can't go that high''), st)
                else case send_push_notice W net userid unread pusher (rules_for_user W userid (fst st)) pdu st of
                       (Inl (Panicked m), st) \<Rightarrow> (Err (Panicked m), st)
                     | (_, st) \<Rightarrow> push_pdus W net srv userid pushkey pdus st))))"

section \<open>Requests\<close>

text \<open>The PDUs of the events, in order; EDUs are skipped.\<close>

fun event_pdus ::
  "string \<Rightarrow> 'j pdu_codec \<Rightarrow> sending_event list \<Rightarrow> 'a timeline_db_scheme \<Rightarrow> (bytes \<times> pdu) list result" where
  "event_pdus missing C [] db = Ok []"
| "event_pdus missing C (SendEdu _ # events) db = event_pdus missing C events db"
| "event_pdus missing C (SendPdu pdu_id # events) db =
     and_then (get_pdu_from_id C pdu_id db) (\<lambda>pdu.
     and_then (ok_or (BadDatabase missing) pdu) (\<lambda>pdu.
     and_then (event_pdus missing C events db) (\<lambda>pdus. Ok ((pdu_id, pdu) # pdus))))"

text \<open>\<open>to_room_event\<close>, by the room it puts into the event.\<close>

definition room_events :: "delivery_env \<Rightarrow> sending_event list \<Rightarrow> 'a timeline_db_scheme \<Rightarrow> (bytes \<times> str \<times> pdu) list result" where
  "room_events W events db =
     and_then (event_pdus ''[Appservice] Event in servernameevent_data not found in db.'' (dl_codec W) events db) (\<lambda>pdus.
       collect_result (map (\<lambda>(pdu_id, pdu).
         and_then (pdu_room_id (env_ruma (dl_env W)) pdu) (\<lambda>room_id. Ok (pdu_id, room_id, pdu))) pdus))"

definition convert_to_outgoing_federation_event :: "((str \<times> json) list \<Rightarrow> bytes) \<Rightarrow> (str \<times> json) list \<Rightarrow> bytes" where
  "convert_to_outgoing_federation_event raw pdu_json =
     (let pdu_json = (case map_of pdu_json (ascii ''unsigned'') of
            Some (JObject uns) \<Rightarrow>
              AList.update (ascii ''unsigned'') (JObject (AList.delete (ascii ''transaction_id'') uns)) pdu_json
          | _ \<Rightarrow> pdu_json)
      in raw (AList.delete (ascii ''event_id'') pdu_json))"

fun transaction_parts ::
  "delivery_env \<Rightarrow> sending_event list \<Rightarrow> 'a timeline_db_scheme \<Rightarrow> ((bytes \<times> bytes) list \<times> bytes list) result" where
  "transaction_parts W [] db = Ok ([], [])"
| "transaction_parts W (SendPdu pdu_id # events) db =
     and_then (get_pdu_json_from_id (dl_codec W) pdu_id db) (\<lambda>json.
     and_then (ok_or (BadDatabase ''[Normal] Event in servernamevent_data not found in db.'') json) (\<lambda>json.
     and_then (transaction_parts W events db) (\<lambda>(pdus, edus).
       Ok ((pdu_id, convert_to_outgoing_federation_event (to_raw_value W) json) # pdus, edus))))"
| "transaction_parts W (SendEdu edu # events) db =
     and_then (transaction_parts W events db) (\<lambda>(pdus, edus).
       Ok (pdus, (case edu_raw W edu of Some raw \<Rightarrow> raw # edus | None \<Rightarrow> edus)))"

fun event_bytes :: "sending_event \<Rightarrow> bytes" where
  "event_bytes (SendPdu b) = b"
| "event_bytes (SendEdu b) = b"

definition txn_id :: "delivery_env \<Rightarrow> sending_event list \<Rightarrow> str" where
  "txn_id W events = base64_url W (calculate_hash (env_sha256 (dl_env W)) (map event_bytes events))"

text \<open>A registration without a URL is answered with \<open>Ok(None)\<close> and nothing is sent.\<close>

definition appservice_send_request ::
  "(exchange \<Rightarrow> unit result) \<Rightarrow> registration \<Rightarrow> str \<Rightarrow> (bytes \<times> str \<times> pdu) list \<Rightarrow> 'd \<times> exchanges
     \<Rightarrow> unit option result \<times> 'd \<times> exchanges" where
  "appservice_send_request net registration txn events st =
     (case registration_url registration of
        None \<Rightarrow> (Ok None, st)
      | Some destination \<Rightarrow>
          step_then (transmit net (AppTransaction registration txn events) st) (\<lambda>_ st. (Ok (Some ()), st)))"

definition handle_events ::
  "delivery_env \<Rightarrow> (exchange \<Rightarrow> unit result) \<Rightarrow> services_db \<Rightarrow> outgoing_kind \<Rightarrow> sending_event list
     \<Rightarrow> 'a accountdata_db_scheme \<Rightarrow> outgoing_kind result \<times> exchanges" where
  "handle_events W net srv kind events db =
     (let (r, _, sent) =
        (case kind of
           ToAppservice app \<Rightarrow>
             step_then (room_events W events db, db, []) (\<lambda>pdu_jsons st.
             step_then (ok_or (BadDatabase ''[Appservice] Could not load registration from db.'')
                 (get_registration app srv), st) (\<lambda>registration st.
             step_then (appservice_send_request net registration (txn_id W events) pdu_jsons st) (\<lambda>_ st.
               (Ok kind, st))))
         | ToPush userid pushkey \<Rightarrow>
             step_then (event_pdus ''[Push] Event in servernamevent_data not found in db.'' (dl_codec W) events db, db, [])
               (\<lambda>pdus st.
             step_then (push_pdus W net srv userid pushkey (map snd pdus) st) (\<lambda>_ st. (Ok kind, st)))
         | ToServer server \<Rightarrow>
             step_then (transaction_parts W events db, db, []) (\<lambda>(pdu_jsons, edu_jsons) st.
             step_then (transmit net (ServerTransaction server (txn_id W events) pdu_jsons edu_jsons) st) (\<lambda>_ st.
               (Ok kind, st))))
      in (r, sent))"

section \<open>What a successful request has done\<close>

text \<open>
  An event is accounted for: a transaction with the event, as it stood in the timeline, was answered with
  success. The exceptions are those of the code: an EDU that is not JSON is left out of the transaction,
  an application service has no URL or is not interested in EDUs. Nothing is known of push
  gateways, whose answers are ignored.
\<close>

fun accounted ::
  "delivery_env \<Rightarrow> services_db \<Rightarrow> 'a timeline_db_scheme \<Rightarrow> exchanges \<Rightarrow> outgoing_kind \<Rightarrow> sending_event \<Rightarrow> bool" where
  "accounted W srv db sent (ToServer server) (SendPdu pdu_id) \<longleftrightarrow>
     (\<exists>txn pdus edus json. (ServerTransaction server txn pdus edus, Ok ()) \<in> set sent
        \<and> get_pdu_json_from_id (dl_codec W) pdu_id db = Ok (Some json)
        \<and> (pdu_id, convert_to_outgoing_federation_event (to_raw_value W) json) \<in> set pdus)"
| "accounted W srv db sent (ToServer server) (SendEdu edu) \<longleftrightarrow>
     (case edu_raw W edu of
        None \<Rightarrow> True
      | Some raw \<Rightarrow> \<exists>txn pdus edus. (ServerTransaction server txn pdus edus, Ok ()) \<in> set sent \<and> raw \<in> set edus)"
| "accounted W srv db sent (ToAppservice app) (SendPdu pdu_id) \<longleftrightarrow>
     (\<exists>reg. get_registration app srv = Some reg \<and> (registration_url reg = None
        \<or> (\<exists>txn events room_id pdu. (AppTransaction reg txn events, Ok ()) \<in> set sent
             \<and> get_pdu_from_id (dl_codec W) pdu_id db = Ok (Some pdu) \<and> (pdu_id, room_id, pdu) \<in> set events)))"
| "accounted W srv db sent (ToAppservice app) (SendEdu edu) \<longleftrightarrow> True"
| "accounted W srv db sent (ToPush userid pushkey) event \<longleftrightarrow> True"

lemma step_then_eq_Inr:
  "step_then p f = (Inr b, s') \<longleftrightarrow> (\<exists>a s. p = (Inr a, s) \<and> f a s = (Inr b, s'))"
  by (auto simp: step_then_def split: prod.splits sum.splits)

lemma transaction_parts_events:
  assumes "transaction_parts W events db = Ok (pdus, edus)"
  shows "SendPdu pdu_id \<in> set events \<Longrightarrow> \<exists>json. get_pdu_json_from_id (dl_codec W) pdu_id db = Ok (Some json)
      \<and> (pdu_id, convert_to_outgoing_federation_event (to_raw_value W) json) \<in> set pdus"
    and "SendEdu edu \<in> set events \<Longrightarrow> edu_raw W edu = Some raw \<Longrightarrow> raw \<in> set edus"
  using assms
  by (induction W events db arbitrary: pdus edus rule: transaction_parts.induct)
    (auto simp: and_then_eq_Inr ok_or_def split: option.splits)

lemma event_pdus_events:
  assumes "event_pdus missing C events db = Ok pdus" "SendPdu pdu_id \<in> set events"
  shows "\<exists>pdu. get_pdu_from_id C pdu_id db = Ok (Some pdu) \<and> (pdu_id, pdu) \<in> set pdus"
  using assms
  by (induction missing C events db arbitrary: pdus rule: event_pdus.induct)
    (auto simp: and_then_eq_Inr ok_or_def split: option.splits)

lemma collect_result_Ok: "collect_result rs = Ok xs \<Longrightarrow> rs = map Ok xs"
  by (induction rs arbitrary: xs) (auto split: sum.splits)

lemma room_events_events:
  assumes "room_events W events db = Ok evs" "SendPdu pdu_id \<in> set events"
  shows "\<exists>room_id pdu. get_pdu_from_id (dl_codec W) pdu_id db = Ok (Some pdu) \<and> (pdu_id, room_id, pdu) \<in> set evs"
proof -
  let ?f = "\<lambda>(pdu_id, pdu). and_then (pdu_room_id (env_ruma (dl_env W)) pdu) (\<lambda>room_id. Ok (pdu_id, room_id, pdu))"
  obtain pdus where p: "event_pdus ''[Appservice] Event in servernameevent_data not found in db.'' (dl_codec W) events db = Ok pdus"
    and c: "map ?f pdus = map Ok evs"
    using assms(1) by (auto simp: room_events_def and_then_eq_Inr dest: collect_result_Ok)
  obtain pdu where pdu: "get_pdu_from_id (dl_codec W) pdu_id db = Ok (Some pdu)" "(pdu_id, pdu) \<in> set pdus"
    using event_pdus_events [OF p assms(2)] by blast
  have "?f (pdu_id, pdu) \<in> set (map ?f pdus)" using pdu(2) unfolding set_map by (rule imageI)
  then obtain ev where "?f (pdu_id, pdu) = Ok ev" "ev \<in> set evs" unfolding c by auto
  then have "\<exists>room_id. (pdu_id, room_id, pdu) \<in> set evs" by (auto simp: and_then_eq_Inr)
  then show ?thesis using pdu(1) by blast
qed

lemma handle_events_accounts:
  assumes "handle_events W net srv kind events db = (Ok kind', sent)" "event \<in> set events"
  shows "accounted W srv db sent kind event"
proof (cases kind)
  case (ToServer server)
  obtain pdus edus where p: "transaction_parts W events db = Ok (pdus, edus)"
    and s: "sent = [(ServerTransaction server (txn_id W events) pdus edus, Ok ())]"
    using assms(1) by (auto simp: handle_events_def ToServer step_then_eq_Inr transmit_def split: prod.splits)
  show ?thesis
  proof (cases event)
    case (SendPdu pdu_id)
    then show ?thesis using transaction_parts_events(1) [OF p, of pdu_id] assms(2) by (auto simp: ToServer s)
  next
    case (SendEdu edu)
    then show ?thesis using transaction_parts_events(2) [OF p, of edu] assms(2) by (auto simp: ToServer s split: option.splits)
  qed
next
  case (ToAppservice app)
  obtain evs reg where e: "room_events W events db = Ok evs" and r: "get_registration app srv = Some reg"
    and s: "registration_url reg = None \<or> sent = [(AppTransaction reg (txn_id W events) evs, Ok ())]"
    using assms(1) by (auto simp: handle_events_def ToAppservice step_then_eq_Inr ok_or_def appservice_send_request_def
        transmit_def split: prod.splits option.splits)
  show ?thesis
  proof (cases event)
    case (SendPdu pdu_id)
    then show ?thesis using room_events_events [OF e, of pdu_id] assms(2) r s by (fastforce simp: ToAppservice)
  qed (simp add: ToAppservice)
qed simp

section \<open>Push gateways are not listened to\<close>

text \<open>Up to what was transmitted and to an error that is no panic.\<close>

definition same_but_answers ::
  "unit result \<times> 'd \<times> exchanges \<Rightarrow> unit result \<times> 'd \<times> exchanges \<Rightarrow> bool" where
  "same_but_answers p q \<longleftrightarrow> fst (snd p) = fst (snd q) \<and> (\<forall>m. fst p = Err (Panicked m) \<longleftrightarrow> fst q = Err (Panicked m))"

definition never_panics :: "(exchange \<Rightarrow> unit result) \<Rightarrow> bool" where
  "never_panics net \<longleftrightarrow> (\<forall>x m. net x \<noteq> Err (Panicked m))"

lemma same_transmit:
  "never_panics net \<Longrightarrow> never_panics net' \<Longrightarrow> fst st = fst st' \<Longrightarrow>
     same_but_answers (transmit net x st) (transmit net' x' st')"
  by (simp add: same_but_answers_def never_panics_def transmit_def)

lemma same_step_read:
  "fst st = fst st' \<Longrightarrow> (\<And>a. r = Ok a \<Longrightarrow> same_but_answers (f a st) (f' a st')) \<Longrightarrow>
     same_but_answers (step_then (r, st) f) (step_then (r, st') f')"
  by (cases r) (auto simp: same_but_answers_def)

lemma same_step_reading:
  "fst st = fst st' \<Longrightarrow> (\<And>a db. same_but_answers (f a (db, snd st)) (f' a (db, snd st'))) \<Longrightarrow>
     same_but_answers (step_then (reading g st) f) (step_then (reading g st') f')"
  by (auto simp: reading_def step_then_def same_but_answers_def split: prod.splits sum.splits)

lemma same_send_push_notice:
  assumes "never_panics net" "never_panics net'" "fst st = fst st'"
  shows "same_but_answers (send_push_notice W net u n p rs pdu st) (send_push_notice W net' u n p rs pdu st')"
  unfolding send_push_notice_def send_notice_def Let_def using assms
  by (auto intro!: same_step_read same_step_reading same_transmit split: prod.splits pusher_kind.splits
      simp: same_but_answers_def [of "(Ok (), _)"])

definition same_outcome :: "'r result \<times> 'd \<times> exchanges \<Rightarrow> 'r result \<times> 'd \<times> exchanges \<Rightarrow> bool" where
  "same_outcome p q \<longleftrightarrow> fst p = fst q \<and> fst (snd p) = fst (snd q)"

lemma same_outcome_read:
  "fst st = fst st' \<Longrightarrow> (\<And>a. same_outcome (f a st) (f' a st')) \<Longrightarrow>
     same_outcome (step_then (r, st) f) (step_then (r, st') f')"
  by (cases r) (auto simp: same_outcome_def)

lemma same_outcome_step:
  "same_outcome p q \<Longrightarrow> (\<And>a st st'. fst st = fst st' \<Longrightarrow> same_outcome (f a st) (f' a st')) \<Longrightarrow>
     same_outcome (step_then p f) (step_then q f')"
  by (cases p; cases q; cases "fst p") (auto simp: same_outcome_def)

lemma same_outcome_drop:
  assumes "same_but_answers p q" "\<And>st st'. fst st = fst st' \<Longrightarrow> same_outcome (f st) (f' st')"
  shows "same_outcome (case p of (Inl (Panicked m), st) \<Rightarrow> (Err (Panicked m), st) | (_, st) \<Rightarrow> f st)
    (case q of (Inl (Panicked m), st) \<Rightarrow> (Err (Panicked m), st) | (_, st) \<Rightarrow> f' st)"
proof -
  obtain r db x where p: "p = (r, db, x)" by (cases p)
  obtain r' db' x' where q: "q = (r', db', x')" by (cases q)
  have db: "db' = db" and panics: "r = Err (Panicked m) \<longleftrightarrow> r' = Err (Panicked m)" for m
    using assms(1) unfolding same_but_answers_def p q by simp_all
  have same: "same_outcome (f (db, x)) (f' (db, x'))" by (rule assms(2)) simp
  show ?thesis
  proof (cases "\<exists>m. r = Err (Panicked m)")
    case True
    then obtain m where m: "r = Err (Panicked m)" ..
    then have "r' = Err (Panicked m)" by (rule panics [THEN iffD1])
    with m show ?thesis by (simp add: p q db same_outcome_def)
  next
    case False
    then have n: "\<forall>m. r \<noteq> Err (Panicked m)" "\<forall>m. r' \<noteq> Err (Panicked m)" using panics by simp_all
    have "(case p of (Inl (Panicked m), st) \<Rightarrow> (Err (Panicked m), st) | (_, st) \<Rightarrow> f st) = f (db, x)"
      using n(1) by (cases r) (simp_all add: p split: error.splits)
    moreover have "(case q of (Inl (Panicked m), st) \<Rightarrow> (Err (Panicked m), st) | (_, st) \<Rightarrow> f' st) = f' (db, x')"
      using n(2) by (cases r') (simp_all add: q db split: error.splits)
    ultimately show ?thesis using same by simp
  qed
qed

lemma same_outcome_notice:
  assumes net: "never_panics net" "never_panics net'"
    and rest: "\<And>st st'. fst st = fst st' \<Longrightarrow> same_outcome (f st) (f' st')"
  shows "same_outcome
    (step_then (r, db, x) (\<lambda>room_id st. step_then (notification_count u room_id (fst st), st) (\<lambda>unread st.
       if unat unread \<ge> 2 ^ 53 then (Err e, st)
       else case send_push_notice W net u unread p (rules_for_user W u (fst st)) pdu st of
              (Inl (Panicked m), st) \<Rightarrow> (Err (Panicked m), st) | (_, st) \<Rightarrow> f st)))
    (step_then (r, db, x') (\<lambda>room_id st. step_then (notification_count u room_id (fst st), st) (\<lambda>unread st.
       if unat unread \<ge> 2 ^ 53 then (Err e, st)
       else case send_push_notice W net' u unread p (rules_for_user W u (fst st)) pdu st of
              (Inl (Panicked m), st) \<Rightarrow> (Err (Panicked m), st) | (_, st) \<Rightarrow> f' st)))"
proof -
  have stop: "same_outcome (Err e, db, x) (Err e, db, x')" for e by (simp add: same_outcome_def)
  have notice: "same_but_answers (send_push_notice W net u n p rs pdu (db, x)) (send_push_notice W net' u n p rs pdu (db, x'))" for n rs
    using net by (rule same_send_push_notice) simp
  have one: "same_outcome
      (if b then (Err e, db, x) else case send_push_notice W net u n p rs pdu (db, x) of
         (Inl (Panicked m), st) \<Rightarrow> (Err (Panicked m), st) | (_, st) \<Rightarrow> f st)
      (if b then (Err e, db, x') else case send_push_notice W net' u n p rs pdu (db, x') of
         (Inl (Panicked m), st) \<Rightarrow> (Err (Panicked m), st) | (_, st) \<Rightarrow> f' st)" for b n rs
    using same_outcome_drop [OF notice [of n rs], OF rest] by (cases b) (simp_all only: if_True if_False stop)
  show ?thesis
  proof (cases r)
    case (Inr room_id)
    show ?thesis unfolding Inr step_then_simps fst_conv
      by (cases "notification_count u room_id db") (simp_all only: step_then_simps stop fst_conv one)
  qed (simp add: stop)
qed

lemma same_push_pdus:
  assumes "never_panics net" "never_panics net'" "fst st = fst st'"
  shows "same_outcome (push_pdus W net srv u k pdus st) (push_pdus W net' srv u k pdus st')"
  using assms(3)
proof (induction pdus arbitrary: st st')
  case (Cons pdu pdus)
  obtain db x x' where st: "st = (db, x)" "st' = (db, x')" using Cons.prems by (cases st; cases st') simp
  have rest: "same_outcome (push_pdus W net srv u k pdus (db, x)) (push_pdus W net' srv u k pdus (db, x'))"
    by (rule Cons.IH) simp
  have opt: "same_outcome
      (case q of None \<Rightarrow> push_pdus W net srv u k pdus (db, x) | Some p \<Rightarrow> A p)
      (case q of None \<Rightarrow> push_pdus W net' srv u k pdus (db, x') | Some p \<Rightarrow> B p)"
    if "\<And>p. same_outcome (A p) (B p)" for A B and q :: "pusher option"
    using that rest by (cases q) simp_all
  note notice = opt [OF same_outcome_notice [OF assms(1,2) Cons.IH]]
  show ?case
  proof (cases "redacted (dl_users W) pdu")
    case True
    then show ?thesis using rest by (simp add: st)
  next
    case False
    show ?thesis
    proof (cases "get_pusher (dl_pushers W) u k srv")
      case (Inl e)
      then show ?thesis using False by (simp add: st same_outcome_def)
    next
      case (Inr q)
      show ?thesis using False notice unfolding push_pdus.simps st Inr by (simp only: if_False step_then_simps)
    qed
  qed
qed (simp add: same_outcome_def)

text \<open>
  Whatever the push gateway answers, a request to it ends in the same way: a notice that failed counts
  as sent, and the sender forgets its event.
\<close>

theorem push_answer_ignored:
  assumes "never_panics net" "never_panics net'"
  shows "fst (handle_events W net srv (ToPush userid pushkey) events db)
       = fst (handle_events W net' srv (ToPush userid pushkey) events db)"
proof -
  have "same_outcome (push_pdus W net srv userid pushkey pdus (db, [])) (push_pdus W net' srv userid pushkey pdus (db, []))" for pdus
    using assms by (rule same_push_pdus) simp
  then have "same_outcome
    (step_then (event_pdus m (dl_codec W) events db, db, [])
       (\<lambda>pdus st. step_then (push_pdus W net srv userid pushkey (map snd pdus) st) (\<lambda>_ st. (Ok kind, st))))
    (step_then (event_pdus m (dl_codec W) events db, db, [])
       (\<lambda>pdus st. step_then (push_pdus W net' srv userid pushkey (map snd pdus) st) (\<lambda>_ st. (Ok kind, st))))"
    for m and kind :: outgoing_kind
    by (intro same_outcome_read same_outcome_step) (simp_all add: same_outcome_def)
  then show ?thesis by (simp add: handle_events_def same_outcome_def case_prod_beta)
qed

end
