(* ===== verification/Sending.thy ===== *)
theory Sending
  imports Delivery
begin

text \<open>
  The queue of outgoing requests: the tables of
  \<^verbatim>\<open>server/src/database/key_value/sending.rs\<close> and the sender task of
  \<^verbatim>\<open>server/src/service/sending/mod.rs\<close>. The task is a loop that waits for a finished request or for a
  new event; each branch of its \<open>select!\<close> is a function here, and the step relation \<open>sender_step\<close>
  interleaves them in any order with clients that queue events and with restarts. A request under way
  ends as \<open>handle_events\<close> says for some answers of the other side.
\<close>

section \<open>State\<close>

record sending_db = edus_db +
  servernameevent_data :: kvtree
  servercurrentevent_data :: kvtree
  servername_educount :: kvtree

fun get_prefix :: "outgoing_kind \<Rightarrow> bytes" where
  "get_prefix (ToAppservice server) = [43] @ server @ [sep]"
| "get_prefix (ToPush user pushkey) = [36] @ user @ [sep] @ pushkey @ [sep]"
| "get_prefix (ToServer server) = server @ [sep]"

section \<open>The tables\<close>

text \<open>What both tables store next to a key: the bytes of an EDU, nothing for a PDU.\<close>

fun event_value :: "sending_event \<Rightarrow> bytes" where
  "event_value (SendEdu value) = value"
| "event_value (SendPdu _) = []"

definition parsed_event :: "bytes \<Rightarrow> bytes \<Rightarrow> sending_event" where
  "parsed_event event value = (if value = [] then SendPdu event else SendEdu value)"

definition parse_servercurrentevent ::
  "ruma \<Rightarrow> bytes \<Rightarrow> bytes \<Rightarrow> (outgoing_kind \<times> sending_event) result" where
  "parse_servercurrentevent R key value =
     (if starts_with key [43] then
        (case splitn_sep 2 (drop 1 key) of
           server # event # _ \<Rightarrow>
             and_then (ok_or (BadDatabase ''Invalid server bytes in server_currenttransaction'')
               (string_from_bytes server)) (\<lambda>server.
             Ok (ToAppservice server, parsed_event event value))
         | [_] \<Rightarrow> Err (BadDatabase ''Invalid bytes in servercurrentpdus.'')
         | [] \<Rightarrow> Err (Panicked ''splitn always returns one element''))
      else if starts_with key [36] then
        (case splitn_sep 3 (drop 1 key) of
           [] \<Rightarrow> Err (Panicked ''splitn always returns one element'')
         | user # parts \<Rightarrow>
             and_then (parse_id (valid_user_id R) ''Invalid user string in servercurrentevent''
               ''Invalid user id in servercurrentevent'' user) (\<lambda>user_id.
             and_then (case parts of [] \<Rightarrow> Err (BadDatabase ''Invalid bytes in servercurrentpdus.'')
                | pushkey # _ \<Rightarrow> ok_or (BadDatabase ''Invalid pushkey in servercurrentevent'')
                    (string_from_bytes pushkey)) (\<lambda>pushkey_string.
             (case parts of
                _ # event # _ \<Rightarrow> Ok (ToPush user_id pushkey_string, parsed_event event value)
              | _ \<Rightarrow> Err (BadDatabase ''Invalid bytes in servercurrentpdus.'')))))
      else
        (case splitn_sep 2 key of
           server # event # _ \<Rightarrow>
             and_then (parse_id (valid_server_name R) ''Invalid server bytes in server_currenttransaction''
               ''Invalid server string in server_currenttransaction'' server) (\<lambda>server.
             Ok (ToServer server, parsed_event event value))
         | [_] \<Rightarrow> Err (BadDatabase ''Invalid bytes in servercurrentpdus.'')
         | [] \<Rightarrow> Err (Panicked ''splitn always returns one element'')))"

definition active_requests ::
  "ruma \<Rightarrow> 'a sending_db_scheme \<Rightarrow> (bytes \<times> outgoing_kind \<times> sending_event) result list" where
  "active_requests R db = map (\<lambda>(key, v).
     and_then (parse_servercurrentevent R key v) (\<lambda>(k, e). Ok (key, k, e)))
     (kv_iter (servercurrentevent_data db))"

definition active_requests_for ::
  "ruma \<Rightarrow> outgoing_kind \<Rightarrow> 'a sending_db_scheme \<Rightarrow> (bytes \<times> sending_event) result list" where
  "active_requests_for R kind db = map (\<lambda>(key, v).
     and_then (parse_servercurrentevent R key v) (\<lambda>(_, e). Ok (key, e)))
     (kv_scan_prefix (servercurrentevent_data db) (get_prefix kind))"

definition delete_active_request :: "bytes \<Rightarrow> 'a sending_db_scheme \<Rightarrow> 'a sending_db_scheme" where
  "delete_active_request key db =
     db\<lparr>servercurrentevent_data := kv_remove (servercurrentevent_data db) key\<rparr>"

definition delete_all_active_requests_for :: "outgoing_kind \<Rightarrow> 'a sending_db_scheme \<Rightarrow> 'a sending_db_scheme" where
  "delete_all_active_requests_for kind db =
     db\<lparr>servercurrentevent_data := kv_remove_prefix (servercurrentevent_data db) (get_prefix kind)\<rparr>"

definition delete_all_requests_for :: "outgoing_kind \<Rightarrow> 'a sending_db_scheme \<Rightarrow> 'a sending_db_scheme" where
  "delete_all_requests_for kind db =
     (let prefix = get_prefix kind;
          db = db\<lparr>servercurrentevent_data := kv_remove_prefix (servercurrentevent_data db) prefix\<rparr>
      in db\<lparr>servernameevent_data := kv_remove_prefix (servernameevent_data db) prefix\<rparr>)"

text \<open>The keys of the requests, in order; an EDU draws a count. The rows are inserted together.\<close>

fun request_rows ::
  "(outgoing_kind \<times> sending_event) list \<Rightarrow> 'a sending_db_scheme
     \<Rightarrow> (bytes \<times> bytes) list result \<times> 'a sending_db_scheme" where
  "request_rows [] db = (Ok [], db)"
| "request_rows ((kind, event) # requests) db =
     step_then (case event of
         SendPdu value \<Rightarrow> (Ok (get_prefix kind @ value), db)
       | SendEdu _ \<Rightarrow> step_then (next_count db) (\<lambda>n db. (Ok (get_prefix kind @ to_be_bytes n), db))) (\<lambda>key db.
     step_then (request_rows requests db) (\<lambda>rows db. (Ok ((key, event_value event) # rows), db)))"

definition queue_requests ::
  "(outgoing_kind \<times> sending_event) list \<Rightarrow> 'a sending_db_scheme
     \<Rightarrow> bytes list result \<times> 'a sending_db_scheme" where
  "queue_requests requests db =
     step_then (request_rows requests db) (\<lambda>batch db.
       (Ok (map fst batch),
        db\<lparr>servernameevent_data := kv_insert_batch (servernameevent_data db) batch\<rparr>))"

definition queued_requests ::
  "ruma \<Rightarrow> outgoing_kind \<Rightarrow> 'a sending_db_scheme \<Rightarrow> (sending_event \<times> bytes) result list" where
  "queued_requests R kind db = map (\<lambda>(k, v).
     and_then (parse_servercurrentevent R k v) (\<lambda>(_, e). Ok (e, k)))
     (kv_scan_prefix (servernameevent_data db) (get_prefix kind))"

fun mark_as_active :: "(sending_event \<times> bytes) list \<Rightarrow> 'a sending_db_scheme \<Rightarrow> 'a sending_db_scheme" where
  "mark_as_active [] db = db"
| "mark_as_active ((e, key) # events) db =
     mark_as_active events
       (db\<lparr>servercurrentevent_data := kv_insert (servercurrentevent_data db) key (event_value e),
          servernameevent_data := kv_remove (servernameevent_data db) key\<rparr>)"

definition set_latest_educount :: "str \<Rightarrow> u64 \<Rightarrow> 'a sending_db_scheme \<Rightarrow> 'a sending_db_scheme" where
  "set_latest_educount server_name last_count db =
     db\<lparr>servername_educount := kv_insert (servername_educount db) server_name (to_be_bytes last_count)\<rparr>"

definition get_latest_educount :: "str \<Rightarrow> 'a sending_db_scheme \<Rightarrow> u64 result" where
  "get_latest_educount server_name db =
     (case kv_get (servername_educount db) server_name of
        None \<Rightarrow> Ok 0
      | Some bs \<Rightarrow> ok_or (BadDatabase ''Invalid u64 in servername_educount.'') (u64_from_bytes bs))"

section \<open>Ephemeral events for another server\<close>

datatype edu =
    EduReceipt str str receipt str
  | EduDeviceListUpdate str

datatype ephemeral_event = ReceiptEphemeral receipt_content | OtherEphemeral

text \<open>
  What the sender needs of its surroundings: ruma's grammar, the codecs, the name of this server,
  \<open>serde_json\<close> at \<open>AnySyncEphemeralRoomEvent\<close> and \<open>Edu\<close>, the order in which a hash set
  of users is visited, and the parameters of a request.
\<close>

record sender_env =
  sn_ruma :: ruma
  sn_codec :: edu_codec
  sn_server_name :: str
  ephemeral_dec :: "bytes \<Rightarrow> ephemeral_event option"
  edu_enc :: "edu \<Rightarrow> bytes"
  hash_order :: "str list \<Rightarrow> str list"
  sn_delivery :: delivery_env

definition is_local :: "sender_env \<Rightarrow> str \<Rightarrow> bool" where
  "is_local E user_id = (server_name_of (sn_ruma E) user_id = sn_server_name E)"

text \<open>A stored receipt as a federation EDU: its first event, the read receipt of the user.\<close>

definition federation_receipt :: "str \<Rightarrow> str \<Rightarrow> receipt_content \<Rightarrow> edu result" where
  "federation_receipt room_id user_id content =
     (case content of
        [] \<Rightarrow> Err (Panicked ''we only use one event per read receipt'')
      | (event_id, by_type) # _ \<Rightarrow>
          (case map_of by_type ReadReceipt of
             None \<Rightarrow> Err (Panicked ''our read receipts always set this'')
           | Some users \<Rightarrow>
               (case map_of users user_id of
                  None \<Rightarrow> Err (Panicked ''our read receipts always have the user here'')
                | Some r \<Rightarrow> Ok (EduReceipt room_id user_id r event_id))))"

text \<open>
  The loop over one room's receipts: the events so far, the largest count and whether the limit of
  twenty events ended the outer loop as well.
\<close>

fun select_receipts ::
  "sender_env \<Rightarrow> str \<Rightarrow> (str \<times> u64 \<times> bytes) result list \<Rightarrow> bytes list \<Rightarrow> u64
     \<Rightarrow> (bytes list \<times> u64 \<times> bool) result" where
  "select_receipts E room_id [] events max_edu_count = Ok (events, max_edu_count, False)"
| "select_receipts E room_id (r # rs) events max_edu_count =
     and_then r (\<lambda>(user_id, count, read_receipt).
       (let max_edu_count = (if count > max_edu_count then count else max_edu_count)
        in if \<not> is_local E user_id then select_receipts E room_id rs events max_edu_count
           else and_then (ok_or (BadDatabase ''Invalid edu event in read_receipts.'')
                  (ephemeral_dec E read_receipt)) (\<lambda>event.
             (case event of
                OtherEphemeral \<Rightarrow> select_receipts E room_id rs events max_edu_count
              | ReceiptEphemeral content \<Rightarrow>
                  and_then (federation_receipt room_id user_id content) (\<lambda>edu.
                    (let events = events @ [edu_enc E edu]
                     in if length events \<ge> 20 then Ok (events, max_edu_count, True)
                        else select_receipts E room_id rs events max_edu_count))))))"

fun select_rooms ::
  "sender_env \<Rightarrow> u64 \<Rightarrow> 'a sending_db_scheme \<Rightarrow> str result list \<Rightarrow> bytes list \<Rightarrow> u64 \<Rightarrow> str list
     \<Rightarrow> (bytes list \<times> u64 \<times> str list) result" where
  "select_rooms E since db [] events max_edu_count changes = Ok (events, max_edu_count, changes)"
| "select_rooms E since db (r # rs) events max_edu_count changes =
     and_then r (\<lambda>room_id.
       (let changes = changes @ filter (is_local E)
              (oks (keys_changed (sn_ruma E) room_id since None db))
        in and_then (select_receipts E room_id
               (readreceipts_since (sn_codec E) (sn_ruma E) room_id since db) events max_edu_count)
             (\<lambda>(events, max_edu_count, stop).
               if stop then Ok (events, max_edu_count, changes)
               else select_rooms E since db rs events max_edu_count changes)))"

definition select_edus :: "sender_env \<Rightarrow> str \<Rightarrow> 'a sending_db_scheme \<Rightarrow> (bytes list \<times> u64) result" where
  "select_edus E server_name db =
     and_then (get_latest_educount server_name db) (\<lambda>since.
     and_then (select_rooms E since db (server_rooms (sn_ruma E) server_name db) [] since [])
       (\<lambda>(events, max_edu_count, changes).
         Ok (events @ map (\<lambda>user_id. edu_enc E (EduDeviceListUpdate user_id)) (hash_order E (remdups changes)),
             max_edu_count)))"

section \<open>The sender task\<close>

text \<open>An \<open>Instant\<close> is a number of nanoseconds; the number of failures is a \<open>u32\<close>.\<close>

datatype transaction_status =
    Running
  | Failed "32 word" nat
  | Retrying "32 word"

text \<open>\<open>Duration::from_secs(30) * tries * tries\<close>, at most a day, in seconds; the product of a duration
  and a number panics when it passes \<open>u64::MAX\<close> seconds.\<close>

definition duration_mul :: "nat \<Rightarrow> 32 word \<Rightarrow> nat result" where
  "duration_mul secs n = (if secs * unat n < 2 ^ 64 then Ok (secs * unat n)
     else Err (Panicked ''overflow when multiplying duration by scalar''))"

definition min_elapsed_duration :: "32 word \<Rightarrow> nat result" where
  "min_elapsed_duration tries =
     and_then (duration_mul 30 tries) (\<lambda>d.
     and_then (duration_mul d tries) (\<lambda>d.
     Ok (if d > 60 * 60 * 24 then 60 * 60 * 24 else d)))"

text \<open>The state of the task: the database, the status of each destination, the requests under way
  and the channel from the clients.\<close>

record 'd sender_state =
  sdb :: 'd
  status :: "outgoing_kind \<rightharpoonup> transaction_status"
  in_flight :: "(outgoing_kind \<times> sending_event list) list"
  channel :: "(outgoing_kind \<times> sending_event \<times> bytes) list"

text \<open>\<open>select_events\<close>, in two parts: the decision from the status, and what is then sent.\<close>

datatype admission = Refused | AdmitNew | AdmitRetry

definition admit ::
  "nat \<Rightarrow> outgoing_kind \<Rightarrow> (outgoing_kind \<rightharpoonup> transaction_status)
     \<Rightarrow> (admission \<times> (outgoing_kind \<rightharpoonup> transaction_status)) result" where
  "admit now kind st =
     (case st kind of
        None \<Rightarrow> Ok (AdmitNew, st(kind \<mapsto> Running))
      | Some Running \<Rightarrow> Ok (Refused, st)
      | Some (Retrying _) \<Rightarrow> Ok (Refused, st)
      | Some (Failed tries time) \<Rightarrow>
          and_then (min_elapsed_duration tries) (\<lambda>d.
            if now - time < d * 10 ^ 9 then Ok (Refused, st)
            else Ok (AdmitRetry, st(kind \<mapsto> Retrying tries))))"

text \<open>\<open>if let Ok(..) = self.select_edus(..)\<close>: an error is ignored, a panic is not.\<close>

definition add_edus ::
  "sender_env \<Rightarrow> outgoing_kind \<Rightarrow> sending_event list \<Rightarrow> 'a sending_db_scheme
     \<Rightarrow> sending_event list result \<times> 'a sending_db_scheme" where
  "add_edus E kind events db =
     (case kind of
        ToServer server_name \<Rightarrow>
          (case select_edus E server_name db of
             Inr (edus, last_count) \<Rightarrow>
               (Ok (events @ map SendEdu edus), set_latest_educount server_name last_count db)
           | Inl (Panicked m) \<Rightarrow> (Err (Panicked m), db)
           | Inl _ \<Rightarrow> (Ok events, db))
      | _ \<Rightarrow> (Ok events, db))"

definition select_events ::
  "sender_env \<Rightarrow> nat \<Rightarrow> outgoing_kind \<Rightarrow> (sending_event \<times> bytes) list
     \<Rightarrow> ('a sending_db_scheme, 'x) sender_state_scheme
     \<Rightarrow> sending_event list option result \<times> ('a sending_db_scheme, 'x) sender_state_scheme" where
  "select_events E now kind new_events s =
     (case admit now kind (status s) of
        Inl e \<Rightarrow> (Err e, s)
      | Inr (Refused, st) \<Rightarrow> (Ok None, s\<lparr>status := st\<rparr>)
      | Inr (AdmitRetry, st) \<Rightarrow>
          (Ok (Some (map snd (oks (active_requests_for (sn_ruma E) kind (sdb s))))), s\<lparr>status := st\<rparr>)
      | Inr (AdmitNew, st) \<Rightarrow>
          (let (r, db) = add_edus E kind (map fst new_events) (mark_as_active new_events (sdb s))
           in (and_then r (\<lambda>events. Ok (Some events)), s\<lparr>status := st, sdb := db\<rparr>)))"

text \<open>The branch of the loop that receives a new event; the \<open>unit\<close> result is a panic or none.\<close>

definition on_receive ::
  "sender_env \<Rightarrow> nat \<Rightarrow> outgoing_kind \<times> sending_event \<times> bytes \<Rightarrow> ('a sending_db_scheme, 'x) sender_state_scheme
     \<Rightarrow> unit result \<times> ('a sending_db_scheme, 'x) sender_state_scheme" where
  "on_receive E now msg s =
     (case msg of (kind, event, key) \<Rightarrow>
        (case select_events E now kind [(event, key)] s of
           (Inr (Some events), s) \<Rightarrow> (Ok (), s\<lparr>in_flight := in_flight s @ [(kind, events)]\<rparr>)
         | (Inl (Panicked m), s) \<Rightarrow> (Err (Panicked m), s)
         | (_, s) \<Rightarrow> (Ok (), s)))"

text \<open>The branch for a finished request, when it succeeded and when it failed.\<close>

definition on_success ::
  "ruma \<Rightarrow> outgoing_kind \<Rightarrow> ('a sending_db_scheme, 'x) sender_state_scheme
     \<Rightarrow> ('a sending_db_scheme, 'x) sender_state_scheme" where
  "on_success R kind s =
     (let db = delete_all_active_requests_for kind (sdb s);
          new_events = take 30 (oks (queued_requests R kind db))
      in if new_events \<noteq> [] then
           s\<lparr>sdb := mark_as_active new_events db,
             in_flight := in_flight s @ [(kind, map fst new_events)]\<rparr>
         else s\<lparr>sdb := db, status := (status s)(kind := None)\<rparr>)"

definition on_failure ::
  "nat \<Rightarrow> outgoing_kind \<Rightarrow> ('d, 'x) sender_state_scheme \<Rightarrow> ('d, 'x) sender_state_scheme" where
  "on_failure now kind s =
     s\<lparr>status := (case status s kind of
          None \<Rightarrow> status s
        | Some Running \<Rightarrow> (status s)(kind \<mapsto> Failed 1 now)
        | Some (Retrying n) \<Rightarrow> (status s)(kind \<mapsto> Failed (n + 1) now)
        | Some (Failed _ _) \<Rightarrow> status s)\<rparr>"

text \<open>The start of the task: the requests that were under way are sent again.\<close>

fun initial_transactions ::
  "(bytes \<times> outgoing_kind \<times> sending_event) list \<Rightarrow> (outgoing_kind \<times> sending_event list) list
     \<Rightarrow> 'a sending_db_scheme \<Rightarrow> (outgoing_kind \<times> sending_event list) list \<times> 'a sending_db_scheme" where
  "initial_transactions [] ts db = (ts, db)"
| "initial_transactions ((key, kind, event) # rs) ts db =
     (let entry = (case map_of ts kind of Some es \<Rightarrow> es | None \<Rightarrow> [])
      in if length entry > 30
         then initial_transactions rs (AList.update kind entry ts) (delete_active_request key db)
         else initial_transactions rs (AList.update kind (entry @ [event]) ts) db)"

definition handler_start ::
  "ruma \<Rightarrow> ('a sending_db_scheme, 'x) sender_state_scheme \<Rightarrow> ('a sending_db_scheme, 'x) sender_state_scheme" where
  "handler_start R s =
     (let (ts, db) = initial_transactions (oks (active_requests R (sdb s))) [] (sdb s)
      in s\<lparr>sdb := db, status := map_of (map (\<lambda>(kind, _). (kind, Running)) ts), in_flight := ts, channel := []\<rparr>)"

section \<open>The clients\<close>

definition send_requests ::
  "(outgoing_kind \<times> sending_event) list \<Rightarrow> ('a sending_db_scheme, 'x) sender_state_scheme
     \<Rightarrow> unit result \<times> ('a sending_db_scheme, 'x) sender_state_scheme" where
  "send_requests requests s =
     (case queue_requests requests (sdb s) of
        (Inl e, db) \<Rightarrow> (Err e, s\<lparr>sdb := db\<rparr>)
      | (Inr keys, db) \<Rightarrow> (Ok (), s\<lparr>sdb := db,
          channel := channel s @ map (\<lambda>((kind, event), key). (kind, event, key)) (zip requests keys)\<rparr>))"

definition send_push_pdu ::
  "bytes \<Rightarrow> str \<Rightarrow> str \<Rightarrow> ('a sending_db_scheme, 'x) sender_state_scheme
     \<Rightarrow> unit result \<times> ('a sending_db_scheme, 'x) sender_state_scheme" where
  "send_push_pdu pdu_id user pushkey s = send_requests [(ToPush user pushkey, SendPdu pdu_id)] s"

definition send_pdu ::
  "str list \<Rightarrow> bytes \<Rightarrow> ('a sending_db_scheme, 'x) sender_state_scheme
     \<Rightarrow> unit result \<times> ('a sending_db_scheme, 'x) sender_state_scheme" where
  "send_pdu servers pdu_id s = send_requests (map (\<lambda>server. (ToServer server, SendPdu pdu_id)) servers) s"

definition send_reliable_edu ::
  "str \<Rightarrow> bytes \<Rightarrow> ('a sending_db_scheme, 'x) sender_state_scheme
     \<Rightarrow> unit result \<times> ('a sending_db_scheme, 'x) sender_state_scheme" where
  "send_reliable_edu server serialized s = send_requests [(ToServer server, SendEdu serialized)] s"

definition send_pdu_appservice ::
  "str \<Rightarrow> bytes \<Rightarrow> ('a sending_db_scheme, 'x) sender_state_scheme
     \<Rightarrow> unit result \<times> ('a sending_db_scheme, 'x) sender_state_scheme" where
  "send_pdu_appservice appservice_id pdu_id s = send_requests [(ToAppservice appservice_id, SendPdu pdu_id)] s"

definition cleanup_events ::
  "str \<Rightarrow> ('a sending_db_scheme, 'x) sender_state_scheme \<Rightarrow> ('a sending_db_scheme, 'x) sender_state_scheme" where
  "cleanup_events appservice_id s = s\<lparr>sdb := delete_all_requests_for (ToAppservice appservice_id) (sdb s)\<rparr>"

section \<open>Runs\<close>

text \<open>
  A history adds what was accepted from clients, what of it was discarded when an application service
  was removed, and the requests that ended with success: the destination, the events, the snapshot of
  the tables and services the request read, and what it transmitted. Identifiers are those of
  ruma: a server name begins neither with \<open>+\<close> nor with \<open>$\<close>; a PDU id has sixteen or twenty-four
  bytes, and the JSON of an EDU is not empty.
\<close>

record 'd history = "'d sender_state" +
  accepted :: "(outgoing_kind \<times> sending_event \<times> bytes) list"
  discarded :: "(outgoing_kind \<times> sending_event \<times> bytes) list"
  finished :: "(outgoing_kind \<times> sending_event list \<times> 'd \<times> services_db \<times> exchanges) list"

fun valid_kind :: "ruma \<Rightarrow> outgoing_kind \<Rightarrow> bool" where
  "valid_kind R (ToAppservice app) \<longleftrightarrow> utf8 app"
| "valid_kind R (ToPush user pushkey) \<longleftrightarrow> utf8 user \<and> valid_user_id R user \<and> utf8 pushkey"
| "valid_kind R (ToServer server) \<longleftrightarrow> utf8 server \<and> valid_server_name R server
     \<and> (case server of [] \<Rightarrow> True | b # _ \<Rightarrow> b \<noteq> 43 \<and> b \<noteq> 36)"

fun sendable :: "sending_event \<Rightarrow> bool" where
  "sendable (SendPdu pdu_id) \<longleftrightarrow> length pdu_id \<noteq> 8"
| "sendable (SendEdu value) \<longleftrightarrow> value \<noteq> []"

inductive sender_step :: "sender_env \<Rightarrow> 'a sending_db_scheme history \<Rightarrow> 'a sending_db_scheme history \<Rightarrow> bool"
  for E :: sender_env where
  client: "sender_step E s (s'\<lparr>accepted := accepted s @ map (\<lambda>((kind, event), key). (kind, event, key)) (zip requests keys)\<rparr>)"
  if "\<forall>(kind, event) \<in> set requests. valid_kind (sn_ruma E) kind \<and> sendable event"
    and "unat (count_of (sdb s)) + length requests < 2 ^ 64"
    and "fst (queue_requests requests (sdb s)) = Ok keys"
    and "send_requests requests s = (Ok (), s')"
| cleanup: "sender_step E s ((cleanup_events app s)\<lparr>discarded :=
     discarded s @ filter (\<lambda>(kind, _). kind = ToAppservice app) (accepted s)\<rparr>)"
  if "utf8 app"
| receive: "sender_step E s s'"
  if "channel s = msg # msgs" "on_receive E now msg (s\<lparr>channel := msgs\<rparr>) = (Ok (), s')"
| panic: "sender_step E s (handler_start (sn_ruma E) s')"
  if "channel s = msg # msgs" "on_receive E now msg (s\<lparr>channel := msgs\<rparr>) = (Err e, s')"
| success: "sender_step E s (on_success (sn_ruma E) kind
     (s\<lparr>in_flight := before @ after, finished := finished s @ [(kind, events, db, srv, sent)]\<rparr>))"
  if "in_flight s = before @ (kind, events) # after"
    and "handle_events (sn_delivery E) net srv kind events db = (Ok kind, sent)"
| failure: "sender_step E s (on_failure now kind (s\<lparr>in_flight := before @ after\<rparr>))"
  if "in_flight s = before @ (kind, events) # after"
    and "handle_events (sn_delivery E) net srv kind events (db :: 'a sending_db_scheme) = (Err e, sent)" "\<nexists>m. e = Panicked m"
| crash: "sender_step E s (handler_start (sn_ruma E) s)"
  if "in_flight s = before @ (kind, events) # after"
    and "handle_events (sn_delivery E) net srv kind events (db :: 'a sending_db_scheme) = (Err (Panicked m), sent)"
| restart: "sender_step E s (handler_start (sn_ruma E) s)"
| others: "sender_step E s (s\<lparr>sdb := db\<rparr>)"
  if "servernameevent_data db = servernameevent_data (sdb s)"
    and "servercurrentevent_data db = servercurrentevent_data (sdb s)"
    and "kv_wf (global db)" "count_of (sdb s) \<le> count_of db"

inductive sender_reachable :: "sender_env \<Rightarrow> 'a sending_db_scheme history \<Rightarrow> bool" for E :: sender_env where
  start: "sender_reachable E (handler_start (sn_ruma E) s)"
  if "servernameevent_data (sdb s) = []" "servercurrentevent_data (sdb s) = []" "kv_wf (global (sdb s))"
    "accepted s = []" "discarded s = []" "finished s = []"
| step: "sender_reachable E s'" if "sender_reachable E s" "sender_step E s s'"

section \<open>Keys of the queue\<close>

lemma sep_ne_sigils: "(43 :: byte) \<noteq> sep" "(36 :: byte) \<noteq> sep" "(43 :: byte) \<noteq> 36"
  by simp_all

lemma server_prefix:
  assumes "valid_kind R (ToServer server)"
  shows "\<not> starts_with (server @ sep # x) [43]" "\<not> starts_with (server @ sep # x) [36]"
  using assms by (cases server; simp)+

lemma get_prefix_unique:
  assumes "valid_kind R k" "valid_kind R k'"
  shows "starts_with (get_prefix k' @ x) (get_prefix k) \<longleftrightarrow> k' = k"
proof (cases k; cases k')
  fix s s' assume "k = ToServer s" "k' = ToServer s'"
  then show ?thesis using assms by (auto simp: sep_prefix_iff utf8_no_sep)
next
  fix s u p assume "k = ToServer s" "k' = ToPush u p"
  then show ?thesis using assms by (cases s) (auto simp: prefix_def)
next
  fix s app assume "k = ToServer s" "k' = ToAppservice app"
  then show ?thesis using assms by (cases s) (auto simp: prefix_def)
next
  fix s' u p assume "k = ToPush u p" "k' = ToServer s'"
  then show ?thesis using assms by (cases s') auto
next
  fix s' app assume "k = ToAppservice app" "k' = ToServer s'"
  then show ?thesis using assms by (cases s') auto
next
  fix a a' assume "k = ToAppservice a" "k' = ToAppservice a'"
  then show ?thesis using assms by (auto simp: sep_prefix_iff utf8_no_sep)
next
  fix u p u' p' assume "k = ToPush u p" "k' = ToPush u' p'"
  then show ?thesis using assms by (auto simp: sep_prefix_append sep_prefix_iff utf8_no_sep)
qed auto

lemma get_prefix_inj:
  assumes "valid_kind R k" "valid_kind R k'"
  shows "get_prefix k @ x = get_prefix k' @ y \<longleftrightarrow> k = k' \<and> x = y"
proof
  assume eq: "get_prefix k @ x = get_prefix k' @ y"
  then have "starts_with (get_prefix k' @ y) (get_prefix k)" by (metis prefixI)
  then have "k' = k" using get_prefix_unique [OF assms] by blast
  then show "k = k' \<and> x = y" using eq by simp
qed simp

text \<open>The key under which an event is filed; \<open>c\<close> bounds the counts in the keys of EDUs.\<close>

definition event_row :: "ruma \<Rightarrow> u64 \<Rightarrow> outgoing_kind \<Rightarrow> sending_event \<Rightarrow> bytes \<Rightarrow> bool" where
  "event_row R c kind e key \<longleftrightarrow> valid_kind R kind \<and> sendable e \<and>
     (case e of SendPdu p \<Rightarrow> key = get_prefix kind @ p
      | SendEdu _ \<Rightarrow> (\<exists>n \<le> c. key = get_prefix kind @ to_be_bytes n))"

lemma event_row_prefix:
  "event_row R c kind e key \<Longrightarrow> valid_kind R k \<Longrightarrow> starts_with key (get_prefix k) \<longleftrightarrow> kind = k"
  by (auto simp: event_row_def get_prefix_unique split: sending_event.splits)

lemma event_row_mono: "event_row R c kind e key \<Longrightarrow> c \<le> c' \<Longrightarrow> event_row R c' kind e key"
  by (auto simp: event_row_def split: sending_event.splits intro: order_trans)

lemma parse_event_row:
  assumes "event_row R c kind e key"
  shows "parse_servercurrentevent R key (event_value e) = Ok (kind, e)"
proof -
  obtain x where key: "key = get_prefix kind @ x" and x: "parsed_event x (event_value e) = e"
    using assms by (cases e) (auto simp: event_row_def parsed_event_def)
  have v: "valid_kind R kind" using assms by (simp add: event_row_def)
  show ?thesis
  proof (cases kind)
    case (ToServer server)
    then show ?thesis using v x server_prefix [of R server x]
      by (simp add: parse_servercurrentevent_def key splitn2_append utf8_no_sep)
  qed (use v x in \<open>simp_all add: parse_servercurrentevent_def key splitn2_append splitn3_append utf8_no_sep\<close>)
qed

section \<open>The invariant\<close>

text \<open>
  \<open>M\<close> records, for every key ever filed, its destination and event. Tables, channel and history agree
  with it, and no destination has more than thirty active rows.
\<close>

type_synonym filed = "bytes \<rightharpoonup> outgoing_kind \<times> sending_event"

definition has_row :: "kvtree \<Rightarrow> bytes \<Rightarrow> bool" where
  "has_row t key \<longleftrightarrow> kv_get t key \<noteq> None"

definition rows_of :: "filed \<Rightarrow> kvtree \<Rightarrow> bool" where
  "rows_of M t \<longleftrightarrow> kv_wf t \<and>
     (\<forall>key v. kv_get t key = Some v \<longrightarrow> (\<exists>kind e. M key = Some (kind, e) \<and> v = event_value e))"

definition kind_keys :: "filed \<Rightarrow> outgoing_kind \<Rightarrow> kvtree \<Rightarrow> bytes set" where
  "kind_keys M kind t = {key. has_row t key \<and> (\<exists>e. M key = Some (kind, e))}"

definition filed_ok :: "ruma \<Rightarrow> u64 \<Rightarrow> filed \<Rightarrow> bool" where
  "filed_ok R c M \<longleftrightarrow> (\<forall>key kind e. M key = Some (kind, e) \<longrightarrow> event_row R c kind e key)"

lemma filed_okD: "filed_ok R c M \<Longrightarrow> M key = Some (kind, e) \<Longrightarrow> event_row R c kind e key"
  by (simp add: filed_ok_def)

definition durable :: "ruma \<Rightarrow> filed \<Rightarrow> 'a sending_db_scheme history \<Rightarrow> bool" where
  "durable R M s \<longleftrightarrow> kv_wf (global (sdb s))
     \<and> filed_ok R (count_of (sdb s)) M
     \<and> rows_of M (servernameevent_data (sdb s)) \<and> rows_of M (servercurrentevent_data (sdb s))
     \<and> (\<forall>(kind, e, key) \<in> set (channel s). M key = Some (kind, e))
     \<and> (\<forall>(kind, e, key) \<in> set (accepted s). M key = Some (kind, e) \<and>
          (has_row (servernameevent_data (sdb s)) key \<or> has_row (servercurrentevent_data (sdb s)) key
           \<or> (kind, e, key) \<in> set (discarded s)
           \<or> (\<exists>x \<in> set (finished s). fst x = kind \<and> e \<in> set (fst (snd x)))))
     \<and> (\<forall>kind. card (kind_keys M kind (servercurrentevent_data (sdb s))) \<le> 30)"

text \<open>
  The volatile part: a destination is running exactly if one request to it is under way, that request
  contains all its active events, and a destination without a status has none.
\<close>

definition covers :: "ruma \<Rightarrow> filed \<Rightarrow> kvtree \<Rightarrow> outgoing_kind \<times> sending_event list \<Rightarrow> bool" where
  "covers R M a x \<longleftrightarrow> valid_kind R (fst x) \<and>
     (\<forall>key \<in> kind_keys M (fst x) a. \<forall>e. M key = Some (fst x, e) \<longrightarrow> e \<in> set (snd x))"

lemma covers_cong: "kind_keys M (fst x) a' = kind_keys M (fst x) a \<Longrightarrow> covers R M a' x = covers R M a x"
  by (simp add: covers_def)

fun busy :: "transaction_status option \<Rightarrow> bool" where
  "busy (Some (Failed _ _)) = False"
| "busy (Some _) = True"
| "busy None = False"

lemma busy_update:
  "{k. busy ((st(kind := x)) k)} = (if busy x then insert kind {k. busy (st k)} else {k. busy (st k)} - {kind})"
  by auto

definition volatile :: "ruma \<Rightarrow> filed \<Rightarrow> 'a sending_db_scheme history \<Rightarrow> bool" where
  "volatile R M s \<longleftrightarrow> distinct (map fst (in_flight s))
     \<and> fst ` set (in_flight s) = {kind. busy (status s kind)}
     \<and> (\<forall>kind. status s kind = None \<longrightarrow> kind_keys M kind (servercurrentevent_data (sdb s)) = {})
     \<and> (\<forall>x \<in> set (in_flight s). covers R M (servercurrentevent_data (sdb s)) x)"

lemma kind_keys_finite [simp]: "finite (kind_keys M kind t)"
proof -
  have "kind_keys M kind t \<subseteq> dom (kv_get t)" by (auto simp: kind_keys_def has_row_def)
  moreover have "kv_get t = map_of t" by (simp add: fun_eq_iff kv_get_def)
  then have "finite (dom (kv_get t))" by (simp add: finite_dom_map_of)
  ultimately show ?thesis by (rule finite_subset)
qed

lemma mark_as_active_tables:
  "servercurrentevent_data (mark_as_active evs db) =
     kv_insert_batch (servercurrentevent_data db) (map (\<lambda>(e, key). (key, event_value e)) evs)"
  "servernameevent_data (mark_as_active evs db) = kv_remove_keys (servernameevent_data db) (map snd evs)"
  "global (mark_as_active evs db) = global db"
  by (induction evs db rule: mark_as_active.induct) (auto simp: kv_insert_batch_def kv_remove_keys_def)

lemma count_of_mark [simp]: "count_of (mark_as_active evs db) = count_of db"
  by (simp add: count_of_def mark_as_active_tables)

lemma has_row_insert_batch:
  "kv_wf t \<Longrightarrow> has_row (kv_insert_batch t kvs) k \<longleftrightarrow> k \<in> fst ` set kvs \<or> has_row t k"
  using map_of_eq_None_iff [of "rev kvs" k] by (auto simp: has_row_def kv_get_insert_batch split: option.splits)

lemma has_row_remove_keys: "kv_wf t \<Longrightarrow> has_row (kv_remove_keys t ks) k \<longleftrightarrow> k \<notin> set ks \<and> has_row t k"
  by (simp add: has_row_def kv_get_remove_keys)

lemma has_row_remove_prefix:
  "kv_wf t \<Longrightarrow> has_row (kv_remove_prefix t p) k \<longleftrightarrow> \<not> starts_with k p \<and> has_row t k"
  by (simp add: has_row_def kv_get_remove_prefix)

lemma get_batch_Some:
  "kv_wf t \<Longrightarrow> kv_get (kv_insert_batch t kvs) k = Some v \<Longrightarrow> (k, v) \<in> set kvs \<or> kv_get t k = Some v"
  by (auto simp: kv_get_insert_batch dest!: map_of_SomeD split: option.splits)

lemma rows_of_insert_batch:
  assumes "rows_of M t" "\<forall>(k, v) \<in> set kvs. \<exists>kind e. M k = Some (kind, e) \<and> v = event_value e"
  shows "rows_of M (kv_insert_batch t kvs)"
  using assms by (fastforce simp: rows_of_def kv_intros dest: get_batch_Some)

lemma rows_of_remove_keys: "rows_of M t \<Longrightarrow> rows_of M (kv_remove_keys t ks)"
  by (auto simp: rows_of_def kv_intros kv_simps)

lemma rows_of_remove_prefix: "rows_of M t \<Longrightarrow> rows_of M (kv_remove_prefix t p)"
  by (auto simp: rows_of_def kv_intros kv_simps split: if_splits)

lemma kind_keys_insert_batch:
  assumes "kv_wf t" "\<forall>(k, v) \<in> set kvs. \<exists>e. M k = Some (kind, e)"
  shows "kind_keys M kind' (kv_insert_batch t kvs) =
    kind_keys M kind' t \<union> (if kind' = kind then fst ` set kvs else {})"
proof (rule set_eqI)
  fix key
  define F where "F \<longleftrightarrow> key \<in> fst ` set kvs"
  have "\<exists>e. M key = Some (kind, e)" if F using assms(2) that unfolding F_def by fastforce
  then show "key \<in> kind_keys M kind' (kv_insert_batch t kvs) \<longleftrightarrow>
    key \<in> kind_keys M kind' t \<union> (if kind' = kind then fst ` set kvs else {})"
    by (cases "kind' = kind") (auto simp: kind_keys_def has_row_insert_batch [OF assms(1)] F_def [symmetric])
qed

lemma kind_keys_remove_prefix:
  assumes "kv_wf t" "\<And>k' e key. M key = Some (k', e) \<Longrightarrow> event_row R c k' e key" "valid_kind R kind"
  shows "kind_keys M kind' (kv_remove_prefix t (get_prefix kind)) = (if kind' = kind then {} else kind_keys M kind' t)"
proof -
  have "starts_with key (get_prefix kind) \<longleftrightarrow> k' = kind" if "M key = Some (k', e)" for key k' e
    using assms(2) [OF that] assms(3) by (rule event_row_prefix)
  then show ?thesis using assms(1) by (auto simp: kind_keys_def has_row_remove_prefix)
qed

text \<open>Moving events of one destination from the queue to the active table.\<close>

lemma durable_mark:
  assumes d: "durable R M s" and evs: "\<forall>(e, key) \<in> set evs. M key = Some (kind, e)"
    and none: "kind_keys M kind (servercurrentevent_data (sdb s)) = {}" and len: "length evs \<le> 30"
  shows "durable R M (s\<lparr>sdb := mark_as_active evs (sdb s)\<rparr>)"
proof -
  let ?q = "servernameevent_data (sdb s)" and ?a = "servercurrentevent_data (sdb s)"
  let ?kvs = "map (\<lambda>(e, key). (key, event_value e)) evs"
  have r: "rows_of M ?q" "rows_of M ?a" using d by (simp_all add: durable_def)
  then have w: "kv_wf ?q" "kv_wf ?a" by (simp_all add: rows_of_def)
  have kvs: "\<forall>(k, v) \<in> set ?kvs. \<exists>e. M k = Some (kind, e)" using evs by auto
  have "rows_of M (kv_insert_batch ?a ?kvs)" using evs by (intro rows_of_insert_batch r(2)) fastforce
  moreover have "rows_of M (kv_remove_keys ?q (map snd evs))" by (intro rows_of_remove_keys r(1))
  moreover have "card (kind_keys M kind' (kv_insert_batch ?a ?kvs)) \<le> 30" for kind'
  proof (cases "kind' = kind")
    case True
    have "card (fst ` set ?kvs) \<le> length ?kvs" using card_image_le [of "set ?kvs" fst] card_length [of ?kvs] by simp
    then show ?thesis using True none len by (simp add: kind_keys_insert_batch [OF w(2) kvs])
  qed (use d in \<open>simp add: kind_keys_insert_batch [OF w(2) kvs] durable_def\<close>)
  moreover have "has_row (kv_remove_keys ?q (map snd evs)) key \<or> has_row (kv_insert_batch ?a ?kvs) key"
    if "has_row ?q key \<or> has_row ?a key" for key
  proof (cases "key \<in> snd ` set evs")
    case True
    then have "key \<in> fst ` set ?kvs" by force
    then show ?thesis using has_row_insert_batch [OF w(2)] by blast
  qed (use that w in \<open>auto simp: has_row_remove_keys has_row_insert_batch\<close>)
  ultimately show ?thesis using d
    unfolding durable_def by (fastforce simp: mark_as_active_tables)
qed

text \<open>What the reading functions return when the tables agree with \<open>M\<close>.\<close>

lemma parse_filed:
  assumes "filed_ok R c M" "rows_of M t" "kv_get t key = Some v"
  obtains kind e where "M key = Some (kind, e)" "parse_servercurrentevent R key v = Ok (kind, e)"
  using assms parse_event_row unfolding rows_of_def filed_ok_def by metis

lemma scan_kind:
  assumes "filed_ok R c M" "rows_of M t" "valid_kind R kind"
  shows "(key, v) \<in> set (kv_scan_prefix t (get_prefix kind)) \<longleftrightarrow>
    (\<exists>e. kv_get t key = Some v \<and> M key = Some (kind, e) \<and> parse_servercurrentevent R key v = Ok (kind, e))"
proof -
  have w: "kv_wf t" using assms(2) by (simp add: rows_of_def)
  show ?thesis
  proof (cases "kv_get t key = Some v")
    case True
    then obtain k' e where M: "M key = Some (k', e)" "parse_servercurrentevent R key v = Ok (k', e)"
      by (rule parse_filed [OF assms(1,2)])
    then have "starts_with key (get_prefix kind) \<longleftrightarrow> k' = kind"
      using event_row_prefix [OF filed_okD [OF assms(1)] assms(3)] by blast
    then show ?thesis using w True M by (auto simp: kv_scan_prefix_set)
  qed (use w in \<open>auto simp: kv_scan_prefix_set\<close>)
qed

lemma has_row_Some: "has_row t key \<longleftrightarrow> (\<exists>v. kv_get t key = Some v)"
  by (simp add: has_row_def)

lemma oks_scan_kind:
  assumes "filed_ok R c M" "rows_of M t" "valid_kind R kind"
  shows "oks (map (\<lambda>(key, v). and_then (parse_servercurrentevent R key v) (\<lambda>(_, e). Ok (h key e)))
      (kv_scan_prefix t (get_prefix kind)))
    = map (\<lambda>(key, v). h key (snd (the (M key)))) (kv_scan_prefix t (get_prefix kind))"
proof (rule oks_map_Inr)
  fix row assume row: "row \<in> set (kv_scan_prefix t (get_prefix kind))"
  obtain key v where r: "row = (key, v)" by (cases row)
  then obtain e where "M key = Some (kind, e)" "parse_servercurrentevent R key v = Ok (kind, e)"
    using row scan_kind [OF assms] by blast
  then show "(case row of (key, v) \<Rightarrow> and_then (parse_servercurrentevent R key v) (\<lambda>(_, e). Ok (h key e))) =
    Inr (case row of (key, v) \<Rightarrow> h key (snd (the (M key))))" by (simp add: r)
qed

lemma scan_kind_keys:
  assumes "filed_ok R c M" "rows_of M t" "valid_kind R kind"
  shows "(\<exists>v. (key, v) \<in> set (kv_scan_prefix t (get_prefix kind))) \<longleftrightarrow> has_row t key \<and> (\<exists>e. M key = Some (kind, e))"
  (is "?L \<longleftrightarrow> ?R")
proof
  assume ?L then show ?R unfolding scan_kind [OF assms] has_row_Some by blast
next
  assume ?R
  then obtain v e where v: "kv_get t key = Some v" "M key = Some (kind, e)" unfolding has_row_Some by blast
  obtain k' e' where "M key = Some (k', e')" "parse_servercurrentevent R key v = Ok (k', e')"
    using v(1) by (rule parse_filed [OF assms(1,2)])
  then show ?L unfolding scan_kind [OF assms] using v by auto
qed

lemma queued_requests_filed:
  assumes "filed_ok R c M" "rows_of M (servernameevent_data db)" "valid_kind R kind"
  shows "(e, key) \<in> set (oks (queued_requests R kind db)) \<longleftrightarrow>
    has_row (servernameevent_data db) key \<and> M key = Some (kind, e)"
proof -
  have "(e, key) \<in> set (oks (queued_requests R kind db)) \<longleftrightarrow>
    (\<exists>v. (key, v) \<in> set (kv_scan_prefix (servernameevent_data db) (get_prefix kind))) \<and> e = snd (the (M key))"
    unfolding queued_requests_def oks_scan_kind [OF assms] by auto
  then show ?thesis unfolding scan_kind_keys [OF assms] by auto
qed

lemma active_requests_for_filed:
  assumes "filed_ok R c M" "rows_of M (servercurrentevent_data db)" "valid_kind R kind"
  shows "(key, e) \<in> set (oks (active_requests_for R kind db)) \<longleftrightarrow>
    has_row (servercurrentevent_data db) key \<and> M key = Some (kind, e)"
proof -
  have "(key, e) \<in> set (oks (active_requests_for R kind db)) \<longleftrightarrow>
    (\<exists>v. (key, v) \<in> set (kv_scan_prefix (servercurrentevent_data db) (get_prefix kind))) \<and> e = snd (the (M key))"
    unfolding active_requests_for_def oks_scan_kind [OF assms] by auto
  then show ?thesis unfolding scan_kind_keys [OF assms] by auto
qed

lemma active_requests_filed:
  assumes "filed_ok R c M" "rows_of M (servercurrentevent_data db)"
  shows "oks (active_requests R db) =
    map (\<lambda>(key, v). (key, fst (the (M key)), snd (the (M key)))) (servercurrentevent_data db)"
  unfolding active_requests_def kv_iter_def
proof (rule oks_map_Inr)
  fix row assume row: "row \<in> set (servercurrentevent_data db)"
  obtain key v where r: "row = (key, v)" by (cases row)
  have "kv_get (servercurrentevent_data db) key = Some v"
    using assms(2) row r by (simp add: rows_of_def kv_get_in_set)
  then obtain kind e where "M key = Some (kind, e)" "parse_servercurrentevent R key v = Ok (kind, e)"
    by (rule parse_filed [OF assms])
  then show "(case row of (key, v) \<Rightarrow> and_then (parse_servercurrentevent R key v) (\<lambda>(k, e). Ok (key, k, e))) =
    Inr (case row of (key, v) \<Rightarrow> (key, fst (the (M key)), snd (the (M key))))" by (simp add: r)
qed

section \<open>Every step keeps the invariant\<close>

lemma durableD:
  assumes "durable R M s"
  shows "filed_ok R (count_of (sdb s)) M" "rows_of M (servernameevent_data (sdb s))"
    "rows_of M (servercurrentevent_data (sdb s))" "kv_wf (servercurrentevent_data (sdb s))"
    "kv_wf (servernameevent_data (sdb s))"
  using assms by (auto simp: durable_def rows_of_def)

lemma durable_accepted:
  assumes "durable R M s" "(kind, e, key) \<in> set (accepted s)"
  shows "M key = Some (kind, e) \<and> (has_row (servernameevent_data (sdb s)) key \<or> has_row (servercurrentevent_data (sdb s)) key
    \<or> (kind, e, key) \<in> set (discarded s) \<or> (\<exists>x \<in> set (finished s). fst x = kind \<and> e \<in> set (fst (snd x))))"
  using assms unfolding durable_def by blast

lemma durable_cong:
  assumes "durable R M s" "global (sdb s') = global (sdb s)"
    and "servernameevent_data (sdb s') = servernameevent_data (sdb s)"
    and "servercurrentevent_data (sdb s') = servercurrentevent_data (sdb s)"
    and "set (channel s') \<subseteq> set (channel s)" "accepted s' = accepted s" "discarded s' = discarded s"
    and "finished s' = finished s"
  shows "durable R M s'"
proof -
  have "count_of (sdb s') = count_of (sdb s)" using assms(2) by (simp add: count_of_def)
  then show ?thesis using assms unfolding durable_def by auto
qed

lemma durable_finished:
  assumes d: "durable R M s" and k: "valid_kind R kind"
    and es: "\<forall>key \<in> kind_keys M kind (servercurrentevent_data (sdb s)). \<forall>e. M key = Some (kind, e) \<longrightarrow> e \<in> set es"
  shows "durable R M (s\<lparr>finished := finished s @ [(kind, es, rest)],
    sdb := delete_all_active_requests_for kind (sdb s)\<rparr>)"
proof -
  let ?a = "servercurrentevent_data (sdb s)"
  have M: "\<And>k' e key. M key = Some (k', e) \<Longrightarrow> event_row R (count_of (sdb s)) k' e key"
    using d by (auto simp: durable_def filed_ok_def)
  have keys: "kind_keys M kind' (kv_remove_prefix ?a (get_prefix kind)) = (if kind' = kind then {} else kind_keys M kind' ?a)" for kind'
    by (rule kind_keys_remove_prefix [OF durableD(4) [OF d] M k])
  have active: "has_row (kv_remove_prefix ?a (get_prefix kind)) key \<or> kind' = kind \<and> e \<in> set es"
    if "has_row ?a key" "M key = Some (kind', e)" for kind' e key
  proof (cases "kind' = kind")
    case True
    then show ?thesis using that es by (auto simp: kind_keys_def)
  next
    case False
    then show ?thesis using that event_row_prefix [OF M k] by (simp add: has_row_remove_prefix durableD(4) [OF d])
  qed
  have "M key = Some (kind', e) \<and> (has_row (servernameevent_data (sdb s)) key
      \<or> has_row (kv_remove_prefix ?a (get_prefix kind)) key \<or> (kind', e, key) \<in> set (discarded s)
      \<or> (\<exists>x \<in> set (finished s @ [(kind, es, rest)]). fst x = kind' \<and> e \<in> set (fst (snd x))))"
    if "(kind', e, key) \<in> set (accepted s)" for kind' e key
    using durable_accepted [OF d that] active [of key kind' e] by auto
  then have acc: "\<forall>(kind', e, key) \<in> set (accepted s). M key = Some (kind', e) \<and> (has_row (servernameevent_data (sdb s)) key
      \<or> has_row (kv_remove_prefix ?a (get_prefix kind)) key \<or> (kind', e, key) \<in> set (discarded s)
      \<or> (\<exists>x \<in> set (finished s @ [(kind, es, rest)]). fst x = kind' \<and> e \<in> set (fst (snd x))))"
    by blast
  have "count_of (delete_all_active_requests_for kind (sdb s)) = count_of (sdb s)"
    by (simp add: delete_all_active_requests_for_def count_of_def)
  then show ?thesis using d keys acc unfolding durable_def
    by (simp add: delete_all_active_requests_for_def rows_of_remove_prefix)
qed

lemma volatileD:
  assumes "volatile R M s" "in_flight s = before @ (kind, es) # after"
  shows "valid_kind R kind" "kind \<notin> fst ` set (before @ after)"
    "\<forall>key \<in> kind_keys M kind (servercurrentevent_data (sdb s)). \<forall>e. M key = Some (kind, e) \<longrightarrow> e \<in> set es"
    "busy (status s kind)" "fst ` set (before @ after) = {k. busy (status s k)} - {kind}"
    "distinct (map fst (before @ after))"
proof -
  have fl: "distinct (map fst before @ kind # map fst after)"
    "insert kind (fst ` set (before @ after)) = {k. busy (status s k)}"
    using assms by (auto simp: volatile_def image_Un)
  then show n: "kind \<notin> fst ` set (before @ after)" "distinct (map fst (before @ after))" by auto
  show "busy (status s kind)" using fl(2) by auto
  show "fst ` set (before @ after) = {k. busy (status s k)} - {kind}" using fl(2) n by (metis Diff_insert_absorb)
qed (use assms in \<open>auto simp: volatile_def covers_def\<close>)

lemma volatile_rest:
  assumes "volatile R M s" "in_flight s = before @ (kind, es) # after"
    and "\<And>k. k \<noteq> kind \<Longrightarrow> kind_keys M k a' = kind_keys M k (servercurrentevent_data (sdb s))"
  shows "\<forall>x \<in> set (before @ after). covers R M a' x"
proof
  fix x assume x: "x \<in> set (before @ after)"
  then have "fst x \<noteq> kind" using volatileD(2) [OF assms(1,2)] by force
  then have "covers R M a' x = covers R M (servercurrentevent_data (sdb s)) x" by (intro covers_cong assms(3))
  then show "covers R M a' x" using assms(1) x unfolding volatile_def assms(2) by auto
qed

lemma on_success_inv:
  fixes rest :: "'a sending_db_scheme \<times> services_db \<times> exchanges"
  assumes d: "durable R M s" and v: "volatile R M s" and fl: "in_flight s = before @ (kind, es) # after"
  defines "s' \<equiv> on_success R kind (s\<lparr>in_flight := before @ after, finished := finished s @ [(kind, es, rest)]\<rparr>)"
  shows "durable R M s' \<and> volatile R M s'"
proof -
  note vd = volatileD [OF v fl]
  define db1 where "db1 = delete_all_active_requests_for kind (sdb s)"
  define s1 where "s1 = s\<lparr>in_flight := before @ after, finished := finished s @ [(kind, es, rest)], sdb := db1\<rparr>"
  define new where "new = take 30 (oks (queued_requests R kind db1))"
  have d1: "durable R M s1"
    using durable_finished [OF d vd(1,3)] by (rule durable_cong) (simp_all add: s1_def db1_def)
  have M: "\<And>k' e key. M key = Some (k', e) \<Longrightarrow> event_row R (count_of (sdb s)) k' e key"
    using d by (auto simp: durable_def filed_ok_def)
  have keys: "kind_keys M k (servercurrentevent_data db1) =
      (if k = kind then {} else kind_keys M k (servercurrentevent_data (sdb s)))" for k
    using kind_keys_remove_prefix [OF durableD(4) [OF d] M vd(1)]
    by (simp add: db1_def delete_all_active_requests_for_def)
  have evs: "\<forall>(e, key) \<in> set new. M key = Some (kind, e)"
    using queued_requests_filed [OF durableD(1,2) [OF d1] vd(1)] by (auto simp: new_def s1_def dest!: in_set_takeD)
  show ?thesis
  proof (cases "new = []")
    case True
    then have s': "s' = s1\<lparr>status := (status s)(kind := None)\<rparr>"
      by (simp add: s'_def s1_def on_success_def db1_def new_def Let_def)
    have "durable R M s'" using d1 by (rule durable_cong) (simp_all add: s')
    moreover have "volatile R M s'"
      using v vd(5,6) volatile_rest [OF v fl, of "servercurrentevent_data db1"] keys
      by (simp add: volatile_def s' s1_def busy_update del: fun_upd_apply) simp
    ultimately show ?thesis ..
  next
    case False
    then have s': "s' = s1\<lparr>sdb := mark_as_active new db1, in_flight := (before @ after) @ [(kind, map fst new)]\<rparr>"
      by (simp add: s'_def s1_def on_success_def db1_def new_def Let_def)
    have "durable R M (s1\<lparr>sdb := mark_as_active new (sdb s1)\<rparr>)"
      using d1 evs by (rule durable_mark) (simp_all add: s1_def keys new_def)
    then have "durable R M s'" by (rule durable_cong) (simp_all add: s' s1_def)
    moreover have new_keys: "kind_keys M k (servercurrentevent_data (mark_as_active new db1)) =
        (if k = kind then snd ` set new else kind_keys M k (servercurrentevent_data (sdb s)))" for k
    proof -
      have "kv_wf (servercurrentevent_data db1)" using durableD(4) [OF d1] by (simp add: s1_def)
      then have "kind_keys M k (servercurrentevent_data (mark_as_active new db1)) =
        kind_keys M k (servercurrentevent_data db1) \<union> (if k = kind then fst ` set (map (\<lambda>(e, key). (key, event_value e)) new) else {})"
        unfolding mark_as_active_tables by (rule kind_keys_insert_batch) (use evs in auto)
      moreover have "fst ` set (map (\<lambda>(e, key). (key, event_value e)) new) = snd ` set new" by force
      ultimately show ?thesis by (simp add: keys)
    qed
    have "e \<in> set (map fst new)" if "key \<in> snd ` set new" "M key = Some (kind, e)" for key e
    proof -
      from that(1) obtain e' where "(e', key) \<in> set new" by auto
      moreover from this have "e' = e" using evs that(2) by auto
      ultimately show ?thesis by force
    qed
    then have "covers R M (servercurrentevent_data (mark_as_active new db1)) (kind, map fst new)"
      using vd(1) by (simp add: covers_def new_keys)
    then have "volatile R M s'"
      using v vd(2,4-6) volatile_rest [OF v fl, of "servercurrentevent_data (mark_as_active new db1)"] new_keys
      by (auto simp: volatile_def s' s1_def image_Un)
    ultimately show ?thesis by blast
  qed
qed

lemma on_failure_inv:
  fixes now :: nat
  assumes d: "durable R M s" and v: "volatile R M s" and fl: "in_flight s = before @ (kind, es) # after"
  defines "s' \<equiv> on_failure now kind (s\<lparr>in_flight := before @ after\<rparr>)"
  shows "durable R M s' \<and> volatile R M s'"
proof -
  note vd = volatileD [OF v fl]
  have "durable R M s'" using d by (rule durable_cong) (simp_all add: s'_def on_failure_def)
  moreover have "volatile R M s'"
  proof -
    obtain x where x: "status s' = (status s)(kind := Some x)" "\<not> busy (Some x)"
    proof -
      consider "status s kind = Some Running" | n where "status s kind = Some (Retrying n)"
        using vd(4) by (cases "status s kind" rule: busy.cases) (auto elim: busy.elims)
      then show ?thesis by cases (auto simp: s'_def on_failure_def intro: that)
    qed
    have "{k. busy (status s' k)} = {k. busy (status s k)} - {kind}" unfolding x(1) busy_update using x(2) by simp
    moreover have "\<forall>k. status s' k = None \<longrightarrow> status s k = None" using x(1) by simp
    moreover have "in_flight s' = before @ after" "sdb s' = sdb s" by (simp_all add: s'_def on_failure_def)
    ultimately show ?thesis using v vd(5,6) volatile_rest [OF v fl refl] by (simp add: volatile_def)
  qed
  ultimately show ?thesis ..
qed

lemma add_edus_tables:
  "servernameevent_data (snd (add_edus E kind es db)) = servernameevent_data db"
  "servercurrentevent_data (snd (add_edus E kind es db)) = servercurrentevent_data db"
  "global (snd (add_edus E kind es db)) = global db"
  by (auto simp: add_edus_def set_latest_educount_def split: outgoing_kind.splits sum.splits error.splits)

lemma add_edus_events: "fst (add_edus E kind es db) = Ok es' \<Longrightarrow> set es \<subseteq> set es'"
  by (auto simp: add_edus_def split: outgoing_kind.splits sum.splits error.splits)

lemma add_edus_panics: "fst (add_edus E kind es db) = Inl e \<Longrightarrow> \<exists>m. e = Panicked m"
  by (auto simp: add_edus_def split: outgoing_kind.splits sum.splits error.splits)

lemma admit_cases:
  assumes "admit now kind st = Inr (adm, st')"
  shows "adm = Refused \<and> st' = st
    \<or> adm = AdmitNew \<and> st kind = None \<and> st' = st(kind \<mapsto> Running)
    \<or> adm = AdmitRetry \<and> (\<exists>n t. st kind = Some (Failed n t) \<and> st' = st(kind \<mapsto> Retrying n))"
  using assms by (auto simp: admit_def and_then_eq_Inr split: option.splits transaction_status.splits if_splits)

lemma admit_panics: "admit now kind st = Inl e \<Longrightarrow> \<exists>m. e = Panicked m"
  by (auto simp: admit_def min_elapsed_duration_def duration_mul_def and_then_def
      split: option.splits transaction_status.splits if_splits sum.splits)

text \<open>A received event: what it leaves in the database is durable even when the task panics after it.\<close>

lemma on_receive_inv:
  assumes d: "durable R M s" and v: "volatile R M s" and R: "R = sn_ruma E"
    and ch: "channel s = (kind, e, key) # msgs"
    and run: "on_receive E now (kind, e, key) (s\<lparr>channel := msgs\<rparr>) = (r, s')"
  shows "durable R M s' \<and> (r = Ok () \<longrightarrow> volatile R M s')"
proof -
  let ?s = "s\<lparr>channel := msgs\<rparr>"
  have d0: "durable R M ?s" using d by (rule durable_cong) (auto simp: ch)
  have v0: "volatile R M ?s" using v by (simp add: volatile_def)
  have M: "M key = Some (kind, e)" using d ch by (simp add: durable_def)
  then have k: "valid_kind R kind" using durableD(1) [OF d] by (auto simp: filed_ok_def event_row_def)
  show ?thesis
  proof (cases "admit now kind (status s)")
    case (Inl x)
    with admit_panics obtain m where "admit now kind (status s) = Inl (Panicked m)" by blast
    then show ?thesis using run d0 by (auto simp: on_receive_def select_events_def)
  next
    case (Inr a)
    obtain adm st where a: "admit now kind (status s) = Inr (adm, st)" using Inr by (cases a) auto
    consider (refused) "adm = Refused" "st = status s"
      | (fresh) "adm = AdmitNew" "status s kind = None" "st = (status s)(kind \<mapsto> Running)"
      | (retry) n t where "adm = AdmitRetry" "status s kind = Some (Failed n t)" "st = (status s)(kind \<mapsto> Retrying n)"
      using admit_cases [OF a] by (elim disjE exE conjE) simp_all
    then show ?thesis
    proof cases
      case refused
      then show ?thesis using run a d0 v0 by (auto simp: on_receive_def select_events_def)
    next
      case retry
      define es where "es = map snd (oks (active_requests_for R kind (sdb s)))"
      have s': "r = Ok ()" "s' = ?s\<lparr>status := st, in_flight := in_flight s @ [(kind, es)]\<rparr>"
        using run a retry by (auto simp: on_receive_def select_events_def es_def R)
      have "covers R M (servercurrentevent_data (sdb s)) (kind, es)"
        using active_requests_for_filed [OF durableD(1,3) [OF d] k] k
        by (force simp: covers_def kind_keys_def es_def)
      moreover have "{k. busy (st k)} = insert kind {k. busy (status s k)}" unfolding retry(3) busy_update by simp
      moreover have "kind \<notin> fst ` set (in_flight s)" using v retry by (simp add: volatile_def)
      ultimately have "volatile R M s'" using v retry(3) by (auto simp: volatile_def s')
      moreover have "durable R M s'" using d0 by (rule durable_cong) (simp_all add: s')
      ultimately show ?thesis by blast
    next
      case fresh
      note mark_as_active.simps [simp del]
      let ?db = "mark_as_active [(e, key)] (sdb s)"
      obtain x db where ae: "add_edus E kind [e] ?db = (x, db)" by (cases "add_edus E kind [e] ?db")
      note tables = add_edus_tables [of E kind "[e]" ?db, unfolded ae snd_conv]
      have none: "kind_keys M kind (servercurrentevent_data (sdb s)) = {}" using v fresh by (simp add: volatile_def)
      have dm: "durable R M (?s\<lparr>sdb := mark_as_active [(e, key)] (sdb ?s)\<rparr>)"
        by (rule durable_mark [where kind = kind]) (use d0 M none in simp_all)
      have keys: "kind_keys M k (servercurrentevent_data ?db) =
          (if k = kind then {key} else kind_keys M k (servercurrentevent_data (sdb s)))" for k
        using kind_keys_insert_batch [OF durableD(4) [OF d], of "[(key, event_value e)]" M kind k] M none
        by (simp only: mark_as_active_tables) auto
      have s': "s' = ?s\<lparr>status := st, sdb := db, in_flight := in_flight s' \<rparr>"
      proof (cases x)
        case (Inl y)
        then obtain m where "x = Inl (Panicked m)" using add_edus_panics [of E kind "[e]" ?db y] ae by auto
        then show ?thesis using run a fresh ae by (auto simp: on_receive_def select_events_def)
      next
        case (Inr es)
        then show ?thesis using run a fresh ae by (auto simp: on_receive_def select_events_def)
      qed
      have "durable R M s'" using dm by (rule durable_cong) (subst s', simp add: tables)+
      moreover have "volatile R M s'" if "r = Ok ()"
      proof -
        have "x \<noteq> Inl (Panicked m)" for m
          using run a fresh ae that by (auto simp: on_receive_def select_events_def)
        then obtain es where x: "x = Ok es"
          using add_edus_panics [of E kind "[e]" ?db] ae by (cases x) auto
        have fl: "in_flight s' = in_flight s @ [(kind, es)]"
          using run a fresh ae x by (auto simp: on_receive_def select_events_def)
        have "e \<in> set es" using add_edus_events [of E kind "[e]" ?db es] ae x by simp
        then have c: "covers R M (servercurrentevent_data db) (kind, es)"
          using M k by (simp add: covers_def tables keys)
        have nf: "kind \<notin> fst ` set (in_flight s)" using v fresh by (simp add: volatile_def)
        have old: "covers R M (servercurrentevent_data db) y" if "y \<in> set (in_flight s)" for y
        proof -
          have "fst y \<noteq> kind" using nf that by force
          then have "covers R M (servercurrentevent_data db) y = covers R M (servercurrentevent_data (sdb s)) y"
            by (intro covers_cong) (simp add: tables keys)
          then show ?thesis using v that by (simp add: volatile_def)
        qed
        have "status s' = st" "servercurrentevent_data (sdb s') = servercurrentevent_data db"
          by (subst s', simp)+
        moreover have "{k. busy (st k)} = insert kind {k. busy (status s k)}" unfolding fresh(3) busy_update by simp
        ultimately show ?thesis using v c old nf fresh(3) by (auto simp: volatile_def fl tables keys)
      qed
      ultimately show ?thesis by blast
    qed
  qed
qed

text \<open>The start of the task loses nothing: no destination has enough active rows to be cut.\<close>

definition entry_of :: "(outgoing_kind \<times> sending_event list) list \<Rightarrow> outgoing_kind \<Rightarrow> sending_event list" where
  "entry_of ts kind = (case map_of ts kind of Some es \<Rightarrow> es | None \<Rightarrow> [])"

definition events_for :: "outgoing_kind \<Rightarrow> (bytes \<times> outgoing_kind \<times> sending_event) list \<Rightarrow> sending_event list" where
  "events_for kind rs = map (\<lambda>(_, _, e). e) (filter (\<lambda>(_, k, _). k = kind) rs)"

lemma entry_of_update: "entry_of (AList.update k es ts) kind = (if kind = k then es else entry_of ts kind)"
  by (simp add: entry_of_def update_conv')

lemma initial_transactions_eq:
  assumes "\<forall>kind. length (entry_of ts kind) + length (events_for kind rs) \<le> 31" "distinct (map fst ts)"
  shows "\<exists>ts'. initial_transactions rs ts db = (ts', db) \<and> distinct (map fst ts')
    \<and> fst ` set ts' = fst ` set ts \<union> (fst \<circ> snd) ` set rs
    \<and> (\<forall>kind. entry_of ts' kind = entry_of ts kind @ events_for kind rs)"
  using assms
proof (induction rs arbitrary: ts)
  case Nil
  then show ?case by (simp add: events_for_def)
next
  case (Cons r rs)
  obtain key kind e where r: "r = (key, kind, e)" by (cases r)
  let ?ts = "AList.update kind (entry_of ts kind @ [e]) ts"
  have ev: "events_for k (r # rs) = (if k = kind then e # events_for k rs else events_for k rs)" for k
    by (simp add: events_for_def r)
  have "length (entry_of ts kind) \<le> 30" using Cons.prems(1) [rule_format, of kind] by (simp add: ev)
  then have step: "initial_transactions (r # rs) ts db = initial_transactions rs ?ts db"
    by (simp add: r Let_def entry_of_def)
  have "\<forall>k. length (entry_of ?ts k) + length (events_for k rs) \<le> 31"
    using Cons.prems(1) by (auto simp: entry_of_update ev split: if_splits)
  moreover have "distinct (map fst ?ts)" using Cons.prems(2) by (simp add: distinct_update)
  ultimately obtain ts' where "initial_transactions rs ?ts db = (ts', db)" "distinct (map fst ts')"
    "fst ` set ts' = fst ` set ?ts \<union> (fst \<circ> snd) ` set rs"
    "\<forall>k. entry_of ts' k = entry_of ?ts k @ events_for k rs"
    using Cons.IH by blast
  moreover have "fst ` set ?ts = insert kind (fst ` set ts)"
    using dom_map_of_conv_image_fst [of ?ts] dom_map_of_conv_image_fst [of ts] by (simp add: update_conv')
  ultimately show ?case unfolding step by (intro exI [of _ ts']) (auto simp: r ev [unfolded r] entry_of_update)
qed

lemma handler_start_inv:
  assumes d: "durable R M s"
  shows "durable R M (handler_start R s) \<and> volatile R M (handler_start R s)"
proof -
  let ?a = "servercurrentevent_data (sdb s)"
  define rs where "rs = oks (active_requests R (sdb s))"
  have rs: "rs = map (\<lambda>(key, v). (key, fst (the (M key)), snd (the (M key)))) ?a"
    unfolding rs_def by (rule active_requests_filed [OF durableD(1,3) [OF d]])
  have row: "\<exists>k e. M key = Some (k, e)" if "has_row ?a key" for key
    using durableD(3) [OF d] that unfolding rows_of_def has_row_Some by blast
  have in_a: "key \<in> fst ` set ?a \<longleftrightarrow> has_row ?a key" for key
    using kv_get_in_set [OF durableD(4) [OF d], of key] by (force simp: has_row_Some)
  have len: "length (events_for kind rs) \<le> 30" for kind
  proof -
    have "length (events_for kind rs) = length (filter (\<lambda>(key, v). fst (the (M key)) = kind) ?a)"
      by (simp add: events_for_def rs filter_map comp_def case_prod_beta')
    also have "\<dots> = card (fst ` set (filter (\<lambda>(key, v). fst (the (M key)) = kind) ?a))"
      using distinct_card [of "map fst (filter (\<lambda>(key, v). fst (the (M key)) = kind) ?a)"]
        kv_distinct [OF durableD(4) [OF d]] by (simp add: distinct_map_filter)
    also have "\<dots> \<le> card (kind_keys M kind ?a)"
    proof (rule card_mono)
      show "fst ` set (filter (\<lambda>(key, v). fst (the (M key)) = kind) ?a) \<subseteq> kind_keys M kind ?a"
      proof
        fix key assume "key \<in> fst ` set (filter (\<lambda>(key, v). fst (the (M key)) = kind) ?a)"
        then have "key \<in> fst ` set ?a" "fst (the (M key)) = kind" by auto
        moreover from this obtain k e where "M key = Some (k, e)" using row in_a by blast
        ultimately show "key \<in> kind_keys M kind ?a" using in_a by (auto simp: kind_keys_def)
      qed
    qed simp
    also have "\<dots> \<le> 30" using d by (simp add: durable_def)
    finally show ?thesis .
  qed
  have "\<forall>kind. length (entry_of [] kind) + length (events_for kind rs) \<le> 31"
  proof
    fix kind show "length (entry_of [] kind) + length (events_for kind rs) \<le> 31"
      using len [of kind] by (simp add: entry_of_def)
  qed
  from initial_transactions_eq [OF this, of "sdb s"] obtain ts where ts: "initial_transactions rs [] (sdb s) = (ts, sdb s)"
    "distinct (map fst ts)" "fst ` set ts = (fst \<circ> snd) ` set rs" "\<forall>kind. entry_of ts kind = events_for kind rs"
    by (auto simp: entry_of_def)
  have hs: "handler_start R s = s\<lparr>status := map_of (map (\<lambda>(kind, _). (kind, Running)) ts), in_flight := ts, channel := []\<rparr>"
    using ts(1) by (simp add: handler_start_def rs_def)
  have st: "map_of (map (\<lambda>(kind, _). (kind, Running)) ts) kind = (if kind \<in> fst ` set ts then Some Running else None)" for kind
    by (induction ts) auto
  have mem: "(key, kind, e) \<in> set rs \<longleftrightarrow> has_row ?a key \<and> M key = Some (kind, e)" for key kind e
  proof
    assume "(key, kind, e) \<in> set rs"
    then obtain v where v: "(key, v) \<in> set ?a" "(kind, e) = the (M key)" by (auto simp: rs)
    then have h: "has_row ?a key" using in_a [of key] by force
    then show "has_row ?a key \<and> M key = Some (kind, e)" using v(2) row [OF h] by auto
  next
    assume "has_row ?a key \<and> M key = Some (kind, e)"
    then show "(key, kind, e) \<in> set rs" using in_a [of key] by (force simp: rs)
  qed
  have cov: "covers R M ?a x" if xs: "x \<in> set ts" for x
  proof -
    have x: "map_of ts (fst x) = Some (snd x)" using ts(2) xs by (simp add: map_of_eq_Some_iff)
    have "fst x \<in> (fst \<circ> snd) ` set rs" using ts(3) xs by blast
    then obtain key e where "(key, fst x, e) \<in> set rs" by auto
    then have "valid_kind R (fst x)" using mem durableD(1) [OF d] by (auto simp: filed_ok_def event_row_def)
    moreover have "e \<in> set (snd x)" if "has_row ?a key" "M key = Some (fst x, e)" for key e
    proof -
      have "e \<in> set (events_for (fst x) rs)" using mem that by (force simp: events_for_def)
      then show ?thesis using ts(4) x by (metis entry_of_def option.simps(5))
    qed
    ultimately show ?thesis by (auto simp: covers_def kind_keys_def)
  qed
  have "durable R M (handler_start R s)" using d by (rule durable_cong) (simp_all add: hs)
  moreover have "kind_keys M kind ?a = {}" if "kind \<notin> fst ` set ts" for kind
    using that mem unfolding ts(3) by (force simp: kind_keys_def image_iff)
  then have "volatile R M (handler_start R s)"
    using ts(2) cov by (auto simp: volatile_def hs st split: if_splits)
  ultimately show ?thesis ..
qed

lemma event_row_functional:
  assumes "event_row R c kind (SendPdu p) key" "event_row R c' kind' e key"
  shows "kind' = kind \<and> e = SendPdu p"
  using assms by (cases e) (auto simp: event_row_def get_prefix_inj)

text \<open>Filing requests extends \<open>M\<close>: a PDU may be filed again under its key, an EDU has a fresh one.\<close>

lemma request_rows_filed:
  assumes "filed_ok R (count_of db) M" "kv_wf (global db)" "unat (count_of db) + length requests < 2 ^ 64"
    and "\<forall>(kind, e) \<in> set requests. valid_kind R kind \<and> sendable e"
  shows "\<exists>rows db' M'. request_rows requests db = (Ok rows, db') \<and> length rows = length requests
    \<and> M \<subseteq>\<^sub>m M' \<and> filed_ok R (count_of db') M' \<and> kv_wf (global db') \<and> count_of db \<le> count_of db'
    \<and> servernameevent_data db' = servernameevent_data db \<and> servercurrentevent_data db' = servercurrentevent_data db
    \<and> (\<forall>((kind, e), (key, v)) \<in> set (zip requests rows). M' key = Some (kind, e) \<and> v = event_value e)"
  using assms
proof (induction requests arbitrary: db M)
  case Nil
  then show ?case by (auto simp: map_le_def)
next
  case (Cons request requests)
  obtain kind e where r: "request = (kind, e)" by (cases request)
  obtain key db1 where k: "(case e of SendPdu value \<Rightarrow> (Ok (get_prefix kind @ value), db)
       | SendEdu _ \<Rightarrow> step_then (next_count db) (\<lambda>n db. (Ok (get_prefix kind @ to_be_bytes n), db))) = (Ok key, db1)"
    "event_row R (count_of db1) kind e key" "kv_wf (global db1)" "count_of db \<le> count_of db1"
    "unat (count_of db1) + length requests < 2 ^ 64"
    "servernameevent_data db1 = servernameevent_data db" "servercurrentevent_data db1 = servercurrentevent_data db"
    "M \<subseteq>\<^sub>m M(key \<mapsto> (kind, e))"
  proof (cases e)
    case (SendPdu p)
    have row: "event_row R (count_of db) kind e (get_prefix kind @ p)"
      using Cons.prems(4) by (simp add: r SendPdu event_row_def)
    have "M \<subseteq>\<^sub>m M(get_prefix kind @ p \<mapsto> (kind, e))"
      using Cons.prems(1) event_row_functional [OF row [unfolded SendPdu]]
      by (fastforce simp: map_le_def filed_ok_def SendPdu)
    then show ?thesis using row Cons.prems by (intro that [of "get_prefix kind @ p" db]) (simp_all add: SendPdu)
  next
    case (SendEdu v)
    let ?n = "count_of db + 1"
    have lt: "\<And>n. n \<le> count_of db \<Longrightarrow> n < ?n" using less_Suc_u64 [of "count_of db"] Cons.prems(3) by simp
    have cnt: "count_of (snd (next_count db)) = ?n" using Cons.prems(2) by (simp add: count_of_next)
    have row: "event_row R ?n kind e (get_prefix kind @ to_be_bytes ?n)"
      using Cons.prems(4) by (auto simp: r SendEdu event_row_def)
    have "M (get_prefix kind @ to_be_bytes ?n) = None"
    proof (rule ccontr)
      assume "M (get_prefix kind @ to_be_bytes ?n) \<noteq> None"
      then obtain kind' e' where "M (get_prefix kind @ to_be_bytes ?n) = Some (kind', e')" by auto
      then have "event_row R (count_of db) kind' e' (get_prefix kind @ to_be_bytes ?n)"
        by (rule filed_okD [OF Cons.prems(1)])
      then show False using lt row
        by (cases e') (auto simp: event_row_def get_prefix_inj SendEdu)
    qed
    then have "M \<subseteq>\<^sub>m M(get_prefix kind @ to_be_bytes ?n \<mapsto> (kind, e))" by (auto simp: map_le_def)
    moreover have "unat ?n = Suc (unat (count_of db))" using Cons.prems(3) by (intro unat_Suc) simp
    ultimately show ?thesis using row cnt lt [OF order_refl] Cons.prems
      by (intro that [of "get_prefix kind @ to_be_bytes ?n" "snd (next_count db)"])
        (simp_all add: SendEdu next_count_eq kv_intros order.strict_implies_order)
  qed
  have "filed_ok R (count_of db1) (M(key \<mapsto> (kind, e)))"
    using Cons.prems(1) k(2,4) by (auto simp: filed_ok_def intro: event_row_mono)
  moreover have "\<forall>(kind, e) \<in> set requests. valid_kind R kind \<and> sendable e" using Cons.prems(4) by simp
  ultimately obtain rows db' M' where IH: "request_rows requests db1 = (Ok rows, db')" "length rows = length requests"
    "M(key \<mapsto> (kind, e)) \<subseteq>\<^sub>m M'" "filed_ok R (count_of db') M'" "kv_wf (global db')" "count_of db1 \<le> count_of db'"
    "servernameevent_data db' = servernameevent_data db1" "servercurrentevent_data db' = servercurrentevent_data db1"
    "\<forall>((kind, e), (key, v)) \<in> set (zip requests rows). M' key = Some (kind, e) \<and> v = event_value e"
    using Cons.IH [of db1 "M(key \<mapsto> (kind, e))"] k(3,5) by blast
  have "M' key = Some (kind, e)" using IH(3) by (auto simp: map_le_def)
  moreover have "request_rows (request # requests) db = (Ok ((key, event_value e) # rows), db')"
    by (simp add: r k(1) IH(1))
  moreover have "M \<subseteq>\<^sub>m M'" using k(8) IH(3) by (rule map_le_trans)
  ultimately show ?case using IH k(4,6,7)
    by (intro exI [of _ "(key, event_value e) # rows"] exI [of _ db'] exI [of _ M']) (auto simp: r)
qed

lemma rows_of_mono: "rows_of M t \<Longrightarrow> M \<subseteq>\<^sub>m M' \<Longrightarrow> rows_of M' t"
  unfolding rows_of_def map_le_def by (metis domI)

lemma kind_keys_mono:
  assumes "rows_of M t" "M \<subseteq>\<^sub>m M'"
  shows "kind_keys M' kind t = kind_keys M kind t"
proof -
  have "M' key = M key" if "has_row t key" for key
    using assms that unfolding rows_of_def map_le_def has_row_Some by (metis domI)
  then show ?thesis by (auto simp: kind_keys_def)
qed

lemma client_inv:
  assumes d: "durable R M s" and v: "volatile R M s"
    and valid: "\<forall>(kind, event) \<in> set requests. valid_kind R kind \<and> sendable event"
    and c: "unat (count_of (sdb s)) + length requests < 2 ^ 64"
    and keys: "fst (queue_requests requests (sdb s)) = Ok keys" and run: "send_requests requests s = (Ok (), s')"
  defines "msgs \<equiv> map (\<lambda>((kind, event), key). (kind, event, key)) (zip requests keys)"
  shows "\<exists>M'. durable R M' (s'\<lparr>accepted := accepted s @ msgs\<rparr>) \<and> volatile R M' (s'\<lparr>accepted := accepted s @ msgs\<rparr>)"
proof -
  have g: "kv_wf (global (sdb s))" using d by (simp add: durable_def)
  obtain rows db' M' where q: "request_rows requests (sdb s) = (Ok rows, db')" "length rows = length requests"
    "M \<subseteq>\<^sub>m M'" "filed_ok R (count_of db') M'" "kv_wf (global db')" "count_of (sdb s) \<le> count_of db'"
    "servernameevent_data db' = servernameevent_data (sdb s)"
    "servercurrentevent_data db' = servercurrentevent_data (sdb s)"
    "\<forall>((kind, e), (key, v)) \<in> set (zip requests rows). M' key = Some (kind, e) \<and> v = event_value e"
    using request_rows_filed [OF durableD(1) [OF d] g c valid] by blast
  let ?q = "kv_insert_batch (servernameevent_data (sdb s)) rows"
  have ks: "keys = map fst rows" using keys q(1) by (simp add: queue_requests_def)
  have s': "s' = s\<lparr>sdb := db'\<lparr>servernameevent_data := ?q\<rparr>, channel := channel s @ msgs\<rparr>"
    using run q(1,7) by (simp add: send_requests_def queue_requests_def ks msgs_def)
  have msgs: "M' key = Some (kind, e) \<and> key \<in> fst ` set rows" if "(kind, e, key) \<in> set msgs" for kind e key
  proof -
    from that obtain x where "((kind, e), key) \<in> set (zip requests (map fst rows))"
      by (auto simp: msgs_def ks)
    then obtain v where "((kind, e), (key, v)) \<in> set (zip requests rows)"
      by (auto simp: zip_map2)
    then show ?thesis using q(9) by (force dest: set_zip_rightD)
  qed
  have rows: "\<forall>(k, v) \<in> set rows. \<exists>kind e. M' k = Some (kind, e) \<and> v = event_value e"
  proof -
    have "\<exists>kind e. M' k = Some (kind, e) \<and> v = event_value e" if "(k, v) \<in> set rows" for k v
    proof -
      from that obtain i where "i < length rows" "rows ! i = (k, v)" by (auto simp: in_set_conv_nth)
      then have "(requests ! i, (k, v)) \<in> set (zip requests rows)" using q(2) by (auto simp: in_set_zip)
      then show ?thesis using q(9) by (cases "requests ! i") fastforce
    qed
    then show ?thesis by blast
  qed
  have ro: "rows_of M' (servernameevent_data (sdb s))" "rows_of M' (servercurrentevent_data (sdb s))"
    using durableD(2,3) [OF d] q(3) by (blast intro: rows_of_mono)+
  have old: "M' key = M key" if "M key \<noteq> None" for key using q(3) that by (auto simp: map_le_def dom_def)
  have has: "has_row ?q key \<longleftrightarrow> key \<in> fst ` set rows \<or> has_row (servernameevent_data (sdb s)) key" for key
    by (rule has_row_insert_batch [OF durableD(5) [OF d]])
  note kk = kind_keys_mono [OF durableD(3) [OF d] q(3)]
  have cnt: "count_of (db'\<lparr>servernameevent_data := ?q\<rparr>) = count_of db'" by (simp add: count_of_def)
  have "durable R M' (s'\<lparr>accepted := accepted s @ msgs\<rparr>)"
    using d q(4,5) ro rows_of_insert_batch [OF ro(1) rows] msgs old
    unfolding durable_def by (fastforce simp: s' cnt q(8) kk has)
  moreover have "covers R M' (servercurrentevent_data (sdb s)) x" if "covers R M (servercurrentevent_data (sdb s)) x" for x
  proof -
    have "M' key = M key" if "key \<in> kind_keys M (fst x) (servercurrentevent_data (sdb s))" for key
      using old that by (auto simp: kind_keys_def)
    then show ?thesis using that by (simp add: covers_def kk)
  qed
  then have "volatile R M' (s'\<lparr>accepted := accepted s @ msgs\<rparr>)"
    using v by (simp add: volatile_def s' q(8) kk)
  ultimately show ?thesis by blast
qed

lemma cleanup_inv:
  assumes d: "durable R M s" and v: "volatile R M s" and app: "utf8 app"
  defines "s' \<equiv> (cleanup_events app s)\<lparr>discarded :=
     discarded s @ filter (\<lambda>(kind, _). kind = ToAppservice app) (accepted s)\<rparr>"
  shows "durable R M s' \<and> volatile R M s'"
proof -
  let ?k = "ToAppservice app" and ?q = "servernameevent_data (sdb s)" and ?a = "servercurrentevent_data (sdb s)"
  have k: "valid_kind R ?k" using app by simp
  have M: "\<And>k' e key. M key = Some (k', e) \<Longrightarrow> event_row R (count_of (sdb s)) k' e key"
    using durableD(1) [OF d] by (rule filed_okD)
  have tables: "servernameevent_data (sdb s') = kv_remove_prefix ?q (get_prefix ?k)"
    "servercurrentevent_data (sdb s') = kv_remove_prefix ?a (get_prefix ?k)" "global (sdb s') = global (sdb s)"
    "count_of (sdb s') = count_of (sdb s)" "channel s' = channel s" "finished s' = finished s"
    "in_flight s' = in_flight s" "status s' = status s"
    by (simp_all add: s'_def cleanup_events_def delete_all_requests_for_def Let_def count_of_def)
  have keys: "kind_keys M kind (servercurrentevent_data (sdb s')) = (if kind = ?k then {} else kind_keys M kind ?a)" for kind
    unfolding tables by (rule kind_keys_remove_prefix [OF durableD(4) [OF d] M k])
  have rest: "has_row (kv_remove_prefix t (get_prefix ?k)) key \<longleftrightarrow> has_row t key"
    if "kv_wf t" "M key = Some (kind, e)" "kind \<noteq> ?k" for t key kind e
    using that event_row_prefix [OF M k] by (simp add: has_row_remove_prefix)
  have acc: "accepted s' = accepted s" "discarded s' = discarded s @ filter (\<lambda>(kind, _). kind = ?k) (accepted s)"
    by (simp_all add: s'_def cleanup_events_def)
  have "\<forall>(kind, e, key) \<in> set (accepted s'). M key = Some (kind, e) \<and>
      (has_row (servernameevent_data (sdb s')) key \<or> has_row (servercurrentevent_data (sdb s')) key
       \<or> (kind, e, key) \<in> set (discarded s')
       \<or> (\<exists>x \<in> set (finished s'). fst x = kind \<and> e \<in> set (fst (snd x))))"
    using d rest durableD(4,5) [OF d] unfolding acc tables durable_def by fastforce
  then have "durable R M s'"
    using d durableD(2,3) [OF d] keys unfolding durable_def
    by (auto simp: tables rows_of_remove_prefix)
  moreover have "covers R M (servercurrentevent_data (sdb s')) x" if "covers R M ?a x" for x
    using that by (auto simp: covers_def keys)
  then have "volatile R M s'" using v by (simp add: volatile_def keys) (simp add: tables)
  ultimately show ?thesis ..
qed

lemma others_inv:
  assumes d: "durable R M s" and v: "volatile R M s"
    and "servernameevent_data db = servernameevent_data (sdb s)"
    and "servercurrentevent_data db = servercurrentevent_data (sdb s)"
    and "kv_wf (global db)" "count_of (sdb s) \<le> count_of db"
  shows "durable R M (s\<lparr>sdb := db\<rparr>) \<and> volatile R M (s\<lparr>sdb := db\<rparr>)"
proof -
  have "filed_ok R (count_of db) M"
    using durableD(1) [OF d] assms(6) by (auto simp: filed_ok_def intro: event_row_mono)
  then show ?thesis using assms by (simp add: durable_def volatile_def)
qed

definition sender_inv :: "ruma \<Rightarrow> 'a sending_db_scheme history \<Rightarrow> bool" where
  "sender_inv R s \<longleftrightarrow> (\<exists>M. durable R M s \<and> volatile R M s)"

lemma sender_step_inv:
  assumes "sender_step E s s'" "sender_inv (sn_ruma E) s"
  shows "sender_inv (sn_ruma E) s'"
proof -
  from assms(2) obtain M where M: "durable (sn_ruma E) M s" "volatile (sn_ruma E) M s" by (auto simp: sender_inv_def)
  from assms(1) show ?thesis
  proof cases
    case (client requests keys s1)
    then show ?thesis using client_inv [OF M client(2,3,4,5)] by (simp add: sender_inv_def)
  next
    case (cleanup app)
    then show ?thesis using cleanup_inv [OF M cleanup(2)] by (auto simp: sender_inv_def)
  next
    case (receive msg msgs now)
    obtain kind e key where m: "msg = (kind, e, key)" by (cases msg)
    show ?thesis using on_receive_inv [OF M refl receive [unfolded m]] by (auto simp: sender_inv_def)
  next
    case (panic msg msgs now e s1)
    obtain kind x key where m: "msg = (kind, x, key)" by (cases msg)
    have "durable (sn_ruma E) M s1" using on_receive_inv [OF M refl panic(2,3) [unfolded m]] by blast
    then show ?thesis using handler_start_inv panic(1) by (auto simp: sender_inv_def)
  next
    case (success before kind es after net srv db sent)
    then show ?thesis using on_success_inv [OF M success(2)] by (auto simp: sender_inv_def)
  next
    case (failure before kind es after net srv db e sent now)
    then show ?thesis using on_failure_inv [OF M failure(2)] by (auto simp: sender_inv_def)
  next
    case crash
    then show ?thesis using handler_start_inv [OF M(1)] by (auto simp: sender_inv_def)
  next
    case restart
    then show ?thesis using handler_start_inv [OF M(1)] by (auto simp: sender_inv_def)
  next
    case (others db)
    then show ?thesis using others_inv [OF M] by (auto simp: sender_inv_def)
  qed
qed

lemma sender_reachable_inv: "sender_reachable E s \<Longrightarrow> sender_inv (sn_ruma E) s"
proof (induction rule: sender_reachable.induct)
  case (start s)
  have "durable (sn_ruma E) Map.empty (s\<lparr>channel := []\<rparr>)"
    using start by (simp add: durable_def filed_ok_def rows_of_def kind_keys_def)
  then have "durable (sn_ruma E) Map.empty (handler_start (sn_ruma E) (s\<lparr>channel := []\<rparr>))
      \<and> volatile (sn_ruma E) Map.empty (handler_start (sn_ruma E) (s\<lparr>channel := []\<rparr>))"
    by (rule handler_start_inv)
  moreover have "handler_start (sn_ruma E) (s\<lparr>channel := []\<rparr>) = handler_start (sn_ruma E) s"
    by (simp add: handler_start_def)
  ultimately show ?case by (auto simp: sender_inv_def)
qed (rule sender_step_inv)

text \<open>Every finished request ended as \<open>handle_events\<close> says, and only application services are cleaned up.\<close>

lemma on_receive_history:
  "on_receive E now msg s = (r, s') \<Longrightarrow> finished s' = finished s \<and> discarded s' = discarded s"
  by (auto simp: on_receive_def select_events_def split: prod.splits sum.splits option.splits error.splits admission.splits)

lemma history_simps [simp]:
  "finished (on_success R kind s) = finished s" "discarded (on_success R kind s) = discarded s"
  "finished (on_failure now kind s) = finished s" "discarded (on_failure now kind s) = discarded s"
  "finished (handler_start R s) = finished s" "discarded (handler_start R s) = discarded s"
  "finished (cleanup_events app s) = finished s"
  by (simp_all add: on_success_def on_failure_def handler_start_def cleanup_events_def Let_def split: prod.splits)

lemma send_requests_history:
  "send_requests requests s = (r, s') \<Longrightarrow> finished s' = finished s \<and> discarded s' = discarded s"
  by (auto simp: send_requests_def split: prod.splits sum.splits)

definition history_ok :: "sender_env \<Rightarrow> 'a sending_db_scheme history \<Rightarrow> bool" where
  "history_ok E s \<longleftrightarrow>
     (\<forall>(kind, es, db, srv, sent) \<in> set (finished s). \<exists>net. handle_events (sn_delivery E) net srv kind es db = (Ok kind, sent))
   \<and> (\<forall>(kind, _) \<in> set (discarded s). \<exists>app. kind = ToAppservice app)"

lemma sender_reachable_history: "sender_reachable E s \<Longrightarrow> history_ok E s"
proof (induction rule: sender_reachable.induct)
  case (step s s')
  from step(2,3) show ?case
  proof cases
    case (success before kind es after net srv db sent)
    then show ?thesis using step.IH by (auto simp: history_ok_def)
  qed (use step.IH in \<open>auto simp: history_ok_def dest!: on_receive_history send_requests_history\<close>)
qed (simp add: history_ok_def)

section \<open>Sample run\<close>

definition empty_sending_db :: sending_db where
  "empty_sending_db = edus_db.extend empty_edus_db
     \<lparr>servernameevent_data = [], servercurrentevent_data = [], servername_educount = []\<rparr>"

definition sample_delivery :: delivery_env where
  "sample_delivery = \<lparr>dl_env = sample_env,
     dl_codec = \<lparr>pdu_dec = (\<lambda>_. Some sample_pdu), json_dec = (\<lambda>_. Some []), pdu_opt_dec = (\<lambda>_. None),
       json_opt_dec = (\<lambda>_. None), json_enc = (\<lambda>_. []), unsigned_dec = (\<lambda>_. None), unsigned_enc = (\<lambda>_. [])\<rparr>,
     dl_users = text_users_codec,
     dl_pushers = \<lparr>pushkey_of = pusher_pushkey, pusher_enc = pusher_pushkey, pusher_dec = (\<lambda>_. None)\<rparr>,
     to_raw_value = (\<lambda>kvs. concat (map fst kvs)), edu_raw = Some, base64_url = id, push_rules_dec = Some,
     server_default = (\<lambda>u. u), ruleset_actions = (\<lambda>_ _ _ _ _ _. [NotifyAction]), localpart_of = tl,
     power_levels_dec = Some, create_version = (\<lambda>_. Some (ascii ''11'')), version_rules = Some,
     create_creators = (\<lambda>_ pdu. Some [pdu_sender pdu]), room_power_levels = (\<lambda>_ rules _. rules), room_name_dec = Some\<rparr>"

definition sample_sender :: sender_env where
  "sample_sender = \<lparr>sn_ruma = accept_all, sn_codec = text_edu_codec, sn_server_name = ascii ''h'',
     ephemeral_dec = (\<lambda>_. None), edu_enc = (\<lambda>_. ascii ''{}''), hash_order = (\<lambda>xs. xs), sn_delivery = sample_delivery\<rparr>"

definition idle_sender :: "sending_db history" where
  "idle_sender = \<lparr>sdb = empty_sending_db, status = Map.empty, in_flight = [], channel = [], accepted = [], discarded = [], finished = []\<rparr>"

text \<open>The idle task after a client has queued one PDU for one server.\<close>

definition sample_key :: bytes where
  "sample_key = get_prefix (ToServer (ascii ''m'')) @ [1]"

definition queued_sender :: "sending_db history" where
  "queued_sender = idle_sender\<lparr>
     sdb := empty_sending_db\<lparr>servernameevent_data := [(sample_key, [])]\<rparr>,
     channel := [(ToServer (ascii ''m''), SendPdu [1], sample_key)],
     accepted := [(ToServer (ascii ''m''), SendPdu [1], sample_key)]\<rparr>"

lemma empty_sending_tables: "servernameevent_data empty_sending_db = []" "servercurrentevent_data empty_sending_db = []"
  "global empty_sending_db = []"
  using empty_edus_global by (simp_all add: empty_sending_db_def edus_db.defs)

lemma idle_sender_reachable: "sender_reachable sample_sender idle_sender"
proof -
  have "handler_start (sn_ruma sample_sender) idle_sender = idle_sender"
    by (simp add: handler_start_def active_requests_def kv_iter_def idle_sender_def empty_sending_tables oks_def List.map_filter_def)
  moreover have "sender_reachable sample_sender (handler_start (sn_ruma sample_sender) idle_sender)"
    by (rule sender_reachable.start) (simp_all add: idle_sender_def empty_sending_tables)
  ultimately show ?thesis by simp
qed

lemma queued_sender_reachable: "sender_reachable sample_sender queued_sender"
proof -
  let ?r = "[(ToServer (ascii ''m''), SendPdu [1])]"
  have "valid_kind accept_all (ToServer (ascii ''m''))" by (simp add: accept_all_def ascii_def)
  moreover have q: "queue_requests ?r empty_sending_db =
      (Ok [sample_key], empty_sending_db\<lparr>servernameevent_data := [(sample_key, [])]\<rparr>)"
    by (simp add: queue_requests_def sample_key_def empty_sending_tables kv_insert_batch_def)
  moreover have "send_requests ?r idle_sender =
      (Ok (), idle_sender\<lparr>sdb := empty_sending_db\<lparr>servernameevent_data := [(sample_key, [])]\<rparr>,
         channel := [(ToServer (ascii ''m''), SendPdu [1], sample_key)]\<rparr>)"
    using q by (simp add: send_requests_def idle_sender_def)
  moreover have "count_of empty_sending_db = 0" by (simp add: count_of_def empty_sending_tables)
  ultimately have "sender_step sample_sender idle_sender
     ((idle_sender\<lparr>sdb := empty_sending_db\<lparr>servernameevent_data := [(sample_key, [])]\<rparr>,
         channel := [(ToServer (ascii ''m''), SendPdu [1], sample_key)]\<rparr>)
      \<lparr>accepted := accepted idle_sender @ map (\<lambda>((kind, event), key). (kind, event, key)) (zip ?r [sample_key])\<rparr>)"
    by (intro sender_step.client) (simp_all add: sample_sender_def idle_sender_def)
  then have "sender_step sample_sender idle_sender queued_sender"
    by (simp add: queued_sender_def idle_sender_def)
  then show ?thesis using idle_sender_reachable sender_reachable.step by blast
qed

text \<open>The event is received, sent with a transaction that the server accepts, and forgotten.\<close>

definition received_sender :: "sending_db history" where
  "received_sender = queued_sender\<lparr>channel := [], status := [ToServer (ascii ''m'') \<mapsto> Running],
     sdb := empty_sending_db\<lparr>servercurrentevent_data := [(sample_key, [])],
       servername_educount := [(ascii ''m'', to_be_bytes 0)]\<rparr>,
     in_flight := [(ToServer (ascii ''m''), [SendPdu [1]])]\<rparr>"

definition sample_timeline :: sending_db where
  "sample_timeline = empty_sending_db\<lparr>pduid_pdu := [([1], [])]\<rparr>"

definition sample_exchange :: exchange where
  "sample_exchange = ServerTransaction (ascii ''m'') (txn_id sample_delivery [SendPdu [1]]) [([1], [])] []"

definition sent_sender :: "sending_db history" where
  "sent_sender = on_success accept_all (ToServer (ascii ''m'')) (received_sender\<lparr>in_flight := [],
     finished := [(ToServer (ascii ''m''), [SendPdu [1]], sample_timeline, empty_services_db, [(sample_exchange, Ok ())])]\<rparr>)"

lemma received_sender_reachable: "sender_reachable sample_sender received_sender"
proof -
  have t: "serverroomids empty_sending_db = []" "servername_educount empty_sending_db = []"
    by (simp_all add: empty_sending_db_def edus_db.defs empty_edus_db_def accountdata_db.defs empty_accountdata_db_def
        users_db.defs empty_users_db_def statecache_db.defs empty_statecache_db_def accounts_db.defs)
  have "on_receive sample_sender 0 (ToServer (ascii ''m''), SendPdu [1], sample_key) (queued_sender\<lparr>channel := []\<rparr>)
      = (Ok (), received_sender)"
    by (simp add: on_receive_def select_events_def admit_def add_edus_def select_edus_def get_latest_educount_def
        server_rooms_def kv_scan_prefix_def kv_iter_from_def set_latest_educount_def queued_sender_def idle_sender_def
        received_sender_def empty_sending_tables t kv_remove_def sample_sender_def)
  then have "sender_step sample_sender queued_sender received_sender"
    by (intro sender_step.receive) (simp_all add: queued_sender_def)
  then show ?thesis using queued_sender_reachable sender_reachable.step by blast
qed

lemma sent_sender_reachable: "sender_reachable sample_sender sent_sender"
proof -
  have "handle_events sample_delivery (\<lambda>_. Ok ()) empty_services_db (ToServer (ascii ''m'')) [SendPdu [1]] sample_timeline
      = (Ok (ToServer (ascii ''m'')), [(sample_exchange, Ok ())])"
    by (simp add: handle_events_def transmit_def sample_exchange_def get_pdu_json_from_id_def sample_timeline_def kv_get_def
        sample_delivery_def convert_to_outgoing_federation_event_def)
  then have "sender_step sample_sender received_sender
     (on_success (sn_ruma sample_sender) (ToServer (ascii ''m'')) (received_sender\<lparr>in_flight := [] @ [],
        finished := finished received_sender @ [(ToServer (ascii ''m''), [SendPdu [1]], sample_timeline, empty_services_db,
          [(sample_exchange, Ok ())])]\<rparr>))"
    by (intro sender_step.success [where net = "\<lambda>_. Ok ()"]) (simp_all add: received_sender_def sample_sender_def)
  then have "sender_step sample_sender received_sender sent_sender"
    by (simp add: sent_sender_def sample_sender_def received_sender_def queued_sender_def idle_sender_def)
  then show ?thesis using received_sender_reachable sender_reachable.step by blast
qed

lemma sent_sender_tables:
  "kv_get (servernameevent_data (sdb sent_sender)) sample_key = None"
  "kv_get (servercurrentevent_data (sdb sent_sender)) sample_key = None"
  "discarded sent_sender = []"
  by (simp_all add: sent_sender_def on_success_def Let_def delete_all_active_requests_for_def received_sender_def
      queued_sender_def idle_sender_def empty_sending_tables queued_requests_def kv_scan_prefix_def kv_iter_from_def
      kv_remove_prefix_def kv_remove_keys_def kv_remove_def sample_key_def oks_def List.map_filter_def)

section \<open>Properties\<close>

text \<open>
  C7: no accepted event is lost on the way to a server or an application service. In every state the sender can reach,
  through failures, panics and restarts, an event that a client queued is still in the queue; or
  is in the active table; or was discarded because its application service was removed; or was in a request that
  ended with success and is accounted for: a transaction to its destination with this event, as stored in the
  timeline, was answered with success (or the service has no URL, or an EDU is not JSON). For push gateways the last
  case only says that a request with the event has ended: their answers are ignored.
\<close>

theorem queued_event_not_lost:
  assumes "sender_reachable E s" "(kind, e, key) \<in> set (accepted s)"
  shows "kv_get (servernameevent_data (sdb s)) key = Some (event_value e)
    \<or> kv_get (servercurrentevent_data (sdb s)) key = Some (event_value e)
    \<or> (\<exists>app. kind = ToAppservice app \<and> (kind, e, key) \<in> set (discarded s))
    \<or> (\<exists>es db srv sent. (kind, es, db, srv, sent) \<in> set (finished s) \<and> e \<in> set es
         \<and> accounted (sn_delivery E) srv db sent kind e)"
proof -
  obtain M where d: "durable (sn_ruma E) M s" using sender_reachable_inv [OF assms(1)] by (auto simp: sender_inv_def)
  have M: "M key = Some (kind, e)" using d assms(2) by (auto simp: durable_def)
  have row: "kv_get t key = Some (event_value e)" if "rows_of M t" "has_row t key" for t
    using that M unfolding rows_of_def has_row_Some by fastforce
  have h: "history_ok E s" by (rule sender_reachable_history [OF assms(1)])
  have fin: "accounted (sn_delivery E) srv db sent kind e"
    if "(kind, es, db, srv, sent) \<in> set (finished s)" "e \<in> set es" for es db srv sent
    using h that by (auto simp: history_ok_def intro: handle_events_accounts)
  have dis: "\<exists>app. kind = ToAppservice app" if "(kind, e, key) \<in> set (discarded s)"
    using h that by (auto simp: history_ok_def)
  have "has_row (servernameevent_data (sdb s)) key \<or> has_row (servercurrentevent_data (sdb s)) key
      \<or> (kind, e, key) \<in> set (discarded s) \<or> (\<exists>x \<in> set (finished s). fst x = kind \<and> e \<in> set (fst (snd x)))"
    using d assms(2) unfolding durable_def by blast
  then show ?thesis using row durableD(2,3) [OF d] fin dis by (metis prod.collapse)
qed

theorem queued_event_not_lost_witness:
  "\<exists>txn pdus edus sent. (ServerTransaction (ascii ''m'') txn pdus edus, Ok ()) \<in> set sent \<and> [1] \<in> fst ` set pdus
     \<and> sent \<in> (\<lambda>(_, _, _, _, sent). sent) ` set (finished sent_sender)"
proof -
  have "(ToServer (ascii ''m''), SendPdu [1], sample_key) \<in> set (accepted sent_sender)"
    by (simp add: sent_sender_def on_success_def Let_def received_sender_def queued_sender_def)
  from queued_event_not_lost [OF sent_sender_reachable this] sent_sender_tables show ?thesis by force
qed

text \<open>
  C8: at most one request per destination is under way, exactly while the destination is marked as
  running or retrying; it carries every active event of the destination, and there are at most thirty
  of these, so the cut of a long list at the start of the task never drops an event.
\<close>

theorem one_request_per_destination:
  assumes "sender_reachable E s"
  shows "distinct (map fst (in_flight s))
    \<and> (kind \<in> fst ` set (in_flight s) \<longleftrightarrow> busy (status s kind))
    \<and> (valid_kind (sn_ruma E) kind \<longrightarrow>
         length (oks (active_requests_for (sn_ruma E) kind (sdb s))) \<le> 30
         \<and> (\<forall>es. (kind, es) \<in> set (in_flight s) \<longrightarrow>
              snd ` set (oks (active_requests_for (sn_ruma E) kind (sdb s))) \<subseteq> set es))"
proof -
  let ?R = "sn_ruma E" and ?a = "servercurrentevent_data (sdb s)"
  obtain M where d: "durable ?R M s" and v: "volatile ?R M s"
    using sender_reachable_inv [OF assms] by (auto simp: sender_inv_def)
  have len: "length (oks (active_requests_for ?R kind (sdb s))) \<le> 30" if k: "valid_kind ?R kind"
  proof -
    note fk = durableD(1,3) [OF d] k
    have "length (oks (active_requests_for ?R kind (sdb s))) = length (map fst (kv_scan_prefix ?a (get_prefix kind)))"
      unfolding active_requests_for_def oks_scan_kind [OF fk] by simp
    also have "\<dots> = card (fst ` set (kv_scan_prefix ?a (get_prefix kind)))"
      using distinct_card [of "map fst (kv_scan_prefix ?a (get_prefix kind))"]
        kv_scan_prefix_sorted [OF durableD(4) [OF d], of "get_prefix kind"]
      by (simp add: strict_sorted_iff)
    also have "fst ` set (kv_scan_prefix ?a (get_prefix kind)) = kind_keys M kind ?a"
      using scan_kind_keys [OF fk] by (force simp: kind_keys_def image_iff)
    also have "card (kind_keys M kind ?a) \<le> 30" using d by (simp add: durable_def)
    finally show ?thesis .
  qed
  have "snd ` set (oks (active_requests_for ?R kind (sdb s))) \<subseteq> set es"
    if "valid_kind ?R kind" "(kind, es) \<in> set (in_flight s)" for es
  proof -
    have "covers ?R M ?a (kind, es)" using v that(2) by (auto simp: volatile_def)
    then show ?thesis using active_requests_for_filed [OF durableD(1,3) [OF d] that(1)]
      by (force simp: covers_def kind_keys_def)
  qed
  then show ?thesis using v len by (auto simp: volatile_def)
qed

theorem one_request_per_destination_witness:
  "busy (status received_sender (ToServer (ascii ''m'')))
   \<and> snd ` set (oks (active_requests_for accept_all (ToServer (ascii ''m'')) (sdb received_sender))) \<subseteq> {SendPdu [1]}
   \<and> length (oks (active_requests_for accept_all (ToServer (ascii ''m'')) (sdb received_sender))) \<le> 30"
proof -
  have "valid_kind (sn_ruma sample_sender) (ToServer (ascii ''m''))"
    by (simp add: sample_sender_def accept_all_def ascii_def)
  moreover have "in_flight received_sender = [(ToServer (ascii ''m''), [SendPdu [1]])]" by (simp add: received_sender_def)
  ultimately show ?thesis
    using one_request_per_destination [OF received_sender_reachable, of "ToServer (ascii ''m'')"]
    by (simp add: sample_sender_def)
qed

text \<open>
  A destination that failed is left alone for thirty seconds times the square of its failures, at
  most a day, and the product cannot overflow before half a billion failures; after that time the next
  event makes it retry.
\<close>

theorem retry_backoff:
  assumes "st kind = Some (Failed tries time)" "unat tries < 2 ^ 29"
  shows "admit now kind st = Ok
    (if now - time < min (30 * (unat tries)\<^sup>2) 86400 * 10 ^ 9 then (Refused, st)
     else (AdmitRetry, st(kind \<mapsto> Retrying tries)))"
proof -
  have "unat tries * unat tries \<le> 2 ^ 29 * 2 ^ 29" using assms(2) by (intro mult_le_mono) simp_all
  then have b: "30 * unat tries * unat tries < 2 ^ 64" by simp
  moreover have "30 * unat tries < 2 ^ 64" using assms(2) by simp
  ultimately have "min_elapsed_duration tries = Ok (min (30 * (unat tries)\<^sup>2) 86400)"
    by (auto simp: min_elapsed_duration_def duration_mul_def power2_eq_square min_def)
  then show ?thesis using assms(1) by (simp add: admit_def)
qed

theorem retry_backoff_witness:
  "admit (60 * 10 ^ 9) (ToServer []) [ToServer [] \<mapsto> Failed 2 0] = Ok (Refused, [ToServer [] \<mapsto> Failed 2 0])"
  using retry_backoff [of "[ToServer [] \<mapsto> Failed 2 0]" "ToServer []" 2 0 "60 * 10 ^ 9"] by simp

text \<open>
  A queued request is read back as it was filed: the key gives the destination, and key and value
  together the event, for each of the three kinds of destination.
\<close>

theorem request_key_round_trip:
  assumes "valid_kind R kind" "sendable e"
  shows "case queue_requests [(kind, e)] db of (r, db') \<Rightarrow>
    (\<exists>key. r = Ok [key] \<and> (kv_wf (servernameevent_data db) \<longrightarrow>
       (\<exists>v. kv_get (servernameevent_data db') key = Some v \<and> parse_servercurrentevent R key v = Ok (kind, e))))"
proof -
  obtain key db0 where k: "request_rows [(kind, e)] db = (Ok [(key, event_value e)], db0)"
    "event_row R (count_of db + 1) kind e key" "servernameevent_data db0 = servernameevent_data db"
    using assms by (cases e) (auto simp: next_count_eq event_row_def)
  then show ?thesis using parse_event_row [OF k(2)]
    by (auto simp: queue_requests_def kv_insert_batch_def kv_simps)
qed

theorem request_key_round_trip_witness:
  "case queue_requests [(ToServer (ascii ''m''), SendPdu [1])] empty_sending_db of (r, db') \<Rightarrow>
    (\<exists>key. r = Ok [key] \<and> (\<exists>v. kv_get (servernameevent_data db') key = Some v
       \<and> parse_servercurrentevent accept_all key v = Ok (ToServer (ascii ''m''), SendPdu [1])))"
proof -
  have "valid_kind accept_all (ToServer (ascii ''m''))" "sendable (SendPdu [1])"
    by (simp_all add: accept_all_def ascii_def)
  from request_key_round_trip [OF this, of empty_sending_db] show ?thesis
    by (auto simp: empty_sending_tables split: prod.splits)
qed

end
