(* ===== verification/RoomRoutes.thy ===== *)
theory RoomRoutes
  imports RoomMeta
begin

text \<open>
  The client handlers of \<open>api/client_server\<close> that only touch what a user keeps about their rooms:
  read markers and receipts (\<open>read_marker.rs\<close>), typing notices (\<open>typing.rs\<close>), presence
  (\<open>presence.rs\<close>), room tags (\<open>tag.rs\<close>), account data (\<open>config.rs\<close>), filters (\<open>filter.rs\<close>) and
  OpenID tokens (\<open>openid.rs\<close>). A handler takes the authenticated user, the fields of its request and
  the database. The current time and random identifiers are arguments, \<open>serde_json\<close> at the
  types of ruma a record of functions.
\<close>

section \<open>Read markers\<close>

definition FullyRead :: str where
  "FullyRead = ascii ''m.fully_read''"

record read_marker_request =
  rm_fully_read :: "str option"
  rm_private_read_receipt :: "str option"
  rm_read_receipt :: "str option"

text \<open>
  What both handlers do for each of the three kinds of marker; \<open>fully_read_value\<close> is the JSON value of a
  ruma \<open>FullyReadEvent\<close>.
\<close>

definition mark_fully_read ::
  "users_codec \<Rightarrow> (str \<Rightarrow> json) \<Rightarrow> str \<Rightarrow> str \<Rightarrow> str \<Rightarrow> 'a rooms_db_scheme \<Rightarrow> unit result \<times> 'a rooms_db_scheme" where
  "mark_fully_read K fully_read_value sender_user room_id event_id db =
     account_data_update K (Some room_id) sender_user FullyRead (fully_read_value event_id) db"

definition mark_private_read ::
  "str \<Rightarrow> str \<Rightarrow> str \<Rightarrow> 'a rooms_db_scheme \<Rightarrow> unit result \<times> 'a rooms_db_scheme" where
  "mark_private_read sender_user room_id event_id db =
     step_then (get_pdu_count event_id db, db) (\<lambda>count db.
     step_then (ok_or (BadRequest InvalidParam ''Event does not exist.'') count, db) (\<lambda>count db.
       case count of
         Backfilled _ \<Rightarrow> (Err (BadRequest InvalidParam ''Read receipt is in backfilled timeline''), db)
       | Normal c \<Rightarrow> private_read_set room_id sender_user c db))"

definition mark_read ::
  "edu_codec \<Rightarrow> u64 \<Rightarrow> str \<Rightarrow> str \<Rightarrow> str \<Rightarrow> 'a rooms_db_scheme \<Rightarrow> unit result \<times> 'a rooms_db_scheme" where
  "mark_read E now sender_user room_id event_id db =
     (let user_receipts = [(sender_user, \<lparr>receipt_ts = Some now, receipt_thread = Unthreaded\<rparr>)];
          receipts = [(ReadReceipt, user_receipts)];
          receipt_content = [(event_id, receipts)]
      in readreceipt_update E sender_user room_id \<lparr>re_content = receipt_content, re_room_id = room_id\<rparr> db)"

definition if_some :: "'b option \<Rightarrow> ('b \<Rightarrow> 's \<Rightarrow> unit result \<times> 's) \<Rightarrow> 's \<Rightarrow> unit result \<times> 's" where
  "if_some x f db = (case x of Some b \<Rightarrow> f b db | None \<Rightarrow> (Ok (), db))"

definition set_read_marker_route ::
  "users_codec \<Rightarrow> edu_codec \<Rightarrow> (str \<Rightarrow> json) \<Rightarrow> u64 \<Rightarrow> str \<Rightarrow> str \<Rightarrow> read_marker_request
     \<Rightarrow> 'a rooms_db_scheme \<Rightarrow> unit result \<times> 'a rooms_db_scheme" where
  "set_read_marker_route K E fully_read_value now sender_user room_id body db =
     step_then (if_some (rm_fully_read body) (mark_fully_read K fully_read_value sender_user room_id) db) (\<lambda>_ db.
     step_then (if rm_private_read_receipt body \<noteq> None \<or> rm_read_receipt body \<noteq> None
                then reset_notification_counts sender_user room_id db else (Ok (), db)) (\<lambda>_ db.
     step_then (if_some (rm_private_read_receipt body) (mark_private_read sender_user room_id) db) (\<lambda>_ db.
     if_some (rm_read_receipt body) (mark_read E now sender_user room_id) db)))"

definition create_receipt_route ::
  "users_codec \<Rightarrow> edu_codec \<Rightarrow> (str \<Rightarrow> json) \<Rightarrow> u64 \<Rightarrow> str \<Rightarrow> str \<Rightarrow> receipt_type \<Rightarrow> str
     \<Rightarrow> 'a rooms_db_scheme \<Rightarrow> unit result \<times> 'a rooms_db_scheme" where
  "create_receipt_route K E fully_read_value now sender_user room_id receipt_type event_id db =
     step_then (if receipt_type = ReadReceipt \<or> receipt_type = ReadPrivateReceipt
                then reset_notification_counts sender_user room_id db else (Ok (), db)) (\<lambda>_ db.
     case receipt_type of
       FullyReadReceipt \<Rightarrow> mark_fully_read K fully_read_value sender_user room_id event_id db
     | ReadReceipt \<Rightarrow> mark_read E now sender_user room_id event_id db
     | ReadPrivateReceipt \<Rightarrow> mark_private_read sender_user room_id event_id db
     | OtherReceipt _ \<Rightarrow> (Err (BadDatabase ''Unsupported receipt type''), db))"

section \<open>Typing\<close>

text \<open>The \<open>Typing\<close> of the request, with its duration in milliseconds.\<close>

datatype typing_state = TypingYes u64 | TypingNo

definition create_typing_event_route ::
  "u64 \<Rightarrow> str \<Rightarrow> str \<Rightarrow> typing_state \<Rightarrow> 'a rooms_db_scheme \<Rightarrow> unit result \<times> 'a rooms_db_scheme" where
  "create_typing_event_route now sender_user room_id state db =
     step_then (is_joined sender_user room_id db, db) (\<lambda>joined db.
       if \<not> joined then (Err (BadRequest Forbidden ''You are not in this room.''), db)
       else case state of
         TypingYes duration \<Rightarrow> typing_add sender_user room_id (duration + now) db
       | TypingNo \<Rightarrow> typing_remove sender_user room_id db)"

section \<open>Presence\<close>

text \<open>
  \<open>pack\<close> packs the parts of the presence content that the model keeps as bytes: avatar, display name
  and status message.
\<close>

fun presence_for_rooms ::
  "(str option \<Rightarrow> str option \<Rightarrow> bytes) \<Rightarrow> u64 \<Rightarrow> presence_state \<Rightarrow> str \<Rightarrow> str result list
     \<Rightarrow> 'a rooms_db_scheme \<Rightarrow> unit result \<times> 'a rooms_db_scheme" where
  "presence_for_rooms pack now presence sender_user [] db = (Ok (), db)"
| "presence_for_rooms pack now presence sender_user (room_id # rooms) db =
     step_then (room_id, db) (\<lambda>room_id db.
     step_then (avatar_url sender_user db, db) (\<lambda>avatar db.
     step_then (displayname sender_user db, db) (\<lambda>name db.
     step_then (update_presence sender_user room_id
         \<lparr>pr_sender = sender_user, pr_presence = presence, pr_last_active_ago = Some now,
          pr_other_fields = pack avatar name\<rparr> db) (\<lambda>_ db.
       presence_for_rooms pack now presence sender_user rooms db))))"

definition set_presence_route ::
  "ruma \<Rightarrow> (str option \<Rightarrow> str option \<Rightarrow> bytes) \<Rightarrow> u64 \<Rightarrow> presence_state \<Rightarrow> str
     \<Rightarrow> 'a rooms_db_scheme \<Rightarrow> unit result \<times> 'a rooms_db_scheme" where
  "set_presence_route R pack now presence sender_user db =
     presence_for_rooms pack now presence sender_user (rooms_joined R sender_user db) db"

text \<open>The loop with its \<open>break\<close>. The event looked up is that of the sender, not of the user asked for.\<close>

fun first_presence :: "str \<Rightarrow> str result list \<Rightarrow> 'a rooms_db_scheme \<Rightarrow> presence_event option result" where
  "first_presence user [] db = Ok None"
| "first_presence user (room_id # rooms) db =
     and_then room_id (\<lambda>room_id.
     and_then (get_last_presence_event user room_id db) (\<lambda>found.
       case found of Some presence \<Rightarrow> Ok (Some presence) | None \<Rightarrow> first_presence user rooms db))"

definition get_presence_route :: "ruma \<Rightarrow> str \<Rightarrow> str \<Rightarrow> 'a rooms_db_scheme \<Rightarrow> presence_event result" where
  "get_presence_route R sender_user user_id db =
     and_then (get_shared_rooms R [sender_user, user_id] db) (\<lambda>rooms.
     and_then (first_presence sender_user rooms db) (\<lambda>presence_event.
       case presence_event of
         Some presence \<Rightarrow> Ok presence
       | None \<Rightarrow> Err (BadRequest NotFound ''Presence state for this user was not found'')))"

section \<open>Tags\<close>

text \<open>A ruma \<open>TagEvent\<close>, by its map of tags, to and from JSON.\<close>

record 'i tag_codec =
  tag_value :: "(str \<rightharpoonup> 'i) \<Rightarrow> json"
  tag_dec :: "bytes \<Rightarrow> (str \<rightharpoonup> 'i) option"

definition Tag :: str where
  "Tag = ascii ''m.tag''"

definition stored_tags ::
  "users_codec \<Rightarrow> 'i tag_codec \<Rightarrow> str \<Rightarrow> str \<Rightarrow> 'a rooms_db_scheme \<Rightarrow> (str \<rightharpoonup> 'i) result" where
  "stored_tags K T sender_user room_id db =
     and_then (account_data_get K (Some room_id) sender_user Tag db) (\<lambda>event.
       case event of
         Some e \<Rightarrow> ok_or (BadDatabase ''Invalid account data event in db.'') (tag_dec T e)
       | None \<Rightarrow> Ok Map.empty)"

definition update_tag_route ::
  "users_codec \<Rightarrow> 'i tag_codec \<Rightarrow> str \<Rightarrow> str \<Rightarrow> str \<Rightarrow> 'i \<Rightarrow> 'a rooms_db_scheme \<Rightarrow> unit result \<times> 'a rooms_db_scheme" where
  "update_tag_route K T sender_user room_id tag tag_info db =
     step_then (stored_tags K T sender_user room_id db, db) (\<lambda>tags db.
       account_data_update K (Some room_id) sender_user Tag (tag_value T (tags(tag \<mapsto> tag_info))) db)"

definition delete_tag_route ::
  "users_codec \<Rightarrow> 'i tag_codec \<Rightarrow> str \<Rightarrow> str \<Rightarrow> str \<Rightarrow> 'a rooms_db_scheme \<Rightarrow> unit result \<times> 'a rooms_db_scheme" where
  "delete_tag_route K T sender_user room_id tag db =
     step_then (stored_tags K T sender_user room_id db, db) (\<lambda>tags db.
       account_data_update K (Some room_id) sender_user Tag (tag_value T (tags(tag := None))) db)"

definition get_tags_route ::
  "users_codec \<Rightarrow> 'i tag_codec \<Rightarrow> str \<Rightarrow> str \<Rightarrow> 'a rooms_db_scheme \<Rightarrow> (str \<rightharpoonup> 'i) result" where
  "get_tags_route K T sender_user room_id db = stored_tags K T sender_user room_id db"

section \<open>Account data\<close>

text \<open>\<open>content_of\<close> reads \<open>ExtractRoomEventContent\<close> or \<open>ExtractGlobalEventContent\<close> and returns the raw content.\<close>

definition set_global_account_data_route ::
  "users_codec \<Rightarrow> str \<Rightarrow> str \<Rightarrow> bytes \<Rightarrow> 'a rooms_db_scheme \<Rightarrow> unit result \<times> 'a rooms_db_scheme" where
  "set_global_account_data_route K sender_user event_type data db =
     step_then (ok_or (BadRequest BadJson ''Data is invalid.'') (value_dec K data), db) (\<lambda>data db.
       account_data_update K None sender_user event_type
         (JObject [(ascii ''type'', JString event_type), (ascii ''content'', data)]) db)"

definition set_room_account_data_route ::
  "users_codec \<Rightarrow> str \<Rightarrow> str \<Rightarrow> str \<Rightarrow> bytes \<Rightarrow> 'a rooms_db_scheme \<Rightarrow> unit result \<times> 'a rooms_db_scheme" where
  "set_room_account_data_route K sender_user room_id event_type data db =
     step_then (ok_or (BadRequest BadJson ''Data is invalid.'') (value_dec K data), db) (\<lambda>data db.
       account_data_update K (Some room_id) sender_user event_type
         (JObject [(ascii ''type'', JString event_type), (ascii ''content'', data)]) db)"

definition get_global_account_data_route ::
  "users_codec \<Rightarrow> (bytes \<Rightarrow> bytes option) \<Rightarrow> str \<Rightarrow> str \<Rightarrow> 'a rooms_db_scheme \<Rightarrow> bytes result" where
  "get_global_account_data_route K content_of sender_user event_type db =
     and_then (account_data_get K None sender_user event_type db) (\<lambda>event.
     and_then (ok_or (BadRequest NotFound ''Data not found.'') event) (\<lambda>event.
       ok_or (BadDatabase ''Invalid account data event in db.'') (content_of event)))"

definition get_room_account_data_route ::
  "users_codec \<Rightarrow> (bytes \<Rightarrow> bytes option) \<Rightarrow> str \<Rightarrow> str \<Rightarrow> str \<Rightarrow> 'a rooms_db_scheme \<Rightarrow> bytes result" where
  "get_room_account_data_route K content_of sender_user room_id event_type db =
     and_then (account_data_get K (Some room_id) sender_user event_type db) (\<lambda>event.
     and_then (ok_or (BadRequest NotFound ''Data not found.'') event) (\<lambda>event.
       ok_or (BadDatabase ''Invalid account data event in db.'') (content_of event)))"

section \<open>Filters and OpenID tokens\<close>

definition get_filter_route ::
  "(bytes \<Rightarrow> 'f option option) \<Rightarrow> str \<Rightarrow> str \<Rightarrow> 'a rooms_db_scheme \<Rightarrow> 'f result" where
  "get_filter_route from_slice sender_user filter_id db =
     and_then (get_filter from_slice sender_user filter_id db) (\<lambda>found.
       case found of Some filter' \<Rightarrow> Ok filter' | None \<Rightarrow> Err (BadRequest NotFound ''Filter not found.''))"

definition create_filter_route ::
  "('f \<Rightarrow> bytes) \<Rightarrow> str \<Rightarrow> str \<Rightarrow> 'f \<Rightarrow> 'a rooms_db_scheme \<Rightarrow> str result \<times> 'a rooms_db_scheme" where
  "create_filter_route to_vec filter_id sender_user filter' db =
     (case create_filter to_vec filter_id sender_user filter' db of (created, db) \<Rightarrow> (Ok created, db))"

text \<open>The request keeps the authenticated user beside the user of its path; the token type is always Bearer.\<close>

record openid_request =
  oid_sender_user :: "str option"
  oid_user_id :: str

record openid_response =
  oid_access_token :: str
  oid_matrix_server_name :: str
  oid_expires_in :: u64

definition create_openid_token_route ::
  "str \<Rightarrow> u64 \<Rightarrow> str \<Rightarrow> u64 \<Rightarrow> openid_request \<Rightarrow> 'a rooms_db_scheme \<Rightarrow> openid_response result \<times> 'a rooms_db_scheme" where
  "create_openid_token_route server_name openid_token_ttl token now body db =
     step_then (create_openid_token token openid_token_ttl now (oid_user_id body) db) (\<lambda>(access_token, expires_in) db.
       (Ok \<lparr>oid_access_token = access_token, oid_matrix_server_name = server_name, oid_expires_in = expires_in\<rparr>, db))"

section \<open>Properties\<close>

lemma no_rooms_tables:
  "global empty_rooms_db = []" "accountdata_inv empty_rooms_db" "openidtoken_expiresatuserid empty_rooms_db = []"
  "eventid_pduid empty_rooms_db = []" "userroomid_notificationcount empty_rooms_db = []"
  "userroomid_highlightcount empty_rooms_db = []" "roomuserid_privateread empty_rooms_db = []"
  "roomusertype_roomuserdataid empty_rooms_db = []"
  by (simp_all add: accountdata_inv_def empty_rooms_db_def search_db.defs empty_search_db_def edus_db.defs empty_edus_db_def
      accountdata_db.defs empty_accountdata_db_def users_db.defs empty_users_db_def statecache_db.defs
      empty_statecache_db_def accounts_db.defs empty_accounts_db_def timeline_db.defs empty_timeline_db_def
      state_db.defs empty_state_db_def short_db.defs empty_short_db_def)

text \<open>
  The two endpoints agree: setting exactly one marker with \<open>set_read_marker_route\<close> is posting the receipt of that
  type, in the answer and in every table.
\<close>

theorem read_marker_is_receipt:
  "set_read_marker_route K E F now u r \<lparr>rm_fully_read = Some e, rm_private_read_receipt = None, rm_read_receipt = None\<rparr> db
     = create_receipt_route K E F now u r FullyReadReceipt e db
   \<and> set_read_marker_route K E F now u r \<lparr>rm_fully_read = None, rm_private_read_receipt = Some e, rm_read_receipt = None\<rparr> db
     = create_receipt_route K E F now u r ReadPrivateReceipt e db
   \<and> set_read_marker_route K E F now u r \<lparr>rm_fully_read = None, rm_private_read_receipt = None, rm_read_receipt = Some e\<rparr> db
     = create_receipt_route K E F now u r ReadReceipt e db"
proof -
  have unit: "step_then p (\<lambda>_ db. (Ok (), db)) = p" for p :: "unit result \<times> 's"
    by (cases p; cases "fst p") (auto simp: step_then_def)
  show ?thesis by (simp add: set_read_marker_route_def create_receipt_route_def if_some_def unit)
qed

lemma reset_clears:
  assumes "kv_wf (userroomid_notificationcount db)" "kv_wf (userroomid_highlightcount db)"
  shows "\<exists>db'. reset_notification_counts u r db = (Ok (), db') \<and> notification_count u r db' = Ok 0
    \<and> highlight_count u r db' = Ok 0 \<and> eventid_pduid db' = eventid_pduid db
    \<and> roomuserid_privateread db' = roomuserid_privateread db"
  using assms by (simp add: reset_notification_counts_def Let_def get_room_and_user_byte_ids_def next_count_eq
      notification_count_def highlight_count_def count_in_def kv_simps)

lemma private_read_set_result:
  assumes "kv_wf (roomuserid_privateread db)"
  shows "\<exists>db'. private_read_set r u c db = (Ok (), db') \<and> private_read_get r u db' = Ok (Some c)
    \<and> notification_count u' r' db' = notification_count u' r' db \<and> highlight_count u' r' db' = highlight_count u' r' db"
  using assms by (simp add: private_read_set_def Let_def next_count_eq private_read_get_def notification_count_def
      highlight_count_def kv_simps)

text \<open>
  C39: a private read receipt clears both unread counters of the room and records the position of the event. A receipt
  for an event that is unknown or was backfilled is refused and leaves the marker, yet the counters are
  cleared all the same, because the handler resets them before it looks the event up.
\<close>

theorem private_receipt_outcome:
  assumes "kv_wf (userroomid_notificationcount db)" "kv_wf (userroomid_highlightcount db)"
    and "kv_wf (roomuserid_privateread db)" "get_pdu_count e db = Ok count"
  shows "\<exists>res db'. create_receipt_route K E F now u r ReadPrivateReceipt e db = (res, db')
    \<and> notification_count u r db' = Ok 0 \<and> highlight_count u r db' = Ok 0
    \<and> (case count of
         Some (Normal c) \<Rightarrow> res = Ok () \<and> private_read_get r u db' = Ok (Some c)
       | Some (Backfilled _) \<Rightarrow> res = Err (BadRequest InvalidParam ''Read receipt is in backfilled timeline'')
           \<and> private_read_get r u db' = private_read_get r u db
       | None \<Rightarrow> res = Err (BadRequest InvalidParam ''Event does not exist.'')
           \<and> private_read_get r u db' = private_read_get r u db)"
proof -
  obtain db1 where reset: "reset_notification_counts u r db = (Ok (), db1)" and
    clear: "notification_count u r db1 = Ok 0" "highlight_count u r db1 = Ok 0" and
    same: "eventid_pduid db1 = eventid_pduid db" "roomuserid_privateread db1 = roomuserid_privateread db"
    using reset_clears [OF assms(1,2)] by blast
  have count: "get_pdu_count e db1 = Ok count" using assms(4) by (simp add: get_pdu_count_def same)
  have keep: "private_read_get r u db1 = private_read_get r u db" by (simp add: private_read_get_def same)
  have run: "create_receipt_route K E F now u r ReadPrivateReceipt e db = mark_private_read u r e db1"
    by (simp add: create_receipt_route_def reset)
  show ?thesis
  proof (cases count)
    case None
    then show ?thesis by (simp add: run mark_private_read_def count clear keep)
  next
    case (Some p)
    show ?thesis
    proof (cases p)
      case (Backfilled b)
      then show ?thesis by (simp add: Some run mark_private_read_def count clear keep)
    next
      case (Normal c)
      have "kv_wf (roomuserid_privateread db1)" using assms(3) same by simp
      from private_read_set_result [OF this, of r u c u r] show ?thesis
        by (auto simp: Some Normal run mark_private_read_def count clear)
    qed
  qed
qed

theorem private_receipt_outcome_witness:
  "\<exists>db'. create_receipt_route text_users_codec text_edu_codec (\<lambda>_. JNull) 7 (ascii ''@a'') (ascii ''!r'') ReadPrivateReceipt (ascii ''$e'') empty_rooms_db
      = (Err (BadRequest InvalidParam ''Event does not exist.''), db')
    \<and> notification_count (ascii ''@a'') (ascii ''!r'') db' = Ok 0"
proof -
  have "get_pdu_count (ascii ''$e'') empty_rooms_db = Ok None"
    by (simp add: get_pdu_count_def no_rooms_tables)
  from private_receipt_outcome [OF _ _ _ this] show ?thesis
    by (fastforce simp: no_rooms_tables)
qed

text \<open>Only a member of the room changes who is typing in it.\<close>

lemma typing_needs_membership:
  "is_joined u r db = Ok False \<Longrightarrow>
     create_typing_event_route now u r s db = (Err (BadRequest Forbidden ''You are not in this room.''), db)"
  by (simp add: create_typing_event_route_def)

text \<open>Presence is disabled in the service, so asking for it never succeeds.\<close>

lemma first_presence_none: "first_presence u rooms db = Ok x \<Longrightarrow> x = None"
  by (induction rooms) (auto simp: get_last_presence_event_def and_then_eq_Inr)

lemma presence_never_found: "get_presence_route R u v db \<noteq> Ok p"
  by (auto simp: get_presence_route_def and_then_eq_Inr dest!: first_presence_none split: option.splits)

section \<open>Tags survive\<close>

definition tags_readable :: "users_codec \<Rightarrow> 'i tag_codec \<Rightarrow> (str \<rightharpoonup> 'i) \<Rightarrow> bool" where
  "tags_readable K T m \<longleftrightarrow> json_get (ascii ''type'') (tag_value T m) \<noteq> None
     \<and> json_get (ascii ''content'') (tag_value T m) \<noteq> None
     \<and> Option.bind (raw_dec K (value_enc K (tag_value T m))) (tag_dec T) = Some m"

lemma write_tags:
  assumes "accountdata_inv db" "kv_wf (global db)" "count_of db \<noteq> u64_max" "utf8 r" "utf8 u" "utf8 r'" "utf8 u'"
    and "tags_readable K T m"
  shows "\<exists>db'. account_data_update K (Some r) u Tag (tag_value T m) db = (Ok (), db')
    \<and> get_tags_route K T u r db' = Ok m
    \<and> ((r', u') \<noteq> (r, u) \<longrightarrow> get_tags_route K T u' r' db' = get_tags_route K T u' r' db)"
proof -
  obtain x where x: "raw_dec K (value_enc K (tag_value T m)) = Some x" "tag_dec T x = Some m"
    using assms(8) by (auto simp: tags_readable_def bind_eq_Some_conv)
  have "utf8 (room_of (Some r))" "utf8 (room_of (Some r'))" using assms(4,6) by (simp_all add: room_of_def)
  from account_data_round_trip [OF assms(1-3) this(1) assms(5) this(2) assms(7) x(1), of Tag Tag] show ?thesis
    using assms(8) by (auto simp: tags_readable_def get_tags_route_def stored_tags_def x(2) room_of_def)
qed

text \<open>
  C40: tagging a room adds the tag to those the user had there and removing it takes exactly that tag away; the tags of
  every other user and room stay.
\<close>

theorem tags_edit_exact:
  assumes "accountdata_inv db" "kv_wf (global db)" "count_of db \<noteq> u64_max" "utf8 r" "utf8 u" "utf8 r'" "utf8 u'"
    and "get_tags_route K T u r db = Ok tags" "(r', u') \<noteq> (r, u)"
    and "tags_readable K T (tags(tag \<mapsto> info))" "tags_readable K T (tags(tag := None))"
  shows "(\<exists>db'. update_tag_route K T u r tag info db = (Ok (), db') \<and> get_tags_route K T u r db' = Ok (tags(tag \<mapsto> info))
      \<and> get_tags_route K T u' r' db' = get_tags_route K T u' r' db)
    \<and> (\<exists>db'. delete_tag_route K T u r tag db = (Ok (), db') \<and> get_tags_route K T u r db' = Ok (tags(tag := None))
      \<and> get_tags_route K T u' r' db' = get_tags_route K T u' r' db)"
  using assms(8,9) write_tags [OF assms(1-7) assms(10)] write_tags [OF assms(1-7) assms(11)]
  by (auto simp: update_tag_route_def delete_tag_route_def get_tags_route_def)

definition one_tag_codec :: "unit tag_codec" where
  "one_tag_codec = \<lparr>tag_value = (\<lambda>m. JObject [(ascii ''type'', JString Tag),
       (ascii ''content'', if m (ascii ''t'') = None then JNull else JString (ascii ''t''))]),
     tag_dec = (\<lambda>bs. Some (if bs = [] then Map.empty else [ascii ''t'' \<mapsto> ()]))\<rparr>"

definition content_codec :: users_codec where
  "content_codec = text_users_codec\<lparr>
     value_enc := (\<lambda>j. case json_get (ascii ''content'') j of Some (JString bs) \<Rightarrow> bs | _ \<Rightarrow> []), raw_dec := Some\<rparr>"

lemma one_tag_readable:
  "tags_readable content_codec one_tag_codec [ascii ''t'' \<mapsto> ()]" "tags_readable content_codec one_tag_codec Map.empty"
  by (simp_all add: tags_readable_def content_codec_def one_tag_codec_def ascii_def)

theorem tags_edit_exact_witness:
  "\<exists>db'. update_tag_route content_codec one_tag_codec (ascii ''@a'') (ascii ''!r'') (ascii ''t'') () empty_rooms_db = (Ok (), db')
     \<and> get_tags_route content_codec one_tag_codec (ascii ''@a'') (ascii ''!r'') db' = Ok [ascii ''t'' \<mapsto> ()]"
proof -
  have i: "accountdata_inv empty_rooms_db" "kv_wf (global empty_rooms_db)" "count_of empty_rooms_db \<noteq> u64_max"
    by (simp_all add: no_rooms_tables count_of_def)
  have u: "utf8 (ascii ''!r'')" "utf8 (ascii ''@a'')" "utf8 (ascii ''!s'')" by (simp_all add: ascii_def)
  have g: "get_tags_route content_codec one_tag_codec (ascii ''@a'') (ascii ''!r'') empty_rooms_db = Ok Map.empty"
    by (simp add: get_tags_route_def stored_tags_def account_data_get_def Let_def no_rooms_tables)
  have d: "(ascii ''!s'', ascii ''@a'') \<noteq> (ascii ''!r'', ascii ''@a'')" by (simp add: ascii_def)
  have r: "tags_readable content_codec one_tag_codec (Map.empty(ascii ''t'' := None))" using one_tag_readable(2) by simp
  from tags_edit_exact [OF i u(1,2,3,2) g d one_tag_readable(1) r] show ?thesis by blast
qed

text \<open>
  C38: an OpenID token vouches for the user named in the path of the request. The handler never compares that user with the
  authenticated one, so any account obtains a token that identifies it as any other.
\<close>

theorem openid_token_for_any_user:
  assumes "kv_wf (openidtoken_expiresatuserid db)" "utf8 victim" "valid_user_id R victim"
    and "unat now + unat (ttl * 1000) < 2 ^ 64"
  shows "\<exists>db'. create_openid_token_route srv ttl tok now \<lparr>oid_sender_user = Some attacker, oid_user_id = victim\<rparr> db
      = (Ok \<lparr>oid_access_token = tok, oid_matrix_server_name = srv, oid_expires_in = ttl\<rparr>, db')
    \<and> find_from_openid_token R (now + ttl * 1000) tok db' = (Ok (Some victim), db')"
  using openid_token_expires [OF assms, of tok] by (auto simp: create_openid_token_route_def)

theorem openid_token_for_any_user_witness:
  "\<exists>db'. create_openid_token_route (ascii ''x'') 60 (ascii ''t'') 5
        \<lparr>oid_sender_user = Some (ascii ''@eve''), oid_user_id = ascii ''@admin''\<rparr> empty_rooms_db
      = (Ok \<lparr>oid_access_token = ascii ''t'', oid_matrix_server_name = ascii ''x'', oid_expires_in = 60\<rparr>, db')
    \<and> find_from_openid_token accept_all 60005 (ascii ''t'') db' = (Ok (Some (ascii ''@admin'')), db')"
proof -
  have "kv_wf (openidtoken_expiresatuserid empty_rooms_db)" "utf8 (ascii ''@admin'')"
    "valid_user_id accept_all (ascii ''@admin'')" "unat (5 :: u64) + unat (60 * 1000 :: u64) < 2 ^ 64"
    by (simp_all add: no_rooms_tables ascii_def accept_all_def)
  from openid_token_for_any_user [OF this, of "ascii ''x''" "ascii ''t''" "ascii ''@eve''"] show ?thesis by simp
qed

end
