(* ===== verification/Registry.thy ===== *)
theory Registry
  imports Prelude
begin

text \<open>
  The on-chain registry: \<^verbatim>\<open>programs/homeserver-registry/src\<close>, an Anchor program with the
  instructions \<open>register\<close> and \<open>unregister\<close>. The accounts of the chain are a map from addresses to
  delegations; \<open>find_program_address\<close> is the parameter \<open>pda\<close>, which gives the address and the bump
  for the seeds \<open>["delegation", owner]\<close>. The account constraints of Anchor are written out as
  guards: \<open>init_if_needed\<close>, \<open>seeds\<close>, \<open>bump\<close>, \<open>has_one\<close>, \<open>close\<close> and \<open>Signer\<close>; rent and the size
  of an account are not modelled.
\<close>

type_synonym pubkey = bytes

record delegation =
  owner :: pubkey
  homeserver :: str
  updated_at :: int
  bump :: byte

datatype registry_error = EmptyHomeserver | HomeserverTooLong | InvalidHomeserver
  | ConstraintSigner | ConstraintSeeds | AccountNotInitialized | ConstraintHasOne

type_synonym chain_accounts = "pubkey \<rightharpoonup> delegation"

section \<open>Instructions\<close>

definition is_ascii_alphanumeric :: "byte \<Rightarrow> bool" where
  "is_ascii_alphanumeric b \<longleftrightarrow> in_range 48 57 b \<or> in_range 65 90 b \<or> in_range 97 122 b"

text \<open>\<open>hostname.contains("://")\<close>\<close>

fun contains_scheme :: "str \<Rightarrow> bool" where
  "contains_scheme (a # b # c # s) = (a = 58 \<and> b = 47 \<and> c = 47 \<or> contains_scheme (b # c # s))"
| "contains_scheme _ = False"

definition is_valid_hostname :: "str \<Rightarrow> bool" where
  "is_valid_hostname hostname =
     (if 46 \<notin> set hostname then False
      else if 32 \<in> set hostname \<or> contains_scheme hostname then False
      else list_all (\<lambda>c. is_ascii_alphanumeric c \<or> c = 46 \<or> c = 45 \<or> c = 58) hostname)"

text \<open>
  \<open>given\<close> is the address of the delegation account in the instruction, \<open>is_signer\<close> whether the owner
  signed the transaction, \<open>now\<close> the timestamp of the clock.
\<close>

definition handle_register ::
  "(pubkey \<Rightarrow> pubkey \<times> byte) \<Rightarrow> pubkey \<Rightarrow> bool \<Rightarrow> pubkey \<Rightarrow> int \<Rightarrow> str \<Rightarrow> chain_accounts
     \<Rightarrow> (registry_error + unit) \<times> chain_accounts" where
  "handle_register pda owner_key is_signer given now homeserver_url accounts =
     (if \<not> is_signer then (Inl ConstraintSigner, accounts)
      else if given \<noteq> fst (pda owner_key) then (Inl ConstraintSeeds, accounts)
      else if homeserver_url = [] then (Inl EmptyHomeserver, accounts)
      else if 253 < length homeserver_url then (Inl HomeserverTooLong, accounts)
      else if \<not> is_valid_hostname homeserver_url then (Inl InvalidHomeserver, accounts)
      else (Inr (), accounts(given \<mapsto> \<lparr>owner = owner_key, homeserver = homeserver_url, updated_at = now,
              bump = snd (pda owner_key)\<rparr>)))"

text \<open>\<open>create\<close> is \<open>create_program_address\<close> for the same seeds and a stored bump.\<close>

definition handle_unregister ::
  "(pubkey \<Rightarrow> byte \<Rightarrow> pubkey option) \<Rightarrow> pubkey \<Rightarrow> bool \<Rightarrow> pubkey \<Rightarrow> chain_accounts
     \<Rightarrow> (registry_error + unit) \<times> chain_accounts" where
  "handle_unregister create owner_key is_signer given accounts =
     (if \<not> is_signer then (Inl ConstraintSigner, accounts)
      else (case accounts given of
        None \<Rightarrow> (Inl AccountNotInitialized, accounts)
      | Some d \<Rightarrow>
          if create owner_key (bump d) \<noteq> Some given then (Inl ConstraintSeeds, accounts)
          else if owner d \<noteq> owner_key then (Inl ConstraintHasOne, accounts)
          else (Inr (), accounts(given := None))))"

section \<open>Lemmas\<close>

text \<open>Every delegation lies at the address of its owner, with the bump of that address and a valid
  host name.\<close>

definition registry_inv :: "(pubkey \<Rightarrow> pubkey \<times> byte) \<Rightarrow> chain_accounts \<Rightarrow> bool" where
  "registry_inv pda accounts \<longleftrightarrow> (\<forall>a d. accounts a = Some d \<longrightarrow> pda (owner d) = (a, bump d)
     \<and> homeserver d \<noteq> [] \<and> length (homeserver d) \<le> 253 \<and> is_valid_hostname (homeserver d))"

lemma contains_scheme_slash: "contains_scheme s \<Longrightarrow> 47 \<in> set s"
  by (induction s rule: contains_scheme.induct) auto

text \<open>The client's view: the homeserver of a wallet, looked up at its derived address.\<close>

definition homeserver_of :: "(pubkey \<Rightarrow> pubkey \<times> byte) \<Rightarrow> chain_accounts \<Rightarrow> pubkey \<Rightarrow> str option" where
  "homeserver_of pda accounts w = map_option homeserver (accounts (fst (pda w)))"

section \<open>Properties\<close>

text \<open>
  C21: the registry is a map from wallets to host names that only the wallet itself changes: a
  successful registration sets exactly the signer's entry, a successful removal clears exactly the
  signer's entry, a refused instruction changes nothing, and every stored delegation stays at its
  owner's address with a valid host name. The hypotheses are the documented facts that distinct
  wallets have distinct derived addresses and that a derived address is recreated from its bump.
\<close>

theorem registry_owner_controls:
  assumes "registry_inv pda accounts" "inj (\<lambda>w. fst (pda w))"
    and "\<forall>w. create w (snd (pda w)) = Some (fst (pda w))"
  shows "(case handle_register pda w is_signer given now h accounts of
      (Inl e, accounts') \<Rightarrow> accounts' = accounts
    | (Inr _, accounts') \<Rightarrow> registry_inv pda accounts' \<and> is_signer
        \<and> homeserver_of pda accounts' = (homeserver_of pda accounts)(w \<mapsto> h))
    \<and> (case handle_unregister create w is_signer given accounts of
      (Inl e, accounts') \<Rightarrow> accounts' = accounts
    | (Inr _, accounts') \<Rightarrow> registry_inv pda accounts' \<and> is_signer
        \<and> homeserver_of pda accounts' = (homeserver_of pda accounts)(w := None))
    \<and> (homeserver_of pda accounts w \<noteq> None \<longrightarrow>
        fst (handle_unregister create w True (fst (pda w)) accounts) = Inr ())"
proof -
  have other: "fst (pda x) = fst (pda w) \<longleftrightarrow> x = w" for x using assms(2) by (auto dest: injD)
  have own: "owner d = x \<and> bump d = snd (pda x)" if "accounts (fst (pda x)) = Some d" for d x
  proof -
    have p: "pda (owner d) = (fst (pda x), bump d)" using assms(1) that by (auto simp: registry_inv_def)
    then have "owner d = x" using injD [OF assms(2), of "owner d" x] by simp
    then show ?thesis using p by (metis snd_conv)
  qed
  have reg: "case handle_register pda w is_signer given now h accounts of
      (Inl e, accounts') \<Rightarrow> accounts' = accounts
    | (Inr _, accounts') \<Rightarrow> registry_inv pda accounts' \<and> is_signer
        \<and> homeserver_of pda accounts' = (homeserver_of pda accounts)(w \<mapsto> h)"
  proof (cases "is_signer \<and> given = fst (pda w) \<and> h \<noteq> [] \<and> length h \<le> 253 \<and> is_valid_hostname h")
    case True
    let ?d = "\<lparr>owner = w, homeserver = h, updated_at = now, bump = snd (pda w)\<rparr>"
    have run: "handle_register pda w is_signer given now h accounts = (Inr (), accounts(fst (pda w) \<mapsto> ?d))"
      using True by (simp add: handle_register_def)
    have "registry_inv pda (accounts(fst (pda w) \<mapsto> ?d))"
      using assms(1) True unfolding registry_inv_def by simp
    moreover have "homeserver_of pda (accounts(fst (pda w) \<mapsto> ?d)) = (homeserver_of pda accounts)(w \<mapsto> h)"
      by (rule ext) (simp add: homeserver_of_def other)
    ultimately show ?thesis using True run by simp
  next
    case False
    then have "\<exists>e. handle_register pda w is_signer given now h accounts = (Inl e, accounts)"
      by (auto simp: handle_register_def)
    then show ?thesis by auto
  qed
  have unreg: "case handle_unregister create w is_signer given accounts of
      (Inl e, accounts') \<Rightarrow> accounts' = accounts
    | (Inr _, accounts') \<Rightarrow> registry_inv pda accounts' \<and> is_signer
        \<and> homeserver_of pda accounts' = (homeserver_of pda accounts)(w := None)"
  proof (cases "accounts given")
    case (Some d)
    then have g: "given = fst (pda (owner d))" using assms(1) unfolding registry_inv_def by (metis fst_conv)
    show ?thesis
    proof (cases "is_signer \<and> create w (bump d) = Some given \<and> owner d = w")
      case True
      then have run: "handle_unregister create w is_signer given accounts = (Inr (), accounts(fst (pda w) := None))"
        using Some g by (simp add: handle_unregister_def)
      have "registry_inv pda (accounts(fst (pda w) := None))" using assms(1) unfolding registry_inv_def by simp
      moreover have "homeserver_of pda (accounts(fst (pda w) := None)) = (homeserver_of pda accounts)(w := None)"
        by (rule ext) (simp add: homeserver_of_def other)
      ultimately show ?thesis using True run by simp
    next
      case False
      then have "\<exists>e. handle_unregister create w is_signer given accounts = (Inl e, accounts)"
        using Some by (auto simp: handle_unregister_def)
      then show ?thesis by auto
    qed
  qed (simp add: handle_unregister_def)
  have "fst (handle_unregister create w True (fst (pda w)) accounts) = Inr ()"
    if h: "homeserver_of pda accounts w \<noteq> None"
    using h own assms(3) by (auto simp: homeserver_of_def handle_unregister_def)
  then show ?thesis using reg unreg by blast
qed

definition toy_pda :: "pubkey \<Rightarrow> pubkey \<times> byte" where
  "toy_pda w = (1 # w, 255)"

theorem registry_owner_controls_witness:
  "\<exists>accounts'. handle_register toy_pda [7] True [1, 7] 0 (ascii ''a.b'') Map.empty = (Inr (), accounts')
     \<and> homeserver_of toy_pda accounts' [7] = Some (ascii ''a.b'')"
proof -
  have i: "registry_inv toy_pda Map.empty" "inj (\<lambda>w. fst (toy_pda w))"
    "\<forall>w. (\<lambda>w b. Some (1 # w)) w (snd (toy_pda w)) = Some (fst (toy_pda w))"
    by (simp_all add: registry_inv_def toy_pda_def inj_def)
  have "fst (handle_register toy_pda [7] True [1, 7] 0 (ascii ''a.b'') Map.empty) = Inr ()"
    by (simp add: handle_register_def toy_pda_def ascii_def is_valid_hostname_def is_ascii_alphanumeric_def in_range_def
        word_le_def)
  then show ?thesis using registry_owner_controls [OF i, where w = "[7]" and is_signer = True and given = "[1, 7]"
        and now = 0 and h = "ascii ''a.b''"]
    by (cases "handle_register toy_pda [7] True [1, 7] 0 (ascii ''a.b'') Map.empty") auto
qed

text \<open>
  The check of a host name amounts to one dot and the allowed characters; the tests for spaces
  and for \<open>://\<close> never refuse anything the character test would accept. A colon is accepted anywhere.
\<close>

theorem hostname_check_simplifies:
  "is_valid_hostname h \<longleftrightarrow> 46 \<in> set h \<and> (\<forall>c \<in> set h. is_ascii_alphanumeric c \<or> c = 46 \<or> c = 45 \<or> c = 58)"
proof -
  have "\<not> is_ascii_alphanumeric 32" "\<not> is_ascii_alphanumeric 47"
    by (simp_all add: is_ascii_alphanumeric_def in_range_def)
  then show ?thesis using contains_scheme_slash [of h] by (auto simp: is_valid_hostname_def list_all_iff)
qed

theorem hostname_check_simplifies_witness:
  "\<not> is_valid_hostname (ascii ''http://a.b'')"
  by (simp add: hostname_check_simplifies ascii_def is_ascii_alphanumeric_def in_range_def)

end
