(* ===== verification/KeyBackups.thy ===== *)
theory KeyBackups
  imports StateCache
begin

text \<open>
  Room key backups: \<^verbatim>\<open>server/src/database/key_value/key_backups.rs\<close>. A backup of a user has a
  version, a decimal count, under which its algorithm and its etag are filed; the keys of a backup
  are filed under user, version, room and session. A \<open>Raw<T>\<close> is its JSON text, and writing one
  writes that text. Reading is \<open>serde_json::from_slice\<close>, a parameter: \<open>raw_from_slice\<close> at type
  \<open>Raw<T>\<close> and \<open>opt_raw_from_slice\<close> at type \<open>Option<Raw<T>>\<close>, where the text \<open>null\<close> reads as no value.
\<close>

record backup_codec =
  raw_from_slice :: "bytes \<Rightarrow> bytes option"
  opt_raw_from_slice :: "bytes \<Rightarrow> bytes option option"

record backups_db = globals_db +
  backupid_algorithm :: kvtree
  backupid_etag :: kvtree
  backupkeyid_backup :: kvtree

definition backup_key :: "str \<Rightarrow> str \<Rightarrow> bytes" where
  "backup_key user_id version = user_id @ [sep] @ version"

definition create_backup ::
  "str \<Rightarrow> bytes \<Rightarrow> 'a backups_db_scheme \<Rightarrow> str result \<times> 'a backups_db_scheme" where
  "create_backup user_id backup_metadata db =
     step_then (next_count db) (\<lambda>n db.
       (let version = show_u64 n;
            key = backup_key user_id version;
            db = db\<lparr>backupid_algorithm := kv_insert (backupid_algorithm db) key backup_metadata\<rparr>
        in step_then (next_count db) (\<lambda>etag db.
             (Ok version, db\<lparr>backupid_etag := kv_insert (backupid_etag db) key (to_be_bytes etag)\<rparr>))))"

definition delete_backup :: "str \<Rightarrow> str \<Rightarrow> 'a backups_db_scheme \<Rightarrow> 'a backups_db_scheme" where
  "delete_backup user_id version db =
     (let key = backup_key user_id version;
          db = db\<lparr>backupid_algorithm := kv_remove (backupid_algorithm db) key\<rparr>;
          db = db\<lparr>backupid_etag := kv_remove (backupid_etag db) key\<rparr>;
          key = key @ [sep]
      in db\<lparr>backupkeyid_backup := kv_remove_prefix (backupkeyid_backup db) key\<rparr>)"

definition update_backup ::
  "str \<Rightarrow> str \<Rightarrow> bytes \<Rightarrow> 'a backups_db_scheme \<Rightarrow> str result \<times> 'a backups_db_scheme" where
  "update_backup user_id version backup_metadata db =
     (let key = backup_key user_id version
      in if kv_get (backupid_algorithm db) key = None
         then (Err (BadRequest NotFound ''Tried to update nonexistent backup.''), db)
         else
           (let db = db\<lparr>backupid_algorithm := kv_insert (backupid_algorithm db) key backup_metadata\<rparr>
            in step_then (next_count db) (\<lambda>etag db.
                 (Ok version, db\<lparr>backupid_etag := kv_insert (backupid_etag db) key (to_be_bytes etag)\<rparr>))))"

text \<open>The first entry of the backward scan that both \<open>get_latest\<close> functions start with.\<close>

definition latest_row :: "str \<Rightarrow> 'a backups_db_scheme \<Rightarrow> (bytes \<times> bytes) option" where
  "latest_row user_id db =
     (let pre = user_id @ [sep];
          last_possible_key = pre @ to_be_bytes u64_max
      in (case takeWhile (\<lambda>(k, _). starts_with k pre)
                 (kv_iter_from (backupid_algorithm db) last_possible_key True) of
            [] \<Rightarrow> None | row # _ \<Rightarrow> Some row))"

definition get_latest_backup_version :: "str \<Rightarrow> 'a backups_db_scheme \<Rightarrow> str option result" where
  "get_latest_backup_version user_id db =
     map_transpose (\<lambda>(key, _).
       ok_or (BadDatabase ''backupid_algorithm key is invalid.'') (string_from_bytes (last_part key)))
       (latest_row user_id db)"

definition get_latest_backup ::
  "backup_codec \<Rightarrow> str \<Rightarrow> 'a backups_db_scheme \<Rightarrow> (str \<times> bytes) option result" where
  "get_latest_backup K user_id db =
     map_transpose (\<lambda>(key, value).
       and_then (ok_or (BadDatabase ''backupid_algorithm key is invalid.'')
         (string_from_bytes (last_part key))) (\<lambda>version.
       and_then (ok_or (BadDatabase ''Algorithm in backupid_algorithm is invalid.'')
         (raw_from_slice K value)) (\<lambda>algorithm.
       Ok (version, algorithm))))
       (latest_row user_id db)"

definition get_backup ::
  "backup_codec \<Rightarrow> str \<Rightarrow> str \<Rightarrow> 'a backups_db_scheme \<Rightarrow> bytes option result" where
  "get_backup K user_id version db =
     (case kv_get (backupid_algorithm db) (backup_key user_id version) of
        None \<Rightarrow> Ok None
      | Some bytes \<Rightarrow> ok_or (BadDatabase ''Algorithm in backupid_algorithm is invalid.'')
                         (opt_raw_from_slice K bytes))"

definition add_key ::
  "str \<Rightarrow> str \<Rightarrow> str \<Rightarrow> str \<Rightarrow> bytes \<Rightarrow> 'a backups_db_scheme \<Rightarrow> unit result \<times> 'a backups_db_scheme" where
  "add_key user_id version room_id session_id key_data db =
     (let key = backup_key user_id version
      in if kv_get (backupid_algorithm db) key = None
         then (Err (BadRequest NotFound ''Tried to update nonexistent backup.''), db)
         else step_then (next_count db) (\<lambda>etag db.
           (let db = db\<lparr>backupid_etag := kv_insert (backupid_etag db) key (to_be_bytes etag)\<rparr>;
                key = key @ [sep] @ room_id @ [sep] @ session_id
            in (Ok (), db\<lparr>backupkeyid_backup := kv_insert (backupkeyid_backup db) key key_data\<rparr>))))"

definition count_keys :: "str \<Rightarrow> str \<Rightarrow> 'a backups_db_scheme \<Rightarrow> nat result" where
  "count_keys user_id version db =
     Ok (length (kv_scan_prefix (backupkeyid_backup db) (user_id @ [sep] @ version)))"

definition get_etag :: "str \<Rightarrow> str \<Rightarrow> 'a backups_db_scheme \<Rightarrow> str result" where
  "get_etag user_id version db =
     and_then (ok_or (BadDatabase ''Backup has no etag.'')
       (kv_get (backupid_etag db) (backup_key user_id version))) (\<lambda>bytes.
     and_then (ok_or (BadDatabase ''etag in backupid_etag invalid.'') (u64_from_bytes bytes)) (\<lambda>n.
     Ok (show_u64 n)))"

text \<open>A row of \<open>backupkeyid_backup\<close> as \<open>get_all\<close> reads it; a \<open>BTreeMap\<close> is a map.\<close>

definition read_room_session ::
  "backup_codec \<Rightarrow> ruma \<Rightarrow> bytes \<times> bytes \<Rightarrow> (str \<times> str \<times> bytes) result" where
  "read_room_session K R row =
     (let parts = rsplit_sep (fst row)
      in and_then (case parts of [] \<Rightarrow> Err (BadDatabase ''backupkeyid_backup key is invalid.'')
           | p # _ \<Rightarrow> ok_or (BadDatabase ''backupkeyid_backup session_id is invalid.'') (string_from_bytes p)) (\<lambda>session_id.
         and_then (case tl parts of [] \<Rightarrow> Err (BadDatabase ''backupkeyid_backup key is invalid.'')
           | p # _ \<Rightarrow> parse_id (valid_room_id R) ''backupkeyid_backup room_id is invalid.''
               ''backupkeyid_backup room_id is invalid room id.'' p) (\<lambda>room_id.
         and_then (ok_or (BadDatabase ''KeyBackupData in backupkeyid_backup is invalid.'')
           (raw_from_slice K (snd row))) (\<lambda>key_data.
         Ok (room_id, session_id, key_data)))))"

definition insert_session ::
  "str \<times> str \<times> bytes \<Rightarrow> (str \<rightharpoonup> (str \<rightharpoonup> bytes)) \<Rightarrow> (str \<rightharpoonup> (str \<rightharpoonup> bytes))" where
  "insert_session x rooms =
     (case x of (room_id, session_id, key_data) \<Rightarrow>
        (let sessions = (case rooms room_id of Some m \<Rightarrow> m | None \<Rightarrow> Map.empty)
         in rooms(room_id \<mapsto> sessions(session_id \<mapsto> key_data))))"

definition get_all ::
  "backup_codec \<Rightarrow> ruma \<Rightarrow> str \<Rightarrow> str \<Rightarrow> 'a backups_db_scheme \<Rightarrow> (str \<rightharpoonup> (str \<rightharpoonup> bytes)) result" where
  "get_all K R user_id version db =
     and_then (collect_result (map (read_room_session K R)
         (kv_scan_prefix (backupkeyid_backup db) (user_id @ [sep] @ version @ [sep]))))
       (\<lambda>rows. Ok (fold insert_session rows Map.empty))"

definition get_room ::
  "backup_codec \<Rightarrow> str \<Rightarrow> str \<Rightarrow> str \<Rightarrow> 'a backups_db_scheme \<Rightarrow> (str \<rightharpoonup> bytes) result" where
  "get_room K user_id version room_id db =
     Ok (fold (\<lambda>(session_id, key_data) m. m(session_id \<mapsto> key_data))
       (oks (map (\<lambda>(key, value).
          and_then (ok_or (BadDatabase ''backupkeyid_backup session_id is invalid.'')
            (string_from_bytes (last_part key))) (\<lambda>session_id.
          and_then (ok_or (BadDatabase ''KeyBackupData in backupkeyid_backup is invalid.'')
            (raw_from_slice K value)) (\<lambda>key_data.
          Ok (session_id, key_data))))
          (kv_scan_prefix (backupkeyid_backup db) (user_id @ [sep] @ version @ [sep] @ room_id @ [sep]))))
       Map.empty)"

definition get_session ::
  "backup_codec \<Rightarrow> str \<Rightarrow> str \<Rightarrow> str \<Rightarrow> str \<Rightarrow> 'a backups_db_scheme \<Rightarrow> bytes option result" where
  "get_session K user_id version room_id session_id db =
     map_transpose (\<lambda>value. ok_or (BadDatabase ''KeyBackupData in backupkeyid_backup is invalid.'')
         (raw_from_slice K value))
       (kv_get (backupkeyid_backup db)
         (user_id @ [sep] @ version @ [sep] @ room_id @ [sep] @ session_id))"

definition delete_all_keys :: "str \<Rightarrow> str \<Rightarrow> 'a backups_db_scheme \<Rightarrow> 'a backups_db_scheme" where
  "delete_all_keys user_id version db =
     db\<lparr>backupkeyid_backup := kv_remove_prefix (backupkeyid_backup db) (user_id @ [sep] @ version @ [sep])\<rparr>"

definition delete_room_keys :: "str \<Rightarrow> str \<Rightarrow> str \<Rightarrow> 'a backups_db_scheme \<Rightarrow> 'a backups_db_scheme" where
  "delete_room_keys user_id version room_id db =
     db\<lparr>backupkeyid_backup := kv_remove_prefix (backupkeyid_backup db)
       (user_id @ [sep] @ version @ [sep] @ room_id @ [sep])\<rparr>"

definition delete_room_key ::
  "str \<Rightarrow> str \<Rightarrow> str \<Rightarrow> str \<Rightarrow> 'a backups_db_scheme \<Rightarrow> 'a backups_db_scheme" where
  "delete_room_key user_id version room_id session_id db =
     db\<lparr>backupkeyid_backup := kv_remove_prefix (backupkeyid_backup db)
       (user_id @ [sep] @ version @ [sep] @ room_id @ [sep] @ session_id)\<rparr>"

section \<open>Lemmas\<close>

definition backups_inv :: "'a backups_db_scheme \<Rightarrow> bool" where
  "backups_inv db \<longleftrightarrow> kv_wf (backupid_algorithm db) \<and> kv_wf (backupid_etag db) \<and> kv_wf (backupkeyid_backup db)"

definition session_key :: "str \<Rightarrow> str \<Rightarrow> str \<Rightarrow> str \<Rightarrow> bytes" where
  "session_key u v r s = u @ sep # v @ sep # r @ sep # s"

lemma session_key_inj:
  assumes "utf8 u" "utf8 v" "utf8 r" "utf8 u'" "utf8 v'" "utf8 r'"
  shows "session_key u v r s = session_key u' v' r' s' \<longleftrightarrow> (u, v, r, s) = (u', v', r', s')"
  using assms by (auto simp: session_key_def sep_append_inj utf8_no_sep)

lemma backup_key_inj:
  assumes "utf8 u" "utf8 u'"
  shows "backup_key u v = backup_key u' v' \<longleftrightarrow> (u, v) = (u', v')"
  using assms by (auto simp: backup_key_def sep_append_inj utf8_no_sep)

lemma get_session_eq:
  "get_session K u v r s db = map_transpose (\<lambda>value.
     ok_or (BadDatabase ''KeyBackupData in backupkeyid_backup is invalid.'') (raw_from_slice K value))
     (kv_get (backupkeyid_backup db) (session_key u v r s))"
  by (simp add: get_session_def session_key_def)

lemma version_prefix:
  assumes "utf8 u" "utf8 v" "utf8 r" "utf8 u'" "utf8 v'" "utf8 r'"
  shows "starts_with (session_key u' v' r' s') (u @ sep # v @ [sep]) \<longleftrightarrow> (u, v) = (u', v')"
    and "starts_with (session_key u' v' r' s') (u @ sep # v @ sep # r @ [sep]) \<longleftrightarrow> (u, v, r) = (u', v', r')"
    and "starts_with (session_key u' v' r' s') (u @ sep # v @ sep # r @ sep # s)
      \<longleftrightarrow> (u, v, r) = (u', v', r') \<and> starts_with s' s"
  using assms by (simp_all add: session_key_def sep_prefix_append sep_prefix_iff utf8_no_sep)

lemma max_bytes: "to_be_bytes u64_max = [sep, sep, sep, sep, sep, sep, sep, sep]"
  by (rule u64_from_bytes_Some [THEN iffD1, symmetric]) (simp add: u64_from_bytes_def be_val_Cons)

lemma utf8_le_max: "utf8 v \<Longrightarrow> v \<le> to_be_bytes u64_max"
proof (cases v)
  case (Cons b w)
  assume "utf8 v"
  then have "b \<noteq> sep" using utf8_no_sep [of v] Cons by auto
  moreover have "b \<le> sep"
  proof -
    have "unat b < 256" using unsigned_less [of b, where ?'a = nat] by simp
    then show ?thesis by (simp add: word_le_nat_alt)
  qed
  ultimately have "b < sep" by simp
  then show ?thesis by (simp add: Cons max_bytes)
qed simp

section \<open>Sample databases\<close>

definition alice :: str where
  "alice = ascii ''@a:h''"

definition two_backups :: backups_db where
  "two_backups = \<lparr>global = [], server_signingkeys = [],
     backupid_algorithm = [(backup_key alice (ascii ''11''), ascii ''{}''), (backup_key alice (ascii ''9''), ascii ''{}'')],
     backupid_etag = [], backupkeyid_backup = []\<rparr>"

lemma two_backups_inv: "backups_inv two_backups"
  by (simp add: backups_inv_def two_backups_def kv_wf_def backup_key_def ascii_def)

lemma two_backups_versions:
  "kv_get (backupid_algorithm two_backups) (backup_key alice v) \<noteq> None \<longleftrightarrow> v = ascii ''11'' \<or> v = ascii ''9''"
  by (auto simp: two_backups_def kv_get_def backup_key_def)

definition text_backup_codec :: backup_codec where
  "text_backup_codec = \<lparr>raw_from_slice = Some, opt_raw_from_slice = (\<lambda>bs. Some (Some bs))\<rparr>"

definition two_sessions :: backups_db where
  "two_sessions = two_backups\<lparr>backupkeyid_backup :=
     [(session_key alice (ascii ''9'') (ascii ''!r:h'') (ascii ''s''), ascii ''{}''),
      (session_key alice (ascii ''9'') (ascii ''!r:h'') (ascii ''st''), ascii ''{}'')]\<rparr>"

lemma two_sessions_inv: "backups_inv two_sessions"
  using two_backups_inv
  by (simp add: backups_inv_def two_sessions_def kv_wf_def session_key_def ascii_def)

lemma sample_ids_utf8: "utf8 alice" "utf8 (ascii ''9'')" "utf8 (ascii ''11'')" "utf8 (ascii ''!r:h'')"
  by (simp_all add: alice_def ascii_def)

section \<open>Properties\<close>

text \<open>
  A session key added to an existing backup reads back as it was written, every other
  session and every algorithm is left as it was and the backup gets the new count as its etag;
  adding to a backup that does not exist is refused and changes nothing.
\<close>

theorem add_key_round_trip:
  assumes "backups_inv db" and "utf8 u" "utf8 v" "utf8 r" "utf8 u'" "utf8 v'" "utf8 r'"
    and "raw_from_slice K data = Some data"
  shows "if kv_get (backupid_algorithm db) (backup_key u v) = None
    then add_key u v r s data db = (Err (BadRequest NotFound ''Tried to update nonexistent backup.''), db)
    else (\<exists>db'. add_key u v r s data db = (Ok (), db') \<and> backups_inv db'
      \<and> get_session K u v r s db' = Ok (Some data)
      \<and> ((u', v', r', s') \<noteq> (u, v, r, s) \<longrightarrow> get_session K u' v' r' s' db' = get_session K u' v' r' s' db)
      \<and> get_backup K u' v' db' = get_backup K u' v' db
      \<and> get_etag u v db' = Ok (show_u64 (count_of db + 1))
      \<and> ((u', v') \<noteq> (u, v) \<longrightarrow> get_etag u' v' db' = get_etag u' v' db))"
proof (cases "kv_get (backupid_algorithm db) (backup_key u v) = None")
  case True
  then show ?thesis by (simp add: add_key_def Let_def)
next
  case False
  have k: "backup_key u v @ sep # r @ sep # s = session_key u v r s"
    by (simp add: backup_key_def session_key_def)
  define db' where "db' = snd (add_key u v r s data db)"
  have run: "add_key u v r s data db = (Ok (), db')"
    and t: "backupkeyid_backup db' = kv_insert (backupkeyid_backup db) (session_key u v r s) data"
      "backupid_algorithm db' = backupid_algorithm db"
      "backupid_etag db' = kv_insert (backupid_etag db) (backup_key u v) (to_be_bytes (count_of db + 1))"
    using False by (auto simp: db'_def add_key_def Let_def next_count_eq k)
  have w: "kv_wf (backupkeyid_backup db)" "kv_wf (backupid_etag db)" "kv_wf (backupid_algorithm db)"
    using assms(1) by (simp_all add: backups_inv_def)
  have "backups_inv db'" using w by (simp add: backups_inv_def t kv_intros)
  moreover have "get_session K u v r s db' = Ok (Some data)"
    using w assms by (simp add: get_session_eq t kv_simps)
  moreover have "(u', v', r', s') \<noteq> (u, v, r, s) \<Longrightarrow> get_session K u' v' r' s' db' = get_session K u' v' r' s' db"
    using w assms by (auto simp: get_session_eq t kv_simps session_key_inj)
  moreover have "get_backup K u' v' db' = get_backup K u' v' db" by (simp add: get_backup_def t)
  moreover have "get_etag u v db' = Ok (show_u64 (count_of db + 1))"
    using w by (simp add: get_etag_def t kv_simps)
  moreover have "(u', v') \<noteq> (u, v) \<Longrightarrow> get_etag u' v' db' = get_etag u' v' db"
    using w assms by (auto simp: get_etag_def t kv_simps backup_key_inj)
  ultimately show ?thesis using False run by auto
qed

theorem add_key_round_trip_witness:
  "\<exists>db'. add_key alice (ascii ''9'') (ascii ''!r:h'') (ascii ''s'') (ascii ''{}'') two_backups = (Ok (), db')
    \<and> get_session text_backup_codec alice (ascii ''9'') (ascii ''!r:h'') (ascii ''s'') db' = Ok (Some (ascii ''{}''))"
proof -
  have "kv_get (backupid_algorithm two_backups) (backup_key alice (ascii ''9'')) \<noteq> None"
    unfolding two_backups_versions by simp
  moreover have "raw_from_slice text_backup_codec (ascii ''{}'') = Some (ascii ''{}'')"
    by (simp add: text_backup_codec_def)
  ultimately show ?thesis
    using add_key_round_trip [OF two_backups_inv sample_ids_utf8(1,2,4) sample_ids_utf8(1,3,4),
        where K = text_backup_codec and data = "ascii ''{}''" and s = "ascii ''s''" and s' = "[]"] by auto
qed

text \<open>
  Deleting a backup removes its algorithm, its etag and every session of every room in it, and
  leaves the backups of other users and the other versions of the same user as they were.
\<close>

theorem delete_backup_exact:
  assumes "backups_inv db" and "utf8 u" "utf8 v" "utf8 u'" "utf8 v'" "utf8 r'"
  shows "backups_inv (delete_backup u v db)
    \<and> get_backup K u' v' (delete_backup u v db) = (if (u', v') = (u, v) then Ok None else get_backup K u' v' db)
    \<and> get_etag u' v' (delete_backup u v db)
        = (if (u', v') = (u, v) then Err (BadDatabase ''Backup has no etag.'') else get_etag u' v' db)
    \<and> get_session K u' v' r' s' (delete_backup u v db)
        = (if (u', v') = (u, v) then Ok None else get_session K u' v' r' s' db)"
proof -
  have w: "kv_wf (backupkeyid_backup db)" "kv_wf (backupid_etag db)" "kv_wf (backupid_algorithm db)"
    using assms(1) by (simp_all add: backups_inv_def)
  have t: "backupkeyid_backup (delete_backup u v db) = kv_remove_prefix (backupkeyid_backup db) (u @ sep # v @ [sep])"
      "backupid_algorithm (delete_backup u v db) = kv_remove (backupid_algorithm db) (backup_key u v)"
      "backupid_etag (delete_backup u v db) = kv_remove (backupid_etag db) (backup_key u v)"
    by (simp_all add: delete_backup_def Let_def backup_key_def)
  have "backups_inv (delete_backup u v db)" using w by (simp add: backups_inv_def t kv_intros)
  moreover have "get_session K u' v' r' s' (delete_backup u v db)
        = (if (u', v') = (u, v) then Ok None else get_session K u' v' r' s' db)"
    using w assms version_prefix(1) [of u v r' u' v' r' s'] by (auto simp: get_session_eq t kv_simps)
  ultimately show ?thesis
    using w assms by (auto simp: get_backup_def get_etag_def t kv_simps backup_key_inj)
qed

theorem delete_backup_exact_witness:
  "get_session text_backup_codec alice (ascii ''9'') (ascii ''!r:h'') (ascii ''s'')
     (delete_backup alice (ascii ''9'') two_sessions) = Ok None"
  using delete_backup_exact [OF two_sessions_inv sample_ids_utf8(1,2) sample_ids_utf8(1,2,4),
      where K = text_backup_codec and s' = "ascii ''s''"] by simp

text \<open>
  C34: \<open>delete_room_key\<close> removes, in its room and backup, every session whose id starts with the
  given one, not that session alone: the scan has no separator after the session id.
\<close>

theorem delete_room_key_prefix:
  assumes "backups_inv db" and "utf8 u" "utf8 v" "utf8 r" "utf8 u'" "utf8 v'" "utf8 r'"
  shows "get_session K u' v' r' s' (delete_room_key u v r s db)
    = (if (u', v', r') = (u, v, r) \<and> starts_with s' s then Ok None else get_session K u' v' r' s' db)"
proof -
  have p: "starts_with (session_key u' v' r' s') (u @ sep # v @ sep # r @ sep # s)
      \<longleftrightarrow> (u', v', r') = (u, v, r) \<and> starts_with s' s"
    using assms by (auto simp: version_prefix(3))
  have "kv_wf (backupkeyid_backup db)" using assms(1) by (simp add: backups_inv_def)
  then show ?thesis using p by (simp add: get_session_eq delete_room_key_def kv_simps)
qed

theorem delete_room_key_prefix_witness:
  "get_session text_backup_codec alice (ascii ''9'') (ascii ''!r:h'') (ascii ''st'') two_sessions
     = Ok (Some (ascii ''{}''))
   \<and> get_session text_backup_codec alice (ascii ''9'') (ascii ''!r:h'') (ascii ''st'')
     (delete_room_key alice (ascii ''9'') (ascii ''!r:h'') (ascii ''s'') two_sessions) = Ok None"
proof
  show "get_session text_backup_codec alice (ascii ''9'') (ascii ''!r:h'') (ascii ''st'') two_sessions
     = Ok (Some (ascii ''{}''))"
    by (simp add: get_session_eq two_sessions_def kv_get_def session_key_def text_backup_codec_def ascii_def)
  have "starts_with (ascii ''st'') (ascii ''s'')" by (simp add: ascii_def)
  then show "get_session text_backup_codec alice (ascii ''9'') (ascii ''!r:h'') (ascii ''st'')
     (delete_room_key alice (ascii ''9'') (ascii ''!r:h'') (ascii ''s'') two_sessions) = Ok None"
    using delete_room_key_prefix [OF two_sessions_inv sample_ids_utf8(1,2,4) sample_ids_utf8(1,2,4)] by simp
qed

text \<open>
  The latest backup of a user is the one whose version is the greatest as a byte string.
\<close>

theorem latest_version_greatest:
  assumes "backups_inv db" "kv_get (backupid_algorithm db) (backup_key u v) \<noteq> None"
    and "\<forall>v'. kv_get (backupid_algorithm db) (backup_key u v') \<noteq> None \<longrightarrow> utf8 v' \<and> v' \<le> v"
  shows "get_latest_backup_version u db = Ok (Some v)"
proof -
  let ?p = "u @ [sep]" and ?last = "u @ sep # to_be_bytes u64_max"
  let ?rows = "takeWhile (\<lambda>(k, _). starts_with k ?p) (kv_iter_from (backupid_algorithm db) ?last True)"
  have w: "kv_wf (backupid_algorithm db)" using assms(1) by (simp add: backups_inv_def)
  have pre: "starts_with ?last ?p" by simp
  have v: "utf8 v" using assms(2,3) by blast
  have set: "set ?rows = {(k, x). kv_get (backupid_algorithm db) k = Some x \<and> starts_with k ?p \<and> k \<le> ?last}"
    using w pre by (rule kv.set_scan_until)
  have srt: "sorted_wrt (>) (map fst ?rows)" using w pre by (rule kv.sorted_scan_until)
  have mem: "backup_key u v \<in> fst ` set ?rows"
    using assms(2) utf8_le_max [OF v] unfolding set by (force simp: backup_key_def)
  then obtain k x rest where rows: "?rows = (k, x) # rest" by (cases ?rows) auto
  have "(k, x) \<in> set ?rows" by (simp add: rows)
  then obtain v' where k: "k = backup_key u v'" "kv_get (backupid_algorithm db) (backup_key u v') = Some x"
    unfolding set by (auto simp: prefix_def backup_key_def)
  have "backup_key u v \<le> k" using mem srt by (auto simp: rows)
  then have "v' = v" using assms(3) k by (auto simp: backup_key_def)
  moreover have "latest_row u db = Some (k, x)" using rows by (simp add: latest_row_def Let_def)
  ultimately show ?thesis using v k
    by (simp add: get_latest_backup_version_def backup_key_def last_part_def hd_rsplit_sep utf8_no_sep)
qed

text \<open>Versions are decimal counts, so the order of byte strings is not the order of creation:
  of the backups 9 and 11 of a user, 9 is reported as the latest.\<close>

theorem latest_version_greatest_witness:
  "kv_get (backupid_algorithm two_backups) (backup_key alice (ascii ''11'')) \<noteq> None
   \<and> get_latest_backup_version alice two_backups = Ok (Some (ascii ''9''))"
proof
  show "kv_get (backupid_algorithm two_backups) (backup_key alice (ascii ''11'')) \<noteq> None"
    unfolding two_backups_versions by simp
  have "utf8 (ascii ''11'')" "utf8 (ascii ''9'')" "ascii ''11'' \<le> ascii ''9''"
    by (simp_all add: ascii_def)
  then show "get_latest_backup_version alice two_backups = Ok (Some (ascii ''9''))"
    by (intro latest_version_greatest two_backups_inv; unfold two_backups_versions) auto
qed

end
