(* ===== verification/BackupRoutes.thy ===== *)
theory BackupRoutes
  imports KeyBackups
begin

text \<open>
  The handlers of key backups: \<^verbatim>\<open>server/src/api/client_server/backup.rs\<close>. Keys may only be added to the latest
  version of the backup, as \<open>get_latest_backup_version\<close> reports it. The maps of a request are association lists
  in their iteration order; \<open>usize as u32\<close> truncates.
\<close>

definition create_backup_version_route ::
  "str \<Rightarrow> bytes \<Rightarrow> 'a backups_db_scheme \<Rightarrow> str result \<times> 'a backups_db_scheme" where
  "create_backup_version_route sender_user algorithm db = create_backup sender_user algorithm db"

definition update_backup_version_route ::
  "str \<Rightarrow> str \<Rightarrow> bytes \<Rightarrow> 'a backups_db_scheme \<Rightarrow> unit result \<times> 'a backups_db_scheme" where
  "update_backup_version_route sender_user version algorithm db =
     step_then (update_backup sender_user version algorithm db) (\<lambda>_ db. (Ok (), db))"

text \<open>The count and etag that most responses carry.\<close>

definition backup_status :: "str \<Rightarrow> str \<Rightarrow> 'a backups_db_scheme \<Rightarrow> (32 word \<times> str) result" where
  "backup_status sender_user version db =
     and_then (count_keys sender_user version db) (\<lambda>n.
     and_then (get_etag sender_user version db) (\<lambda>etag. Ok (of_nat n, etag)))"

definition get_latest_backup_info_route ::
  "backup_codec \<Rightarrow> str \<Rightarrow> 'a backups_db_scheme \<Rightarrow> (bytes \<times> (32 word \<times> str) \<times> str) result" where
  "get_latest_backup_info_route K sender_user db =
     and_then (get_latest_backup K sender_user db) (\<lambda>latest.
     and_then (ok_or (BadRequest NotFound ''Key backup does not exist.'') latest) (\<lambda>(version, algorithm).
     and_then (backup_status sender_user version db) (\<lambda>status. Ok (algorithm, status, version))))"

definition get_backup_info_route ::
  "backup_codec \<Rightarrow> str \<Rightarrow> str \<Rightarrow> 'a backups_db_scheme \<Rightarrow> (bytes \<times> (32 word \<times> str) \<times> str) result" where
  "get_backup_info_route K sender_user version db =
     and_then (get_backup K sender_user version db) (\<lambda>found.
     and_then (ok_or (BadRequest NotFound ''Key backup does not exist.'') found) (\<lambda>algorithm.
     and_then (backup_status sender_user version db) (\<lambda>status. Ok (algorithm, status, version))))"

definition delete_backup_version_route :: "str \<Rightarrow> str \<Rightarrow> 'a backups_db_scheme \<Rightarrow> 'a backups_db_scheme" where
  "delete_backup_version_route sender_user version db = delete_backup sender_user version db"

definition only_latest :: "str \<Rightarrow> str \<Rightarrow> 'a backups_db_scheme \<Rightarrow> unit result" where
  "only_latest sender_user version db =
     and_then (get_latest_backup_version sender_user db) (\<lambda>latest.
       if Some version \<noteq> latest
       then Err (BadRequest InvalidParam ''You may only manipulate the most recently created version of the backup.'')
       else Ok ())"

fun add_sessions ::
  "str \<Rightarrow> str \<Rightarrow> str \<Rightarrow> (str \<times> bytes) list \<Rightarrow> 'a backups_db_scheme \<Rightarrow> unit result \<times> 'a backups_db_scheme" where
  "add_sessions sender_user version room_id [] db = (Ok (), db)"
| "add_sessions sender_user version room_id ((session_id, key_data) # sessions) db =
     step_then (add_key sender_user version room_id session_id key_data db) (\<lambda>_ db.
       add_sessions sender_user version room_id sessions db)"

fun add_rooms ::
  "str \<Rightarrow> str \<Rightarrow> (str \<times> (str \<times> bytes) list) list \<Rightarrow> 'a backups_db_scheme \<Rightarrow> unit result \<times> 'a backups_db_scheme" where
  "add_rooms sender_user version [] db = (Ok (), db)"
| "add_rooms sender_user version ((room_id, sessions) # rooms) db =
     step_then (add_sessions sender_user version room_id sessions db) (\<lambda>_ db. add_rooms sender_user version rooms db)"

definition add_backup_keys_route ::
  "str \<Rightarrow> str \<Rightarrow> (str \<times> (str \<times> bytes) list) list \<Rightarrow> 'a backups_db_scheme
     \<Rightarrow> (32 word \<times> str) result \<times> 'a backups_db_scheme" where
  "add_backup_keys_route sender_user version rooms db =
     step_then (only_latest sender_user version db, db) (\<lambda>_ db.
     step_then (add_rooms sender_user version rooms db) (\<lambda>_ db. (backup_status sender_user version db, db)))"

definition add_backup_keys_for_room_route ::
  "str \<Rightarrow> str \<Rightarrow> str \<Rightarrow> (str \<times> bytes) list \<Rightarrow> 'a backups_db_scheme \<Rightarrow> (32 word \<times> str) result \<times> 'a backups_db_scheme" where
  "add_backup_keys_for_room_route sender_user version room_id sessions db =
     step_then (only_latest sender_user version db, db) (\<lambda>_ db.
     step_then (add_sessions sender_user version room_id sessions db) (\<lambda>_ db.
       (backup_status sender_user version db, db)))"

definition add_backup_keys_for_session_route ::
  "str \<Rightarrow> str \<Rightarrow> str \<Rightarrow> str \<Rightarrow> bytes \<Rightarrow> 'a backups_db_scheme \<Rightarrow> (32 word \<times> str) result \<times> 'a backups_db_scheme" where
  "add_backup_keys_for_session_route sender_user version room_id session_id session_data db =
     step_then (only_latest sender_user version db, db) (\<lambda>_ db.
     step_then (add_key sender_user version room_id session_id session_data db) (\<lambda>_ db.
       (backup_status sender_user version db, db)))"

definition get_backup_keys_route ::
  "backup_codec \<Rightarrow> ruma \<Rightarrow> str \<Rightarrow> str \<Rightarrow> 'a backups_db_scheme \<Rightarrow> (str \<rightharpoonup> (str \<rightharpoonup> bytes)) result" where
  "get_backup_keys_route K R sender_user version db = get_all K R sender_user version db"

definition get_backup_keys_for_room_route ::
  "backup_codec \<Rightarrow> str \<Rightarrow> str \<Rightarrow> str \<Rightarrow> 'a backups_db_scheme \<Rightarrow> (str \<rightharpoonup> bytes) result" where
  "get_backup_keys_for_room_route K sender_user version room_id db = get_room K sender_user version room_id db"

definition get_backup_keys_for_session_route ::
  "backup_codec \<Rightarrow> str \<Rightarrow> str \<Rightarrow> str \<Rightarrow> str \<Rightarrow> 'a backups_db_scheme \<Rightarrow> bytes result" where
  "get_backup_keys_for_session_route K sender_user version room_id session_id db =
     and_then (get_session K sender_user version room_id session_id db)
       (ok_or (BadRequest NotFound ''Backup key not found for this user's session.''))"

definition delete_backup_keys_route ::
  "str \<Rightarrow> str \<Rightarrow> 'a backups_db_scheme \<Rightarrow> (32 word \<times> str) result \<times> 'a backups_db_scheme" where
  "delete_backup_keys_route sender_user version db =
     (let db = delete_all_keys sender_user version db in (backup_status sender_user version db, db))"

definition delete_backup_keys_for_room_route ::
  "str \<Rightarrow> str \<Rightarrow> str \<Rightarrow> 'a backups_db_scheme \<Rightarrow> (32 word \<times> str) result \<times> 'a backups_db_scheme" where
  "delete_backup_keys_for_room_route sender_user version room_id db =
     (let db = delete_room_keys sender_user version room_id db in (backup_status sender_user version db, db))"

definition delete_backup_keys_for_session_route ::
  "str \<Rightarrow> str \<Rightarrow> str \<Rightarrow> str \<Rightarrow> 'a backups_db_scheme \<Rightarrow> (32 word \<times> str) result \<times> 'a backups_db_scheme" where
  "delete_backup_keys_for_session_route sender_user version room_id session_id db =
     (let db = delete_room_key sender_user version room_id session_id db in (backup_status sender_user version db, db))"

section \<open>Properties\<close>

text \<open>
  Once a user has a backup version that is greater as text, keys cannot be added to the newest version
  any more: with versions 9 and 11, all three handlers refuse version 11 and change nothing.
\<close>

theorem newer_backup_refused:
  assumes "backups_inv db" "kv_get (backupid_algorithm db) (backup_key u w) \<noteq> None"
    and "\<forall>v'. kv_get (backupid_algorithm db) (backup_key u v') \<noteq> None \<longrightarrow> utf8 v' \<and> v' \<le> w" "v \<noteq> w"
  defines "refusal \<equiv> BadRequest InvalidParam ''You may only manipulate the most recently created version of the backup.''"
  shows "add_backup_keys_route u v rooms db = (Err refusal, db)
    \<and> add_backup_keys_for_room_route u v r sessions db = (Err refusal, db)
    \<and> add_backup_keys_for_session_route u v r s k db = (Err refusal, db)"
proof -
  have "only_latest u v db = Err refusal"
    using latest_version_greatest [OF assms(1-3)] assms(4) by (simp add: only_latest_def refusal_def)
  then show ?thesis
    by (simp add: add_backup_keys_route_def add_backup_keys_for_room_route_def add_backup_keys_for_session_route_def)
qed

theorem newer_backup_refused_witness:
  "add_backup_keys_for_session_route alice (ascii ''11'') (ascii ''!r:h'') (ascii ''s'') [] two_backups
     = (Err (BadRequest InvalidParam ''You may only manipulate the most recently created version of the backup.''), two_backups)"
proof -
  have "utf8 (ascii ''11'')" "utf8 (ascii ''9'')" "ascii ''11'' \<le> ascii ''9''" "ascii ''11'' \<noteq> ascii ''9''"
    by (simp_all add: ascii_def)
  then have v: "\<forall>v'. kv_get (backupid_algorithm two_backups) (backup_key alice v') \<noteq> None \<longrightarrow> utf8 v' \<and> v' \<le> ascii ''9''"
    unfolding two_backups_versions by auto
  have "kv_get (backupid_algorithm two_backups) (backup_key alice (ascii ''9'')) \<noteq> None"
    unfolding two_backups_versions by simp
  from newer_backup_refused [OF two_backups_inv this v \<open>ascii ''11'' \<noteq> ascii ''9''\<close>] show ?thesis by blast
qed

end
