(* ===== verification/Media.thy ===== *)
theory Media
  imports KvTree
begin

text \<open>
  The media tables of \<^verbatim>\<open>server/src/database/key_value/media.rs\<close>: uploaded files and thumbnails, which
  are stored once per SHA-256 digest and shared by all media ids with that content, the users who
  uploaded them, and the media that administrators blocked. This theory holds the record, the
  encodings of its rows and the operations that create, find, describe, list and block media;
  \<open>MediaPurge\<close> holds those that delete.
\<close>

section \<open>State and rows\<close>

type_synonym u32 = "32 word"

record media_db =
  filehash_metadata :: kvtree
  filehash_servername_mediaid :: kvtree
  filehash_thumbnailid :: kvtree
  servernamemediaid_metadata :: kvtree
  servernamemediaid_userlocalpart :: kvtree
  servername_userlocalpart_mediaid :: kvtree
  thumbnailid_metadata :: kvtree
  blocked_servername_mediaid :: kvtree

text \<open>
  What the code takes from elsewhere: \<open>hex::encode\<close>, \<open>UserId::server_name\<close> and \<open>UserId::localpart\<close>,
  the grammar of server names, and the configured name of this server.
\<close>

record media_env =
  hex_encode :: "bytes \<Rightarrow> str"
  user_server :: "str \<Rightarrow> str"
  user_local :: "str \<Rightarrow> str"
  server_name_ok :: "str \<Rightarrow> bool"
  own_server :: str

record db_file_meta =
  sha256_digest :: bytes
  filename :: "str option"
  content_type :: "str option"
  unauthenticated_access_permitted :: bool

record file_info =
  info_creation :: u64
  info_last_access :: u64
  info_size :: u64

record media_query_file_info =
  qf_uploader_localpart :: "str option"
  qf_sha256_hex :: str
  qf_filename :: "str option"
  qf_content_type :: "str option"
  qf_unauthenticated_access_permitted :: bool
  qf_is_blocked_via_filehash :: bool
  qf_file_info :: "file_info option"

record media_query_thumb_info =
  qt_width :: u32
  qt_height :: u32
  qt_sha256_hex :: str
  qt_filename :: "str option"
  qt_content_type :: "str option"
  qt_unauthenticated_access_permitted :: bool
  qt_is_blocked_via_filehash :: bool
  qt_file_info :: "file_info option"

record media_query =
  mq_is_blocked :: bool
  mq_source_file :: "media_query_file_info option"
  mq_thumbnails :: "media_query_thumb_info list"

record media_list_item =
  li_server_name :: str
  li_media_id :: str
  li_uploader_localpart :: "str option"
  li_content_type :: "str option"
  li_filename :: "str option"
  li_dimensions :: "(u32 \<times> u32) option"
  li_size :: u64
  li_creation :: u64

record blocked_media_info =
  bm_server_name :: str
  bm_media_id :: str
  bm_unix_secs :: u64
  bm_reason :: "str option"
  bm_sha256_hex :: "str option"

datatype server_name_or_user_id = ServerName str | UserId str

subsection \<open>\<open>FilehashMetadata\<close>\<close>

text \<open>Size, creation and last access as three big-endian numbers.\<close>

definition new_with_times :: "u64 \<Rightarrow> u64 \<Rightarrow> u64 \<Rightarrow> bytes" where
  "new_with_times file_size creation last_access =
     to_be_bytes file_size @ to_be_bytes creation @ to_be_bytes last_access"

definition new_metadata :: "u64 \<Rightarrow> u64 \<Rightarrow> bytes" where
  "new_metadata now file_size = to_be_bytes file_size @ to_be_bytes now @ to_be_bytes now"

definition update_last_access :: "u64 \<Rightarrow> bytes \<Rightarrow> bytes" where
  "update_last_access now value = take 16 value @ to_be_bytes now"

definition get_u64_val :: "nat \<Rightarrow> nat \<Rightarrow> string \<Rightarrow> bytes \<Rightarrow> u64 result" where
  "get_u64_val from until invalid_error value =
     (if from \<le> until \<and> until \<le> length value
      then ok_or (BadDatabase invalid_error) (u64_from_bytes (take (until - from) (drop from value)))
      else Err (BadDatabase ''Invalid format of metadata in filehash_metadata''))"

definition size_of :: "bytes \<Rightarrow> u64 result" where
  "size_of = get_u64_val 0 8 ''Invalid file size in filehash_metadata''"

definition creation_of :: "bytes \<Rightarrow> u64 result" where
  "creation_of = get_u64_val 8 16 ''Invalid creation time in filehash_metadata''"

definition last_access_of :: "bytes \<Rightarrow> u64 result" where
  "last_access_of = get_u64_val 16 24 ''Invalid last access time in filehash_metadata''"

subsection \<open>Keys and metadata values\<close>

definition u32_bytes :: "u32 \<Rightarrow> bytes" where
  "u32_bytes n = be_bytes 4 (unat n)"

definition media_key :: "str \<Rightarrow> str \<Rightarrow> bytes" where
  "media_key server media_id = server @ [sep] @ media_id"

definition thumbnail_key :: "str \<Rightarrow> str \<Rightarrow> u32 \<Rightarrow> u32 \<Rightarrow> bytes" where
  "thumbnail_key server media_id width height =
     media_key server media_id @ [sep] @ u32_bytes width @ u32_bytes height"

definition uploader_key :: "str \<Rightarrow> str \<Rightarrow> str \<Rightarrow> bytes" where
  "uploader_key server localpart media_id = server @ [sep] @ localpart @ [sep] @ media_id"

definition metadata_value :: "bytes \<Rightarrow> str option \<Rightarrow> str option \<Rightarrow> bytes" where
  "metadata_value digest fname ctype =
     digest @ (case fname of Some f \<Rightarrow> f | None \<Rightarrow> []) @ [sep] @ (case ctype of Some c \<Rightarrow> c | None \<Rightarrow> [])"

text \<open>The n-th \<open>next()\<close> of an iterator.\<close>

definition part :: "nat \<Rightarrow> 'a list \<Rightarrow> 'a option" where
  "part i xs = (if i < length xs then Some (xs ! i) else None)"

definition non_empty :: "str option \<Rightarrow> str option" where
  "non_empty x = (case x of Some s \<Rightarrow> if s = [] then None else Some s | None \<Rightarrow> None)"

definition utf8_part :: "string \<Rightarrow> bytes option \<Rightarrow> str option result" where
  "utf8_part e = map_transpose (\<lambda>b. ok_or (BadDatabase e) (string_from_bytes b))"

definition parse_metadata :: "bytes \<Rightarrow> db_file_meta result" where
  "parse_metadata value =
     (if length value < 32 then Err (BadDatabase ''Invalid format for media metadata'')
      else let parts = split_sep (drop 32 value) in
        and_then (utf8_part ''filename in media metadata is invalid unicode'' (part 0 parts)) (\<lambda>fname.
        and_then (utf8_part ''content type in media metadata is invalid unicode'' (part 1 parts)) (\<lambda>ctype.
          Ok \<lparr>sha256_digest = take 32 value, filename = non_empty fname,
              content_type = non_empty ctype,
              unauthenticated_access_permitted = (part 2 parts = Some [])\<rparr>)))"

definition dimensions_from_thumbnailid :: "bytes \<Rightarrow> (u32 \<times> u32) result" where
  "dimensions_from_thumbnailid thumbnail_id =
     (if length thumbnail_id < 8 then Err (BadDatabase ''Invalid format of dimensions from thumbnailid'')
      else let tail = drop (length thumbnail_id - 8) thumbnail_id
           in Ok (of_nat (be_val (take 4 tail)), of_nat (be_val (drop 4 tail))))"

section \<open>Creating and finding\<close>

definition create_file_metadata ::
  "media_env \<Rightarrow> u64 \<Rightarrow> bytes \<Rightarrow> u64 \<Rightarrow> str \<Rightarrow> str \<Rightarrow> str option \<Rightarrow> str option \<Rightarrow> str option \<Rightarrow> bool
    \<Rightarrow> 'a media_db_scheme \<Rightarrow> 'a media_db_scheme" where
  "create_file_metadata M now digest file_size server media_id fname ctype user_id is_blocked db =
     (let db = (if is_blocked then db
                else db\<lparr>filehash_metadata :=
                          kv_insert (filehash_metadata db) digest (new_metadata now file_size)\<rparr>);
          key = media_key server media_id;
          db = db\<lparr>filehash_servername_mediaid :=
                    kv_insert (filehash_servername_mediaid db) (digest @ key) []\<rparr>;
          db = db\<lparr>servernamemediaid_metadata :=
                    kv_insert (servernamemediaid_metadata db) key (metadata_value digest fname ctype)\<rparr>
      in case user_id of
           None \<Rightarrow> db
         | Some u \<Rightarrow>
             db\<lparr>servername_userlocalpart_mediaid :=
                  kv_insert (servername_userlocalpart_mediaid db)
                    (uploader_key server (user_local M u) media_id) [],
                servernamemediaid_userlocalpart :=
                  kv_insert (servernamemediaid_userlocalpart db) key (user_local M u)\<rparr>)"

text \<open>The tail of both searches: the file counts as present only with metadata of its digest.\<close>

definition stored_metadata :: "bytes option \<Rightarrow> 'a media_db_scheme \<Rightarrow> db_file_meta result" where
  "stored_metadata row db =
     and_then (ok_or (BadRequest NotFound ''Media not found.'') row) (\<lambda>value.
     and_then (parse_metadata value) (\<lambda>meta.
       ok_or (BadRequest NotFound ''Media not found.'')
         (map_option (\<lambda>_. meta) (kv_get (filehash_metadata db) (sha256_digest meta)))))"

definition search_file_metadata :: "str \<Rightarrow> str \<Rightarrow> 'a media_db_scheme \<Rightarrow> db_file_meta result" where
  "search_file_metadata server media_id db =
     stored_metadata (kv_get (servernamemediaid_metadata db) (media_key server media_id)) db"

definition create_thumbnail_metadata ::
  "u64 \<Rightarrow> bytes \<Rightarrow> u64 \<Rightarrow> str \<Rightarrow> str \<Rightarrow> u32 \<Rightarrow> u32 \<Rightarrow> str option \<Rightarrow> str option
    \<Rightarrow> 'a media_db_scheme \<Rightarrow> 'a media_db_scheme" where
  "create_thumbnail_metadata now digest file_size server media_id width height fname ctype db =
     (let key = thumbnail_key server media_id width height in
      db\<lparr>filehash_metadata := kv_insert (filehash_metadata db) digest (new_metadata now file_size),
         filehash_thumbnailid := kv_insert (filehash_thumbnailid db) (digest @ key) [],
         thumbnailid_metadata :=
           kv_insert (thumbnailid_metadata db) key (metadata_value digest fname ctype)\<rparr>)"

definition search_thumbnail_metadata ::
  "str \<Rightarrow> str \<Rightarrow> u32 \<Rightarrow> u32 \<Rightarrow> 'a media_db_scheme \<Rightarrow> db_file_meta result" where
  "search_thumbnail_metadata server media_id width height db =
     stored_metadata (kv_get (thumbnailid_metadata db) (thumbnail_key server media_id width height)) db"

section \<open>Blocked media\<close>

definition is_directly_blocked :: "str \<Rightarrow> str \<Rightarrow> 'a media_db_scheme \<Rightarrow> bool" where
  "is_directly_blocked server media_id db \<longleftrightarrow>
     kv_get (blocked_servername_mediaid db) (media_key server media_id) \<noteq> None"

text \<open>The media id in a key of \<open>filehash_servername_mediaid\<close> and of \<open>filehash_thumbnailid\<close>.\<close>

definition id_of_filehash_key :: "bytes \<Rightarrow> bytes option" where
  "id_of_filehash_key k = (if 32 \<le> length k then Some (drop 32 k) else None)"

definition id_of_thumbnail_key :: "bytes \<Rightarrow> bytes option" where
  "id_of_thumbnail_key k =
     (if 9 \<le> length k \<and> 32 \<le> length k - 9 then Some (drop 32 (take (length k - 9) k)) else None)"

fun any_blocked ::
  "error \<Rightarrow> (bytes \<Rightarrow> bytes option) \<Rightarrow> (bytes \<times> bytes) list \<Rightarrow> 'a media_db_scheme \<Rightarrow> bool result" where
  "any_blocked e id_of [] db = Ok False"
| "any_blocked e id_of ((k, _) # rows) db =
     (case id_of k of
        None \<Rightarrow> Err e
      | Some servername_mediaid \<Rightarrow>
          if kv_get (blocked_servername_mediaid db) servername_mediaid \<noteq> None then Ok True
          else any_blocked e id_of rows db)"

definition is_blocked_filehash :: "bytes \<Rightarrow> 'a media_db_scheme \<Rightarrow> bool result" where
  "is_blocked_filehash digest db =
     and_then (any_blocked (BadDatabase ''Invalid format of key in filehash_servername_mediaid'')
        id_of_filehash_key (kv_scan_prefix (filehash_servername_mediaid db) digest) db) (\<lambda>b.
       if b then Ok True
       else any_blocked (BadDatabase ''Invalid format of value in filehash_thumbnailid'')
              id_of_thumbnail_key (kv_scan_prefix (filehash_thumbnailid db) digest) db)"

definition is_blocked :: "str \<Rightarrow> str \<Rightarrow> 'a media_db_scheme \<Rightarrow> bool result" where
  "is_blocked server media_id db =
     (if is_directly_blocked server media_id db then Ok True
      else case kv_get (servernamemediaid_metadata db) (media_key server media_id) of
             None \<Rightarrow> Ok False
           | Some metadata \<Rightarrow>
               and_then (parse_metadata metadata) (\<lambda>meta. is_blocked_filehash (sha256_digest meta) db))"

definition block :: "(str \<times> str) list \<Rightarrow> u64 \<Rightarrow> str option \<Rightarrow> 'a media_db_scheme \<Rightarrow> 'a media_db_scheme" where
  "block media unix_secs reason db =
     (let value = to_be_bytes unix_secs @ (case reason of Some r \<Rightarrow> r | None \<Rightarrow> [])
      in db\<lparr>blocked_servername_mediaid :=
              fold (\<lambda>(server, media_id) t. kv_insert t (media_key server media_id) value) media
                (blocked_servername_mediaid db)\<rparr>)"

text \<open>One upload of the user: its error, if any, and the new state.\<close>

definition block_upload ::
  "str \<Rightarrow> bytes \<Rightarrow> u64 option \<Rightarrow> bytes \<Rightarrow> 'a media_db_scheme \<Rightarrow> unit result \<times> 'a media_db_scheme" where
  "block_upload server value after k db =
     (let key = server @ [sep] @ last (split_sep k) in
      case kv_get (servernamemediaid_metadata db) key of
        None \<Rightarrow> (Err (BadDatabase ''Invalid format of metadata in servernamemediaid_metadata''), db)
      | Some meta \<Rightarrow>
          (case kv_get (filehash_metadata db) (take 32 meta) of
             None \<Rightarrow> (Ok (), db)
           | Some metadata \<Rightarrow>
               (case map_transpose (\<lambda>a. and_then (creation_of metadata) (\<lambda>c. Ok (c > a))) after of
                  Inl e \<Rightarrow> (Err e, db)
                | Inr recent \<Rightarrow>
                    if (case recent of Some b \<Rightarrow> b | None \<Rightarrow> True)
                    then (Ok (), db\<lparr>blocked_servername_mediaid :=
                                      kv_insert (blocked_servername_mediaid db) key value\<rparr>)
                    else (Ok (), db))))"

fun block_uploads ::
  "str \<Rightarrow> bytes \<Rightarrow> u64 option \<Rightarrow> (bytes \<times> bytes) list \<Rightarrow> 'a media_db_scheme
    \<Rightarrow> error list \<times> 'a media_db_scheme" where
  "block_uploads server value after [] db = ([], db)"
| "block_uploads server value after ((k, _) # rows) db =
     (let (r, db) = block_upload server value after k db;
          (errors, db) = block_uploads server value after rows db
      in ((case r of Inl e \<Rightarrow> e # errors | Inr _ \<Rightarrow> errors), db))"

definition block_from_user ::
  "media_env \<Rightarrow> str \<Rightarrow> u64 \<Rightarrow> str \<Rightarrow> u64 option \<Rightarrow> 'a media_db_scheme \<Rightarrow> error list \<times> 'a media_db_scheme" where
  "block_from_user M user_id now reason after db =
     block_uploads (user_server M user_id) (to_be_bytes now @ reason) after
       (kv_scan_prefix (servername_userlocalpart_mediaid db)
          (user_server M user_id @ [sep] @ user_local M user_id @ [sep])) db"

definition blocked_row ::
  "media_env \<Rightarrow> 'a media_db_scheme \<Rightarrow> bytes \<times> bytes \<Rightarrow> blocked_media_info result" where
  "blocked_row M db row =
     (let k = fst row; v = snd row; parts = split_sep k in
      and_then (ok_or (BadDatabase ''Invalid format of metadata of blocked media'') (part 0 parts)) (\<lambda>s.
      and_then (ok_or (BadDatabase ''Invalid server_name String of blocked data'') (string_from_bytes s)) (\<lambda>s.
      and_then (if server_name_ok M s then Ok s
                else Err (BadDatabase ''Invalid ServerName in blocked_servername_mediaid'')) (\<lambda>server.
      and_then (ok_or (BadDatabase ''Invalid format of metadata of blocked media'') (part 1 parts)) (\<lambda>m.
      and_then (ok_or (BadDatabase ''Invalid string in blocked media metadata'') (string_from_bytes m)) (\<lambda>media_id.
      and_then (if length v < 8
                then Err (BadDatabase ''Invalid format of value in blocked_servername_mediaid'')
                else Ok (take 8 v, drop 8 v)) (\<lambda>(secs, reason).
      and_then (ok_or (BadDatabase ''Invalid block time in blocked_servername_mediaid '')
                  (u64_from_bytes secs)) (\<lambda>unix_secs.
      and_then (if reason = [] then Ok None
                else map_transpose (\<lambda>r. ok_or (BadDatabase ''Invalid string in blocked media metadata'')
                       (string_from_bytes r)) (Some reason)) (\<lambda>reason.
        Ok \<lparr>bm_server_name = server, bm_media_id = media_id, bm_unix_secs = unix_secs,
            bm_reason = reason,
            bm_sha256_hex = map_option (\<lambda>meta. hex_encode M (take 32 meta))
              (kv_get (servernamemediaid_metadata db) k)\<rparr>)))))))))"

definition list_blocked :: "media_env \<Rightarrow> 'a media_db_scheme \<Rightarrow> blocked_media_info result list" where
  "list_blocked M db = map (blocked_row M db) (kv_iter (blocked_servername_mediaid db))"

section \<open>Describing and listing\<close>

definition file_info_of :: "bytes \<Rightarrow> 'a media_db_scheme \<Rightarrow> file_info option result" where
  "file_info_of digest db =
     map_transpose (\<lambda>meta.
       and_then (creation_of meta) (\<lambda>c.
       and_then (last_access_of meta) (\<lambda>a.
       and_then (size_of meta) (\<lambda>s.
         Ok \<lparr>info_creation = c, info_last_access = a, info_size = s\<rparr>))))
       (kv_get (filehash_metadata db) digest)"

definition query_source ::
  "media_env \<Rightarrow> bytes \<Rightarrow> 'a media_db_scheme \<Rightarrow> bytes \<Rightarrow> media_query_file_info result" where
  "query_source M key db value =
     and_then (parse_metadata value) (\<lambda>meta.
     and_then (map_transpose (\<lambda>l. ok_or (BadDatabase ''Invalid UTF-8 in value of servernamemediaid_userlocalpart'')
                 (string_from_bytes l)) (kv_get (servernamemediaid_userlocalpart db) key)) (\<lambda>uploader.
     and_then (is_blocked_filehash (sha256_digest meta) db) (\<lambda>blocked.
     and_then (file_info_of (sha256_digest meta) db) (\<lambda>info.
       Ok \<lparr>qf_uploader_localpart = uploader, qf_sha256_hex = hex_encode M (sha256_digest meta),
           qf_filename = filename meta, qf_content_type = content_type meta,
           qf_unauthenticated_access_permitted = unauthenticated_access_permitted meta,
           qf_is_blocked_via_filehash = blocked, qf_file_info = info\<rparr>))))"

definition query_thumbnail ::
  "media_env \<Rightarrow> 'a media_db_scheme \<Rightarrow> bytes \<times> bytes \<Rightarrow> media_query_thumb_info result" where
  "query_thumbnail M db row =
     and_then (dimensions_from_thumbnailid (fst row)) (\<lambda>(width, height).
     and_then (parse_metadata (snd row)) (\<lambda>meta.
     and_then (is_blocked_filehash (sha256_digest meta) db) (\<lambda>blocked.
     and_then (file_info_of (sha256_digest meta) db) (\<lambda>info.
       Ok \<lparr>qt_width = width, qt_height = height, qt_sha256_hex = hex_encode M (sha256_digest meta),
           qt_filename = filename meta, qt_content_type = content_type meta,
           qt_unauthenticated_access_permitted = unauthenticated_access_permitted meta,
           qt_is_blocked_via_filehash = blocked, qt_file_info = info\<rparr>))))"

definition query_media :: "media_env \<Rightarrow> str \<Rightarrow> str \<Rightarrow> 'a media_db_scheme \<Rightarrow> media_query result" where
  "query_media M server media_id db =
     (let key = media_key server media_id in
      and_then (map_transpose (query_source M key db) (kv_get (servernamemediaid_metadata db) key)) (\<lambda>source.
      and_then (collect_result (map (query_thumbnail M db)
                  (kv_scan_prefix (thumbnailid_metadata db) (key @ [sep])))) (\<lambda>thumbnails.
        Ok \<lparr>mq_is_blocked = is_directly_blocked server media_id db, mq_source_file = source,
            mq_thumbnails = thumbnails\<rparr>)))"

definition list_filter ::
  "str option \<Rightarrow> u64 option \<Rightarrow> u64 option \<Rightarrow> media_list_item \<Rightarrow> bool" where
  "list_filter ctype before after item \<longleftrightarrow>
     (case ctype of
        None \<Rightarrow> True
      | Some ct_filter \<Rightarrow>
          (case li_content_type item of
             None \<Rightarrow> False
           | Some item_ct \<Rightarrow>
               if 47 \<in> set ct_filter then item_ct = ct_filter
               else starts_with item_ct (ct_filter @ ascii ''/'')))
     \<and> (case before of None \<Rightarrow> True | Some b \<Rightarrow> li_creation item < b)
     \<and> (case after of None \<Rightarrow> True | Some a \<Rightarrow> li_creation item > a)"

text \<open>The item for a media id or thumbnail whose file is stored and passes the filter.\<close>

definition list_item ::
  "(media_list_item \<Rightarrow> bool) \<Rightarrow> str \<Rightarrow> str \<Rightarrow> str option \<Rightarrow> (u32 \<times> u32) option \<Rightarrow> db_file_meta
    \<Rightarrow> 'a media_db_scheme \<Rightarrow> media_list_item option result" where
  "list_item keep server media_id uploader dims meta db =
     (case kv_get (filehash_metadata db) (sha256_digest meta) of
        None \<Rightarrow> Ok None
      | Some value \<Rightarrow>
          and_then (size_of value) (\<lambda>s.
          and_then (creation_of value) (\<lambda>c.
            let item = \<lparr>li_server_name = server, li_media_id = media_id, li_uploader_localpart = uploader,
                        li_content_type = content_type meta, li_filename = filename meta,
                        li_dimensions = dims, li_size = s, li_creation = c\<rparr>
            in Ok (if keep item then Some item else None))))"

definition media_id_part :: "bytes option \<Rightarrow> str result" where
  "media_id_part p =
     and_then (ok_or (BadDatabase ''Invalid format of key in servernamemediaid_metadata'') p) (\<lambda>b.
       ok_or (BadDatabase ''Invalid Media ID String in servernamemediaid_metadata'') (string_from_bytes b))"

definition list_file_row ::
  "(media_list_item \<Rightarrow> bool) \<Rightarrow> 'a media_db_scheme \<Rightarrow> bytes \<Rightarrow> bytes option \<Rightarrow> str
    \<Rightarrow> media_list_item option result" where
  "list_file_row keep db v next_part server =
     and_then (media_id_part next_part) (\<lambda>media_id.
     and_then (map_transpose (\<lambda>l. ok_or (BadDatabase ''Invalid uploader localpart in servernamemediaid_userlocalpart'')
                 (string_from_bytes l))
                 (kv_get (servernamemediaid_userlocalpart db) (media_key server media_id))) (\<lambda>uploader.
     and_then (parse_metadata v) (\<lambda>meta. list_item keep server media_id uploader None meta db)))"

definition list_thumbnail_row ::
  "(media_list_item \<Rightarrow> bool) \<Rightarrow> 'a media_db_scheme \<Rightarrow> bytes \<Rightarrow> bytes \<Rightarrow> bytes option \<Rightarrow> str
    \<Rightarrow> media_list_item option result" where
  "list_thumbnail_row keep db k v next_part server =
     and_then (media_id_part next_part) (\<lambda>media_id.
     and_then (dimensions_from_thumbnailid k) (\<lambda>dims.
     and_then (parse_metadata v) (\<lambda>meta. list_item keep server media_id None (Some dims) meta db)))"

text \<open>\<open>filter_map(Result::transpose).collect::<Result<Vec<_>>>()\<close>.\<close>

definition collect_items :: "'b option result list \<Rightarrow> 'b list result" where
  "collect_items rs = and_then (collect_result rs) (\<lambda>xs. Ok (List.map_filter id xs))"

definition key_server :: "media_env \<Rightarrow> bytes list \<Rightarrow> str result" where
  "key_server M parts =
     and_then (ok_or (BadDatabase ''Invalid format of key in servernamemediaid_metadata'') (part 0 parts)) (\<lambda>b.
     and_then (ok_or (BadDatabase ''Invalid ServerName String in servernamemediaid_metadata'')
                 (string_from_bytes b)) (\<lambda>s.
       if server_name_ok M s then Ok s
       else Err (BadDatabase ''Invalid ServerName String in servernamemediaid_metadata'')))"

definition list_upload ::
  "media_env \<Rightarrow> (media_list_item \<Rightarrow> bool) \<Rightarrow> str \<Rightarrow> bool \<Rightarrow> 'a media_db_scheme \<Rightarrow> bytes
    \<Rightarrow> media_list_item list result" where
  "list_upload M keep user_id include_thumbnails db k =
     (let server = user_server M user_id; local = user_local M user_id in
      and_then (ok_or (BadDatabase ''Invalid Media ID String in servername_userlocalpart_mediaid'')
                  (string_from_bytes (hd (rsplit_sep k)))) (\<lambda>media_id.
      let key = media_key server media_id in
      and_then (map_transpose parse_metadata (kv_get (servernamemediaid_metadata db) key)) (\<lambda>row.
      case row of
        None \<Rightarrow> Err (BadDatabase ''Missing metadata for media, despite storing it's uploader'')
      | Some meta \<Rightarrow>
          and_then (list_item keep server media_id (Some local) None meta db) (\<lambda>item.
          let media = (case item of Some i \<Rightarrow> [i] | None \<Rightarrow> []) in
          if include_thumbnails
          then and_then (collect_items (map (\<lambda>(k, v).
                   and_then (parse_metadata v) (\<lambda>meta.
                   and_then (dimensions_from_thumbnailid k) (\<lambda>dims.
                     list_item keep server media_id (Some local) (Some dims) meta db)))
                   (kv_scan_prefix (thumbnailid_metadata db) (key @ [sep])))) (\<lambda>thumbnails.
                 Ok (media @ thumbnails))
          else Ok media))))"

definition list_media ::
  "media_env \<Rightarrow> server_name_or_user_id option \<Rightarrow> bool \<Rightarrow> str option \<Rightarrow> u64 option \<Rightarrow> u64 option
    \<Rightarrow> 'a media_db_scheme \<Rightarrow> media_list_item list result" where
  "list_media M whose include_thumbnails ctype before after db =
     (let keep = list_filter ctype before after in
      case whose of
        Some (ServerName server) \<Rightarrow>
          (let prefix = server @ [sep] in
           and_then (collect_items (map (\<lambda>(k, v). list_file_row keep db v (part 0 (rsplit_sep k)) server)
                       (kv_scan_prefix (servernamemediaid_metadata db) prefix))) (\<lambda>media.
           if include_thumbnails
           then and_then (collect_items (map (\<lambda>(k, v). list_thumbnail_row keep db k v (part 1 (split_sep k)) server)
                            (kv_scan_prefix (thumbnailid_metadata db) prefix))) (\<lambda>thumbnails.
                  Ok (media @ thumbnails))
           else Ok media))
      | Some (UserId user_id) \<Rightarrow>
          and_then (collect_result (map (\<lambda>(k, _). list_upload M keep user_id include_thumbnails db k)
             (kv_scan_prefix (servername_userlocalpart_mediaid db)
                (user_server M user_id @ [sep] @ user_local M user_id @ [sep])))) (\<lambda>outer. Ok (concat outer))
      | None \<Rightarrow>
          and_then (collect_items (map (\<lambda>(k, v). let parts = split_sep k in
                       and_then (key_server M parts) (\<lambda>server. list_file_row keep db v (part 1 parts) server))
                     (kv_iter (servernamemediaid_metadata db)))) (\<lambda>media.
          if include_thumbnails
          then and_then (collect_items (map (\<lambda>(k, v). let parts = split_sep k in
                           and_then (key_server M parts) (\<lambda>server. list_thumbnail_row keep db k v (part 1 parts) server))
                         (kv_iter (thumbnailid_metadata db)))) (\<lambda>thumbnails.
                 Ok (media @ thumbnails))
          else Ok media))"

section \<open>Access times\<close>

definition update_last_accessed_filehash ::
  "u64 \<Rightarrow> bytes \<Rightarrow> 'a media_db_scheme \<Rightarrow> 'a media_db_scheme" where
  "update_last_accessed_filehash now digest db =
     (case kv_get (filehash_metadata db) digest of
        Some metadata \<Rightarrow>
          db\<lparr>filehash_metadata := kv_insert (filehash_metadata db) digest (update_last_access now metadata)\<rparr>
      | None \<Rightarrow> db)"

definition update_last_accessed ::
  "u64 \<Rightarrow> str \<Rightarrow> str \<Rightarrow> 'a media_db_scheme \<Rightarrow> 'a media_db_scheme" where
  "update_last_accessed now server media_id db =
     (case kv_get (servernamemediaid_metadata db) (media_key server media_id) of
        Some meta \<Rightarrow> update_last_accessed_filehash now (take 32 meta) db
      | None \<Rightarrow> db)"

section \<open>Rows read back\<close>

lemma length_u32_bytes [simp]: "length (u32_bytes w) = 4"
  by (simp add: u32_bytes_def)

lemma u32_round_trip [simp]: "of_nat (be_val (u32_bytes w)) = w"
proof -
  have "unat w < 2 ^ 32" using unsigned_less[of w, where ?'a = nat] by simp
  then show ?thesis by (simp add: u32_bytes_def be_val_be_bytes)
qed

lemma u32_bytes_inj [simp]: "u32_bytes a = u32_bytes b \<longleftrightarrow> a = b"
  by (metis u32_round_trip)

lemma dimensions_round_trip [simp]: "dimensions_from_thumbnailid (thumbnail_key n m w h) = Ok (w, h)"
  by (simp add: dimensions_from_thumbnailid_def thumbnail_key_def Let_def)

lemma times_read_back [simp]:
  "size_of (new_with_times s c a) = Ok s"
  "creation_of (new_with_times s c a) = Ok c"
  "last_access_of (new_with_times s c a) = Ok a"
  by (simp_all add: size_of_def creation_of_def last_access_of_def get_u64_val_def new_with_times_def)

lemma new_metadata_times: "new_metadata now s = new_with_times s now now"
  by (simp add: new_metadata_def new_with_times_def)

lemma update_last_access_times [simp]:
  "update_last_access now (new_with_times s c a) = new_with_times s c now"
  by (simp add: update_last_access_def new_with_times_def)

lemma times_exist:
  assumes "length v = 24"
  shows "\<exists>s c a. v = new_with_times s c a"
proof -
  have eight: "\<exists>x. bs = to_be_bytes x" if "length bs = 8" for bs
    using that u64_from_bytes_Some[of bs "of_nat (be_val bs)"] by (auto simp: u64_from_bytes_def)
  obtain s where s: "take 8 v = to_be_bytes s" using eight[of "take 8 v"] assms by auto
  obtain c where c: "take 8 (drop 8 v) = to_be_bytes c" using eight[of "take 8 (drop 8 v)"] assms by auto
  obtain a where a: "drop 16 v = to_be_bytes a" using eight[of "drop 16 v"] assms by auto
  have "v = take 8 v @ take 8 (drop 8 v) @ drop 16 v"
    using append_take_drop_id[of 8 v] append_take_drop_id[of 8 "drop 8 v"] by simp
  then show ?thesis unfolding s c a new_with_times_def by blast
qed

lemma parse_metadata_value:
  assumes "length d = 32" "\<forall>f. fname = Some f \<longrightarrow> utf8 f" "\<forall>c. ctype = Some c \<longrightarrow> utf8 c"
  shows "parse_metadata (metadata_value d fname ctype) =
    Ok \<lparr>sha256_digest = d, filename = non_empty fname, content_type = non_empty ctype,
        unauthenticated_access_permitted = False\<rparr>"
  using assms
  by (auto simp: parse_metadata_def metadata_value_def utf8_part_def part_def non_empty_def Let_def key_simps
      utf8_no_sep split: option.splits)

lemma length_metadata_value [simp]: "length d = 32 \<Longrightarrow> 32 \<le> length (metadata_value d f c)"
  by (simp add: metadata_value_def)

lemma take_metadata_value [simp]: "length d = 32 \<Longrightarrow> take 32 (metadata_value d f c) = d"
  by (simp add: metadata_value_def)

lemma parse_metadata_digest: "parse_metadata v = Ok meta \<Longrightarrow> sha256_digest meta = take 32 v \<and> 32 \<le> length v"
  by (auto simp: parse_metadata_def Let_def and_then_eq_Inr split: if_splits)

lemma stored_metadata_Ok:
  "stored_metadata row db = Ok meta \<longleftrightarrow> (\<exists>v. row = Some v \<and> parse_metadata v = Ok meta
     \<and> kv_get (filehash_metadata db) (sha256_digest meta) \<noteq> None)"
  by (cases row) (auto simp: stored_metadata_def and_then_eq_Inr ok_or_def split: option.splits)

section \<open>The tables agree\<close>

text \<open>
  Each media table \<open>mt\<close> has an index \<open>ft\<close> by digest: a row of one exists exactly when the row of the
  other does.
\<close>

definition index_ok :: "kvtree \<Rightarrow> kvtree \<Rightarrow> bool" where
  "index_ok ft mt \<longleftrightarrow> kv_wf ft \<and> kv_wf mt
     \<and> (\<forall>k. kv_get ft k \<noteq> None \<longrightarrow> 32 \<le> length k
          \<and> (\<exists>v. kv_get mt (drop 32 k) = Some v \<and> take 32 v = take 32 k))
     \<and> (\<forall>i v. kv_get mt i = Some v \<longrightarrow> 32 \<le> length v \<and> kv_get ft (take 32 v @ i) \<noteq> None)"

lemma index_okD:
  assumes "index_ok ft mt"
  shows "kv_wf ft" "kv_wf mt"
    "kv_get ft k \<noteq> None \<Longrightarrow> 32 \<le> length k"
    "kv_get ft k \<noteq> None \<Longrightarrow> \<exists>v. kv_get mt (drop 32 k) = Some v \<and> take 32 v = take 32 k"
    "kv_get mt i = Some v \<Longrightarrow> 32 \<le> length v"
    "kv_get mt i = Some v \<Longrightarrow> kv_get ft (take 32 v @ i) \<noteq> None"
  using assms by (auto simp: index_ok_def)

lemma index_ok_insert:
  assumes ok: "index_ok ft mt" and same: "\<forall>w. kv_get mt i = Some w \<longrightarrow> take 32 w = d" and d: "length d = 32" "32 \<le> length v" "take 32 v = d"
  shows "index_ok (kv_insert ft (d @ i) x) (kv_insert mt i v)"
proof -
  note [simp] = index_okD(1,2)[OF ok] kv_get_insert kv_wf_insert
  have "32 \<le> length k \<and> (\<exists>w. kv_get (kv_insert mt i v) (drop 32 k) = Some w \<and> take 32 w = take 32 k)"
    if "kv_get (kv_insert ft (d @ i) x) k \<noteq> None" for k
  proof (cases "k = d @ i")
    case True
    then show ?thesis using d by simp
  next
    case False
    then have k: "kv_get ft k \<noteq> None" using that by simp
    have "drop 32 k \<noteq> i"
    proof
      assume i: "drop 32 k = i"
      then have "take 32 k = d" using index_okD(4)[OF ok k] same by auto
      then show False using i False append_take_drop_id[of 32 k] by simp
    qed
    then show ?thesis using index_okD(3,4)[OF ok k] by simp
  qed
  moreover have "32 \<le> length w \<and> kv_get (kv_insert ft (d @ i) x) (take 32 w @ j) \<noteq> None"
    if "kv_get (kv_insert mt i v) j = Some w" for j w
    using that d index_okD(5,6)[OF ok, of j w] by (auto split: if_splits)
  ultimately show ?thesis unfolding index_ok_def using kv_wf_insert[OF index_okD(1)[OF ok]] kv_wf_insert[OF index_okD(2)[OF ok]] by blast
qed

lemma index_ok_remove:
  assumes ok: "index_ok ft mt" and k: "kv_get ft k \<noteq> None"
  shows "index_ok (kv_remove ft k) (kv_remove mt (drop 32 k))"
proof -
  obtain v where v: "kv_get mt (drop 32 k) = Some v" "take 32 v = take 32 k" using index_okD(4)[OF ok k] by blast
  have other: "drop 32 k' \<noteq> drop 32 k" if k': "k' \<noteq> k" "kv_get ft k' \<noteq> None" for k'
  proof
    assume eq: "drop 32 k' = drop 32 k"
    then have "take 32 k' = take 32 k" using index_okD(4)[OF ok k'(2)] v by auto
    then show False using eq k'(1) append_take_drop_id[of 32 k] append_take_drop_id[of 32 k'] by metis
  qed
  have "32 \<le> length k' \<and> (\<exists>v. kv_get (kv_remove mt (drop 32 k)) (drop 32 k') = Some v \<and> take 32 v = take 32 k')"
    if "kv_get (kv_remove ft k) k' \<noteq> None" for k'
  proof -
    have k': "k' \<noteq> k" "kv_get ft k' \<noteq> None" using that by (auto simp: kv_get_remove split: if_splits)
    show ?thesis using index_okD(3,4)[OF ok k'(2)] other[OF k'] by (simp add: kv_get_remove)
  qed
  moreover have "32 \<le> length w \<and> kv_get (kv_remove ft k) (take 32 w @ i) \<noteq> None"
    if "kv_get (kv_remove mt (drop 32 k)) i = Some w" for i w
  proof -
    have w: "i \<noteq> drop 32 k" "kv_get mt i = Some w" using that by (auto simp: kv_get_remove split: if_splits)
    have "take 32 w @ i \<noteq> k" using w(1) index_okD(5)[OF ok w(2)] by auto
    then show ?thesis using index_okD(5,6)[OF ok w(2)] by (simp add: kv_get_remove)
  qed
  ultimately show ?thesis
    unfolding index_ok_def using index_okD(1,2)[OF ok] by (simp add: kv_wf_remove)
qed

text \<open>The rows of a digest are the media whose file has it.\<close>

lemma index_scan:
  assumes ok: "index_ok ft mt" and d: "length d = 32"
  shows "drop 32 ` fst ` set (kv_scan_prefix ft d) = {i. \<exists>v. kv_get mt i = Some v \<and> take 32 v = d}"
proof -
  have "fst ` set (kv_scan_prefix ft d) = {k. kv_get ft k \<noteq> None \<and> prefix d k}"
    by (auto simp: kv_scan_prefix_set index_okD(1)[OF ok] image_iff)
  moreover have "drop 32 ` {k. kv_get ft k \<noteq> None \<and> prefix d k} = {i. \<exists>v. kv_get mt i = Some v \<and> take 32 v = d}"
  proof (intro set_eqI iffI)
    fix i assume "i \<in> drop 32 ` {k. kv_get ft k \<noteq> None \<and> prefix d k}"
    then obtain k where "kv_get ft k \<noteq> None" "prefix d k" "i = drop 32 k" by auto
    then show "i \<in> {i. \<exists>v. kv_get mt i = Some v \<and> take 32 v = d}"
      using index_okD(4)[OF ok, of k] d by (auto simp: prefix_def)
  next
    fix i assume "i \<in> {i. \<exists>v. kv_get mt i = Some v \<and> take 32 v = d}"
    then obtain v where v: "kv_get mt i = Some v" "take 32 v = d" by auto
    have "i = drop 32 (d @ i)" using d by simp
    then show "i \<in> drop 32 ` {k. kv_get ft k \<noteq> None \<and> prefix d k}"
      using index_okD(6)[OF ok v(1)] v(2) by (metis (mono_tags, lifting) image_eqI mem_Collect_eq prefixI)
  qed
  ultimately show ?thesis by simp
qed

text \<open>The two tables of uploaders agree, and only stored media has an uploader.\<close>

definition uploads_ok :: "'a media_db_scheme \<Rightarrow> bool" where
  "uploads_ok db \<longleftrightarrow> kv_wf (servernamemediaid_userlocalpart db) \<and> kv_wf (servername_userlocalpart_mediaid db)
     \<and> (\<forall>i l. kv_get (servernamemediaid_userlocalpart db) i = Some l \<longrightarrow>
          kv_get (servernamemediaid_metadata db) i \<noteq> None
          \<and> (\<exists>n m. i = media_key n m \<and> utf8 n \<and> utf8 m \<and> utf8 l
               \<and> kv_get (servername_userlocalpart_mediaid db) (uploader_key n l m) \<noteq> None))
     \<and> (\<forall>k. kv_get (servername_userlocalpart_mediaid db) k \<noteq> None \<longrightarrow>
          (\<exists>n l m. k = uploader_key n l m \<and> utf8 n \<and> utf8 l \<and> utf8 m
             \<and> kv_get (servernamemediaid_userlocalpart db) (media_key n m) = Some l))"

definition media_ok :: "'a media_db_scheme \<Rightarrow> bool" where
  "media_ok db \<longleftrightarrow>
     index_ok (filehash_servername_mediaid db) (servernamemediaid_metadata db)
     \<and> index_ok (filehash_thumbnailid db) (thumbnailid_metadata db)
     \<and> kv_wf (filehash_metadata db) \<and> kv_wf (blocked_servername_mediaid db)
     \<and> (\<forall>k v. kv_get (filehash_metadata db) k = Some v \<longrightarrow> length k = 32 \<and> length v = 24)
     \<and> (\<forall>k. kv_get (filehash_thumbnailid db) k \<noteq> None \<longrightarrow> 41 \<le> length k)
     \<and> uploads_ok db"

lemma media_okD:
  assumes "media_ok db"
  shows "index_ok (filehash_servername_mediaid db) (servernamemediaid_metadata db)"
    "index_ok (filehash_thumbnailid db) (thumbnailid_metadata db)"
    "kv_wf (filehash_metadata db)" "kv_wf (blocked_servername_mediaid db)" "uploads_ok db"
    "kv_get (filehash_metadata db) k = Some v \<Longrightarrow> length k = 32"
    "kv_get (filehash_metadata db) k = Some v \<Longrightarrow> length v = 24"
    "kv_get (filehash_thumbnailid db) t \<noteq> None \<Longrightarrow> 41 \<le> length t"
  using assms by (auto simp: media_ok_def)

lemma media_key_inj [simp]:
  "utf8 n \<Longrightarrow> utf8 n' \<Longrightarrow> media_key n m = media_key n' m' \<longleftrightarrow> n = n' \<and> m = m'"
  by (simp add: media_key_def sep_append_inj utf8_no_sep)

lemma uploader_key_inj [simp]:
  "utf8 n \<Longrightarrow> utf8 n' \<Longrightarrow> utf8 l \<Longrightarrow> utf8 l' \<Longrightarrow>
    uploader_key n l m = uploader_key n' l' m' \<longleftrightarrow> n = n' \<and> l = l' \<and> m = m'"
  by (simp add: uploader_key_def sep_append_inj utf8_no_sep)

lemma uploads_ok_insert:
  assumes ok: "uploads_ok db" and utf: "utf8 n" "utf8 m" "utf8 l"
    and same: "\<forall>l'. kv_get (servernamemediaid_userlocalpart db) (media_key n m) = Some l' \<longrightarrow> l' = l"
    and snm: "kv_get snm (media_key n m) \<noteq> None"
      "\<forall>i. kv_get (servernamemediaid_metadata db) i \<noteq> None \<longrightarrow> kv_get snm i \<noteq> None"
    and db': "servernamemediaid_metadata db' = snm"
      "servernamemediaid_userlocalpart db' = kv_insert (servernamemediaid_userlocalpart db) (media_key n m) l"
      "servername_userlocalpart_mediaid db' = kv_insert (servername_userlocalpart_mediaid db) (uploader_key n l m) []"
  shows "uploads_ok db'"
proof -
  have wf: "kv_wf (servernamemediaid_userlocalpart db)" "kv_wf (servername_userlocalpart_mediaid db)"
    using ok by (auto simp: uploads_ok_def)
  note [simp] = wf db' kv_get_insert kv_wf_insert
  have "kv_get snm i \<noteq> None \<and> (\<exists>n m. i = media_key n m \<and> utf8 n \<and> utf8 m \<and> utf8 j
      \<and> kv_get (servername_userlocalpart_mediaid db') (uploader_key n j m) \<noteq> None)"
    if "kv_get (servernamemediaid_userlocalpart db') i = Some j" for i j
  proof (cases "i = media_key n m")
    case True
    then have "j = l" using that by simp
    then show ?thesis using True utf snm by auto
  next
    case False
    then have "kv_get (servernamemediaid_userlocalpart db) i = Some j" using that by simp
    then obtain n' m' where i: "kv_get (servernamemediaid_metadata db) i \<noteq> None" "i = media_key n' m'" "utf8 n'" "utf8 m'"
      "utf8 j" "kv_get (servername_userlocalpart_mediaid db) (uploader_key n' j m') \<noteq> None"
      using ok unfolding uploads_ok_def by blast
    moreover from i(6) have "kv_get (servername_userlocalpart_mediaid db') (uploader_key n' j m') \<noteq> None" by simp
    ultimately show ?thesis using snm(2) by blast
  qed
  moreover have "\<exists>n l m. k = uploader_key n l m \<and> utf8 n \<and> utf8 l \<and> utf8 m
      \<and> kv_get (servernamemediaid_userlocalpart db') (media_key n m) = Some l"
    if "kv_get (servername_userlocalpart_mediaid db') k \<noteq> None" for k
  proof (cases "k = uploader_key n l m")
    case True
    then show ?thesis using utf by auto
  next
    case False
    then have "kv_get (servername_userlocalpart_mediaid db) k \<noteq> None" using that by simp
    then obtain n' l' m' where k: "k = uploader_key n' l' m'" "utf8 n'" "utf8 l'" "utf8 m'"
      "kv_get (servernamemediaid_userlocalpart db) (media_key n' m') = Some l'"
      using ok unfolding uploads_ok_def by blast
    then have "media_key n' m' = media_key n m \<longrightarrow> l' = l" using same by auto
    then have "kv_get (servernamemediaid_userlocalpart db') (media_key n' m') = Some l'" using k(5) by simp
    then show ?thesis using k(1-4) by blast
  qed
  ultimately show ?thesis using wf unfolding uploads_ok_def by (simp add: kv_wf_insert)
qed

lemma uploads_ok_mono:
  assumes "uploads_ok db" "servernamemediaid_userlocalpart db' = servernamemediaid_userlocalpart db"
    "servername_userlocalpart_mediaid db' = servername_userlocalpart_mediaid db"
    "\<forall>i. kv_get (servernamemediaid_metadata db) i \<noteq> None \<longrightarrow> kv_get (servernamemediaid_metadata db') i \<noteq> None"
  shows "uploads_ok db'"
  using assms unfolding uploads_ok_def by auto

lemma create_file_ok:
  assumes ok: "media_ok db" and d: "length d = 32" and utf: "utf8 n" "utf8 m" "\<forall>u'. u = Some u' \<longrightarrow> utf8 (user_local M u')"
    and same: "\<forall>w. kv_get (servernamemediaid_metadata db) (media_key n m) = Some w \<longrightarrow> take 32 w = d"
      "\<forall>l u'. kv_get (servernamemediaid_userlocalpart db) (media_key n m) = Some l \<longrightarrow> u = Some u' \<longrightarrow> l = user_local M u'"
  shows "media_ok (create_file_metadata M now d s n m f c u blocked db)"
proof -
  let ?db = "create_file_metadata M now d s n m f c u blocked db"
  note wf = index_okD(1,2)[OF media_okD(1)[OF ok]] index_okD(1,2)[OF media_okD(2)[OF ok]] media_okD(3,4)[OF ok]
  have tabs: "filehash_servername_mediaid ?db = kv_insert (filehash_servername_mediaid db) (d @ media_key n m) []"
    "servernamemediaid_metadata ?db = kv_insert (servernamemediaid_metadata db) (media_key n m) (metadata_value d f c)"
    "filehash_thumbnailid ?db = filehash_thumbnailid db" "thumbnailid_metadata ?db = thumbnailid_metadata db"
    "blocked_servername_mediaid ?db = blocked_servername_mediaid db"
    "filehash_metadata ?db = (if blocked then filehash_metadata db else kv_insert (filehash_metadata db) d (new_metadata now s))"
    by (simp_all add: create_file_metadata_def Let_def split: option.splits)
  have snm: "kv_get (servernamemediaid_metadata ?db) (media_key n m) \<noteq> None"
    "\<forall>i. kv_get (servernamemediaid_metadata db) i \<noteq> None \<longrightarrow> kv_get (servernamemediaid_metadata ?db) i \<noteq> None"
    by (simp_all add: tabs kv_get_insert wf)
  have "uploads_ok ?db"
  proof (cases u)
    case None
    show ?thesis
      by (rule uploads_ok_mono[OF media_okD(5)[OF ok] _ _ snm(2)]) (simp_all add: create_file_metadata_def Let_def None)
  next
    case (Some u')
    show ?thesis
      by (rule uploads_ok_insert[OF media_okD(5)[OF ok] utf(1,2), of "user_local M u'" "servernamemediaid_metadata ?db"])
        (use Some utf same snm in \<open>auto simp: create_file_metadata_def Let_def\<close>)
  qed
  moreover have "index_ok (filehash_servername_mediaid ?db) (servernamemediaid_metadata ?db)"
    unfolding tabs by (rule index_ok_insert[OF media_okD(1)[OF ok] same(1) d]) (simp_all add: d)
  ultimately show ?thesis
    using ok wf d unfolding media_ok_def by (simp add: tabs kv_get_insert kv_wf_insert new_metadata_def)
qed

lemma create_thumbnail_ok:
  assumes ok: "media_ok db" and d: "length d = 32"
    and same: "\<forall>v. kv_get (thumbnailid_metadata db) (thumbnail_key n m w h) = Some v \<longrightarrow> take 32 v = d"
  shows "media_ok (create_thumbnail_metadata now d s n m w h f c db)"
proof -
  let ?db = "create_thumbnail_metadata now d s n m w h f c db"
  have "index_ok (filehash_thumbnailid ?db) (thumbnailid_metadata ?db)"
    unfolding create_thumbnail_metadata_def Let_def
    using index_ok_insert[OF media_okD(2)[OF ok] same d] by (simp add: d)
  moreover have "uploads_ok ?db"
    by (rule uploads_ok_mono[OF media_okD(5)[OF ok]]) (simp_all add: create_thumbnail_metadata_def Let_def)
  moreover have "41 \<le> length (d @ thumbnail_key n m w h)"
    by (simp add: d thumbnail_key_def media_key_def)
  ultimately show ?thesis
    using ok d index_okD(1)[OF media_okD(2)[OF ok]] unfolding media_ok_def
    by (simp add: create_thumbnail_metadata_def Let_def kv_get_insert kv_wf_insert new_metadata_def)
qed

section \<open>Blocked digests\<close>

text \<open>A digest is blocked when a media id with that file, or with a thumbnail that has it, is blocked.\<close>

definition blocked_digest :: "bytes \<Rightarrow> 'a media_db_scheme \<Rightarrow> bool" where
  "blocked_digest d db \<longleftrightarrow> (\<exists>i. kv_get (blocked_servername_mediaid db) i \<noteq> None
     \<and> (kv_get (filehash_servername_mediaid db) (d @ i) \<noteq> None
        \<or> (\<exists>t. length t = 9 \<and> kv_get (filehash_thumbnailid db) (d @ i @ t) \<noteq> None)))"

lemma any_blocked_eq:
  "\<forall>row \<in> set rows. id_of (fst row) \<noteq> None \<Longrightarrow> any_blocked e id_of rows db =
    Ok (\<exists>row \<in> set rows. \<exists>i. id_of (fst row) = Some i \<and> kv_get (blocked_servername_mediaid db) i \<noteq> None)"
  by (induction e id_of rows db rule: any_blocked.induct) (auto split: option.splits)

lemma split_thumbnail_key:
  assumes "41 \<le> length k" "prefix d k" "length d = 32"
  obtains i t where "k = d @ i @ t" "length t = 9" "id_of_thumbnail_key k = Some i"
proof
  have dr: "drop 32 k = take (length k - 41) (drop 32 k) @ drop (length k - 41) (drop 32 k)"
    by (rule append_take_drop_id[symmetric])
  have k: "k = d @ drop 32 k" using assms by (auto simp: prefix_def)
  show "k = d @ take (length k - 41) (drop 32 k) @ drop (length k - 41) (drop 32 k)"
    using k unfolding dr[symmetric] .
  show "length (drop (length k - 41) (drop 32 k)) = 9" using assms(1) by simp
  show "id_of_thumbnail_key k = Some (take (length k - 41) (drop 32 k))"
    using assms(1) by (simp add: id_of_thumbnail_key_def drop_take)
qed

lemma is_blocked_filehash_eq:
  assumes ok: "media_ok db" and d: "length d = 32"
  shows "is_blocked_filehash d db = Ok (blocked_digest d db)"
proof -
  let ?b = "\<lambda>i. kv_get (blocked_servername_mediaid db) i \<noteq> None"
  let ?F = "kv_scan_prefix (filehash_servername_mediaid db) d" and ?T = "kv_scan_prefix (filehash_thumbnailid db) d"
  note F = kv_scan_prefix_set[OF index_okD(1)[OF media_okD(1)[OF ok]], of d]
  note T = kv_scan_prefix_set[OF index_okD(1)[OF media_okD(2)[OF ok]], of d]
  have id: "id_of_thumbnail_key (d @ i @ t) = Some i" if "length t = 9" for i t
    using d that by (simp add: id_of_thumbnail_key_def)
  have "\<forall>row \<in> set ?F. id_of_filehash_key (fst row) \<noteq> None" using d by (auto simp: F id_of_filehash_key_def prefix_def)
  note f = any_blocked_eq[OF this]
  have "\<forall>row \<in> set ?T. id_of_thumbnail_key (fst row) \<noteq> None"
  proof
    fix row assume "row \<in> set ?T"
    then have "41 \<le> length (fst row)" "prefix d (fst row)" using media_okD(8)[OF ok] by (auto simp: T)
    then show "id_of_thumbnail_key (fst row) \<noteq> None" using d by (elim split_thumbnail_key) auto
  qed
  note t = any_blocked_eq[OF this]
  have files: "(\<exists>row \<in> set ?F. \<exists>i. id_of_filehash_key (fst row) = Some i \<and> ?b i) \<longleftrightarrow>
      (\<exists>i. ?b i \<and> kv_get (filehash_servername_mediaid db) (d @ i) \<noteq> None)"
    using d by (fastforce simp: F id_of_filehash_key_def prefix_def)
  have thumbs: "(\<exists>row \<in> set ?T. \<exists>i. id_of_thumbnail_key (fst row) = Some i \<and> ?b i) \<longleftrightarrow>
      (\<exists>i t. ?b i \<and> length t = 9 \<and> kv_get (filehash_thumbnailid db) (d @ i @ t) \<noteq> None)" (is "?l \<longleftrightarrow> ?r")
  proof
    assume ?l
    then obtain k x i where k: "kv_get (filehash_thumbnailid db) k = Some x" "prefix d k"
      "id_of_thumbnail_key k = Some i" "?b i" by (auto simp: T)
    then obtain i' t where "k = d @ i' @ t" "length t = 9" "id_of_thumbnail_key k = Some i'"
      using split_thumbnail_key[OF media_okD(8)[OF ok, of k] _ d] by auto
    then show ?r using k by auto
  next
    assume ?r
    then obtain i t x where "?b i" "length t = 9" "kv_get (filehash_thumbnailid db) (d @ i @ t) = Some x" by auto
    then have "(d @ i @ t, x) \<in> set ?T" "id_of_thumbnail_key (fst (d @ i @ t, x)) = Some i" "?b i"
      using id by (auto simp: T prefix_def)
    then show ?l by blast
  qed
  have "blocked_digest d db \<longleftrightarrow> (\<exists>i. ?b i \<and> kv_get (filehash_servername_mediaid db) (d @ i) \<noteq> None)
      \<or> (\<exists>i t. ?b i \<and> length t = 9 \<and> kv_get (filehash_thumbnailid db) (d @ i @ t) \<noteq> None)"
    unfolding blocked_digest_def by blast
  then show ?thesis unfolding is_blocked_filehash_def f t files thumbs
    by (simp only: and_then_simps split: if_split) blast
qed

lemma is_blocked_known:
  assumes ok: "media_ok db" and v: "kv_get (servernamemediaid_metadata db) (media_key n m) = Some v" "parse_metadata v = Ok meta"
  shows "is_blocked n m db = Ok (blocked_digest (sha256_digest meta) db)"
proof -
  have d: "sha256_digest meta = take 32 v" "length (sha256_digest meta) = 32"
    using parse_metadata_digest[OF v(2)] by auto
  have "kv_get (filehash_servername_mediaid db) (sha256_digest meta @ media_key n m) \<noteq> None"
    using index_okD(6)[OF media_okD(1)[OF ok] v(1)] d by simp
  then have "is_directly_blocked n m db \<longrightarrow> blocked_digest (sha256_digest meta) db"
    unfolding is_directly_blocked_def blocked_digest_def by blast
  then show ?thesis using v is_blocked_filehash_eq[OF ok d(2)] by (simp add: is_blocked_def)
qed

lemma kv_get_block:
  assumes "kv_wf (blocked_servername_mediaid db)"
  shows "kv_get (blocked_servername_mediaid (block media secs reason db)) i \<noteq> None \<longleftrightarrow>
      kv_get (blocked_servername_mediaid db) i \<noteq> None \<or> (\<exists>(n, m) \<in> set media. i = media_key n m)"
    and "kv_wf (blocked_servername_mediaid (block media secs reason db))"
proof -
  have "kv_wf (fold (\<lambda>(n, m) t. kv_insert t (media_key n m) v) media t)
      \<and> (kv_get (fold (\<lambda>(n, m) t. kv_insert t (media_key n m) v) media t) i \<noteq> None \<longleftrightarrow>
         kv_get t i \<noteq> None \<or> (\<exists>(n, m) \<in> set media. i = media_key n m))" if "kv_wf t" for t v
    using that
  proof (induction media arbitrary: t)
    case (Cons nm media)
    obtain n m where nm: "nm = (n, m)" by (cases nm)
    show ?case using Cons.IH[OF kv_wf_insert[OF Cons.prems, of "media_key n m" v]] Cons.prems
      unfolding nm by (simp add: kv_get_insert)
  qed simp
  then show "kv_get (blocked_servername_mediaid (block media secs reason db)) i \<noteq> None \<longleftrightarrow>
      kv_get (blocked_servername_mediaid db) i \<noteq> None \<or> (\<exists>(n, m) \<in> set media. i = media_key n m)"
    "kv_wf (blocked_servername_mediaid (block media secs reason db))"
    using assms unfolding block_def Let_def by simp_all
qed

lemma block_ok: "media_ok db \<Longrightarrow> media_ok (block media secs reason db)"
  using kv_get_block(2)[of db media secs reason]
  by (simp add: media_ok_def uploads_ok_def block_def Let_def)

text \<open>Whether a media id is stored with a file, or with a thumbnail, of the given digest.\<close>

definition has_content :: "bytes \<Rightarrow> bytes \<Rightarrow> 'a media_db_scheme \<Rightarrow> bool" where
  "has_content i d db \<longleftrightarrow> kv_get (filehash_servername_mediaid db) (d @ i) \<noteq> None
     \<or> (\<exists>t. length t = 9 \<and> kv_get (filehash_thumbnailid db) (d @ i @ t) \<noteq> None)"

lemma blocked_digest_content:
  "blocked_digest d db \<longleftrightarrow> (\<exists>i. kv_get (blocked_servername_mediaid db) i \<noteq> None \<and> has_content i d db)"
  by (simp add: blocked_digest_def has_content_def)

section \<open>Sample state\<close>

definition sample_media_env :: media_env where
  "sample_media_env = \<lparr>hex_encode = (\<lambda>b. b), user_server = (\<lambda>_. ascii ''h''), user_local = (\<lambda>_. ascii ''u''),
     server_name_ok = (\<lambda>_. True), own_server = ascii ''h''\<rparr>"

definition empty_media :: media_db where
  "empty_media = \<lparr>filehash_metadata = [], filehash_servername_mediaid = [], filehash_thumbnailid = [],
     servernamemediaid_metadata = [], servernamemediaid_userlocalpart = [],
     servername_userlocalpart_mediaid = [], thumbnailid_metadata = [], blocked_servername_mediaid = []\<rparr>"

abbreviation digest_one :: bytes where
  "digest_one \<equiv> replicate 32 1"

definition one_upload :: media_db where
  "one_upload = create_file_metadata sample_media_env 5 digest_one 10 (ascii ''h'') (ascii ''a'')
     (Some (ascii ''f'')) None (Some (ascii ''@u:h'')) False empty_media"

text \<open>The same content again, fetched from another server, and a thumbnail with other content.\<close>

abbreviation digest_two :: bytes where
  "digest_two \<equiv> replicate 32 2"

definition shared_upload :: media_db where
  "shared_upload = create_thumbnail_metadata 7 digest_two 4 (ascii ''h'') (ascii ''a'') 32 32 None None
     (create_file_metadata sample_media_env 6 digest_one 10 (ascii ''r'') (ascii ''b'') None None None False one_upload)"

lemma empty_media_ok: "media_ok empty_media"
  by (simp add: media_ok_def empty_media_def index_ok_def uploads_ok_def)

lemma sample_names [simp]: "utf8 (ascii ''h'')" "utf8 (ascii ''r'')" "utf8 (ascii ''a'')" "utf8 (ascii ''b'')" "utf8 (ascii ''f'')" "utf8 (ascii ''u'')"
  by (simp_all add: ascii_def)

lemma one_upload_ok: "media_ok one_upload"
  unfolding one_upload_def
  by (rule create_file_ok[OF empty_media_ok]) (simp_all add: sample_media_env_def empty_media_def)

lemma digests_less [simp]: "digest_one < digest_two" "\<not> digest_two < digest_one" "digest_one \<noteq> digest_two" "digest_two \<noteq> digest_one"
  by code_simp+

lemma shared_upload_tables:
  "filehash_servername_mediaid shared_upload = [(digest_one @ media_key (ascii ''h'') (ascii ''a''), []),
     (digest_one @ media_key (ascii ''r'') (ascii ''b''), [])]"
  "filehash_thumbnailid shared_upload = [(digest_two @ thumbnail_key (ascii ''h'') (ascii ''a'') 32 32, [])]"
  "servernamemediaid_metadata shared_upload = [(media_key (ascii ''h'') (ascii ''a''), metadata_value digest_one (Some (ascii ''f'')) None),
     (media_key (ascii ''r'') (ascii ''b''), metadata_value digest_one None None)]"
  "thumbnailid_metadata shared_upload = [(thumbnail_key (ascii ''h'') (ascii ''a'') 32 32, metadata_value digest_two None None)]"
  "blocked_servername_mediaid shared_upload = []"
  "filehash_metadata shared_upload = [(digest_one, new_metadata 6 10), (digest_two, new_metadata 7 4)]"
  by (simp_all add: shared_upload_def create_thumbnail_metadata_def one_upload_def create_file_metadata_def Let_def
      empty_media_def media_key_def ascii_def)

lemma shared_upload_ok: "media_ok shared_upload"
proof -
  have "kv_get (servernamemediaid_metadata one_upload) (media_key (ascii ''r'') (ascii ''b'')) = None"
    "kv_get (servernamemediaid_userlocalpart one_upload) (media_key (ascii ''r'') (ascii ''b'')) = None"
    by (simp_all add: one_upload_def create_file_metadata_def Let_def empty_media_def kv_get_def media_key_def ascii_def)
  then have "media_ok (create_file_metadata sample_media_env 6 digest_one 10 (ascii ''r'') (ascii ''b'') None None None False one_upload)"
    by (intro create_file_ok[OF one_upload_ok]) simp_all
  then show ?thesis
    unfolding shared_upload_def
    by (rule create_thumbnail_ok) (simp_all add: one_upload_def create_file_metadata_def Let_def empty_media_def)
qed

section \<open>Properties\<close>

text \<open>
  A file stored under a media id reads back with its digest, name, type, size and times, and so
  does a thumbnail under its dimensions; media stored before is found as before.
\<close>

theorem file_round_trip:
  fixes M :: media_env and now s :: u64 and m :: str and u :: "str option" and db :: "'a media_db_scheme"
  assumes ok: "media_ok db" and d: "length d = 32" and utf: "utf8 n" "\<forall>f'. f = Some f' \<longrightarrow> utf8 f'" "\<forall>c'. c = Some c' \<longrightarrow> utf8 c'"
  defines "meta \<equiv> \<lparr>sha256_digest = d, filename = non_empty f, content_type = non_empty c,
      unauthenticated_access_permitted = False\<rparr>"
    and "db' \<equiv> create_file_metadata M now d s n m f c u False db"
  shows "search_file_metadata n m db' = Ok meta
    \<and> file_info_of d db' = Ok (Some \<lparr>info_creation = now, info_last_access = now, info_size = s\<rparr>)
    \<and> search_thumbnail_metadata n m w h (create_thumbnail_metadata now d s n m w h f c db) = Ok meta
    \<and> (\<forall>n' m' meta'. utf8 n' \<longrightarrow> (n', m') \<noteq> (n, m) \<longrightarrow> search_file_metadata n' m' db = Ok meta'
         \<longrightarrow> search_file_metadata n' m' db' = Ok meta')"
proof -
  note wf = index_okD(1,2)[OF media_okD(1)[OF ok]] index_okD(1,2)[OF media_okD(2)[OF ok]] media_okD(3)[OF ok]
  have tabs: "servernamemediaid_metadata db' = kv_insert (servernamemediaid_metadata db) (media_key n m) (metadata_value d f c)"
    "filehash_metadata db' = kv_insert (filehash_metadata db) d (new_metadata now s)"
    by (simp_all add: db'_def create_file_metadata_def Let_def split: option.splits)
  have "search_file_metadata n m db' = Ok meta"
    using parse_metadata_value[OF d utf(2,3)]
    by (simp add: search_file_metadata_def stored_metadata_def tabs kv_get_insert wf meta_def)
  moreover have "search_thumbnail_metadata n m w h (create_thumbnail_metadata now d s n m w h f c db) = Ok meta"
    using parse_metadata_value[OF d utf(2,3)]
    by (simp add: search_thumbnail_metadata_def stored_metadata_def create_thumbnail_metadata_def Let_def kv_get_insert wf meta_def)
  moreover have "file_info_of d db' = Ok (Some \<lparr>info_creation = now, info_last_access = now, info_size = s\<rparr>)"
    by (simp add: file_info_of_def tabs kv_get_insert wf new_metadata_times)
  moreover have "search_file_metadata n' m' db' = Ok meta'"
    if "utf8 n'" "(n', m') \<noteq> (n, m)" "search_file_metadata n' m' db = Ok meta'" for n' m' meta'
  proof -
    have "media_key n' m' \<noteq> media_key n m" using that(1,2) utf(1) by simp
    then show ?thesis using that(3) unfolding search_file_metadata_def stored_metadata_Ok
      by (simp add: tabs kv_get_insert wf) blast
  qed
  ultimately show ?thesis by blast
qed

theorem file_round_trip_witness:
  "search_file_metadata (ascii ''r'') (ascii ''b'')
     (create_file_metadata sample_media_env 6 digest_one 10 (ascii ''r'') (ascii ''b'') None None None False one_upload)
   = Ok \<lparr>sha256_digest = digest_one, filename = None, content_type = None, unauthenticated_access_permitted = False\<rparr>"
  using file_round_trip [OF one_upload_ok, of digest_one "ascii ''r''" None None "ascii ''b''" sample_media_env 6 10 None 0 0]
  by (simp add: non_empty_def)

text \<open>
  C36: blocking media ids blocks exactly the content they stand for: a stored media id is blocked
  afterwards if it was before or if one of the ids has its digest as file or as thumbnail.
\<close>

theorem block_covers_content:
  assumes ok: "media_ok db" and v: "kv_get (servernamemediaid_metadata db) (media_key n m) = Some v" "parse_metadata v = Ok meta"
  shows "is_blocked n m (block media secs reason db) =
    Ok (is_blocked n m db = Ok True
        \<or> (\<exists>(n', m') \<in> set media. has_content (media_key n' m') (sha256_digest meta) db))"
proof -
  let ?db = "block media secs reason db"
  have same: "has_content i d ?db \<longleftrightarrow> has_content i d db" for i d
    by (simp add: has_content_def block_def Let_def)
  have "is_blocked n m ?db = Ok (blocked_digest (sha256_digest meta) ?db)"
    using v by (intro is_blocked_known[OF block_ok[OF ok], where v = v]) (simp_all add: block_def Let_def)
  moreover have "blocked_digest (sha256_digest meta) ?db \<longleftrightarrow> blocked_digest (sha256_digest meta) db
      \<or> (\<exists>(n', m') \<in> set media. has_content (media_key n' m') (sha256_digest meta) db)"
    unfolding blocked_digest_content kv_get_block(1)[OF media_okD(4)[OF ok]] same by auto
  ultimately show ?thesis using is_blocked_known[OF ok v] by simp
qed

theorem block_covers_content_witness:
  "is_blocked (ascii ''r'') (ascii ''b'') (block [(ascii ''h'', ascii ''a'')] 9 None shared_upload) = Ok True"
proof -
  have v: "kv_get (servernamemediaid_metadata shared_upload) (media_key (ascii ''r'') (ascii ''b''))
      = Some (metadata_value digest_one None None)"
    by (simp add: shared_upload_tables kv_get_def media_key_def ascii_def)
  have "has_content (media_key (ascii ''h'') (ascii ''a'')) digest_one shared_upload"
    by (simp add: has_content_def shared_upload_tables kv_get_def)
  then show ?thesis
    using block_covers_content [OF shared_upload_ok v parse_metadata_value, of "[(ascii ''h'', ascii ''a'')]" 9 None] by simp
qed

end
