(* ===== verification/MediaPurge.thy ===== *)
theory MediaPurge
  imports Media
begin

text \<open>
  Deletion of media (\<^verbatim>\<open>server/src/database/key_value/media.rs\<close>): purging a file by its digest or a media
  id with its thumbnails, the administrator's purges by id, user and server, and unblocking. The scans
  run on the rows present when they start. A deletion returns the digests of the files that the caller
  removes from the media backend.
\<close>

section \<open>Purging a digest\<close>

text \<open>A \<open>Result\<close> kept as a value; a panic still ends the request.\<close>

definition catch :: "'b result \<times> 's \<Rightarrow> 'b result result \<times> 's" where
  "catch p = (case p of
     (Inl (Panicked m), s) \<Rightarrow> (Inl (Panicked m), s)
   | (r, s) \<Rightarrow> (Inr r, s))"

definition purge_thumbnail_row :: "bytes \<Rightarrow> 'a media_db_scheme \<Rightarrow> unit result \<times> 'a media_db_scheme" where
  "purge_thumbnail_row key db =
     (let db = db\<lparr>filehash_thumbnailid := kv_remove (filehash_thumbnailid db) key\<rparr> in
      if length key < 32 then (Err (Panicked ''split_at''), db)
      else (Ok (), db\<lparr>thumbnailid_metadata := kv_remove (thumbnailid_metadata db) (drop 32 key)\<rparr>))"

definition purge_file_row :: "bytes \<Rightarrow> 'a media_db_scheme \<Rightarrow> unit result \<times> 'a media_db_scheme" where
  "purge_file_row k db =
     (let handle_error = BadDatabase ''Invalid format of key in filehash_servername_mediaid'' in
      if length k < 32 then (Err handle_error, db)
      else
        let servername_mediaid = drop 32 k;
            db = db\<lparr>servernamemediaid_metadata :=
                      kv_remove (servernamemediaid_metadata db) servername_mediaid,
                    filehash_servername_mediaid := kv_remove (filehash_servername_mediaid db) k\<rparr>
        in case kv_get (servernamemediaid_userlocalpart db) servername_mediaid of
             None \<Rightarrow> (Ok (), db)
           | Some localpart \<Rightarrow>
               let db = db\<lparr>servernamemediaid_userlocalpart :=
                             kv_remove (servernamemediaid_userlocalpart db) servername_mediaid\<rparr>;
                   parts = split_sep servername_mediaid
               in case (part 0 parts, part 1 parts) of
                    (Some server, Some media_id) \<Rightarrow>
                      (Ok (), db\<lparr>servername_userlocalpart_mediaid :=
                                   kv_remove (servername_userlocalpart_mediaid db)
                                     (uploader_key server localpart media_id)\<rparr>)
                  | _ \<Rightarrow> (Err handle_error, db))"

definition purge_filehash ::
  "bytes \<Rightarrow> bool \<Rightarrow> 'a media_db_scheme \<Rightarrow> unit result \<times> 'a media_db_scheme" where
  "purge_filehash digest only_filehash_metadata db =
     step_then
       (if only_filehash_metadata then (Ok (), db)
        else
          step_then (traverse purge_thumbnail_row
            (map fst (kv_scan_prefix (filehash_thumbnailid db) digest)) db) (\<lambda>_ db.
          step_then (traverse purge_file_row
            (map fst (kv_scan_prefix (filehash_servername_mediaid db) digest)) db) (\<lambda>_ db.
            (Ok (), db))))
       (\<lambda>_ db. (Ok (), db\<lparr>filehash_metadata := kv_remove (filehash_metadata db) digest\<rparr>))"

text \<open>
  The closure \<open>purge\<close> of \<open>purge_and_get_hashes\<close>, repeated in the other purges: a blocked file keeps
  its rows, so that it stays blocked.
\<close>

definition purge_digest ::
  "media_env \<Rightarrow> bytes \<Rightarrow> 'a media_db_scheme \<Rightarrow> str result \<times> 'a media_db_scheme" where
  "purge_digest M digest db =
     (case is_blocked_filehash digest db of
        Inl e \<Rightarrow> (Err e, db)
      | Inr blocked \<Rightarrow>
          step_then (purge_filehash digest blocked db) (\<lambda>_ db. (Ok (hex_encode M digest), db)))"

definition purge ::
  "media_env \<Rightarrow> bytes list \<Rightarrow> 'a media_db_scheme \<Rightarrow> str result list result \<times> 'a media_db_scheme" where
  "purge M hashes db = traverse (\<lambda>digest db. catch (purge_digest M digest db)) hashes db"

section \<open>Purging a media id\<close>

definition digest_rows :: "kvtree \<Rightarrow> bytes \<Rightarrow> nat" where
  "digest_rows t digest = length (kv_scan_prefix t digest)"

definition forget_upload :: "str \<Rightarrow> str \<Rightarrow> bytes \<Rightarrow> 'a media_db_scheme \<Rightarrow> 'a media_db_scheme" where
  "forget_upload server media_id digest db =
     (let key = media_key server media_id;
          db = (case kv_get (servernamemediaid_userlocalpart db) key of
                  Some localpart \<Rightarrow>
                    db\<lparr>servernamemediaid_userlocalpart :=
                         kv_remove (servernamemediaid_userlocalpart db) key,
                       servername_userlocalpart_mediaid :=
                         kv_remove (servername_userlocalpart_mediaid db)
                           (uploader_key server localpart media_id)\<rparr>
                | None \<Rightarrow> db)
      in db\<lparr>servernamemediaid_metadata := kv_remove (servernamemediaid_metadata db) key,
            filehash_servername_mediaid := kv_remove (filehash_servername_mediaid db) (digest @ key)\<rparr>)"

definition purge_source ::
  "media_env \<Rightarrow> str \<Rightarrow> str \<Rightarrow> bool \<Rightarrow> 'a media_db_scheme \<Rightarrow> str list \<times> 'a media_db_scheme" where
  "purge_source M server media_id only_filehash_metadata db =
     (case kv_get (servernamemediaid_metadata db) (media_key server media_id) of
        None \<Rightarrow> ([], db)
      | Some value \<Rightarrow>
          let digest = take 32 value;
              db = (if only_filehash_metadata then db else forget_upload server media_id digest db)
          in if digest_rows (filehash_servername_mediaid db) digest \<le> (if only_filehash_metadata then 1 else 0)
               \<and> digest_rows (filehash_thumbnailid db) digest = 0
             then ([hex_encode M digest],
                   db\<lparr>filehash_metadata := kv_remove (filehash_metadata db) digest\<rparr>)
             else ([], db))"

text \<open>The loop over the thumbnails; \<open>seen\<close> counts the digests met so far.\<close>

fun purge_thumbnails ::
  "media_env \<Rightarrow> bool \<Rightarrow> (bytes \<Rightarrow> nat) \<Rightarrow> (bytes \<times> bytes) list \<Rightarrow> 'a media_db_scheme
    \<Rightarrow> str list \<times> 'a media_db_scheme" where
  "purge_thumbnails M only_filehash_metadata seen [] db = ([], db)"
| "purge_thumbnails M only_filehash_metadata seen ((thumbnail_id, value) # rows) db =
     (let digest = take 32 value;
          seen = seen(digest := seen digest + 1);
          db = (if only_filehash_metadata then db
                else db\<lparr>filehash_thumbnailid := kv_remove (filehash_thumbnailid db) digest,
                        thumbnailid_metadata := kv_remove (thumbnailid_metadata db) thumbnail_id\<rparr>);
          (now, db) =
            (if digest_rows (filehash_servername_mediaid db) digest \<le> (if only_filehash_metadata then 1 else 0)
               \<and> digest_rows (filehash_thumbnailid db) digest \<le> (if only_filehash_metadata then seen digest else 0)
             then ([hex_encode M digest],
                   db\<lparr>filehash_metadata := kv_remove (filehash_metadata db) digest\<rparr>)
             else ([], db));
          (later, db) = purge_thumbnails M only_filehash_metadata seen rows db
      in (now @ later, db))"

definition purge_mediaid ::
  "media_env \<Rightarrow> str \<Rightarrow> str \<Rightarrow> bool \<Rightarrow> 'a media_db_scheme \<Rightarrow> str list \<times> 'a media_db_scheme" where
  "purge_mediaid M server media_id only_filehash_metadata db =
     (let (files, db) = purge_source M server media_id only_filehash_metadata db;
          (thumbnails, db) = purge_thumbnails M only_filehash_metadata (\<lambda>_. 0)
            (kv_scan_prefix (thumbnailid_metadata db) (media_key server media_id @ [sep])) db
      in (files @ thumbnails, db))"

section \<open>The administrator's purges\<close>

definition purge_unforced ::
  "media_env \<Rightarrow> str \<Rightarrow> str \<Rightarrow> 'a media_db_scheme \<Rightarrow> str result list \<times> 'a media_db_scheme" where
  "purge_unforced M server media_id db =
     (case is_blocked server media_id db of
        Inl e \<Rightarrow> ([Err e], db)
      | Inr blocked \<Rightarrow>
          let (files, db) = purge_mediaid M server media_id blocked db in (map Ok files, db))"

definition purge_row ::
  "media_env \<Rightarrow> bytes \<times> bytes \<Rightarrow> 'a media_db_scheme \<Rightarrow> str result result \<times> 'a media_db_scheme" where
  "purge_row M row db = catch (purge_digest M (take 32 (snd row)) db)"

definition purge_one ::
  "media_env \<Rightarrow> bool \<Rightarrow> str \<times> str \<Rightarrow> 'a media_db_scheme \<Rightarrow> str result list result \<times> 'a media_db_scheme" where
  "purge_one M force_filehash media db =
     (let (server, media_id) = media; key = media_key server media_id in
      if force_filehash
      then step_then (case kv_get (servernamemediaid_metadata db) key of
                        Some value \<Rightarrow> step_then (purge_row M (key, value) db) (\<lambda>f db. (Ok [f], db))
                      | None \<Rightarrow> (Ok [], db)) (\<lambda>files db.
           step_then (traverse (purge_row M) (kv_scan_prefix (thumbnailid_metadata db) (key @ [sep])) db)
             (\<lambda>thumbnails db. (Ok (files @ thumbnails), db)))
      else let (files, db) = purge_unforced M server media_id db in (Ok files, db))"

definition purge_and_get_hashes ::
  "media_env \<Rightarrow> (str \<times> str) list \<Rightarrow> bool \<Rightarrow> 'a media_db_scheme
    \<Rightarrow> str result list result \<times> 'a media_db_scheme" where
  "purge_and_get_hashes M media force_filehash db =
     step_then (traverse (purge_one M force_filehash) media db) (\<lambda>files db. (Ok (concat files), db))"

text \<open>The closure \<open>metadata\<close>: the metadata row and media id of an upload.\<close>

definition upload_metadata ::
  "str \<Rightarrow> bytes \<Rightarrow> 'a media_db_scheme \<Rightarrow> (bytes \<times> str) result" where
  "upload_metadata server k db =
     and_then (ok_or (BadDatabase ''Invalid media_id string in servername_userlocalpart_mediaid'')
                 (string_from_bytes (hd (rsplit_sep k)))) (\<lambda>media_id.
     and_then (ok_or (BadDatabase ''Missing metadata for media id and server_name'')
                 (kv_get (servernamemediaid_metadata db) (media_key server media_id))) (\<lambda>metadata.
       Ok (metadata, media_id)))"

text \<open>Whether a file is old enough to be spared, with the error of an unreadable row.\<close>

definition spared :: "bytes \<Rightarrow> u64 option \<Rightarrow> 'a media_db_scheme \<Rightarrow> bool result" where
  "spared digest after db =
     (case after of
        None \<Rightarrow> Ok False
      | Some after \<Rightarrow>
          (case kv_get (filehash_metadata db) digest of
             None \<Rightarrow> Ok True
           | Some metadata \<Rightarrow> and_then (creation_of metadata) (\<lambda>c. Ok (c < after))))"

definition purge_upload ::
  "media_env \<Rightarrow> str \<Rightarrow> bool \<Rightarrow> u64 option \<Rightarrow> bytes \<times> bytes \<Rightarrow> 'a media_db_scheme
    \<Rightarrow> str result list result \<times> 'a media_db_scheme" where
  "purge_upload M server force_filehash after row db =
     (case upload_metadata server (fst row) db of
        Inl e \<Rightarrow> (Ok [Err e], db)
      | Inr (metadata, media_id) \<Rightarrow>
          let digest = take 32 metadata in
          (case spared digest after db of
             Inl e \<Rightarrow> (Ok [Err e], db)
           | Inr True \<Rightarrow> (Ok [], db)
           | Inr False \<Rightarrow>
               if force_filehash
               then step_then (catch (purge_digest M digest db)) (\<lambda>file db.
                    step_then (traverse (purge_row M)
                      (kv_scan_prefix (thumbnailid_metadata db) (media_key server media_id @ [sep])) db)
                      (\<lambda>thumbnails db. (Ok (file # thumbnails), db)))
               else let (files, db) = purge_unforced M server media_id db in (Ok files, db)))"

definition purge_and_get_hashes_from_user ::
  "media_env \<Rightarrow> str \<Rightarrow> bool \<Rightarrow> u64 option \<Rightarrow> 'a media_db_scheme
    \<Rightarrow> str result list result \<times> 'a media_db_scheme" where
  "purge_and_get_hashes_from_user M user_id force_filehash after db =
     step_then (traverse (purge_upload M (user_server M user_id) force_filehash after)
       (kv_scan_prefix (servername_userlocalpart_mediaid db)
          (user_server M user_id @ [sep] @ user_local M user_id @ [sep])) db)
       (\<lambda>files db. (Ok (concat files), db))"

text \<open>The two closures of \<open>purge_and_get_hashes_from_server\<close>.\<close>

definition purge_server_digest ::
  "media_env \<Rightarrow> u64 option \<Rightarrow> bytes \<Rightarrow> 'a media_db_scheme \<Rightarrow> str result list result \<times> 'a media_db_scheme" where
  "purge_server_digest M after value db =
     (let digest = take 32 value in
      case spared digest after db of
        Inl e \<Rightarrow> (Ok [Err e], db)
      | Inr True \<Rightarrow> (Ok [], db)
      | Inr False \<Rightarrow> step_then (catch (purge_digest M digest db)) (\<lambda>file db. (Ok [file], db)))"

definition purge_server_mediaid ::
  "media_env \<Rightarrow> bytes \<Rightarrow> 'a media_db_scheme \<Rightarrow> str result list \<times> 'a media_db_scheme" where
  "purge_server_mediaid M key db =
     (let parts = split_sep key in
      case and_then (ok_or (BadDatabase ''Invalid format of metadata key'') (part 0 parts)) (\<lambda>b.
           and_then (ok_or (BadDatabase ''Invalid ServerName String in metadata key'') (string_from_bytes b)) (\<lambda>s.
           and_then (if server_name_ok M s then Ok s
                     else Err (BadDatabase ''Invalid ServerName String in metadata key'')) (\<lambda>server.
           and_then (ok_or (BadDatabase ''Invalid format of metadata key'') (part 1 parts)) (\<lambda>b.
           and_then (ok_or (BadDatabase ''Invalid Media ID String in metadata key'') (string_from_bytes b))
             (\<lambda>media_id. Ok (server, media_id)))))) of
        Inl e \<Rightarrow> ([Err e], db)
      | Inr (server, media_id) \<Rightarrow> purge_unforced M server media_id db)"

definition purge_server_row ::
  "media_env \<Rightarrow> bool \<Rightarrow> u64 option \<Rightarrow> bytes \<times> bytes \<Rightarrow> 'a media_db_scheme
    \<Rightarrow> str result list result \<times> 'a media_db_scheme" where
  "purge_server_row M force_filehash after row db =
     (if force_filehash then purge_server_digest M after (snd row) db
      else let (files, db) = purge_server_mediaid M (fst row) db in (Ok files, db))"

definition purge_and_get_hashes_from_server ::
  "media_env \<Rightarrow> str \<Rightarrow> bool \<Rightarrow> u64 option \<Rightarrow> 'a media_db_scheme
    \<Rightarrow> str result list result \<times> 'a media_db_scheme" where
  "purge_and_get_hashes_from_server M server force_filehash after db =
     step_then (traverse (purge_server_row M force_filehash after)
       (kv_scan_prefix (servernamemediaid_metadata db) (server @ [sep])
        @ kv_scan_prefix (thumbnailid_metadata db) (server @ [sep])) db)
       (\<lambda>files db. (Ok (concat files), db))"

section \<open>Unblocking\<close>

definition unblock_file_row :: "bytes \<Rightarrow> 'a media_db_scheme \<Rightarrow> error list \<times> 'a media_db_scheme" where
  "unblock_file_row k db =
     (case id_of_filehash_key k of
        Some servername_mediaid \<Rightarrow>
          ([], db\<lparr>blocked_servername_mediaid := kv_remove (blocked_servername_mediaid db) servername_mediaid\<rparr>)
      | None \<Rightarrow> ([BadDatabase ''Invalid format of key in filehash_servername_mediaid''], db))"

text \<open>The second error is pushed whether or not the key could be read.\<close>

definition unblock_thumbnail_row :: "bytes \<Rightarrow> 'a media_db_scheme \<Rightarrow> error list \<times> 'a media_db_scheme" where
  "unblock_thumbnail_row k db =
     (let thumbnail_id_error = BadDatabase ''Invalid format of value in filehash_thumbnailid'' in
      if length k < 9 then ([], db)
      else case id_of_thumbnail_key k of
             Some servername_mediaid \<Rightarrow>
               ([thumbnail_id_error],
                db\<lparr>blocked_servername_mediaid := kv_remove (blocked_servername_mediaid db) servername_mediaid\<rparr>)
           | None \<Rightarrow> ([thumbnail_id_error, thumbnail_id_error], db))"

fun gather :: "('x \<Rightarrow> 's \<Rightarrow> 'e list \<times> 's) \<Rightarrow> 'x list \<Rightarrow> 's \<Rightarrow> 'e list \<times> 's" where
  "gather f [] s = ([], s)"
| "gather f (x # xs) s =
     (let (es, s) = f x s; (es', s) = gather f xs s in (es @ es', s))"

definition maybe_remove_remaining_metadata ::
  "bytes \<Rightarrow> 'a media_db_scheme \<Rightarrow> error list \<times> 'a media_db_scheme" where
  "maybe_remove_remaining_metadata digest db =
     (let (es, db) = gather unblock_file_row
            (map fst (kv_scan_prefix (filehash_servername_mediaid db) digest)) db;
          (ts, db) = gather unblock_thumbnail_row
            (map fst (kv_scan_prefix (filehash_thumbnailid db) digest)) db
      in case kv_get (filehash_metadata db) digest of
           Some _ \<Rightarrow> (es @ ts, db)
         | None \<Rightarrow>
             let (r, db) = purge_filehash digest False db
             in (es @ ts @ (case r of Inl e \<Rightarrow> [e] | Inr _ \<Rightarrow> []), db))"

definition unblock_thumbnail :: "bytes \<times> bytes \<Rightarrow> 'a media_db_scheme \<Rightarrow> error list \<times> 'a media_db_scheme" where
  "unblock_thumbnail row db =
     (case parse_metadata (snd row) of
        Inl e \<Rightarrow> ([e], db)
      | Inr meta \<Rightarrow> maybe_remove_remaining_metadata (sha256_digest meta) db)"

definition unblock_one :: "str \<times> str \<Rightarrow> 'a media_db_scheme \<Rightarrow> error list \<times> 'a media_db_scheme" where
  "unblock_one media db =
     (let key = media_key (fst media) (snd media);
          thumbnails = (\<lambda>es db.
            let (ts, db) = gather unblock_thumbnail
                  (kv_scan_prefix (thumbnailid_metadata db) (key @ [sep])) db
            in (es @ ts, db))
      in case map_option parse_metadata (kv_get (servernamemediaid_metadata db) key) of
           None \<Rightarrow> thumbnails [] db
         | Some (Inl e) \<Rightarrow> ([e], db)
         | Some (Inr meta) \<Rightarrow>
             let (es, db) = maybe_remove_remaining_metadata (sha256_digest meta) db
             in thumbnails es db)"

definition unblock :: "(str \<times> str) list \<Rightarrow> 'a media_db_scheme \<Rightarrow> error list \<times> 'a media_db_scheme" where
  "unblock media db = gather unblock_one media db"

section \<open>What a purge of a digest does\<close>

text \<open>The rows of a media table whose file has another digest.\<close>

definition without :: "bytes \<Rightarrow> kvtree \<Rightarrow> kvtree" where
  "without d t = filter (\<lambda>(_, v). take 32 v \<noteq> d) t"

lemma kv_wf_filter: "kv_wf t \<Longrightarrow> kv_wf (filter P t)"
  unfolding kv_wf_def by (induction t) auto

lemma kv_get_filter:
  assumes "kv_wf t"
  shows "kv_get (filter P t) i = (case kv_get t i of Some v \<Rightarrow> if P (i, v) then Some v else None | None \<Rightarrow> None)"
proof -
  have eq: "kv_get (filter P t) i = Some v \<longleftrightarrow> kv_get t i = Some v \<and> P (i, v)" for v
    by (simp add: kv_get_in_set kv_wf_filter assms)
  show ?thesis
  proof (cases "kv_get (filter P t) i")
    case None
    then show ?thesis using eq by (auto split: option.split)
  next
    case (Some v)
    then show ?thesis using eq[of v] by simp
  qed
qed

lemma kv_get_without:
  "kv_wf t \<Longrightarrow> kv_get (without d t) i = (case kv_get t i of Some v \<Rightarrow> if take 32 v = d then None else Some v | None \<Rightarrow> None)"
  by (auto simp: without_def kv_get_filter split: option.splits)

lemma remove_indexed:
  assumes ok: "index_ok ft mt" and d: "length d = 32"
  shows "kv_remove_keys mt (map (drop 32) (map fst (kv_scan_prefix ft d))) = without d mt"
proof -
  have "i \<in> drop 32 ` fst ` set (kv_scan_prefix ft d) \<longleftrightarrow> take 32 v = d" if "(i, v) \<in> set mt" for i v
    using that kv_get_in_set[OF index_okD(2)[OF ok], of i v] unfolding index_scan[OF ok d] by simp
  then show ?thesis
    unfolding kv_remove_keys_filter without_def by (intro filter_cong) (auto simp: image_image)
qed

lemma kv_remove_keys_Cons: "kv_remove_keys t (k # ks) = kv_remove_keys (kv_remove t k) ks"
  by (simp add: kv_remove_keys_def)

lemma purge_thumbnail_rows:
  assumes "media_ok db" "distinct ks" "\<forall>k \<in> set ks. kv_get (filehash_thumbnailid db) k \<noteq> None"
  defines "db' \<equiv> db\<lparr>filehash_thumbnailid := kv_remove_keys (filehash_thumbnailid db) ks,
      thumbnailid_metadata := kv_remove_keys (thumbnailid_metadata db) (map (drop 32) ks)\<rparr>"
  shows "(\<exists>us. traverse purge_thumbnail_row ks db = (Ok us, db')) \<and> media_ok db'"
  using assms(1-3) unfolding db'_def
proof (induction ks arbitrary: db)
  case (Cons k ks)
  let ?db = "db\<lparr>filehash_thumbnailid := kv_remove (filehash_thumbnailid db) k,
      thumbnailid_metadata := kv_remove (thumbnailid_metadata db) (drop 32 k)\<rparr>"
  have k: "kv_get (filehash_thumbnailid db) k \<noteq> None" using Cons.prems(3) by simp
  have "media_ok ?db"
    using Cons.prems(1) index_ok_remove[OF media_okD(2)[OF Cons.prems(1)] k]
    by (auto simp: media_ok_def uploads_ok_def kv_get_remove split: if_splits)
  moreover have "purge_thumbnail_row k db = (Ok (), ?db)"
    using index_okD(3)[OF media_okD(2)[OF Cons.prems(1)] k] by (simp add: purge_thumbnail_row_def Let_def)
  ultimately show ?case
    using Cons.IH[of ?db] Cons.prems(2,3) by (fastforce simp: kv_remove_keys_Cons kv_get_remove)
qed (simp add: kv_remove_keys_def)

lemma uploads_ok_remove:
  assumes ok: "uploads_ok db" and i: "kv_get (servernamemediaid_userlocalpart db) i = Some l"
  shows "\<exists>n m. i = media_key n m \<and> split_sep i = [n, m]
    \<and> uploads_ok (db\<lparr>servernamemediaid_metadata := kv_remove (servernamemediaid_metadata db) i,
         servernamemediaid_userlocalpart := kv_remove (servernamemediaid_userlocalpart db) i,
         servername_userlocalpart_mediaid := kv_remove (servername_userlocalpart_mediaid db) (uploader_key n l m)\<rparr>)"
proof -
  obtain n m where nm: "i = media_key n m" "utf8 n" "utf8 m" "utf8 l"
    "kv_get (servername_userlocalpart_mediaid db) (uploader_key n l m) \<noteq> None"
    using ok i unfolding uploads_ok_def by blast
  let ?db = "db\<lparr>servernamemediaid_metadata := kv_remove (servernamemediaid_metadata db) i,
      servernamemediaid_userlocalpart := kv_remove (servernamemediaid_userlocalpart db) i,
      servername_userlocalpart_mediaid := kv_remove (servername_userlocalpart_mediaid db) (uploader_key n l m)\<rparr>"
  have up: "\<exists>n' m'. j = media_key n' m' \<and> utf8 n' \<and> utf8 m' \<and> utf8 l'
      \<and> kv_get (servername_userlocalpart_mediaid ?db) (uploader_key n' l' m') \<noteq> None"
    if j: "j \<noteq> i" "kv_get (servernamemediaid_userlocalpart db) j = Some l'" for j l'
  proof -
    obtain n' m' where nm': "j = media_key n' m'" "utf8 n'" "utf8 m'" "utf8 l'"
      "kv_get (servername_userlocalpart_mediaid db) (uploader_key n' l' m') \<noteq> None"
      using ok j(2) unfolding uploads_ok_def by blast
    then have "uploader_key n' l' m' \<noteq> uploader_key n l m" using j(1) nm by auto
    then have "kv_get (servername_userlocalpart_mediaid ?db) (uploader_key n' l' m') \<noteq> None"
      using nm'(5) by (simp add: kv_get_remove)
    then show ?thesis using nm'(1-4) by blast
  qed
  have down: "\<exists>n' l' m'. k = uploader_key n' l' m' \<and> utf8 n' \<and> utf8 l' \<and> utf8 m'
      \<and> kv_get (servernamemediaid_userlocalpart ?db) (media_key n' m') = Some l'"
    if k: "k \<noteq> uploader_key n l m" "kv_get (servername_userlocalpart_mediaid db) k \<noteq> None" for k
  proof -
    obtain n' l' m' where nm': "k = uploader_key n' l' m'" "utf8 n'" "utf8 l'" "utf8 m'"
      "kv_get (servernamemediaid_userlocalpart db) (media_key n' m') = Some l'"
      using ok k(2) unfolding uploads_ok_def by blast
    then have "media_key n' m' \<noteq> i" using k(1) nm i by auto
    then have "kv_get (servernamemediaid_userlocalpart ?db) (media_key n' m') = Some l'"
      using nm'(5) by (simp add: kv_get_remove)
    then show ?thesis using nm'(1-4) by blast
  qed
  have stored: "kv_get (servernamemediaid_metadata ?db) j \<noteq> None"
    if "j \<noteq> i" "kv_get (servernamemediaid_userlocalpart db) j = Some l'" for j l'
  proof -
    have "kv_get (servernamemediaid_metadata db) j \<noteq> None" using ok that(2) unfolding uploads_ok_def by blast
    then show ?thesis using that(1) by (simp add: kv_get_remove)
  qed
  have wf: "kv_wf (servernamemediaid_userlocalpart ?db)" "kv_wf (servername_userlocalpart_mediaid ?db)"
    using ok by (simp_all add: uploads_ok_def kv_wf_remove)
  have gets: "kv_get (servernamemediaid_userlocalpart ?db) j = Some l' \<longleftrightarrow> j \<noteq> i \<and> kv_get (servernamemediaid_userlocalpart db) j = Some l'"
    "kv_get (servername_userlocalpart_mediaid ?db) k \<noteq> None \<longleftrightarrow>
      k \<noteq> uploader_key n l m \<and> kv_get (servername_userlocalpart_mediaid db) k \<noteq> None" for j l' k
    by (simp_all add: kv_get_remove)
  have "uploads_ok ?db"
    unfolding uploads_ok_def
  proof (intro conjI allI impI)
    fix j l' assume "kv_get (servernamemediaid_userlocalpart ?db) j = Some l'"
    then have j: "j \<noteq> i" "kv_get (servernamemediaid_userlocalpart db) j = Some l'" unfolding gets by simp_all
    show "kv_get (servernamemediaid_metadata ?db) j \<noteq> None" by (rule stored[OF j])
    show "\<exists>n m. j = media_key n m \<and> utf8 n \<and> utf8 m \<and> utf8 l'
        \<and> kv_get (servername_userlocalpart_mediaid ?db) (uploader_key n l' m) \<noteq> None" by (rule up[OF j])
  next
    fix k assume "kv_get (servername_userlocalpart_mediaid ?db) k \<noteq> None"
    then have k: "k \<noteq> uploader_key n l m" "kv_get (servername_userlocalpart_mediaid db) k \<noteq> None"
      unfolding gets by simp_all
    show "\<exists>n l m. k = uploader_key n l m \<and> utf8 n \<and> utf8 l \<and> utf8 m
        \<and> kv_get (servernamemediaid_userlocalpart ?db) (media_key n m) = Some l" by (rule down[OF k])
  qed (rule wf)+
  moreover have "split_sep i = [n, m]" using nm by (simp add: media_key_def key_simps utf8_no_sep)
  ultimately show ?thesis using nm(1) by blast
qed

lemma purge_file_row_ok:
  assumes ok: "media_ok db" and k: "kv_get (filehash_servername_mediaid db) k \<noteq> None"
  shows "\<exists>snu snum. let db' = db\<lparr>servernamemediaid_metadata := kv_remove (servernamemediaid_metadata db) (drop 32 k),
        filehash_servername_mediaid := kv_remove (filehash_servername_mediaid db) k,
        servernamemediaid_userlocalpart := snu, servername_userlocalpart_mediaid := snum\<rparr>
      in purge_file_row k db = (Ok (), db') \<and> media_ok db'"
proof -
  let ?i = "drop 32 k"
  let ?db = "db\<lparr>servernamemediaid_metadata := kv_remove (servernamemediaid_metadata db) ?i,
      filehash_servername_mediaid := kv_remove (filehash_servername_mediaid db) k\<rparr>"
  note up = media_okD(5)[OF ok]
  have k32: "32 \<le> length k" by (rule index_okD(3)[OF media_okD(1)[OF ok] k])
  have rest: "media_ok (?db\<lparr>servernamemediaid_userlocalpart := snu, servername_userlocalpart_mediaid := snum\<rparr>)"
    if "uploads_ok (?db\<lparr>servernamemediaid_userlocalpart := snu, servername_userlocalpart_mediaid := snum\<rparr>)" for snu snum
    using ok index_ok_remove[OF media_okD(1)[OF ok] k] that by (simp add: media_ok_def)
  show ?thesis
  proof (cases "kv_get (servernamemediaid_userlocalpart db) ?i")
    case None
    have gone: "kv_get (kv_remove (servernamemediaid_metadata db) ?i) j \<noteq> None"
      if "kv_get (servernamemediaid_userlocalpart db) j = Some l" for j l
    proof -
      have "kv_get (servernamemediaid_metadata db) j \<noteq> None" using up that unfolding uploads_ok_def by blast
      then show ?thesis using that None by (auto simp: kv_get_remove)
    qed
    have "uploads_ok (?db\<lparr>servernamemediaid_userlocalpart := servernamemediaid_userlocalpart db,
        servername_userlocalpart_mediaid := servername_userlocalpart_mediaid db\<rparr>)"
      using up gone unfolding uploads_ok_def by simp
    from rest[OF this] None k32 show ?thesis
      by - (rule exI[of _ "servernamemediaid_userlocalpart db"], rule exI[of _ "servername_userlocalpart_mediaid db"],
          simp add: purge_file_row_def Let_def)
  next
    case (Some l)
    from uploads_ok_remove[OF up Some] obtain n m where nm: "?i = media_key n m" "split_sep ?i = [n, m]"
      and up': "uploads_ok (db\<lparr>servernamemediaid_metadata := kv_remove (servernamemediaid_metadata db) ?i,
         servernamemediaid_userlocalpart := kv_remove (servernamemediaid_userlocalpart db) ?i,
         servername_userlocalpart_mediaid := kv_remove (servername_userlocalpart_mediaid db) (uploader_key n l m)\<rparr>)"
      by blast
    have "uploads_ok (?db\<lparr>servernamemediaid_userlocalpart := kv_remove (servernamemediaid_userlocalpart db) ?i,
        servername_userlocalpart_mediaid := kv_remove (servername_userlocalpart_mediaid db) (uploader_key n l m)\<rparr>)"
      using up' unfolding uploads_ok_def by simp
    from rest[OF this] show ?thesis
      by - (rule exI[of _ "kv_remove (servernamemediaid_userlocalpart db) ?i"], rule exI[of _ "kv_remove (servername_userlocalpart_mediaid db) (uploader_key n l m)"],
          use k32 Some nm(2) in \<open>simp add: purge_file_row_def Let_def part_def\<close>)
  qed
qed

lemma purge_file_rows:
  assumes "media_ok db" "distinct ks" "\<forall>k \<in> set ks. kv_get (filehash_servername_mediaid db) k \<noteq> None"
  shows "\<exists>us snu snum. let db' = db\<lparr>servernamemediaid_metadata := kv_remove_keys (servernamemediaid_metadata db) (map (drop 32) ks),
        filehash_servername_mediaid := kv_remove_keys (filehash_servername_mediaid db) ks,
        servernamemediaid_userlocalpart := snu, servername_userlocalpart_mediaid := snum\<rparr>
      in traverse purge_file_row ks db = (Ok us, db') \<and> media_ok db'"
  using assms
proof (induction ks arbitrary: db)
  case Nil
  then show ?case
    by - (rule exI[of _ "[]"], rule exI[of _ "servernamemediaid_userlocalpart db"], rule exI[of _ "servername_userlocalpart_mediaid db"],
          simp add: kv_remove_keys_def Let_def)
next
  case (Cons k ks)
  have k: "kv_get (filehash_servername_mediaid db) k \<noteq> None" using Cons.prems(3) by simp
  obtain snu snum where row: "purge_file_row k db = (Ok (), db\<lparr>servernamemediaid_metadata := kv_remove (servernamemediaid_metadata db) (drop 32 k),
        filehash_servername_mediaid := kv_remove (filehash_servername_mediaid db) k,
        servernamemediaid_userlocalpart := snu, servername_userlocalpart_mediaid := snum\<rparr>)
      \<and> media_ok (db\<lparr>servernamemediaid_metadata := kv_remove (servernamemediaid_metadata db) (drop 32 k),
        filehash_servername_mediaid := kv_remove (filehash_servername_mediaid db) k,
        servernamemediaid_userlocalpart := snu, servername_userlocalpart_mediaid := snum\<rparr>)"
    using purge_file_row_ok[OF Cons.prems(1) k] unfolding Let_def by (elim exE)
  define db1 where "db1 = db\<lparr>servernamemediaid_metadata := kv_remove (servernamemediaid_metadata db) (drop 32 k),
        filehash_servername_mediaid := kv_remove (filehash_servername_mediaid db) k,
        servernamemediaid_userlocalpart := snu, servername_userlocalpart_mediaid := snum\<rparr>"
  have step: "purge_file_row k db = (Ok (), db1)" and ok: "media_ok db1" using row by (simp_all add: db1_def)
  have "\<forall>k \<in> set ks. kv_get (filehash_servername_mediaid db1) k \<noteq> None"
    using Cons.prems(2,3) by (auto simp: kv_get_remove db1_def)
  from Cons.IH[OF ok _ this] Cons.prems(2) obtain us snu' snum' where
    "traverse purge_file_row ks db1 = (Ok us, db1\<lparr>servernamemediaid_metadata := kv_remove_keys (servernamemediaid_metadata db1) (map (drop 32) ks),
        filehash_servername_mediaid := kv_remove_keys (filehash_servername_mediaid db1) ks,
        servernamemediaid_userlocalpart := snu', servername_userlocalpart_mediaid := snum'\<rparr>)
      \<and> media_ok (db1\<lparr>servernamemediaid_metadata := kv_remove_keys (servernamemediaid_metadata db1) (map (drop 32) ks),
        filehash_servername_mediaid := kv_remove_keys (filehash_servername_mediaid db1) ks,
        servernamemediaid_userlocalpart := snu', servername_userlocalpart_mediaid := snum'\<rparr>)"
    unfolding Let_def by auto
  then show ?case
    by - (rule exI[of _ "() # us"], rule exI[of _ snu'], rule exI[of _ snum'],
        simp add: step, simp add: db1_def kv_remove_keys_Cons Let_def)
qed

text \<open>
  Purging a digest removes its rows from the two media tables and from both indices, and the
  metadata of the file; the uploader tables follow.
\<close>

lemma purge_filehash_False:
  assumes ok: "media_ok db" and d: "length d = 32"
  shows "\<exists>snu snum. let db' = db\<lparr>filehash_thumbnailid := kv_remove_prefix (filehash_thumbnailid db) d,
        thumbnailid_metadata := without d (thumbnailid_metadata db),
        servernamemediaid_metadata := without d (servernamemediaid_metadata db),
        filehash_servername_mediaid := kv_remove_prefix (filehash_servername_mediaid db) d,
        servernamemediaid_userlocalpart := snu, servername_userlocalpart_mediaid := snum,
        filehash_metadata := kv_remove (filehash_metadata db) d\<rparr>
      in purge_filehash d False db = (Ok (), db') \<and> media_ok db'"
proof -
  let ?ts = "map fst (kv_scan_prefix (filehash_thumbnailid db) d)"
  let ?db = "db\<lparr>filehash_thumbnailid := kv_remove_prefix (filehash_thumbnailid db) d,
      thumbnailid_metadata := without d (thumbnailid_metadata db)\<rparr>"
  have keys: "distinct (map fst (kv_scan_prefix t d))" "\<forall>k \<in> set (map fst (kv_scan_prefix t d)). kv_get t k \<noteq> None"
    if "kv_wf t" for t
    using kv_scan_prefix_sorted[OF that, of d] by (auto simp: strict_sorted_iff kv_scan_prefix_set[OF that])
  have "(\<exists>us. traverse purge_thumbnail_row ?ts db = (Ok us, ?db)) \<and> media_ok ?db"
    using purge_thumbnail_rows[OF ok keys[OF index_okD(1)[OF media_okD(2)[OF ok]]]]
    unfolding kv_remove_prefix_def remove_indexed[OF media_okD(2)[OF ok] d] .
  then obtain us where th: "traverse purge_thumbnail_row ?ts db = (Ok us, ?db)" and ok2: "media_ok ?db" by blast
  have wf: "kv_wf (filehash_servername_mediaid db)" by (rule index_okD(1)[OF media_okD(1)[OF ok]])
  have ks: "\<forall>k \<in> set (map fst (kv_scan_prefix (filehash_servername_mediaid db) d)). kv_get (filehash_servername_mediaid ?db) k \<noteq> None"
    using keys(2)[OF wf] by simp
  obtain fs snu snum where files: "traverse purge_file_row (map fst (kv_scan_prefix (filehash_servername_mediaid db) d)) ?db
      = (Ok fs, ?db\<lparr>servernamemediaid_metadata := without d (servernamemediaid_metadata db),
        filehash_servername_mediaid := kv_remove_prefix (filehash_servername_mediaid db) d,
        servernamemediaid_userlocalpart := snu, servername_userlocalpart_mediaid := snum\<rparr>)
      \<and> media_ok (?db\<lparr>servernamemediaid_metadata := without d (servernamemediaid_metadata db),
        filehash_servername_mediaid := kv_remove_prefix (filehash_servername_mediaid db) d,
        servernamemediaid_userlocalpart := snu, servername_userlocalpart_mediaid := snum\<rparr>)"
    using purge_file_rows[OF ok2 keys(1)[OF wf] ks] remove_indexed[OF media_okD(1)[OF ok] d]
    by (auto simp: Let_def kv_remove_prefix_def simp del: map_map)
  define db2 where "db2 = ?db\<lparr>servernamemediaid_metadata := without d (servernamemediaid_metadata db),
        filehash_servername_mediaid := kv_remove_prefix (filehash_servername_mediaid db) d,
        servernamemediaid_userlocalpart := snu, servername_userlocalpart_mediaid := snum\<rparr>"
  have fi: "traverse purge_file_row (map fst (kv_scan_prefix (filehash_servername_mediaid db) d)) ?db = (Ok fs, db2)"
    and ok3: "media_ok db2" using files by (simp_all add: db2_def)
  have "media_ok (db2\<lparr>filehash_metadata := kv_remove (filehash_metadata db) d\<rparr>)"
    using ok3 ok by (auto simp: media_ok_def uploads_ok_def kv_get_remove kv_wf_remove split: if_splits)
  moreover have "purge_filehash d False db = (Ok (), db2\<lparr>filehash_metadata := kv_remove (filehash_metadata db) d\<rparr>)"
    using th fi by (simp add: purge_filehash_def) (simp add: db2_def)
  ultimately show ?thesis
    by - (rule exI[of _ snu], rule exI[of _ snum], simp add: Let_def db2_def)
qed

lemma purge_filehash_True:
  assumes "media_ok db"
  shows "purge_filehash d True db = (Ok (), db\<lparr>filehash_metadata := kv_remove (filehash_metadata db) d\<rparr>)"
    "media_ok (db\<lparr>filehash_metadata := kv_remove (filehash_metadata db) d\<rparr>)"
  using assms by (auto simp: purge_filehash_def media_ok_def uploads_ok_def kv_get_remove kv_wf_remove split: if_splits)

lemma purge_digest_ok:
  assumes ok: "media_ok db" and d: "length d = 32"
  obtains db' where "purge_digest M d db = (Ok (hex_encode M d), db')" "media_ok db'"
    "filehash_metadata db' = kv_remove (filehash_metadata db) d"
    "blocked_servername_mediaid db' = blocked_servername_mediaid db"
    "filehash_servername_mediaid db' = (if blocked_digest d db then filehash_servername_mediaid db
       else kv_remove_prefix (filehash_servername_mediaid db) d)"
    "filehash_thumbnailid db' = (if blocked_digest d db then filehash_thumbnailid db
       else kv_remove_prefix (filehash_thumbnailid db) d)"
    "servernamemediaid_metadata db' = (if blocked_digest d db then servernamemediaid_metadata db
       else without d (servernamemediaid_metadata db))"
    "thumbnailid_metadata db' = (if blocked_digest d db then thumbnailid_metadata db
       else without d (thumbnailid_metadata db))"
proof (cases "blocked_digest d db")
  case True
  then show ?thesis
    using that[of "db\<lparr>filehash_metadata := kv_remove (filehash_metadata db) d\<rparr>"] purge_filehash_True[OF ok, of d]
    by (simp add: purge_digest_def is_blocked_filehash_eq[OF ok d])
next
  case False
  obtain snu snum where f: "purge_filehash d False db = (Ok (), db\<lparr>filehash_thumbnailid := kv_remove_prefix (filehash_thumbnailid db) d,
        thumbnailid_metadata := without d (thumbnailid_metadata db),
        servernamemediaid_metadata := without d (servernamemediaid_metadata db),
        filehash_servername_mediaid := kv_remove_prefix (filehash_servername_mediaid db) d,
        servernamemediaid_userlocalpart := snu, servername_userlocalpart_mediaid := snum,
        filehash_metadata := kv_remove (filehash_metadata db) d\<rparr>)
      \<and> media_ok (db\<lparr>filehash_thumbnailid := kv_remove_prefix (filehash_thumbnailid db) d,
        thumbnailid_metadata := without d (thumbnailid_metadata db),
        servernamemediaid_metadata := without d (servernamemediaid_metadata db),
        filehash_servername_mediaid := kv_remove_prefix (filehash_servername_mediaid db) d,
        servernamemediaid_userlocalpart := snu, servername_userlocalpart_mediaid := snum,
        filehash_metadata := kv_remove (filehash_metadata db) d\<rparr>)"
    using purge_filehash_False[OF ok d] unfolding Let_def by (elim exE)
  show ?thesis
    by (rule that[of "snd (purge_filehash d False db)"])
      (use f False in \<open>simp_all add: purge_digest_def is_blocked_filehash_eq[OF ok d]\<close>)
qed

lemma purge_ok:
  assumes "media_ok db" "\<forall>d \<in> set ds. length d = 32"
  shows "\<exists>db'. purge M ds db = (Ok (map (\<lambda>d. Ok (hex_encode M d)) ds), db') \<and> media_ok db'
    \<and> filehash_metadata db' = kv_remove_keys (filehash_metadata db) ds
    \<and> blocked_servername_mediaid db' = blocked_servername_mediaid db"
  using assms
proof (induction ds arbitrary: db)
  case Nil
  then show ?case by (simp add: purge_def kv_remove_keys_def)
next
  case (Cons d ds)
  obtain db1 where db1: "purge_digest M d db = (Ok (hex_encode M d), db1)" "media_ok db1"
    "filehash_metadata db1 = kv_remove (filehash_metadata db) d"
    "blocked_servername_mediaid db1 = blocked_servername_mediaid db"
    using purge_digest_ok[OF Cons.prems(1), of d M] Cons.prems(2) by auto
  obtain db2 where "purge M ds db1 = (Ok (map (\<lambda>d. Ok (hex_encode M d)) ds), db2)" "media_ok db2"
    "filehash_metadata db2 = kv_remove_keys (filehash_metadata db1) ds"
    "blocked_servername_mediaid db2 = blocked_servername_mediaid db1"
    using Cons.IH[OF db1(2)] Cons.prems(2) by auto
  then show ?case using db1 by (simp add: purge_def catch_def kv_remove_keys_Cons)
qed

text \<open>A purge of a digest changes nothing about what is blocked.\<close>

lemma purge_digest_keeps_blocks:
  assumes ok: "media_ok db" and d: "length d = 32" and p: "purge_digest M d db = (r, db')"
    and b: "is_blocked n m db = Ok b"
  shows "is_blocked n m db' = Ok b"
proof -
  obtain db1 where db1: "purge_digest M d db = (Ok (hex_encode M d), db1)" "media_ok db1"
    "filehash_metadata db1 = kv_remove (filehash_metadata db) d"
    "blocked_servername_mediaid db1 = blocked_servername_mediaid db"
    "filehash_servername_mediaid db1 = (if blocked_digest d db then filehash_servername_mediaid db
       else kv_remove_prefix (filehash_servername_mediaid db) d)"
    "filehash_thumbnailid db1 = (if blocked_digest d db then filehash_thumbnailid db
       else kv_remove_prefix (filehash_thumbnailid db) d)"
    "servernamemediaid_metadata db1 = (if blocked_digest d db then servernamemediaid_metadata db
       else without d (servernamemediaid_metadata db))"
    "thumbnailid_metadata db1 = (if blocked_digest d db then thumbnailid_metadata db
       else without d (thumbnailid_metadata db))"
    using purge_digest_ok[OF ok d] by blast
  have "db1 = db'" using db1(1) p by simp
  note db' = db1[unfolded this]
  note wf = index_okD(1,2)[OF media_okD(1)[OF ok]] index_okD(1,2)[OF media_okD(2)[OF ok]]
  show ?thesis
  proof (cases "is_directly_blocked n m db")
    case True
    then show ?thesis using b by (simp add: is_blocked_def is_directly_blocked_def db'(4))
  next
    case False
    note direct = this
    show ?thesis
    proof (cases "kv_get (servernamemediaid_metadata db) (media_key n m)")
      case None
      then show ?thesis using b direct
        by (simp add: is_blocked_def is_directly_blocked_def db'(4,7) kv_get_without wf)
    next
      case (Some v)
      then obtain meta where meta: "parse_metadata v = Ok meta" using b direct by (auto simp: is_blocked_def and_then_eq_Inr)
      note known = is_blocked_known[OF ok Some meta]
      have len: "length (sha256_digest meta) = 32" "sha256_digest meta = take 32 v"
        using parse_metadata_digest[OF meta] by auto
      show ?thesis
      proof (cases "sha256_digest meta = d \<and> \<not> blocked_digest d db")
        case True
        then have "kv_get (servernamemediaid_metadata db') (media_key n m) = None"
          using Some len by (simp add: db'(7) kv_get_without wf)
        then show ?thesis using known b direct True by (simp add: is_blocked_def is_directly_blocked_def db'(4))
      next
        case False
        have row: "kv_get (servernamemediaid_metadata db') (media_key n m) = Some v"
          using Some len False by (auto simp: db'(7) kv_get_without wf)
        have "has_content i (sha256_digest meta) db' \<longleftrightarrow> has_content i (sha256_digest meta) db" for i
          using False len d by (auto simp: has_content_def db'(5,6) kv_get_remove_prefix wf prefix_def)
        then have "blocked_digest (sha256_digest meta) db' = blocked_digest (sha256_digest meta) db"
          by (simp add: blocked_digest_content db'(4))
        then show ?thesis using is_blocked_known[OF db'(2) row meta] known b by simp
      qed
    qed
  qed
qed

text \<open>
  C12: a forced purge of a file deletes exactly that content: afterwards a media id or thumbnail is
  found if and only if it was and its digest is another one. The digest is returned for deletion from
  the backend, the tables stay consistent, and what is blocked stays blocked.
\<close>

theorem forced_purge_exact:
  assumes ok: "media_ok db" and d: "length d = 32"
  shows "\<exists>db'. purge_digest M d db = (Ok (hex_encode M d), db') \<and> media_ok db'
    \<and> (\<forall>n m meta. search_file_metadata n m db' = Ok meta \<longleftrightarrow>
         search_file_metadata n m db = Ok meta \<and> sha256_digest meta \<noteq> d)
    \<and> (\<forall>n m w h meta. search_thumbnail_metadata n m w h db' = Ok meta \<longleftrightarrow>
         search_thumbnail_metadata n m w h db = Ok meta \<and> sha256_digest meta \<noteq> d)
    \<and> (\<forall>n m b. is_blocked n m db = Ok b \<longrightarrow> is_blocked n m db' = Ok b)"
proof -
  obtain db' where db': "purge_digest M d db = (Ok (hex_encode M d), db')" "media_ok db'"
    "filehash_metadata db' = kv_remove (filehash_metadata db) d"
    "blocked_servername_mediaid db' = blocked_servername_mediaid db"
    "filehash_servername_mediaid db' = (if blocked_digest d db then filehash_servername_mediaid db
       else kv_remove_prefix (filehash_servername_mediaid db) d)"
    "filehash_thumbnailid db' = (if blocked_digest d db then filehash_thumbnailid db
       else kv_remove_prefix (filehash_thumbnailid db) d)"
    "servernamemediaid_metadata db' = (if blocked_digest d db then servernamemediaid_metadata db
       else without d (servernamemediaid_metadata db))"
    "thumbnailid_metadata db' = (if blocked_digest d db then thumbnailid_metadata db
       else without d (thumbnailid_metadata db))"
    using purge_digest_ok[OF ok d] by blast
  note wf = index_okD(1,2)[OF media_okD(1)[OF ok]] index_okD(1,2)[OF media_okD(2)[OF ok]]
  have found: "stored_metadata row' db' = Ok meta \<longleftrightarrow> stored_metadata row db = Ok meta \<and> sha256_digest meta \<noteq> d"
    if "row' = row \<or> row' = (case row of Some v \<Rightarrow> if take 32 v = d then None else Some v | None \<Rightarrow> None)" for row row' meta
    using that parse_metadata_digest by (auto simp: stored_metadata_Ok db'(3) kv_get_remove split: option.splits if_splits)
  have "is_blocked n m db' = Ok b" if "is_blocked n m db = Ok b" for n m b
    by (rule purge_digest_keeps_blocks[OF ok d db'(1) that])
  moreover have "search_file_metadata n m db' = Ok meta \<longleftrightarrow> search_file_metadata n m db = Ok meta \<and> sha256_digest meta \<noteq> d" for n m meta
    unfolding search_file_metadata_def by (rule found) (simp add: db'(7) kv_get_without wf)
  moreover have "search_thumbnail_metadata n m w h db' = Ok meta \<longleftrightarrow>
      search_thumbnail_metadata n m w h db = Ok meta \<and> sha256_digest meta \<noteq> d" for n m w h meta
    unfolding search_thumbnail_metadata_def by (rule found) (simp add: db'(8) kv_get_without wf)
  ultimately show ?thesis using db'(1,2) by blast
qed

theorem forced_purge_exact_witness:
  "\<exists>db'. purge_digest sample_media_env digest_one shared_upload = (Ok digest_one, db')
     \<and> (\<forall>n m meta. search_file_metadata n m db' = Ok meta \<longrightarrow> sha256_digest meta \<noteq> digest_one)"
  using forced_purge_exact [OF shared_upload_ok, of digest_one sample_media_env] by (auto simp: sample_media_env_def)

section \<open>What a purge of a media id does\<close>

lemma digest_rows_0:
  assumes "kv_wf t"
  shows "digest_rows t d = 0 \<longleftrightarrow> (\<forall>k. prefix d k \<longrightarrow> kv_get t k = None)"
proof -
  have "digest_rows t d = 0 \<longleftrightarrow> set (kv_scan_prefix t d) = {}" by (simp add: digest_rows_def)
  then show ?thesis unfolding kv_scan_prefix_set[OF assms] by auto
qed

lemma kv_remove_absent: "kv_get t k = None \<Longrightarrow> kv_remove t k = t"
  unfolding kv_remove_def kv_get_def map_of_eq_None_iff by (intro filter_True) (auto simp: image_iff)

text \<open>
  The loop over the thumbnails of a media id: its removal from the index names the digest instead of
  the row, so the index keeps the row, and because the row is still there no file is ever freed.
\<close>

lemma purge_thumbnails_False:
  assumes "kv_wf (filehash_thumbnailid db)" "\<forall>k. kv_get (filehash_thumbnailid db) k \<noteq> None \<longrightarrow> 41 \<le> length k"
    and "\<forall>(i, v) \<in> set rows. kv_get (filehash_thumbnailid db) (take 32 v @ i) \<noteq> None"
  shows "purge_thumbnails M False seen rows db =
    ([], db\<lparr>thumbnailid_metadata := kv_remove_keys (thumbnailid_metadata db) (map fst rows)\<rparr>)"
  using assms
proof (induction rows arbitrary: seen db)
  case Nil
  then show ?case by (simp add: kv_remove_keys_def)
next
  case (Cons row rows)
  obtain i v where row: "row = (i, v)" by (cases row)
  have k: "kv_get (filehash_thumbnailid db) (take 32 v @ i) \<noteq> None" using Cons.prems(3) by (simp add: row)
  have "kv_get (filehash_thumbnailid db) (take 32 v) = None" using Cons.prems(2) by fastforce
  then have same: "kv_remove (filehash_thumbnailid db) (take 32 v) = filehash_thumbnailid db" by (rule kv_remove_absent)
  have "digest_rows (filehash_thumbnailid db) (take 32 v) \<noteq> 0"
    using k unfolding digest_rows_0[OF Cons.prems(1)] by (metis prefixI)
  moreover have "purge_thumbnails M False seen' rows (db\<lparr>thumbnailid_metadata := kv_remove (thumbnailid_metadata db) i\<rparr>) =
      ([], db\<lparr>thumbnailid_metadata := kv_remove_keys (thumbnailid_metadata db) (map fst (row # rows))\<rparr>)" for seen'
    using Cons.IH[of "db\<lparr>thumbnailid_metadata := kv_remove (thumbnailid_metadata db) i\<rparr>"] Cons.prems
    by (simp add: row kv_remove_keys_Cons)
  ultimately show ?case by (simp add: row same Let_def)
qed

lemma purge_mediaid_False:
  assumes ok: "media_ok db"
  shows "purge_mediaid M n m False db =
    (let (files, db1) = purge_source M n m False db
     in (files, db1\<lparr>thumbnailid_metadata := kv_remove_prefix (thumbnailid_metadata db) (media_key n m @ [sep])\<rparr>))"
proof -
  obtain files db1 where src: "purge_source M n m False db = (files, db1)" by (cases "purge_source M n m False db")
  have same: "filehash_thumbnailid db1 = filehash_thumbnailid db" "thumbnailid_metadata db1 = thumbnailid_metadata db"
    using src by (auto simp: purge_source_def forget_upload_def Let_def split: option.splits if_splits)
  have "\<forall>(i, v) \<in> set (kv_scan_prefix (thumbnailid_metadata db) (media_key n m @ [sep])).
      kv_get (filehash_thumbnailid db) (take 32 v @ i) \<noteq> None"
    using index_okD(6)[OF media_okD(2)[OF ok]] by (auto simp: kv_scan_prefix_set index_okD(2)[OF media_okD(2)[OF ok]])
  then show ?thesis
    using purge_thumbnails_False[of db1] index_okD(1)[OF media_okD(2)[OF ok]] media_okD(8)[OF ok]
    by (simp add: purge_mediaid_def src same kv_remove_prefix_def)
qed

text \<open>The source file of a stored media id, not blocked: what is left, and whether the file is freed.\<close>

lemma purge_source_False:
  assumes ok: "media_ok db" and v: "kv_get (servernamemediaid_metadata db) (media_key n m) = Some v"
  defines "d \<equiv> take 32 v"
    and "unshared \<equiv> (\<forall>i w. kv_get (servernamemediaid_metadata db) i = Some w \<longrightarrow> take 32 w = take 32 v \<longrightarrow> i = media_key n m)
      \<and> (\<forall>i w. kv_get (thumbnailid_metadata db) i = Some w \<longrightarrow> take 32 w \<noteq> take 32 v)"
  shows "\<exists>db'. purge_source M n m False db = (if unshared then [hex_encode M d] else [], db')
    \<and> servernamemediaid_metadata db' = kv_remove (servernamemediaid_metadata db) (media_key n m)
    \<and> filehash_metadata db' = (if unshared then kv_remove (filehash_metadata db) d else filehash_metadata db)
    \<and> filehash_thumbnailid db' = filehash_thumbnailid db"
proof -
  let ?db = "forget_upload n m d db" and ?k = "media_key n m"
  have d: "length d = 32" using index_okD(5)[OF media_okD(1)[OF ok] v] by (simp add: d_def)
  have tabs: "servernamemediaid_metadata ?db = kv_remove (servernamemediaid_metadata db) ?k"
    "filehash_servername_mediaid ?db = kv_remove (filehash_servername_mediaid db) (d @ ?k)"
    "filehash_thumbnailid ?db = filehash_thumbnailid db" "filehash_metadata ?db = filehash_metadata db"
    by (simp_all add: forget_upload_def Let_def split: option.splits)
  note wf = index_okD(1)[OF media_okD(1)[OF ok]] index_okD(1)[OF media_okD(2)[OF ok]]
  have file_ids: "(\<forall>k. prefix d k \<longrightarrow> kv_get (filehash_servername_mediaid ?db) k = None) \<longleftrightarrow>
      (\<forall>i w. kv_get (servernamemediaid_metadata db) i = Some w \<longrightarrow> take 32 w = d \<longrightarrow> i = ?k)" (is "?l \<longleftrightarrow> ?r")
  proof
    assume l: ?l
    show ?r
    proof (intro allI impI)
      fix i w assume i: "kv_get (servernamemediaid_metadata db) i = Some w" "take 32 w = d"
      have "kv_get (filehash_servername_mediaid db) (d @ i) \<noteq> None" using index_okD(6)[OF media_okD(1)[OF ok] i(1)] i(2) by simp
      moreover have "kv_get (filehash_servername_mediaid ?db) (d @ i) = None" using l by (simp add: prefix_def)
      ultimately show "i = ?k" by (auto simp: tabs kv_get_remove split: if_splits)
    qed
  next
    assume r: ?r
    show ?l
    proof (intro allI impI, rule ccontr)
      fix k assume k: "prefix d k" "kv_get (filehash_servername_mediaid ?db) k \<noteq> None"
      have k': "k \<noteq> d @ ?k" "kv_get (filehash_servername_mediaid db) k \<noteq> None"
        using k(2) by (auto simp: tabs kv_get_remove split: if_splits)
      obtain w where "kv_get (servernamemediaid_metadata db) (drop 32 k) = Some w" "take 32 w = take 32 k"
        using index_okD(4)[OF media_okD(1)[OF ok] k'(2)] by blast
      then have "drop 32 k = ?k" using r k(1) d by (auto simp: prefix_def)
      then show False using k' k(1) d by (auto simp: prefix_def)
    qed
  qed
  have thumb_ids: "(\<forall>k. prefix d k \<longrightarrow> kv_get (filehash_thumbnailid db) k = None) \<longleftrightarrow>
      (\<forall>i w. kv_get (thumbnailid_metadata db) i = Some w \<longrightarrow> take 32 w \<noteq> d)"
  proof -
    have "(\<forall>k. prefix d k \<longrightarrow> kv_get (filehash_thumbnailid db) k = None) \<longleftrightarrow>
        drop 32 ` fst ` set (kv_scan_prefix (filehash_thumbnailid db) d) = {}"
      by (auto simp: kv_scan_prefix_set wf)
    then show ?thesis unfolding index_scan[OF media_okD(2)[OF ok] d] by auto
  qed
  have wf': "kv_wf (filehash_servername_mediaid ?db)" by (simp add: tabs wf kv_wf_remove)
  have "digest_rows (filehash_servername_mediaid ?db) d \<le> 0 \<and> digest_rows (filehash_thumbnailid ?db) d = 0 \<longleftrightarrow> unshared"
    unfolding unshared_def d_def[symmetric] le_zero_eq digest_rows_0[OF wf'] tabs(3) digest_rows_0[OF wf(2)] file_ids thumb_ids ..
  then show ?thesis
    by (intro exI[of _ "if unshared then ?db\<lparr>filehash_metadata := kv_remove (filehash_metadata ?db) d\<rparr> else ?db"])
      (simp add: purge_source_def v tabs flip: d_def)
qed

text \<open>
  C19: purging one media id without force removes that id and no other media: a file shared with
  another id or with a thumbnail is kept, and it is freed exactly when nothing else has its digest.
\<close>

theorem unforced_purge_spares_shared:
  assumes ok: "media_ok db" and v: "kv_get (servernamemediaid_metadata db) (media_key n m) = Some v" and utf: "utf8 n"
  shows "\<exists>files db'. purge_mediaid M n m False db = (files, db')
    \<and> search_file_metadata n m db' = Err (BadRequest NotFound ''Media not found.'')
    \<and> (\<forall>n' m' meta. utf8 n' \<longrightarrow> (n', m') \<noteq> (n, m) \<longrightarrow>
         (search_file_metadata n' m' db' = Ok meta \<longleftrightarrow> search_file_metadata n' m' db = Ok meta))
    \<and> files = (if (\<forall>i w. kv_get (servernamemediaid_metadata db) i = Some w \<longrightarrow> take 32 w = take 32 v \<longrightarrow> i = media_key n m)
                 \<and> (\<forall>i w. kv_get (thumbnailid_metadata db) i = Some w \<longrightarrow> take 32 w \<noteq> take 32 v)
               then [hex_encode M (take 32 v)] else [])"
proof -
  define u where "u \<longleftrightarrow> (\<forall>i w. kv_get (servernamemediaid_metadata db) i = Some w \<longrightarrow> take 32 w = take 32 v \<longrightarrow> i = media_key n m)
      \<and> (\<forall>i w. kv_get (thumbnailid_metadata db) i = Some w \<longrightarrow> take 32 w \<noteq> take 32 v)"
  obtain db1 where src: "purge_source M n m False db = (if u then [hex_encode M (take 32 v)] else [], db1)"
    and snm: "servernamemediaid_metadata db1 = kv_remove (servernamemediaid_metadata db) (media_key n m)"
    and fm: "filehash_metadata db1 = (if u then kv_remove (filehash_metadata db) (take 32 v) else filehash_metadata db)"
    using purge_source_False[OF ok v, of M, folded u_def] by blast
  let ?db' = "db1\<lparr>thumbnailid_metadata := kv_remove_prefix (thumbnailid_metadata db) (media_key n m @ [sep])\<rparr>"
  have "search_file_metadata n' m' ?db' = Ok meta \<longleftrightarrow> search_file_metadata n' m' db = Ok meta"
    if "utf8 n'" "(n', m') \<noteq> (n, m)" for n' m' meta
  proof -
    have key: "media_key n' m' \<noteq> media_key n m" using that utf by simp
    have "kv_get (filehash_metadata db1) (take 32 w) = kv_get (filehash_metadata db) (take 32 w)"
      if "kv_get (servernamemediaid_metadata db) (media_key n' m') = Some w" for w
      using that key by (auto simp: fm kv_get_remove u_def)
    then show ?thesis
      using key parse_metadata_digest
      by (auto simp: search_file_metadata_def stored_metadata_Ok snm kv_get_remove)
  qed
  moreover have "search_file_metadata n m ?db' = Err (BadRequest NotFound ''Media not found.'')"
    by (simp add: search_file_metadata_def stored_metadata_def snm kv_get_remove)
  ultimately show ?thesis
    using purge_mediaid_False[OF ok, of M n m] unfolding src u_def[symmetric] by auto
qed

theorem unforced_purge_spares_shared_witness:
  "\<exists>db'. purge_mediaid sample_media_env (ascii ''r'') (ascii ''b'') False shared_upload = ([], db')
     \<and> search_file_metadata (ascii ''r'') (ascii ''b'') db' = Err (BadRequest NotFound ''Media not found.'')"
proof -
  have v: "kv_get (servernamemediaid_metadata shared_upload) (media_key (ascii ''r'') (ascii ''b''))
      = Some (metadata_value digest_one None None)"
    by (simp add: shared_upload_tables kv_get_def media_key_def ascii_def)
  have other: "kv_get (servernamemediaid_metadata shared_upload) (media_key (ascii ''h'') (ascii ''a''))
      = Some (metadata_value digest_one (Some (ascii ''f'')) None)"
    "media_key (ascii ''h'') (ascii ''a'') \<noteq> media_key (ascii ''r'') (ascii ''b'')"
    by (simp_all add: shared_upload_tables kv_get_def media_key_def ascii_def)
  then have shared: "(\<forall>i w. kv_get (servernamemediaid_metadata shared_upload) i = Some w \<longrightarrow>
      take 32 w = take 32 (metadata_value digest_one None None) \<longrightarrow> i = media_key (ascii ''r'') (ascii ''b'')) \<longleftrightarrow> False"
    by (metis length_replicate take_metadata_value)
  from unforced_purge_spares_shared [OF shared_upload_ok v, of sample_media_env] show ?thesis
    unfolding shared by (simp only: simp_thms if_False sample_names) blast
qed

text \<open>
  C33: a purge without force leaks thumbnails: it forgets the thumbnails of the media id, but their
  rows in the index by digest and the metadata of their files stay, so the files are never deleted.
\<close>

theorem unforced_purge_leaks_thumbnails:
  assumes ok: "media_ok db" and v: "kv_get (thumbnailid_metadata db) (thumbnail_key n m w h) = Some v"
  shows "\<exists>files db'. purge_mediaid M n m False db = (files, db')
    \<and> kv_get (thumbnailid_metadata db') (thumbnail_key n m w h) = None
    \<and> kv_get (filehash_thumbnailid db') (take 32 v @ thumbnail_key n m w h) \<noteq> None
    \<and> kv_get (filehash_metadata db') (take 32 v) = kv_get (filehash_metadata db) (take 32 v)"
proof -
  have idx: "kv_get (filehash_thumbnailid db) (take 32 v @ thumbnail_key n m w h) \<noteq> None"
    by (rule index_okD(6)[OF media_okD(2)[OF ok] v])
  obtain files db1 where src: "purge_source M n m False db = (files, db1)" by (cases "purge_source M n m False db")
  have th: "filehash_thumbnailid db1 = filehash_thumbnailid db"
    using src by (auto simp: purge_source_def forget_upload_def Let_def split: option.splits if_splits)
  have "digest_rows (filehash_thumbnailid db) (take 32 v) \<noteq> 0"
    using idx unfolding digest_rows_0[OF index_okD(1)[OF media_okD(2)[OF ok]]] by (metis prefixI)
  then have "kv_get (filehash_metadata db1) (take 32 v) = kv_get (filehash_metadata db) (take 32 v)"
    using src by (auto simp: purge_source_def forget_upload_def Let_def kv_get_remove split: option.splits if_splits)
  moreover have "prefix (media_key n m @ [sep]) (thumbnail_key n m w h)" by (simp add: thumbnail_key_def prefix_def)
  ultimately show ?thesis
    using purge_mediaid_False[OF ok, of M n m] idx unfolding src
    by (simp add: th kv_get_remove_prefix index_okD(2)[OF media_okD(2)[OF ok]])
qed

theorem unforced_purge_leaks_thumbnails_witness:
  "\<exists>files db'. purge_mediaid sample_media_env (ascii ''h'') (ascii ''a'') False shared_upload = (files, db')
     \<and> kv_get (thumbnailid_metadata db') (thumbnail_key (ascii ''h'') (ascii ''a'') 32 32) = None
     \<and> kv_get (filehash_metadata db') digest_two = Some (new_metadata 7 4)"
proof -
  have v: "kv_get (thumbnailid_metadata shared_upload) (thumbnail_key (ascii ''h'') (ascii ''a'') 32 32) = Some (metadata_value digest_two None None)"
    by (simp add: shared_upload_tables kv_get_def)
  have "kv_get (filehash_metadata shared_upload) digest_two = Some (new_metadata 7 4)"
    by (simp add: shared_upload_tables kv_get_def)
  then show ?thesis
    using unforced_purge_leaks_thumbnails [OF shared_upload_ok v, of sample_media_env] by auto
qed

section \<open>What unblocking does\<close>

lemma gather_file_rows:
  "\<forall>k \<in> set ks. 32 \<le> length k \<Longrightarrow> gather unblock_file_row ks db =
    ([], db\<lparr>blocked_servername_mediaid := kv_remove_keys (blocked_servername_mediaid db) (map (drop 32) ks)\<rparr>)"
  by (induction ks arbitrary: db)
    (simp_all add: unblock_file_row_def id_of_filehash_key_def kv_remove_keys_def)

lemma gather_thumbnail_rows:
  assumes "\<forall>k \<in> set ks. 41 \<le> length k"
  shows "\<exists>es. gather unblock_thumbnail_row ks db = (es,
    db\<lparr>blocked_servername_mediaid := kv_remove_keys (blocked_servername_mediaid db)
         (map (\<lambda>k. drop 32 (take (length k - 9) k)) ks)\<rparr>)"
  using assms
proof (induction ks arbitrary: db)
  case Nil
  then show ?case by (simp add: kv_remove_keys_def)
next
  case (Cons k ks)
  let ?db = "db\<lparr>blocked_servername_mediaid := kv_remove (blocked_servername_mediaid db) (drop 32 (take (length k - 9) k))\<rparr>"
  obtain es where "gather unblock_thumbnail_row ks ?db = (es, ?db\<lparr>blocked_servername_mediaid :=
      kv_remove_keys (blocked_servername_mediaid ?db) (map (\<lambda>k. drop 32 (take (length k - 9) k)) ks)\<rparr>)"
    using Cons.IH[of ?db] Cons.prems by auto
  moreover have "unblock_thumbnail_row k db = ([BadDatabase ''Invalid format of value in filehash_thumbnailid''], ?db)"
    using Cons.prems by (auto simp: unblock_thumbnail_row_def id_of_thumbnail_key_def Let_def)
  ultimately show ?case by (simp add: kv_remove_keys_Cons)
qed

text \<open>Unblocking and purging only take rows away.\<close>

definition shrinks :: "'a media_db_scheme \<Rightarrow> 'a media_db_scheme \<Rightarrow> bool" where
  "shrinks db db' \<longleftrightarrow>
     (\<forall>i. kv_get (blocked_servername_mediaid db') i \<noteq> None \<longrightarrow> kv_get (blocked_servername_mediaid db) i \<noteq> None)
     \<and> (\<forall>k. kv_get (filehash_servername_mediaid db') k \<noteq> None \<longrightarrow> kv_get (filehash_servername_mediaid db) k \<noteq> None)
     \<and> (\<forall>k. kv_get (filehash_thumbnailid db') k \<noteq> None \<longrightarrow> kv_get (filehash_thumbnailid db) k \<noteq> None)
     \<and> (\<forall>i v. kv_get (servernamemediaid_metadata db') i = Some v \<longrightarrow> kv_get (servernamemediaid_metadata db) i = Some v)"

lemma shrinks_trans: "shrinks a b \<Longrightarrow> shrinks b c \<Longrightarrow> shrinks a c"
  unfolding shrinks_def by blast

lemma shrinksD:
  assumes "shrinks db db'"
  shows "kv_get (blocked_servername_mediaid db) i = None \<Longrightarrow> kv_get (blocked_servername_mediaid db') i = None"
    "kv_get (servernamemediaid_metadata db') i = Some v \<Longrightarrow> kv_get (servernamemediaid_metadata db) i = Some v"
proof -
  have "kv_get (blocked_servername_mediaid db') i \<noteq> None \<longrightarrow> kv_get (blocked_servername_mediaid db) i \<noteq> None"
    using assms unfolding shrinks_def by (elim conjE) (erule allE)
  then show "kv_get (blocked_servername_mediaid db) i = None \<Longrightarrow> kv_get (blocked_servername_mediaid db') i = None" by blast
  show "kv_get (servernamemediaid_metadata db') i = Some v \<Longrightarrow> kv_get (servernamemediaid_metadata db) i = Some v"
    using assms unfolding shrinks_def by simp
qed

lemma shrinks_content:
  assumes "shrinks db db'" "has_content i d db'"
  shows "has_content i d db"
proof -
  have f: "kv_get (filehash_servername_mediaid db) k \<noteq> None" if "kv_get (filehash_servername_mediaid db') k \<noteq> None" for k
    using assms(1) that by (simp add: shrinks_def)
  have t: "kv_get (filehash_thumbnailid db) k \<noteq> None" if "kv_get (filehash_thumbnailid db') k \<noteq> None" for k
    using assms(1) that by (simp add: shrinks_def)
  show ?thesis using assms(2) f t unfolding has_content_def by blast
qed

lemma shrinks_blocked_digest: "shrinks db db' \<Longrightarrow> blocked_digest d db' \<Longrightarrow> blocked_digest d db"
  unfolding shrinks_def blocked_digest_def by blast

lemma media_ok_blocked: "media_ok db \<Longrightarrow> kv_wf b \<Longrightarrow> media_ok (db\<lparr>blocked_servername_mediaid := b\<rparr>)"
  by (simp add: media_ok_def uploads_ok_def)

text \<open>The blocks on a digest are lifted in one table update, then the rows go if the file is gone.\<close>

lemma maybe_remove_ok:
  assumes ok: "media_ok db" and d: "length d = 32"
  shows "\<exists>es db'. maybe_remove_remaining_metadata d db = (es, db') \<and> media_ok db' \<and> shrinks db db'
    \<and> (\<forall>i. has_content i d db \<longrightarrow> kv_get (blocked_servername_mediaid db') i = None)"
proof -
  let ?F = "map fst (kv_scan_prefix (filehash_servername_mediaid db) d)" and ?T = "map fst (kv_scan_prefix (filehash_thumbnailid db) d)"
  let ?tid = "\<lambda>k. drop 32 (take (length k - 9) k)"
  define b where "b = kv_remove_keys (kv_remove_keys (blocked_servername_mediaid db) (map (drop 32) ?F)) (map ?tid ?T)"
  let ?db = "db\<lparr>blocked_servername_mediaid := b\<rparr>"
  note wf = index_okD(1)[OF media_okD(1)[OF ok]] index_okD(1)[OF media_okD(2)[OF ok]] media_okD(4)[OF ok]
  have F: "\<forall>k \<in> set ?F. 32 \<le> length k" using d by (auto simp: kv_scan_prefix_set wf prefix_def)
  have T: "\<forall>k \<in> set ?T. 41 \<le> length k" using media_okD(8)[OF ok] by (auto simp: kv_scan_prefix_set wf)
  obtain ts where ts: "gather unblock_thumbnail_row ?T (snd (gather unblock_file_row ?F db)) = (ts, ?db)"
    using gather_thumbnail_rows[OF T, of "snd (gather unblock_file_row ?F db)"] unfolding gather_file_rows[OF F] b_def by auto
  have b_get: "kv_get b i = (if i \<in> drop 32 ` set ?F \<or> i \<in> ?tid ` set ?T then None else kv_get (blocked_servername_mediaid db) i)" for i
    by (simp add: b_def kv_get_remove_keys kv_wf_remove_keys wf image_image)
  have okb: "media_ok ?db" by (rule media_ok_blocked[OF ok]) (simp add: b_def kv_wf_remove_keys wf)
  have lifted: "kv_get b i = None" if i: "has_content i d db" for i
  proof -
    have "i \<in> drop 32 ` set ?F \<or> i \<in> ?tid ` set ?T"
    proof (cases "kv_get (filehash_servername_mediaid db) (d @ i)")
      case (Some x)
      then have "d @ i \<in> set ?F" by (force simp: kv_scan_prefix_set wf prefix_def)
      then have "drop 32 (d @ i) \<in> drop 32 ` set ?F" by (rule imageI)
      then show ?thesis using d by simp
    next
      case None
      then obtain t x where t: "length t = 9" "kv_get (filehash_thumbnailid db) (d @ i @ t) = Some x"
        using i by (auto simp: has_content_def)
      then have "d @ i @ t \<in> set ?T" by (force simp: kv_scan_prefix_set wf prefix_def)
      then have "?tid (d @ i @ t) \<in> ?tid ` set ?T" by (rule imageI)
      then show ?thesis using d t(1) by simp
    qed
    then show ?thesis by (simp only: b_get if_True)
  qed
  have sh: "shrinks db ?db" by (simp add: shrinks_def b_get)
  show ?thesis
  proof (cases "kv_get (filehash_metadata db) d")
    case (Some x)
    then have "maybe_remove_remaining_metadata d db = (ts, ?db)"
      using ts by (simp add: maybe_remove_remaining_metadata_def gather_file_rows[OF F] del: map_map)
    then show ?thesis using okb sh lifted by auto
  next
    case None
    obtain db' where db': "purge_filehash d False ?db = (Ok (), db')" "media_ok db'"
      "blocked_servername_mediaid db' = b" "filehash_servername_mediaid db' = kv_remove_prefix (filehash_servername_mediaid db) d"
      "filehash_thumbnailid db' = kv_remove_prefix (filehash_thumbnailid db) d"
      "servernamemediaid_metadata db' = without d (servernamemediaid_metadata db)"
      using purge_filehash_False[OF okb d] by (auto simp: Let_def)
    have "maybe_remove_remaining_metadata d db = (ts, db')"
      using ts None db'(1) by (simp add: maybe_remove_remaining_metadata_def gather_file_rows[OF F] del: map_map)
    moreover have "shrinks db db'"
      using index_okD(2)[OF media_okD(1)[OF ok]]
      by (auto simp: shrinks_def db' b_get kv_get_remove_prefix kv_get_without wf split: option.splits if_splits)
    ultimately show ?thesis using db'(2,3) lifted by auto
  qed
qed

lemma unblock_thumbnails_ok:
  "media_ok db \<Longrightarrow> \<exists>es db'. gather unblock_thumbnail rows db = (es, db') \<and> media_ok db' \<and> shrinks db db'"
proof (induction rows arbitrary: db)
  case Nil
  then show ?case by (simp add: shrinks_def)
next
  case (Cons row rows)
  obtain es db1 where row: "unblock_thumbnail row db = (es, db1)" "media_ok db1" "shrinks db db1"
  proof (cases "parse_metadata (snd row)")
    case (Inl e)
    then show ?thesis using that[of "[e]" db] Cons.prems by (simp add: unblock_thumbnail_def shrinks_def)
  next
    case (Inr meta)
    then show ?thesis
      using that maybe_remove_ok[OF Cons.prems, of "sha256_digest meta"] parse_metadata_digest[OF Inr]
      by (auto simp: unblock_thumbnail_def)
  qed
  obtain es' db2 where "gather unblock_thumbnail rows db1 = (es', db2)" "media_ok db2" "shrinks db1 db2"
    using Cons.IH[OF row(2)] by blast
  then show ?case using row shrinks_trans[OF row(3)] by auto
qed

text \<open>
  Unblocking a stored media id lifts every block on its content, whichever media id the block
  was placed on.
\<close>

theorem unblock_lifts_content:
  assumes ok: "media_ok db" and v: "kv_get (servernamemediaid_metadata db) (media_key n m) = Some v" "parse_metadata v = Ok meta"
  shows "is_blocked n m (snd (unblock [(n, m)] db)) = Ok False"
proof -
  let ?d = "sha256_digest meta"
  have d: "length ?d = 32" "?d = take 32 v" using parse_metadata_digest[OF v(2)] by auto
  obtain es db1 where db1: "maybe_remove_remaining_metadata ?d db = (es, db1)" "media_ok db1" "shrinks db db1"
    and lifted: "\<forall>i. has_content i ?d db \<longrightarrow> kv_get (blocked_servername_mediaid db1) i = None"
    using maybe_remove_ok[OF ok d(1)] by blast
  obtain ts db2 where db2: "gather unblock_thumbnail (kv_scan_prefix (thumbnailid_metadata db1) (media_key n m @ [sep])) db1 = (ts, db2)"
    "media_ok db2" "shrinks db1 db2" using unblock_thumbnails_ok[OF db1(2)] by blast
  have res: "snd (unblock [(n, m)] db) = db2"
    using v db1(1) db2(1) by (simp add: unblock_def unblock_one_def Let_def)
  have "\<not> blocked_digest ?d db1"
  proof
    assume "blocked_digest ?d db1"
    then obtain i where i: "kv_get (blocked_servername_mediaid db1) i \<noteq> None" "has_content i ?d db1"
      unfolding blocked_digest_content by (elim exE conjE)
    then have "has_content i ?d db" by (intro shrinks_content[OF db1(3)])
    then show False using lifted i(1) by simp
  qed
  then have free: "\<not> blocked_digest ?d db2" by (rule contrapos_nn) (rule shrinks_blocked_digest[OF db2(3)])
  have "has_content (media_key n m) ?d db"
    using index_okD(6)[OF media_okD(1)[OF ok] v(1)] d(2) by (simp add: has_content_def)
  then have "kv_get (blocked_servername_mediaid db1) (media_key n m) = None" using lifted by blast
  then have direct: "\<not> is_directly_blocked n m db2"
    using shrinksD(1)[OF db2(3)] by (simp add: is_directly_blocked_def)
  show ?thesis
  proof (cases "kv_get (servernamemediaid_metadata db2) (media_key n m)")
    case None
    then show ?thesis using direct by (simp add: res is_blocked_def)
  next
    case (Some w)
    then have "w = v" using shrinksD(2)[OF db1(3) shrinksD(2)[OF db2(3)]] v(1) by simp
    then show ?thesis using is_blocked_known[OF db2(2) Some, of meta] v(2) free by (simp add: res)
  qed
qed

theorem unblock_lifts_content_witness:
  "is_blocked (ascii ''r'') (ascii ''b'')
     (snd (unblock [(ascii ''r'', ascii ''b'')] (block [(ascii ''h'', ascii ''a'')] 9 None shared_upload))) = Ok False"
proof -
  have "kv_get (servernamemediaid_metadata (block [(ascii ''h'', ascii ''a'')] 9 None shared_upload)) (media_key (ascii ''r'') (ascii ''b''))
      = Some (metadata_value digest_one None None)"
    by (simp add: block_def Let_def shared_upload_tables kv_get_def media_key_def ascii_def)
  from unblock_lifts_content [OF block_ok[OF shared_upload_ok] this parse_metadata_value] show ?thesis by simp
qed

text \<open>
  C34: media that was blocked before it was ever stored cannot be unblocked: \<open>unblock\<close> reports no
  error, leaves every table as it is, and the media stays blocked.
\<close>

theorem unknown_media_stays_blocked:
  assumes wf: "kv_wf (blocked_servername_mediaid db)" "kv_wf (thumbnailid_metadata db)"
    and unknown: "kv_get (servernamemediaid_metadata db) (media_key n m) = None"
      "\<forall>k. prefix (media_key n m @ [sep]) k \<longrightarrow> kv_get (thumbnailid_metadata db) k = None"
  shows "unblock [(n, m)] (block [(n, m)] secs reason db) = ([], block [(n, m)] secs reason db)
    \<and> is_blocked n m (block [(n, m)] secs reason db) = Ok True"
proof
  have "set (kv_scan_prefix (thumbnailid_metadata db) (media_key n m @ [sep])) = {}"
    using unknown(2) by (auto simp: kv_scan_prefix_set wf)
  then show "unblock [(n, m)] (block [(n, m)] secs reason db) = ([], block [(n, m)] secs reason db)"
    using unknown(1) by (simp add: unblock_def unblock_one_def block_def Let_def)
  show "is_blocked n m (block [(n, m)] secs reason db) = Ok True"
    using kv_get_block(1)[OF wf(1), of "[(n, m)]" secs reason "media_key n m"]
    by (simp add: is_blocked_def is_directly_blocked_def)
qed

theorem unknown_media_stays_blocked_witness:
  "unblock [(ascii ''r'', ascii ''x'')] (block [(ascii ''r'', ascii ''x'')] 9 None empty_media)
     = ([], block [(ascii ''r'', ascii ''x'')] 9 None empty_media)
   \<and> is_blocked (ascii ''r'') (ascii ''x'') (block [(ascii ''r'', ascii ''x'')] 9 None empty_media) = Ok True"
  by (rule unknown_media_stays_blocked) (simp_all add: empty_media_def)

end
