(* ===== verification/MediaRetention.thy ===== *)
theory MediaRetention
  imports MediaPurge "HOL-Library.Multiset"
begin

text \<open>
  Retention of media by space and by age: the policies of \<^verbatim>\<open>server/src/config/mod.rs\<close> and their
  enforcement in \<^verbatim>\<open>server/src/database/key_value/media.rs\<close>.
\<close>

section \<open>Retention policies\<close>

text \<open>A \<open>Duration\<close> is a number of nanoseconds.\<close>

datatype media_retention_scope = Remote | Local | Thumbnail

record scoped_media_retention_config =
  accessed :: "nat option"
  created :: "nat option"
  space :: "u64 option"

record media_retention_config =
  scoped :: "media_retention_scope \<rightharpoonup> scoped_media_retention_config"
  global_space :: "u64 option"

abbreviation from_secs :: "nat \<Rightarrow> nat" where
  "from_secs s \<equiv> s * 10 ^ 9"

abbreviation as_secs :: "nat \<Rightarrow> u64" where
  "as_secs d \<equiv> of_nat (d div 10 ^ 9)"

definition default_scoped_retention :: scoped_media_retention_config where
  "default_scoped_retention = \<lparr>accessed = Some (from_secs (60 * 60 * 24 * 30)), created = None, space = None\<rparr>"

text \<open>
  The configuration from its entries, in the order the hash set yields them: explicit scopes
  replace what is there, the entry without a scope is the fallback.
\<close>

fun read_entries ::
  "(media_retention_scope option \<times> scoped_media_retention_config) list
    \<Rightarrow> (media_retention_scope \<rightharpoonup> scoped_media_retention_config) \<times> scoped_media_retention_config option
    \<Rightarrow> (media_retention_scope \<rightharpoonup> scoped_media_retention_config) \<times> scoped_media_retention_config option" where
  "read_entries [] acc = acc"
| "read_entries ((Some scope, policy) # es) (sc, fallback) = read_entries es (sc(scope \<mapsto> policy), fallback)"
| "read_entries ((None, policy) # es) (sc, fallback) = read_entries es (sc, Some policy)"

definition or_insert :: "('k \<rightharpoonup> 'v) \<Rightarrow> 'k \<Rightarrow> 'v \<Rightarrow> ('k \<rightharpoonup> 'v)" where
  "or_insert m k v = (case m k of None \<Rightarrow> m(k \<mapsto> v) | Some _ \<Rightarrow> m)"

definition retention_from ::
  "(media_retention_scope option \<times> scoped_media_retention_config) list option \<Rightarrow> media_retention_config" where
  "retention_from value =
     (let (sc, fallback) = read_entries (case value of Some es \<Rightarrow> es | None \<Rightarrow> [])
            ([Remote \<mapsto> default_scoped_retention, Thumbnail \<mapsto> default_scoped_retention], None);
          sc = (case fallback of
                  Some f \<Rightarrow> fold (\<lambda>scope sc. or_insert sc scope f) [Remote, Local, Thumbnail] sc
                | None \<Rightarrow> sc)
      in \<lparr>scoped = sc, global_space = Option.bind fallback space\<rparr>)"

text \<open>\<open>tenth\<close> is \<open>mul_f32(0.1)\<close>, whose rounding is that of single-precision numbers.\<close>

definition shorter_policy :: "scoped_media_retention_config \<Rightarrow> nat option" where
  "shorter_policy policy =
     (case (created policy, accessed policy) of
        (None, a) \<Rightarrow> a
      | (Some c, None) \<Rightarrow> Some c
      | (Some c, Some a) \<Rightarrow> Some (min c a))"

definition cleanup_interval :: "(nat \<Rightarrow> nat) \<Rightarrow> media_retention_config \<Rightarrow> nat option" where
  "cleanup_interval tenth retention =
     (let durs = map (\<lambda>dur. max (tenth dur) (min (from_secs 60) (from_secs (60 * 60 * 24))))
            (List.map_filter shorter_policy (List.map_filter (scoped retention) [Remote, Local, Thumbnail]))
      in if durs = [] then None else Some (Min (set durs)))"

fun local_rows :: "media_env \<Rightarrow> (bytes \<times> bytes) list \<Rightarrow> bool result" where
  "local_rows M [] = Ok False"
| "local_rows M ((k, _) # rows) =
     (if length k < 32 then Err (BadDatabase ''Invalid format of key in filehash_servername_mediaid'')
      else case string_from_bytes (hd (split_sep (drop 32 k))) of
             None \<Rightarrow> Err (BadDatabase ''Invalid UTF-8 servername in filehash_servername_mediaid'')
           | Some server \<Rightarrow> if server = own_server M then Ok True else local_rows M rows)"

definition file_is_local :: "media_env \<Rightarrow> bytes \<Rightarrow> 'a media_db_scheme \<Rightarrow> bool result" where
  "file_is_local M k db = local_rows M (kv_scan_prefix (filehash_servername_mediaid db) k)"

definition file_is_thumb :: "bytes \<Rightarrow> 'a media_db_scheme \<Rightarrow> bool" where
  "file_is_thumb k db \<longleftrightarrow> kv_scan_prefix (filehash_thumbnailid db) k \<noteq> []
     \<and> kv_scan_prefix (filehash_servername_mediaid db) k = []"

subsection \<open>By space\<close>

type_synonym candidate = "bytes \<times> u64 \<times> u64"

definition parse_candidate :: "bytes \<times> bytes \<Rightarrow> candidate result" where
  "parse_candidate row =
     and_then (last_access_of (snd row)) (\<lambda>a. and_then (size_of (snd row)) (\<lambda>s. Ok (fst row, a, s)))"

definition total_size :: "candidate list \<Rightarrow> u64" where
  "total_size cs = sum_list (map (snd \<circ> snd) cs)"

definition purge_order :: "candidate list \<Rightarrow> candidate list" where
  "purge_order cs = rev (sort_key (\<lambda>(_, last_access, _). last_access) cs)"

text \<open>How many files the loop takes: up to the first whose running sum reaches the requirement.\<close>

fun files_needed :: "u64 \<Rightarrow> u64 \<Rightarrow> candidate list \<Rightarrow> nat" where
  "files_needed required acc [] = 0"
| "files_needed required acc ((_, _, file_size) # cs) =
     (if acc + file_size \<ge> required then 1
      else Suc (files_needed required (acc + file_size) cs))"

definition errs :: "'b result list \<Rightarrow> error list" where
  "errs rs = List.map_filter (\<lambda>r. case r of Inl e \<Rightarrow> Some e | Inr _ \<Rightarrow> None) rs"

definition purge_if_necessary ::
  "media_env \<Rightarrow> u64 option \<Rightarrow> (bytes \<Rightarrow> bool) \<Rightarrow> u64 \<Rightarrow> 'a media_db_scheme
    \<Rightarrow> str result list option result \<times> 'a media_db_scheme" where
  "purge_if_necessary M limit flt new_size db =
     (case limit of
        None \<Rightarrow> (Ok None, db)
      | Some limit \<Rightarrow>
          let rows = map parse_candidate (filter (\<lambda>(k, _). flt k) (kv_iter (filehash_metadata db)));
              candidates = oks rows; total = total_size candidates + new_size
          in if total < limit then (Ok None, db)
             else
               let order = purge_order candidates;
                   chosen = take (files_needed (total - limit) 0 order) order
               in step_then (purge M (map fst chosen) db)
                    (\<lambda>files db. (Ok (Some (map Err (errs rows) @ files)), db)))"

datatype media_type = LocalMedia bool | RemoteMedia bool

definition media_type_new :: "media_env \<Rightarrow> str \<Rightarrow> bool \<Rightarrow> media_type" where
  "media_type_new M server thumbnail =
     (if server = own_server M then LocalMedia thumbnail else RemoteMedia thumbnail)"

fun is_thumb :: "media_type \<Rightarrow> bool" where
  "is_thumb (LocalMedia thumbnail) = thumbnail"
| "is_thumb (RemoteMedia thumbnail) = thumbnail"

definition local_or_unreadable :: "media_env \<Rightarrow> 'a media_db_scheme \<Rightarrow> bytes \<Rightarrow> bool" where
  "local_or_unreadable M db k = (case file_is_local M k db of Inl _ \<Rightarrow> True | Inr b \<Rightarrow> b)"

definition files_to_delete ::
  "media_env \<Rightarrow> bytes \<Rightarrow> media_retention_config \<Rightarrow> media_type \<Rightarrow> u64 \<Rightarrow> 'a media_db_scheme
    \<Rightarrow> str result list result \<times> 'a media_db_scheme" where
  "files_to_delete M digest retention media_type new_size db =
     (if kv_get (filehash_metadata db) digest \<noteq> None then (Ok [], db)
      else
        let scoped_space = (\<lambda>scope. Option.bind (scoped retention scope) space);
            found = (\<lambda>f. case f of Some fs \<Rightarrow> fs | None \<Rightarrow> [])
        in step_then (if is_thumb media_type
                      then purge_if_necessary M (scoped_space Thumbnail) (\<lambda>k. file_is_thumb k db) new_size db
                      else (Ok None, db)) (\<lambda>thumbs db.
           step_then (case media_type of
                        LocalMedia _ \<Rightarrow>
                          purge_if_necessary M (scoped_space Local) (local_or_unreadable M db) new_size db
                      | RemoteMedia _ \<Rightarrow>
                          purge_if_necessary M (scoped_space Remote) (\<lambda>k. \<not> local_or_unreadable M db k) new_size db)
             (\<lambda>scoped_files db.
           step_then (purge_if_necessary M (global_space retention) (\<lambda>_. True) new_size db) (\<lambda>global_files db.
             (Ok (found thumbs @ found scoped_files @ found global_files), db)))))"

subsection \<open>By age\<close>

definition check_policy ::
  "u64 \<Rightarrow> media_retention_config \<Rightarrow> bytes \<Rightarrow> media_retention_scope \<Rightarrow> bool result" where
  "check_policy now retention metadata scope =
     (case scoped retention scope of
        None \<Rightarrow> Ok False
      | Some policy \<Rightarrow>
          and_then (case created policy of
                      None \<Rightarrow> Ok False
                    | Some d \<Rightarrow> and_then (creation_of metadata) (\<lambda>c. Ok (now - c > as_secs d))) (\<lambda>old.
          if old then Ok True
          else case accessed policy of
                 None \<Rightarrow> Ok False
               | Some d \<Rightarrow> and_then (last_access_of metadata) (\<lambda>a. Ok (now - a > as_secs d))))"

definition should_be_deleted ::
  "media_env \<Rightarrow> u64 \<Rightarrow> media_retention_config \<Rightarrow> 'a media_db_scheme \<Rightarrow> bytes \<times> bytes \<Rightarrow> bool result" where
  "should_be_deleted M now retention db row =
     and_then (if file_is_thumb (fst row) db then check_policy now retention (snd row) Thumbnail
               else Ok False) (\<lambda>thumb.
     if thumb then Ok True
     else and_then (file_is_local M (fst row) db) (\<lambda>local.
            check_policy now retention (snd row) (if local then Local else Remote)))"

definition cleanup_time_retention ::
  "media_env \<Rightarrow> u64 \<Rightarrow> media_retention_config \<Rightarrow> 'a media_db_scheme
    \<Rightarrow> str result list result \<times> 'a media_db_scheme" where
  "cleanup_time_retention M now retention db =
     (let rows = kv_iter (filehash_metadata db);
          checks = map (should_be_deleted M now retention db) rows;
          files = map fst (filter (\<lambda>row. should_be_deleted M now retention db row = Ok True) rows)
      in step_then (purge M files db) (\<lambda>purged db. (Ok (map Err (errs checks) @ purged), db)))"

section \<open>Sums and order\<close>

lemma unat_sum_list:
  "sum_list (map unat ws) < 2 ^ 64 \<Longrightarrow> unat (sum_list (ws :: u64 list)) = sum_list (map unat ws)"
proof (induction ws)
  case (Cons w ws)
  then have "unat (sum_list ws) = sum_list (map unat ws)" by simp
  then show ?case using Cons.prems by (simp add: unat_word_ariths(1))
qed simp

abbreviation cand_size :: "candidate \<Rightarrow> nat" where
  "cand_size c \<equiv> unat (snd (snd c))"

abbreviation cand_access :: "candidate \<Rightarrow> u64" where
  "cand_access c \<equiv> fst (snd c)"

text \<open>The loop stops at the first running sum that reaches the requirement, or takes everything.\<close>

lemma files_needed_enough:
  assumes "unat acc + sum_list (map cand_size cs) < 2 ^ 64"
  shows "files_needed required acc cs = length cs
    \<or> unat required \<le> unat acc + sum_list (map cand_size (take (files_needed required acc cs) cs))"
  using assms
proof (induction required acc cs rule: files_needed.induct)
  case (2 required acc k a s cs)
  have eq: "unat (acc + s) = unat acc + unat s" using 2(2) by (simp add: unat_word_ariths(1))
  show ?case
  proof (cases "required \<le> acc + s")
    case True
    then show ?thesis using eq by (simp add: word_le_nat_alt)
  next
    case False
    moreover have "unat (acc + s) + sum_list (map cand_size cs) < 2 ^ 64" using 2(2) eq by simp
    ultimately show ?thesis using "2.IH" eq by auto
  qed
qed simp

lemma purge_order_facts:
  shows "mset (purge_order cs) = mset cs"
    "sorted_wrt (\<lambda>x y. cand_access y \<le> cand_access x) (purge_order cs)"
proof -
  show "mset (purge_order cs) = mset cs" by (simp add: purge_order_def)
  have "sorted (map cand_access (sort_key cand_access cs))" by (rule sorted_sort_key)
  then have "sorted_wrt (\<lambda>x y. cand_access x \<le> cand_access y) (sort_key cand_access cs)"
    by (simp add: sorted_wrt_map)
  moreover have "(\<lambda>(_, a, _). a) = (cand_access :: candidate \<Rightarrow> u64)" by (simp add: fun_eq_iff split_beta)
  ultimately show "sorted_wrt (\<lambda>x y. cand_access y \<le> cand_access x) (purge_order cs)"
    unfolding purge_order_def by (simp add: sorted_wrt_rev)
qed

lemma sorted_take_drop: "sorted_wrt R xs \<Longrightarrow> x \<in> set (take n xs) \<Longrightarrow> y \<in> set (drop n xs) \<Longrightarrow> R x y"
  by (metis append_take_drop_id sorted_wrt_append)

section \<open>The space limit\<close>

definition size_in :: "bytes \<Rightarrow> nat" where
  "size_in v = (case size_of v of Inr s \<Rightarrow> unat s | Inl _ \<Rightarrow> 0)"

definition access_in :: "bytes \<Rightarrow> u64" where
  "access_in v = (case last_access_of v of Inr a \<Rightarrow> a | Inl _ \<Rightarrow> 0)"

text \<open>The space the stored files of a class take.\<close>

definition stored_size :: "(bytes \<Rightarrow> bool) \<Rightarrow> 'a media_db_scheme \<Rightarrow> nat" where
  "stored_size flt db = sum_list (map (\<lambda>(_, v). size_in v) (filter (\<lambda>(k, _). flt k) (filehash_metadata db)))"

definition candidate_of :: "bytes \<times> bytes \<Rightarrow> candidate" where
  "candidate_of row = (fst row, access_in (snd row), of_nat (size_in (snd row)))"

lemma parse_candidate_ok:
  assumes "length v = 24"
  shows "parse_candidate (k, v) = Ok (candidate_of (k, v))" "cand_size (candidate_of (k, v)) = size_in v"
proof -
  obtain s c a where "v = new_with_times s c a" using times_exist[OF assms] by blast
  then show "parse_candidate (k, v) = Ok (candidate_of (k, v))" "cand_size (candidate_of (k, v)) = size_in v"
    by (simp_all add: parse_candidate_def candidate_of_def size_in_def access_in_def)
qed

lemma sum_list_filter_split:
  "sum_list (map f (filter P xs)) + sum_list (map f (filter (\<lambda>x. \<not> P x) xs)) = (sum_list (map f xs) :: nat)"
  by (induction xs) auto

lemma sum_list_mset_cong:
  assumes "mset xs = mset ys"
  shows "sum_list (map f xs) = (sum_list (map f ys) :: nat)"
proof -
  have "sum_list (map f zs) = sum_mset (image_mset f (mset zs))" for zs
    by (simp add: sum_mset_sum_list flip: mset_map)
  then show ?thesis by (simp only: assms)
qed

text \<open>What is chosen and what stays, for a list of candidates with distinct keys.\<close>

lemma chosen_rest:
  assumes dist: "distinct (map fst cs)" and order: "mset order = mset cs"
  shows "sum_list (map cand_size (filter (\<lambda>c. fst c \<notin> fst ` set (take n order)) cs))
    + sum_list (map cand_size (take n order)) = sum_list (map cand_size cs)"
proof -
  have "mset (map fst order) = mset (map fst cs)" using order by simp
  then have distinct: "distinct (map fst order)" using dist by (metis mset_eq_imp_distinct_iff)
  have "filter (\<lambda>c. fst c \<notin> fst ` set (take n order)) order = drop n order"
  proof -
    have "distinct (map fst (take n order) @ map fst (drop n order))"
      using distinct by (metis append_take_drop_id map_append)
    then have "\<forall>c \<in> set (drop n order). fst c \<notin> fst ` set (take n order)" by auto
    then have "filter (\<lambda>c. fst c \<notin> fst ` set (take n order)) (drop n order) = drop n order"
      by (simp add: filter_id_conv)
    moreover have "filter (\<lambda>c. fst c \<notin> fst ` set (take n order)) (take n order) = []"
      by (auto simp: filter_empty_conv)
    ultimately show ?thesis by (metis append_Nil append_take_drop_id filter_append)
  qed
  moreover have "mset (filter P cs) = mset (filter P order)" for P using order by (simp add: mset_filter)
  ultimately have "mset (filter (\<lambda>c. fst c \<notin> fst ` set (take n order)) cs) = mset (drop n order)" by (simp only:)
  then have "sum_list (map cand_size (filter (\<lambda>c. fst c \<notin> fst ` set (take n order)) cs)) = sum_list (map cand_size (drop n order))"
    by (rule sum_list_mset_cong)
  moreover have "sum_list (map cand_size cs) = sum_list (map cand_size order)"
    by (rule sum_list_mset_cong[OF order[symmetric]])
  moreover have "sum_list (map cand_size order) = sum_list (map cand_size (take n order)) + sum_list (map cand_size (drop n order))"
    using sum_list_append[of "map cand_size (take n order)" "map cand_size (drop n order)"]
    by (simp flip: map_append)
  ultimately show ?thesis by simp
qed

lemma candidates_of:
  fixes flt :: "bytes \<Rightarrow> bool" and db :: "'a media_db_scheme"
  assumes ok: "media_ok db"
  defines "rows \<equiv> filter (\<lambda>(k, _). flt k) (filehash_metadata db)"
  shows "map parse_candidate rows = map (\<lambda>row. Ok (candidate_of row)) rows"
    "oks (map parse_candidate rows) = map candidate_of rows"
    "sum_list (map cand_size (map candidate_of rows)) = stored_size flt db"
    "distinct (map fst (map candidate_of rows))"
proof -
  have len: "length v = 24" if "(k, v) \<in> set (filehash_metadata db)" for k v
    using that media_okD(7)[OF ok, of k v] by (simp add: kv_get_in_set[OF media_okD(3)[OF ok]])
  show rows: "map parse_candidate rows = map (\<lambda>row. Ok (candidate_of row)) rows"
    using len by (auto simp: rows_def parse_candidate_ok)
  show "oks (map parse_candidate rows) = map candidate_of rows"
    unfolding rows by (rule oks_map_Inr) simp
  have "map (\<lambda>row. cand_size (candidate_of row)) rows = map (\<lambda>(_, v). size_in v) rows"
    using len by (auto simp: rows_def parse_candidate_ok(2))
  then show "sum_list (map cand_size (map candidate_of rows)) = stored_size flt db"
    unfolding stored_size_def rows_def[symmetric] by (simp only: map_map comp_def)
  show "distinct (map fst (map candidate_of rows))"
    using kv_distinct[OF media_okD(3)[OF ok]] by (simp add: rows_def candidate_of_def comp_def distinct_map_filter)
qed

text \<open>The space left after some keys are removed is that of the other candidates.\<close>

lemma stored_size_without:
  assumes ok: "media_ok db" and db': "filehash_metadata db' = kv_remove_keys (filehash_metadata db) ks"
  shows "stored_size flt db' = sum_list (map cand_size (filter (\<lambda>c. fst c \<notin> set ks)
    (map candidate_of (filter (\<lambda>(k, _). flt k) (filehash_metadata db)))))"
proof -
  have len: "length v = 24" if "(k, v) \<in> set (filehash_metadata db)" for k v
    using that media_okD(7)[OF ok, of k v] by (simp add: kv_get_in_set[OF media_okD(3)[OF ok]])
  have "filter (\<lambda>(k, _). flt k) (filehash_metadata db') = filter (\<lambda>row. fst row \<notin> set ks) (filter (\<lambda>(k, _). flt k) (filehash_metadata db))"
    unfolding db' kv_remove_keys_filter by (simp add: conj_commute split_beta)
  moreover have "filter (\<lambda>c. fst c \<notin> set ks) (map candidate_of rows) = map candidate_of (filter (\<lambda>row. fst row \<notin> set ks) rows)" for rows
    by (simp add: filter_map comp_def candidate_of_def)
  moreover have "map cand_size (map candidate_of rows) = map (\<lambda>(_, v). size_in v) rows"
    if "set rows \<subseteq> set (filehash_metadata db)" for rows
    using that len by (auto simp: parse_candidate_ok(2))
  moreover have "set (filter (\<lambda>row. fst row \<notin> set ks) (filter (\<lambda>(k, _). flt k) (filehash_metadata db))) \<subseteq> set (filehash_metadata db)"
    by auto
  ultimately show ?thesis unfolding stored_size_def by (simp only:)
qed

text \<open>A candidate that stays was accessed no later than one that goes.\<close>

lemma kept_accessed_earlier:
  assumes ok: "media_ok db"
    and db': "filehash_metadata db' = kv_remove_keys (filehash_metadata db)
      (map fst (take n (purge_order (map candidate_of (filter (\<lambda>(k, _). flt k) (filehash_metadata db))))))"
    and a: "flt k" "kv_get (filehash_metadata db') k = Some v" "kv_get (filehash_metadata db) k' = Some v'"
      "kv_get (filehash_metadata db') k' = None"
  shows "access_in v \<le> access_in v'"
proof -
  define cs where "cs = map candidate_of (filter (\<lambda>(k, _). flt k) (filehash_metadata db))"
  let ?chosen = "take n (purge_order cs)"
  note wf = media_okD(3)[OF ok]
  have order: "set (purge_order cs) = set cs" by (rule mset_eq_setD[OF purge_order_facts(1)])
  have get: "kv_get (filehash_metadata db') k = (if k \<in> fst ` set ?chosen then None else kv_get (filehash_metadata db) k)" for k
    by (simp add: db' kv_get_remove_keys wf cs_def)
  have k: "candidate_of (k, v) \<in> set cs" "k \<notin> fst ` set ?chosen"
    using a(1,2) by (auto simp: get cs_def kv_get_in_set[OF wf] split: if_splits)
  have "candidate_of (k, v) \<notin> set ?chosen" using k(2) by (auto simp: candidate_of_def image_iff)
  then have rest: "candidate_of (k, v) \<in> set (drop n (purge_order cs))"
    using k(1) order by (metis UnE append_take_drop_id set_append)
  obtain c where c: "c \<in> set ?chosen" "fst c = k'" using a(3,4) by (auto simp: get split: if_splits)
  then have "c \<in> set cs" using set_take_subset[of n "purge_order cs"] order by auto
  then obtain w where w: "c = candidate_of (k', w)" "(k', w) \<in> set (filehash_metadata db)"
    using c(2) by (auto simp: cs_def candidate_of_def)
  then have "w = v'" using a(3) by (simp add: kv_get_in_set[OF wf, symmetric])
  then have "cand_access (candidate_of (k, v)) \<le> cand_access (candidate_of (k', v'))"
    using sorted_take_drop[OF purge_order_facts(2)[of cs]] c(1) rest w(1) by blast
  then show ?thesis by (simp add: candidate_of_def)
qed

text \<open>The keys the loop chooses belong to stored files of the class.\<close>

lemma chosen_keys:
  assumes ok: "media_ok db"
    and d: "d \<in> fst ` set (take n (purge_order (map candidate_of (filter (\<lambda>(k, _). flt k) (filehash_metadata db)))))"
  shows "length d = 32 \<and> flt d"
proof -
  have "set (purge_order cs) = set cs" for cs by (rule mset_eq_setD[OF purge_order_facts(1)])
  then obtain c where "c \<in> set (map candidate_of (filter (\<lambda>(k, _). flt k) (filehash_metadata db)))" "d = fst c"
    using d set_take_subset by fastforce
  then obtain v where "(d, v) \<in> set (filehash_metadata db)" "flt d" by (auto simp: candidate_of_def)
  then show ?thesis using media_okD(6)[OF ok, of d v] by (simp add: kv_get_in_set[OF media_okD(3)[OF ok]])
qed

text \<open>
  C18: making room for a new file enforces the limit: afterwards the files of the class and the new
  file fit, files of other classes are untouched, and of two files the one that was accessed last
  is deleted first.
\<close>

theorem space_limit_enforced:
  assumes ok: "media_ok db" and fits: "stored_size flt db + unat new < 2 ^ 64" "new \<le> limit"
  shows "\<exists>r db'. purge_if_necessary M (Some limit) flt new db = (Ok r, db') \<and> media_ok db'
    \<and> stored_size flt db' + unat new \<le> unat limit
    \<and> (\<forall>k v. kv_get (filehash_metadata db') k = Some v \<longrightarrow> kv_get (filehash_metadata db) k = Some v)
    \<and> (\<forall>k. \<not> flt k \<longrightarrow> kv_get (filehash_metadata db') k = kv_get (filehash_metadata db) k)
    \<and> (\<forall>k v k' v'. flt k \<longrightarrow> kv_get (filehash_metadata db') k = Some v \<longrightarrow>
         kv_get (filehash_metadata db) k' = Some v' \<longrightarrow> kv_get (filehash_metadata db') k' = None \<longrightarrow>
         access_in v \<le> access_in v')"
proof -
  let ?rows = "filter (\<lambda>(k, _). flt k) (filehash_metadata db)"
  define cs where "cs = map candidate_of ?rows"
  note rows = candidates_of[OF ok, of flt, folded cs_def]
  define total where "total = total_size cs + new"
  have tot: "unat total = stored_size flt db + unat new"
  proof -
    have "unat (total_size cs) = stored_size flt db"
      using unat_sum_list[of "map (snd \<circ> snd) cs"] rows(3) fits(1) by (simp add: total_size_def comp_def)
    then show ?thesis using fits(1) by (simp add: total_def unat_word_ariths(1))
  qed
  define chosen where "chosen = take (files_needed (total - limit) 0 (purge_order cs)) (purge_order cs)"
  have run: "purge_if_necessary M (Some limit) flt new db =
      (if total < limit then (Ok None, db)
       else step_then (purge M (map fst chosen) db) (\<lambda>files db. (Ok (Some (map Err (errs (map parse_candidate ?rows)) @ files)), db)))"
    unfolding purge_if_necessary_def kv_iter_def rows(2) Let_def option.case total_def chosen_def cs_def ..
  show ?thesis
  proof (cases "total < limit")
    case True
    then have "stored_size flt db + unat new \<le> unat limit" using tot by (simp add: word_less_nat_alt)
    then show ?thesis using run True ok by auto
  next
    case False
    have keys: "\<forall>d \<in> set (map fst chosen). length d = 32 \<and> flt d"
      using chosen_keys[OF ok, of _ _ flt] unfolding chosen_def cs_def set_map by blast
    then obtain db' where db': "purge M (map fst chosen) db = (Ok (map (\<lambda>d. Ok (hex_encode M d)) (map fst chosen)), db')"
      "media_ok db'" "filehash_metadata db' = kv_remove_keys (filehash_metadata db) (map fst chosen)"
      using purge_ok[OF ok, of "map fst chosen" M] by auto
    have get: "kv_get (filehash_metadata db') k = (if k \<in> fst ` set chosen then None else kv_get (filehash_metadata db) k)" for k
      by (simp add: db'(3) kv_get_remove_keys media_okD(3)[OF ok])
    have order: "mset (purge_order cs) = mset cs" by (rule purge_order_facts)
    have left: "stored_size flt db' + sum_list (map cand_size chosen) = stored_size flt db"
      using chosen_rest[OF rows(4) order] stored_size_without[OF ok db'(3), of flt, folded cs_def] rows(3)
      by (simp add: chosen_def)
    have "sum_list (map cand_size (purge_order cs)) = stored_size flt db"
      using sum_list_mset_cong[OF order, of cand_size] rows(3) by simp
    then have enough: "chosen = purge_order cs \<or> unat (total - limit) \<le> sum_list (map cand_size chosen)"
      using files_needed_enough[of 0 "purge_order cs" "total - limit"] fits(1) by (auto simp: chosen_def)
    have "stored_size flt db' + unat new \<le> unat limit"
    proof (cases "chosen = purge_order cs")
      case True
      then have "stored_size flt db' = 0" using left \<open>sum_list (map cand_size (purge_order cs)) = stored_size flt db\<close> by simp
      then show ?thesis using fits(2) by (simp add: word_le_nat_alt)
    next
      case False
      then have "unat total - unat limit \<le> sum_list (map cand_size chosen)"
        using enough \<open>\<not> total < limit\<close> by (simp add: unat_sub)
      then show ?thesis using left tot by simp
    qed
    moreover have "access_in v \<le> access_in v'"
      if "flt k" "kv_get (filehash_metadata db') k = Some v" "kv_get (filehash_metadata db) k' = Some v'"
        "kv_get (filehash_metadata db') k' = None" for k v k' v'
      by (rule kept_accessed_earlier[OF ok db'(3)[unfolded chosen_def cs_def] that])
    moreover have "kv_get (filehash_metadata db') k = kv_get (filehash_metadata db) k" if "\<not> flt k" for k
      using keys that by (auto simp: get)
    moreover have "kv_get (filehash_metadata db) k = Some v" if "kv_get (filehash_metadata db') k = Some v" for k v
      using that by (simp add: get split: if_splits)
    moreover have "purge_if_necessary M (Some limit) flt new db =
        (Ok (Some (map Err (errs (map parse_candidate ?rows)) @ map (\<lambda>d. Ok (hex_encode M d)) (map fst chosen))), db')"
      using run False db'(1) by simp
    ultimately show ?thesis using db'(2) by blast
  qed
qed

theorem space_limit_enforced_witness:
  "\<exists>r db'. purge_if_necessary sample_media_env (Some 12) (\<lambda>_. True) 5 shared_upload = (Ok r, db')
     \<and> stored_size (\<lambda>_. True) db' + 5 \<le> 12"
proof -
  have "stored_size (\<lambda>_. True) shared_upload = 14"
    by (simp add: stored_size_def shared_upload_tables size_in_def new_metadata_times)
  then show ?thesis
    using space_limit_enforced [OF shared_upload_ok, of "\<lambda>_. True" 5 12 sample_media_env] by auto
qed

section \<open>Configuration\<close>

lemma read_entries_last:
  "fst (read_entries es (sc, fb)) s = (case map_of (rev es) (Some s) of Some p \<Rightarrow> Some p | None \<Rightarrow> sc s)"
  "snd (read_entries es (sc, fb)) = (case map_of (rev es) None of Some p \<Rightarrow> Some p | None \<Rightarrow> fb)"
  by (induction es "(sc, fb)" arbitrary: sc fb rule: read_entries.induct) (auto simp: map_add_def split: option.splits)

text \<open>
  C35: what the configured policies come to. A scope that is configured has its own policy. Local media
  without one has the policy that names no scope, if there is one. Remote media and thumbnails without
  one keep the built-in period of thirty days, whatever the policy that names no scope says about time;
  of that policy only the space also reaches them, as the limit on all media together.
\<close>

theorem retention_policies_resolved:
  "scoped (retention_from (Some es)) scope =
     (case map_of (rev es) (Some scope) of
        Some policy \<Rightarrow> Some policy
      | None \<Rightarrow> if scope = Local then map_of (rev es) None else Some default_scoped_retention)
   \<and> global_space (retention_from (Some es)) = Option.bind (map_of (rev es) None) space"
proof -
  let ?d = "[Remote \<mapsto> default_scoped_retention, Thumbnail \<mapsto> default_scoped_retention]"
  obtain sc fb where r: "read_entries es (?d, None) = (sc, fb)" by (cases "read_entries es (?d, None)")
  have fb: "fb = map_of (rev es) None" using read_entries_last(2)[of es ?d None] r by (simp split: option.splits)
  have sc: "sc s = (case map_of (rev es) (Some s) of Some p \<Rightarrow> Some p | None \<Rightarrow> ?d s)" for s
    using read_entries_last(1)[of es ?d None s] r by simp
  show ?thesis
    by (cases scope; cases "map_of (rev es) None"; cases "map_of (rev es) (Some scope)")
      (simp_all add: retention_from_def r fb sc or_insert_def split: option.splits)
qed

section \<open>Retention by age\<close>

text \<open>The periodic cleanup removes exactly the files whose check says so.\<close>

lemma cleanup_time_retention_exact:
  assumes ok: "media_ok db"
  shows "\<exists>r db'. cleanup_time_retention M now retention db = (Ok r, db') \<and> media_ok db'
    \<and> (\<forall>k v. kv_get (filehash_metadata db') k = Some v \<longleftrightarrow>
         kv_get (filehash_metadata db) k = Some v \<and> should_be_deleted M now retention db (k, v) \<noteq> Ok True)"
proof -
  let ?ks = "map fst (filter (\<lambda>row. should_be_deleted M now retention db row = Ok True) (filehash_metadata db))"
  note wf = media_okD(3)[OF ok]
  have "\<forall>d \<in> set ?ks. length d = 32" using media_okD(6)[OF ok] by (auto simp: kv_get_in_set[OF wf])
  then obtain db' where db': "purge M ?ks db = (Ok (map (\<lambda>d. Ok (hex_encode M d)) ?ks), db')" "media_ok db'"
    "filehash_metadata db' = kv_remove_keys (filehash_metadata db) ?ks"
    using purge_ok[OF ok, of ?ks M] by auto
  have kv: "(k, w) \<in> set (filehash_metadata db) \<longleftrightarrow> kv_get (filehash_metadata db) k = Some w" for k w
    by (rule kv_get_in_set[OF wf, symmetric])
  have ks: "k \<in> set ?ks \<longleftrightarrow> (\<exists>w. kv_get (filehash_metadata db) k = Some w \<and> should_be_deleted M now retention db (k, w) = Ok True)" for k
    unfolding set_map set_filter kv[symmetric] by (simp add: image_iff)
  have "kv_get (filehash_metadata db') k = Some v \<longleftrightarrow>
      kv_get (filehash_metadata db) k = Some v \<and> should_be_deleted M now retention db (k, v) \<noteq> Ok True" for k v
    unfolding db'(3) kv_get_remove_keys[OF wf] ks by (cases "kv_get (filehash_metadata db) k") auto
  moreover have "cleanup_time_retention M now retention db =
      (Ok (map Err (errs (map (should_be_deleted M now retention db) (filehash_metadata db))) @ map (\<lambda>d. Ok (hex_encode M d)) ?ks), db')"
    unfolding cleanup_time_retention_def kv_iter_def Let_def db'(1) by simp
  ultimately show ?thesis using db'(2) by blast
qed

end
