(* ===== verification/MediaService.thy ===== *)
theory MediaService
  imports MediaRetention
begin

text \<open>
  The media service (\<^verbatim>\<open>server/src/service/media/mod.rs\<close>) over the media tables and the file-system backend:
  uploading, fetching, thumbnails and purging, with the paths of \<^verbatim>\<open>service/globals/mod.rs\<close>. The store is
  a list of directories and a list of files by path, with the behaviour of \<open>tokio::fs\<close> that the code
  relies on; image processing and SHA-256 are parameters. The S3 backend is not modelled.
\<close>

section \<open>Paths and files\<close>

type_synonym path = "str list"

record media_state = media_db +
  stored_files :: "(path \<times> bytes) list"
  directories :: "path list"

datatype directory_structure = Flat | Deep nat nat

text \<open>The image crate: decoding, dimensions, the two ways to scale, and PNG encoding.\<close>

record 'img image_ops =
  load_from_memory :: "bytes \<Rightarrow> 'img option"
  img_width :: "'img \<Rightarrow> u32"
  img_height :: "'img \<Rightarrow> u32"
  resize_to_fill :: "'img \<Rightarrow> u32 \<Rightarrow> u32 \<Rightarrow> 'img"
  thumbnail_exact :: "'img \<Rightarrow> u32 \<Rightarrow> u32 \<Rightarrow> 'img"
  write_png :: "'img \<Rightarrow> bytes result"

record 'img media_config =
  media_tables :: media_env
  sha256 :: "bytes \<Rightarrow> bytes"
  media_path :: str
  dir_structure :: directory_structure
  retention :: media_retention_config
  safe_inline :: "str \<Rightarrow> bool"
  images :: "'img image_ops"

text \<open>\<open>ShadowDirectoryStructure::try_from\<close> accepts a deep structure whose pieces leave part of the 64 digits.\<close>

definition directory_structure_ok :: "directory_structure \<Rightarrow> bool" where
  "directory_structure_ok ds = (case ds of
     Flat \<Rightarrow> True
   | Deep len depth \<Rightarrow> 0 < len \<and> len < 256 \<and> 0 < depth \<and> depth < 256 \<and> len * depth < 64)"

fun split_pieces :: "nat \<Rightarrow> nat \<Rightarrow> str \<Rightarrow> path result" where
  "split_pieces len 0 name = Ok [name]"
| "split_pieces len (Suc depth) name =
     (if length name < len then Err (Panicked ''split_at'')
      else and_then (split_pieces len depth (drop len name)) (\<lambda>r. Ok (take len name # r)))"

definition split_media_path :: "str option \<Rightarrow> directory_structure \<Rightarrow> str \<Rightarrow> path result" where
  "split_media_path media_directory ds sha256_hex =
     (let root = (case media_directory of Some p \<Rightarrow> [p] | None \<Rightarrow> []) in
      case ds of
        Flat \<Rightarrow> Ok (root @ [sha256_hex])
      | Deep len depth \<Rightarrow> and_then (split_pieces len depth sha256_hex) (\<lambda>r. Ok (root @ r)))"

definition get_media_path :: "str \<Rightarrow> directory_structure \<Rightarrow> str \<Rightarrow> path result" where
  "get_media_path dir ds sha256_hex = split_media_path (Some dir) ds sha256_hex"

text \<open>\<open>create_dir_all\<close>, \<open>File::create\<close> with \<open>write_all\<close>, \<open>read_to_end\<close>, \<open>remove_file\<close> and \<open>remove_dir\<close>.\<close>

definition create_dir_all :: "path \<Rightarrow> 'a media_state_scheme \<Rightarrow> 'a media_state_scheme" where
  "create_dir_all p s = s\<lparr>directories := map (\<lambda>n. take n p) [1..<Suc (length p)] @ directories s\<rparr>"

definition write_file :: "path \<Rightarrow> bytes \<Rightarrow> 'a media_state_scheme \<Rightarrow> unit result \<times> 'a media_state_scheme" where
  "write_file p file s =
     (if butlast p \<in> set (directories s)
      then (Ok (), s\<lparr>stored_files := (p, file) # filter (\<lambda>(q, _). q \<noteq> p) (stored_files s)\<rparr>)
      else (Err (IoError ''No such file or directory''), s))"

definition read_file :: "path \<Rightarrow> 'a media_state_scheme \<Rightarrow> bytes result" where
  "read_file p s = ok_or (IoError ''No such file or directory'') (map_of (stored_files s) p)"

definition remove_file :: "path \<Rightarrow> 'a media_state_scheme \<Rightarrow> 'a media_state_scheme" where
  "remove_file p s = s\<lparr>stored_files := filter (\<lambda>(q, _). q \<noteq> p) (stored_files s)\<rparr>"

definition dir_empty :: "path \<Rightarrow> 'a media_state_scheme \<Rightarrow> bool" where
  "dir_empty p s \<longleftrightarrow> (\<forall>(q, _) \<in> set (stored_files s). butlast q \<noteq> p) \<and> (\<forall>q \<in> set (directories s). q = p \<or> butlast q \<noteq> p)"

text \<open>The loop that removes directories that became empty.\<close>

fun remove_dirs :: "nat \<Rightarrow> path \<Rightarrow> 'a media_state_scheme \<Rightarrow> unit result \<times> 'a media_state_scheme" where
  "remove_dirs 0 p s = (Ok (), s)"
| "remove_dirs (Suc depth) p s =
     (let p = butlast p in
      if p \<notin> set (directories s) then (Err (IoError ''No such file or directory''), s)
      else if \<not> dir_empty p s then (Ok (), s)
      else remove_dirs depth p (s\<lparr>directories := filter (\<lambda>q. q \<noteq> p) (directories s)\<rparr>))"

definition delete_file_fs ::
  "str \<Rightarrow> directory_structure \<Rightarrow> str \<Rightarrow> 'a media_state_scheme \<Rightarrow> unit result \<times> 'a media_state_scheme" where
  "delete_file_fs dir ds sha256_hex s =
     (case get_media_path dir ds sha256_hex of
        Inl e \<Rightarrow> (Err e, s)
      | Inr p \<Rightarrow>
          let s = remove_file p s
          in case ds of Flat \<Rightarrow> (Ok (), s) | Deep _ depth \<Rightarrow> remove_dirs depth p s)"

definition create_file ::
  "'img media_config \<Rightarrow> str \<Rightarrow> bytes \<Rightarrow> 'a media_state_scheme \<Rightarrow> unit result \<times> 'a media_state_scheme" where
  "create_file S sha256_hex file s =
     (case get_media_path (media_path S) (dir_structure S) sha256_hex of
        Inl e \<Rightarrow> (Err e, s)
      | Inr p \<Rightarrow>
          let s = (case dir_structure S of Deep _ _ \<Rightarrow> create_dir_all (butlast p) s | Flat \<Rightarrow> s)
          in write_file p file s)"

text \<open>\<open>purge_files\<close>: the errors so far, and those of the deletions; a panic in a path ends it.\<close>

fun delete_files ::
  "'img media_config \<Rightarrow> str list \<Rightarrow> 'a media_state_scheme \<Rightarrow> error list result \<times> 'a media_state_scheme" where
  "delete_files S [] s = (Ok [], s)"
| "delete_files S (v # vs) s =
     step_then (catch (delete_file_fs (media_path S) (dir_structure S) v s)) (\<lambda>r s.
     step_then (delete_files S vs s) (\<lambda>es s.
       (Ok ((case r of Inl e \<Rightarrow> [e] | Inr _ \<Rightarrow> []) @ es), s)))"

definition purge_files ::
  "'img media_config \<Rightarrow> str result list \<Rightarrow> 'a media_state_scheme \<Rightarrow> error list result \<times> 'a media_state_scheme" where
  "purge_files S hashes s =
     step_then (delete_files S (oks hashes) s) (\<lambda>es s. (Ok (errs hashes @ es), s))"

section \<open>The service\<close>

definition file_size :: "bytes \<Rightarrow> u64" where
  "file_size file = of_nat (length file)"

definition hex_digest :: "'img media_config \<Rightarrow> bytes \<Rightarrow> str" where
  "hex_digest S digest = hex_encode (media_tables S) digest"

datatype disposition = Inline | Attachment

record file_meta =
  disposition_type :: disposition
  disposition_filename :: "str option"
  fm_content_type :: "str option"
  fm_file :: bytes

definition content_disposition ::
  "'img media_config \<Rightarrow> str option \<Rightarrow> str option \<Rightarrow> disposition \<times> str option" where
  "content_disposition S fname ctype =
     ((case ctype of Some c \<Rightarrow> if safe_inline S c then Inline else Attachment | None \<Rightarrow> Attachment), fname)"

definition clear_required_space ::
  "'img media_config \<Rightarrow> bytes \<Rightarrow> media_type \<Rightarrow> u64 \<Rightarrow> 'a media_state_scheme
    \<Rightarrow> error list result \<times> 'a media_state_scheme" where
  "clear_required_space S digest media_type new_size s =
     step_then (files_to_delete (media_tables S) digest (retention S) media_type new_size s) (purge_files S)"

definition create_media ::
  "'img media_config \<Rightarrow> u64 \<Rightarrow> str \<Rightarrow> str \<Rightarrow> str option \<Rightarrow> str option \<Rightarrow> bytes \<Rightarrow> str option
    \<Rightarrow> 'a media_state_scheme \<Rightarrow> unit result \<times> 'a media_state_scheme" where
  "create_media S now server media_id fname ctype file user_id s =
     (let digest = sha256 S file in
      step_then (clear_required_space S digest (media_type_new (media_tables S) server False) (file_size file) s) (\<lambda>_ s.
      step_then (is_blocked_filehash digest s, s) (\<lambda>blocked s.
      let s = create_file_metadata (media_tables S) now digest (file_size file) server media_id fname ctype
                user_id blocked s in
      step_then (is_blocked_filehash digest s, s) (\<lambda>blocked s.
        if \<not> blocked then create_file S (hex_digest S digest) file s
        else if user_id = None then (Err (BadRequest NotFound ''Media not found.''), s)
        else (Ok (), s)))))"

definition upload_thumbnail ::
  "'img media_config \<Rightarrow> u64 \<Rightarrow> str \<Rightarrow> str \<Rightarrow> str option \<Rightarrow> str option \<Rightarrow> u32 \<Rightarrow> u32 \<Rightarrow> bytes
    \<Rightarrow> 'a media_state_scheme \<Rightarrow> unit result \<times> 'a media_state_scheme" where
  "upload_thumbnail S now server media_id fname ctype width height file s =
     (let digest = sha256 S file in
      step_then (clear_required_space S digest (media_type_new (media_tables S) server True) (file_size file) s) (\<lambda>_ s.
        create_file S (hex_digest S digest) file
          (create_thumbnail_metadata now digest (file_size file) server media_id width height fname ctype s)))"

definition get_file ::
  "'img media_config \<Rightarrow> u64 \<Rightarrow> bytes \<Rightarrow> (str \<times> str) option \<Rightarrow> 'a media_state_scheme
    \<Rightarrow> bytes result \<times> 'a media_state_scheme" where
  "get_file S now digest original_file_id s =
     (case and_then (get_media_path (media_path S) (dir_structure S) (hex_digest S digest)) (\<lambda>p. read_file p s) of
        Inl e \<Rightarrow> (Err e, s)
      | Inr file \<Rightarrow>
          let s = (case original_file_id of
                     Some (server, media_id) \<Rightarrow> update_last_accessed now server media_id s
                   | None \<Rightarrow> s)
          in (Ok file, update_last_accessed_filehash now digest s))"

definition file_meta_of :: "'img media_config \<Rightarrow> str option \<Rightarrow> str option \<Rightarrow> bytes \<Rightarrow> file_meta" where
  "file_meta_of S fname ctype file =
     \<lparr>disposition_type = fst (content_disposition S fname ctype),
      disposition_filename = snd (content_disposition S fname ctype), fm_content_type = ctype, fm_file = file\<rparr>"

definition get_media ::
  "'img media_config \<Rightarrow> u64 \<Rightarrow> str \<Rightarrow> str \<Rightarrow> bool \<Rightarrow> 'a media_state_scheme
    \<Rightarrow> file_meta option result \<times> 'a media_state_scheme" where
  "get_media S now server media_id authenticated s =
     step_then (search_file_metadata server media_id s, s) (\<lambda>meta s.
       if \<not> (authenticated \<or> unauthenticated_access_permitted meta) then (Ok None, s)
       else step_then (get_file S now (sha256_digest meta) None s) (\<lambda>file s.
         (Ok (Some (file_meta_of S (filename meta) (content_type meta) file)), s)))"

definition thumbnail_properties :: "u32 \<Rightarrow> u32 \<Rightarrow> (u32 \<times> u32 \<times> bool) option" where
  "thumbnail_properties width height =
     (if width \<le> 32 \<and> height \<le> 32 then Some (32, 32, True)
      else if width \<le> 96 \<and> height \<le> 96 then Some (96, 96, True)
      else if width \<le> 320 \<and> height \<le> 240 then Some (320, 240, False)
      else if width \<le> 640 \<and> height \<le> 480 then Some (640, 480, False)
      else if width \<le> 800 \<and> height \<le> 600 then Some (800, 600, False)
      else None)"

text \<open>The dimensions of a scaled thumbnail, in 64-bit arithmetic.\<close>

definition exact_dimensions :: "u32 \<Rightarrow> u32 \<Rightarrow> u32 \<Rightarrow> u32 \<Rightarrow> u32 \<times> u32" where
  "exact_dimensions original_width original_height width height =
     (let u64 = (ucast :: u32 \<Rightarrow> u64);
          u32_max = (- 1 :: u32);
          ratio = u64 original_width * u64 height;
          nratio = u64 width * u64 original_height;
          use_width = nratio \<le> ratio;
          intermediate = (if use_width then u64 original_height * u64 width div u64 original_width
                          else u64 original_width * u64 height div u64 original_height)
      in if use_width
         then if intermediate \<le> u64 u32_max then (width, ucast intermediate)
              else (ucast (u64 width * u64 u32_max div intermediate), u32_max)
         else if intermediate \<le> u64 u32_max then (ucast intermediate, height)
              else (u32_max, ucast (u64 height * u64 u32_max div intermediate)))"

definition make_thumbnail :: "'img image_ops \<Rightarrow> 'img \<Rightarrow> u32 \<Rightarrow> u32 \<Rightarrow> bool \<Rightarrow> 'img" where
  "make_thumbnail I img width height crop =
     (if crop then resize_to_fill I img width height
      else let (w, h) = exact_dimensions (img_width I img) (img_height I img) width height
           in thumbnail_exact I img w h)"

definition generate_thumbnail ::
  "'img media_config \<Rightarrow> u64 \<Rightarrow> str \<Rightarrow> str \<Rightarrow> u32 \<Rightarrow> u32 \<Rightarrow> bool \<Rightarrow> db_file_meta \<Rightarrow> 'a media_state_scheme
    \<Rightarrow> file_meta option result \<times> 'a media_state_scheme" where
  "generate_thumbnail S now server media_id width height crop meta s =
     step_then (get_file S now (sha256_digest meta) None s) (\<lambda>file s.
     case load_from_memory (images S) file of
       None \<Rightarrow> (Err (BadRequest Unknown ''Unable to generate thumbnail for the requested content (likely is not an image)''), s)
     | Some img \<Rightarrow>
         if width > img_width (images S) img \<or> height > img_height (images S) img
         then (Ok (Some (file_meta_of S (filename meta) (content_type meta) file)), s)
         else
           step_then (write_png (images S) (make_thumbnail (images S) img width height crop), s) (\<lambda>thumbnail s.
           step_then (upload_thumbnail S now server media_id (filename meta) (content_type meta) width height thumbnail s)
             (\<lambda>_ s. (Ok (Some (file_meta_of S (filename meta) (content_type meta) thumbnail)), s))))"

definition get_thumbnail ::
  "'img media_config \<Rightarrow> u64 \<Rightarrow> str \<Rightarrow> str \<Rightarrow> u32 \<Rightarrow> u32 \<Rightarrow> bool \<Rightarrow> 'a media_state_scheme
    \<Rightarrow> file_meta option result \<times> 'a media_state_scheme" where
  "get_thumbnail S now server media_id width height authenticated s =
     (case thumbnail_properties width height of
        Some (width, height, crop) \<Rightarrow>
          (case search_thumbnail_metadata server media_id width height s of
             Inr meta \<Rightarrow>
               if \<not> (authenticated \<or> unauthenticated_access_permitted meta) then (Ok None, s)
               else step_then (get_file S now (sha256_digest meta) (Some (server, media_id)) s) (\<lambda>file s.
                 (Ok (Some (file_meta_of S (filename meta) (content_type meta) file)), s))
           | Inl _ \<Rightarrow>
               if \<not> authenticated then (Ok None, s)
               else case search_file_metadata server media_id s of
                      Inr meta \<Rightarrow>
                        if \<not> (authenticated \<or> unauthenticated_access_permitted meta) then (Ok None, s)
                        else generate_thumbnail S now server media_id width height crop meta s
                    | Inl _ \<Rightarrow> (Ok None, s))
      | None \<Rightarrow>
          (case search_file_metadata server media_id s of
             Inl _ \<Rightarrow> (Ok None, s)
           | Inr meta \<Rightarrow>
               if \<not> (authenticated \<or> unauthenticated_access_permitted meta) then (Ok None, s)
               else step_then (get_file S now (sha256_digest meta) None s) (\<lambda>file s.
                 (Ok (Some (file_meta_of S (filename meta) (content_type meta) file)), s))))"

definition check_blocked :: "str \<Rightarrow> str \<Rightarrow> 'a media_db_scheme \<Rightarrow> unit result" where
  "check_blocked server media_id db =
     and_then (is_blocked server media_id db) (\<lambda>b.
       if b then Err (BadRequest NotFound ''Media not found.'') else Ok ())"

definition purge_media ::
  "'img media_config \<Rightarrow> (str \<times> str) list \<Rightarrow> bool \<Rightarrow> 'a media_state_scheme
    \<Rightarrow> error list result \<times> 'a media_state_scheme" where
  "purge_media S media force_filehash s =
     step_then (purge_and_get_hashes (media_tables S) media force_filehash s) (purge_files S)"

definition purge_from_user ::
  "'img media_config \<Rightarrow> str \<Rightarrow> bool \<Rightarrow> u64 option \<Rightarrow> 'a media_state_scheme
    \<Rightarrow> error list result \<times> 'a media_state_scheme" where
  "purge_from_user S user_id force_filehash after s =
     step_then (purge_and_get_hashes_from_user (media_tables S) user_id force_filehash after s) (purge_files S)"

definition purge_from_server ::
  "'img media_config \<Rightarrow> str \<Rightarrow> bool \<Rightarrow> u64 option \<Rightarrow> 'a media_state_scheme
    \<Rightarrow> error list result \<times> 'a media_state_scheme" where
  "purge_from_server S server force_filehash after s =
     step_then (purge_and_get_hashes_from_server (media_tables S) server force_filehash after s) (purge_files S)"

definition try_purge_time_retention ::
  "'img media_config \<Rightarrow> u64 \<Rightarrow> 'a media_state_scheme \<Rightarrow> unit result \<times> 'a media_state_scheme" where
  "try_purge_time_retention S now s =
     step_then (cleanup_time_retention (media_tables S) now (retention S) s) (\<lambda>files s.
     step_then (purge_files S files s) (\<lambda>_ s. (Ok (), s)))"

section \<open>Properties\<close>

text \<open>Products of 32-bit numbers fit into 64 bits.\<close>

lemma unat_u64 [simp]: "unat (ucast (a :: u32) :: u64) = unat a"
proof -
  have "unat a < 2 ^ 32" using unsigned_less[of a, where ?'a = nat] by simp
  then show ?thesis by (simp add: unsigned_ucast_eq take_bit_nat_eq_self)
qed

lemma unat_u64_mult: "unat (ucast (a :: u32) * ucast b :: u64) = unat a * unat (b :: u32)"
proof -
  have "unat a < 2 ^ 32" "unat b < 2 ^ 32"
    using unsigned_less[of a, where ?'a = nat] unsigned_less[of b, where ?'a = nat] by simp_all
  then have "unat a * unat b < 2 ^ 32 * 2 ^ 32" by (intro mult_strict_mono') simp_all
  then show ?thesis by (simp add: unat_word_ariths(2))
qed

lemma scaled_fits:
  fixes a b w h :: u32
  assumes "unat b * unat w \<le> unat a * unat h" "a \<noteq> 0"
  defines "i \<equiv> (ucast (b :: u32) * ucast w div ucast a :: u64)"
  shows "i \<le> ucast (- 1 :: u32) \<and> unat (ucast i :: u32) \<le> unat (h :: u32)"
proof -
  have "0 < unat a" using assms(2) by (simp add: unat_gt_0)
  then have "unat b * unat w div unat a \<le> unat h"
    using assms(1) by (metis div_le_mono nonzero_mult_div_cancel_left less_not_refl)
  then have i: "unat i \<le> unat h" by (simp add: i_def unat_div unat_u64_mult)
  have h: "unat h \<le> unat (- 1 :: u32)" by (simp add: word_le_nat_alt[symmetric])
  have "unat i < 2 ^ 32" using i unsigned_less[of h, where ?'a = nat] by simp
  then have "unat (ucast i :: u32) = unat i" by (simp add: unsigned_ucast_eq take_bit_nat_eq_self)
  then show ?thesis using i h by (simp add: word_le_nat_alt)
qed

text \<open>
  A scaled thumbnail fits into the requested box and touches it in one direction, for every
  size of the original; the 64-bit products never overflow.
\<close>

theorem thumbnail_fits:
  assumes "ow \<noteq> 0" "oh \<noteq> 0"
  shows "fst (exact_dimensions ow oh w h) \<le> w \<and> snd (exact_dimensions ow oh w h) \<le> h
    \<and> (fst (exact_dimensions ow oh w h) = w \<or> snd (exact_dimensions ow oh w h) = h)"
proof (cases "unat w * unat oh \<le> unat ow * unat h")
  case True
  then have "(ucast w * ucast oh :: u64) \<le> ucast ow * ucast h" by (simp add: word_le_nat_alt unat_u64_mult)
  moreover have "(ucast oh * ucast w div ucast ow :: u64) \<le> ucast (- 1 :: u32)
      \<and> unat (ucast (ucast oh * ucast w div ucast ow :: u64) :: u32) \<le> unat h"
    using scaled_fits[of oh w ow h] True assms(1) by (simp add: mult.commute)
  ultimately show ?thesis by (simp add: exact_dimensions_def Let_def word_le_nat_alt)
next
  case False
  then have "\<not> (ucast w * ucast oh :: u64) \<le> ucast ow * ucast h" by (simp add: word_le_nat_alt unat_u64_mult)
  moreover have "(ucast ow * ucast h div ucast oh :: u64) \<le> ucast (- 1 :: u32)
      \<and> unat (ucast (ucast ow * ucast h div ucast oh :: u64) :: u32) \<le> unat w"
    using scaled_fits[of ow h oh w] False assms(2) by (simp add: mult.commute)
  ultimately show ?thesis by (simp add: exact_dimensions_def Let_def word_le_nat_alt)
qed

theorem thumbnail_fits_witness:
  "fst (exact_dimensions 1600 600 800 600) \<le> 800 \<and> snd (exact_dimensions 1600 600 800 600) \<le> 600"
  using thumbnail_fits [of 1600 600 800 600] by simp

lemma split_pieces_length: "split_pieces len depth name = Ok r \<Longrightarrow> length r = Suc depth"
  by (induction len depth name arbitrary: r rule: split_pieces.induct) (auto simp: and_then_eq_Inr split: if_splits)

lemma get_media_path_length: "get_media_path dir ds name = Ok p \<Longrightarrow> 2 \<le> length p"
  by (auto simp: get_media_path_def split_media_path_def Let_def and_then_eq_Inr dest: split_pieces_length split: directory_structure.splits)

lemma split_pieces_ok: "len * depth \<le> length name \<Longrightarrow> \<exists>r. split_pieces len depth name = Ok r \<and> concat r = name"
proof (induction len depth name rule: split_pieces.induct)
  case (2 len depth name)
  then obtain r where "split_pieces len depth (drop len name) = Ok r" "concat r = drop len name" by fastforce
  then show ?case using 2(2) by simp
qed simp

text \<open>
  With an accepted directory structure every digest of 64 digits has a path, and different
  digests have different paths.
\<close>

theorem media_paths_distinct:
  assumes "directory_structure_ok ds" "length a = 64" "length b = 64"
  shows "\<exists>p q. get_media_path dir ds a = Ok p \<and> get_media_path dir ds b = Ok q \<and> (p = q \<longrightarrow> a = b)"
proof (cases ds)
  case Flat
  then show ?thesis by (simp add: get_media_path_def split_media_path_def)
next
  case (Deep len depth)
  then have "len * depth \<le> 64" using assms(1) by (simp add: directory_structure_ok_def)
  then obtain r r' where "split_pieces len depth a = Ok r" "concat r = a" "split_pieces len depth b = Ok r'" "concat r' = b"
    using split_pieces_ok[of len depth a] split_pieces_ok[of len depth b] assms(2,3) by auto
  then show ?thesis using Deep by (auto simp: get_media_path_def split_media_path_def)
qed

theorem media_paths_distinct_witness:
  "\<exists>p q. get_media_path (ascii ''m'') (Deep 2 2) (replicate 64 97) = Ok p
     \<and> get_media_path (ascii ''m'') (Deep 2 2) (replicate 64 98) = Ok q \<and> (p = q \<longrightarrow> replicate 64 97 = (replicate 64 98 :: str))"
  by (rule media_paths_distinct) (simp_all add: directory_structure_ok_def)

text \<open>A new file under a free media id is blocked only through its digest.\<close>

lemma create_file_not_blocked:
  assumes ok: "media_ok db" and d: "length d = 32" and utf: "utf8 n" "utf8 m" "\<forall>u'. u = Some u' \<longrightarrow> utf8 (user_local M u')"
    and fresh: "kv_get (servernamemediaid_metadata db) (media_key n m) = None"
    and free: "\<not> blocked_digest d db" "\<not> is_directly_blocked n m db"
  shows "is_blocked_filehash d (create_file_metadata M now d sz n m f c u b db) = Ok False"
proof -
  let ?db = "create_file_metadata M now d sz n m f c u b db"
  have "kv_get (servernamemediaid_userlocalpart db) (media_key n m) \<noteq> Some l" for l
    using media_okD(5)[OF ok] fresh unfolding uploads_ok_def by blast
  then have "media_ok ?db" using fresh by (intro create_file_ok[OF ok d utf]) simp_all
  moreover have "\<not> blocked_digest d ?db"
  proof
    assume "blocked_digest d ?db"
    then obtain i where i: "kv_get (blocked_servername_mediaid ?db) i \<noteq> None" "has_content i d ?db"
      unfolding blocked_digest_content by (elim exE conjE)
    have tabs: "blocked_servername_mediaid ?db = blocked_servername_mediaid db" "filehash_thumbnailid ?db = filehash_thumbnailid db"
      "filehash_servername_mediaid ?db = kv_insert (filehash_servername_mediaid db) (d @ media_key n m) []"
      by (simp_all add: create_file_metadata_def Let_def split: option.splits)
    have "i \<noteq> media_key n m" using i(1) free(2) by (auto simp: tabs is_directly_blocked_def)
    then have "has_content i d db"
      using i(2) by (auto simp: has_content_def tabs kv_get_insert index_okD(1)[OF media_okD(1)[OF ok]])
    then show False using free(1) i(1) unfolding blocked_digest_content tabs by blast
  qed
  ultimately show ?thesis using is_blocked_filehash_eq[OF _ d] by metis
qed

lemma created_file_found:
  assumes ok: "media_ok db" and d: "length d = 32" and utf: "\<forall>f'. f = Some f' \<longrightarrow> utf8 f'" "\<forall>c'. c = Some c' \<longrightarrow> utf8 c'"
  shows "search_file_metadata n m (create_file_metadata M now d sz n m f c u False db) =
    Ok \<lparr>sha256_digest = d, filename = non_empty f, content_type = non_empty c, unauthenticated_access_permitted = False\<rparr>"
proof -
  let ?db = "create_file_metadata M now d sz n m f c u False db"
  have tabs: "servernamemediaid_metadata ?db = kv_insert (servernamemediaid_metadata db) (media_key n m) (metadata_value d f c)"
    "filehash_metadata ?db = kv_insert (filehash_metadata db) d (new_metadata now sz)"
    by (simp_all add: create_file_metadata_def Let_def split: option.splits)
  show ?thesis
    using parse_metadata_value[OF d utf]
    by (simp add: search_file_metadata_def stored_metadata_def tabs kv_get_insert index_okD(2)[OF media_okD(1)[OF ok]] media_okD(3)[OF ok])
qed

lemma write_then_read:
  assumes "get_media_path (media_path S) (dir_structure S) hex = Ok p"
    and "dir_structure S = Flat \<longrightarrow> [media_path S] \<in> set (directories s)"
  shows "\<exists>s'. create_file S hex file s = (Ok (), s') \<and> read_file p s' = Ok file
    \<and> media_db.truncate s' = media_db.truncate s"
proof -
  have "butlast p \<in> set (directories (case dir_structure S of Deep _ _ \<Rightarrow> create_dir_all (butlast p) s | Flat \<Rightarrow> s))"
  proof (cases "dir_structure S")
    case Flat
    then show ?thesis using assms by (auto simp: get_media_path_def split_media_path_def)
  next
    case (Deep len depth)
    have "butlast p = take (length (butlast p)) (butlast p)" by simp
    moreover have "length (butlast p) \<in> {1..<Suc (length (butlast p))}" using get_media_path_length[OF assms(1)] by simp
    ultimately have "butlast p \<in> set (map (\<lambda>n. take n (butlast p)) [1..<Suc (length (butlast p))])"
      unfolding set_map set_upt by (rule image_eqI)
    moreover have "directories (create_dir_all q s) = map (\<lambda>n. take n q) [1..<Suc (length q)] @ directories s" for q
      by (simp add: create_dir_all_def)
    ultimately show ?thesis unfolding Deep directory_structure.case set_append by (simp only: set_append Un_iff simp_thms)
  qed
  then show ?thesis
    using assms(1)
    by (simp add: create_file_def write_file_def read_file_def media_db.truncate_def create_dir_all_def split: directory_structure.splits)
qed

text \<open>
  C13: an uploaded file can be fetched: once room was made, storing a file that is not blocked under a
  new media id succeeds, and fetching that id as an authenticated user returns exactly its bytes with
  its name and type.
\<close>

theorem uploaded_file_is_served:
  fixes S :: "'img media_config" and s1 :: "'a media_state_scheme"
  assumes room: "clear_required_space S (sha256 S file) (media_type_new (media_tables S) n False) (file_size file) s = (Ok es, s1)"
    and ok: "media_ok s1" and d: "length (sha256 S file) = 32"
    and utf: "utf8 n" "utf8 m" "\<forall>u'. u = Some u' \<longrightarrow> utf8 (user_local (media_tables S) u')"
      "\<forall>f'. f = Some f' \<longrightarrow> utf8 f'" "\<forall>c'. c = Some c' \<longrightarrow> utf8 c'"
    and fresh: "kv_get (servernamemediaid_metadata s1) (media_key n m) = None"
    and free: "\<not> blocked_digest (sha256 S file) s1" "\<not> is_directly_blocked n m s1"
    and path: "get_media_path (media_path S) (dir_structure S) (hex_digest S (sha256 S file)) = Ok p"
      "dir_structure S = Flat \<longrightarrow> [media_path S] \<in> set (directories s1)"
  shows "\<exists>s2 s3. create_media S now n m f c file u s = (Ok (), s2)
    \<and> get_media S now' n m True s2 = (Ok (Some (file_meta_of S (non_empty f) (non_empty c) file)), s3)"
proof -
  let ?d = "sha256 S file" and ?M = "media_tables S"
  define t where "t = create_file_metadata ?M now ?d (file_size file) n m f c u False s1"
  have "is_blocked_filehash ?d t = Ok False"
    unfolding t_def by (rule create_file_not_blocked[OF ok d utf(1-3) fresh free])
  moreover have "is_blocked_filehash ?d s1 = Ok False" using is_blocked_filehash_eq[OF ok d] free(1) by simp
  moreover have dirs: "directories t = directories s1"
    by (simp add: t_def create_file_metadata_def Let_def split: option.splits)
  obtain s2 where s2: "create_file S (hex_digest S ?d) file t = (Ok (), s2)" "read_file p s2 = Ok file"
    "media_db.truncate s2 = media_db.truncate t"
    using write_then_read[OF path(1), of t "file"] path(2) dirs by auto
  ultimately have "create_media S now n m f c file u s = (Ok (), s2)"
    using room by (simp add: create_media_def Let_def t_def)
  moreover have "search_file_metadata n m t = Ok \<lparr>sha256_digest = ?d, filename = non_empty f,
      content_type = non_empty c, unauthenticated_access_permitted = False\<rparr>"
    using created_file_found[OF ok d utf(4,5)] unfolding t_def by blast
  then have "search_file_metadata n m s2 = Ok \<lparr>sha256_digest = ?d, filename = non_empty f,
      content_type = non_empty c, unauthenticated_access_permitted = False\<rparr>"
    using s2(3) by (simp add: search_file_metadata_def stored_metadata_def media_db.truncate_def)
  ultimately show ?thesis
    using s2(2) path(1) by (simp add: get_media_def get_file_def Let_def)
qed

text \<open>A store with one empty directory, no space limits, and a constant digest.\<close>

definition sample_service :: "unit media_config" where
  "sample_service = \<lparr>media_tables = sample_media_env, sha256 = (\<lambda>_. digest_one), media_path = ascii ''m'',
     dir_structure = Flat, retention = \<lparr>scoped = Map.empty, global_space = None\<rparr>, safe_inline = (\<lambda>_. False),
     images = \<lparr>load_from_memory = (\<lambda>_. None), img_width = (\<lambda>_. 0), img_height = (\<lambda>_. 0),
       resize_to_fill = (\<lambda>i _ _. i), thumbnail_exact = (\<lambda>i _ _. i), write_png = (\<lambda>_. Ok [])\<rparr>\<rparr>"

definition empty_store :: media_state where
  "empty_store = media_db.extend empty_media \<lparr>stored_files = [], directories = [[ascii ''m'']]\<rparr>"

lemma empty_store_ok: "media_ok empty_store"
  using empty_media_ok by (simp add: media_ok_def uploads_ok_def empty_store_def media_db.defs)

theorem uploaded_file_is_served_witness:
  "\<exists>s2 s3. create_media sample_service 5 (ascii ''h'') (ascii ''a'') None None [1, 2, 3] None empty_store = (Ok (), s2)
     \<and> get_media sample_service 6 (ascii ''h'') (ascii ''a'') True s2
       = (Ok (Some (file_meta_of sample_service None None [1, 2, 3])), s3)"
proof -
  have tabs: "filehash_metadata empty_store = []" "servernamemediaid_metadata empty_store = []" "blocked_servername_mediaid empty_store = []"
    "directories empty_store = [[ascii ''m'']]"
    by (simp_all add: empty_store_def media_db.defs empty_media_def)
  have "clear_required_space sample_service (sha256 sample_service [1, 2, 3])
      (media_type_new (media_tables sample_service) (ascii ''h'') False) (file_size [1, 2, 3]) empty_store = (Ok [], empty_store)"
    by (simp add: clear_required_space_def files_to_delete_def purge_if_necessary_def purge_files_def sample_service_def
        media_type_new_def sample_media_env_def tabs errs_def List.map_filter_def Let_def)
  from uploaded_file_is_served [OF this empty_store_ok, of "ascii ''a''" None None None "[ascii ''m'', digest_one]" 5 6]
  show ?thesis
    by (simp add: sample_service_def tabs blocked_digest_def is_directly_blocked_def get_media_path_def split_media_path_def
        hex_digest_def sample_media_env_def non_empty_def)
qed

lemma remove_dirs_facts:
  "remove_dirs depth p s = (r, s') \<Longrightarrow> set (directories s') \<subseteq> set (directories s) \<and> stored_files s' = stored_files s
    \<and> (r = Ok () \<or> r = Err (IoError ''No such file or directory''))"
  by (induction depth arbitrary: p s) (fastforce simp: Let_def split: if_splits)+

text \<open>
  C37: deleting the same digest twice in one purge reports an error although the file is gone: with
  a deep directory structure the first deletion removes the directory, and the second fails to
  remove it again.
\<close>

theorem repeated_digest_reports_error:
  assumes S: "dir_structure S = Deep len (Suc k)" and path: "get_media_path (media_path S) (Deep len (Suc k)) v = Ok p"
    and alone: "butlast p \<in> set (directories s)" "dir_empty (butlast p) (remove_file p s)"
  shows "\<exists>es s'. delete_files S [v, v] s = (Ok es, s') \<and> es \<noteq> [] \<and> map_of (stored_files s') p = None"
proof -
  let ?s = "(remove_file p s)\<lparr>directories := filter (\<lambda>q. q \<noteq> butlast p) (directories s)\<rparr>"
  obtain r s1 where r: "remove_dirs k (butlast p) ?s = (r, s1)" by (cases "remove_dirs k (butlast p) ?s")
  have first: "delete_file_fs (media_path S) (Deep len (Suc k)) v s = (r, s1)"
    using path alone r by (simp add: delete_file_fs_def remove_file_def Let_def)
  have s1: "butlast p \<notin> set (directories s1)" "stored_files s1 = stored_files (remove_file p s)"
    "r = Ok () \<or> r = Err (IoError ''No such file or directory'')"
    using remove_dirs_facts[OF r] by auto
  have second: "delete_file_fs (media_path S) (Deep len (Suc k)) v s1 = (Err (IoError ''No such file or directory''), remove_file p s1)"
    using path s1(1) by (simp add: delete_file_fs_def remove_file_def Let_def)
  have "map_of (stored_files (remove_file p s1)) p = None" by (auto simp: remove_file_def map_of_eq_None_iff)
  then show ?thesis using first second s1(3) by (auto simp: S catch_def)
qed

definition deep_service :: "unit media_config" where
  "deep_service = sample_service\<lparr>dir_structure := Deep 2 1\<rparr>"

definition deep_store :: media_state where
  "deep_store = media_db.extend empty_media \<lparr>stored_files = [([ascii ''m'', ascii ''ab'', ascii ''cd''], [1])],
     directories = [[ascii ''m'', ascii ''ab''], [ascii ''m'']]\<rparr>"

theorem repeated_digest_reports_error_witness:
  "\<exists>es s'. delete_files deep_service [ascii ''abcd'', ascii ''abcd''] deep_store = (Ok es, s') \<and> es \<noteq> []"
proof -
  have path: "get_media_path (media_path deep_service) (Deep 2 (Suc 0)) (ascii ''abcd'') = Ok [ascii ''m'', ascii ''ab'', ascii ''cd'']"
    by (simp add: get_media_path_def split_media_path_def deep_service_def sample_service_def ascii_def)
  from repeated_digest_reports_error [OF _ path, of deep_store] show ?thesis
    by (auto simp: deep_service_def deep_store_def media_db.defs dir_empty_def remove_file_def ascii_def)
qed

end
