(* ===== verification/Spec2Isabelle.thy ===== *)
theory Spec2Isabelle
  imports AuthChain Uiaa Sending RoomRoutes AppService Registry BackupRoutes MediaService
begin

text \<open>
  A verification development of a chat system: a Matrix homeserver written in Rust
  (\<^verbatim>\<open>server/src\<close>, a fork of Conduit) with wallet login, and an on-chain registry of homeservers
  (\<^verbatim>\<open>programs/homeserver-registry\<close>).

  \<^bold>\<open>The program.\<close> The server keeps everything in ordered key-value trees
  (\<^verbatim>\<open>database/abstraction*\<close>), which \<^verbatim>\<open>database/key_value/*\<close> wraps into one storage layer per
  service. Services (\<^verbatim>\<open>service/*\<close>) call each other through a global table; request handlers
  (\<^verbatim>\<open>api/*\<close>) call the services. Events of a room are appended to its timeline, interned into
  short numbers, and the room state after each event is stored as a stack of differences; the
  membership cache, devices, tokens and account data are further tables. A wallet user logs in by
  signing a nonce; the registry program lets a wallet announce its homeserver.

  \<^bold>\<open>Modelling.\<close> Identifiers and strings are their UTF-8 bytes, \<open>u64\<close> is a 64-bit word with
  wrapping arithmetic. The state of a component is a record of its tables and caches; components
  extend each other's records in the order
  \<open>globals_db\<close>, \<open>short_db\<close>, \<open>state_db\<close>, \<open>timeline_db\<close>, then \<open>authchain_db\<close> on one branch and
  \<open>accounts_db\<close>, \<open>statecache_db\<close>, \<open>users_db\<close>, \<open>accountdata_db\<close> on the other,
  which ends in \<open>session_db\<close>, \<open>uiaa_db\<close> and in \<open>edus_db\<close> with \<open>sending_db\<close> and, beside it,
  \<open>search_db\<close>, \<open>rooms_db\<close> on top; so an operation runs in any larger state. A fallible operation returns its result and the state, an
  error is a value of \<open>error\<close>, and an \<open>unwrap\<close>, \<open>expect\<close> or \<open>assert!\<close> that fails is the error
  \<open>Panicked\<close>. Failures of the disk are not modelled. Least-recently-used caches are partial maps
  whose evictions are an unconstrained argument; hash sets are finite sets with an iteration order
  as an argument. Code of other crates (ruma, serde_json, argon2, ed25519-dalek, bs58, hex, SHA-256,
  RocksDB) is a parameter, and what a theorem needs of it is a named hypothesis. Random values and
  clocks are arguments.

  \<^bold>\<open>Theories.\<close>
  \<^item> \<open>Prelude\<close>: types, errors, the sequencing of fallible steps, byte strings with separators, UTF-8,
    big-endian integers and decimal numbers (\<^verbatim>\<open>utils/mod.rs\<close>, \<^verbatim>\<open>utils/error.rs\<close> and the parts of
    the standard library the code uses).
  \<^item> \<open>KvTree\<close>: the trees of \<^verbatim>\<open>database/abstraction\<close>. The locale \<open>kv_tree\<close> is what clients rely on;
    both engines provide it. Shown: a prefix scan is exact and ordered, every operation of the RocksDB
    trees simulates that of the ordered table, an insert wakes exactly the watchers of its prefixes.
  \<^item> \<open>Globals\<close>: the counter, versions, keypair and signing keys of \<^verbatim>\<open>key_value/globals.rs\<close>. Shown:
    draws are consecutive up to wrap-around, the keypair survives, no signing key is lost.
  \<^item> \<open>Short\<close>: interning (\<^verbatim>\<open>rooms/short.rs\<close>). Shown: numbers are equal exactly when the objects are
    and read back as the objects, whatever the caches drop.
  \<^item> \<open>StateCompressor\<close>: state differences (\<^verbatim>\<open>rooms/state_compressor\<close>, \<^verbatim>\<open>rooms/state.rs\<close>). Shown: the
    stored form round-trips, loading ends within four frames because no stack has more than four
    layers, saving stores exactly the state and loses none.
  \<^item> \<open>Timeline\<close>: events, positions, outliers (\<^verbatim>\<open>rooms/timeline.rs\<close>, \<^verbatim>\<open>rooms/outlier.rs\<close>,
    \<^verbatim>\<open>service/pdu.rs\<close>). Shown: tokens and ids round-trip and order events, paging in both directions
    is complete, appending and replacing are visible.
  \<^item> \<open>RoomState\<close>: reading and extending the room state (\<^verbatim>\<open>rooms/state_accessor.rs\<close>,
    \<^verbatim>\<open>rooms/state/mod.rs\<close>). Shown: a key lookup is exact, appending a state event replaces exactly
    its key.
  \<^item> \<open>AuthChain\<close>: the auth chain search and its cache (\<^verbatim>\<open>rooms/auth_chain\<close>). The worklist runs on
    fuel; more than one plus the number of events is enough. Shown: the result is reachability.
  \<^item> \<open>Accounts\<close>, \<open>Users\<close>: \<^verbatim>\<open>key_value/users.rs\<close> with parts of \<^verbatim>\<open>service/users/mod.rs\<close>. Shown:
    password, profile, token, device, to-device and OpenID behaviour; deactivation logs out.
  \<^item> \<open>StateCache\<close>: \<^verbatim>\<open>rooms/state_cache.rs\<close>. Shown: eight tables refine one membership per user and
    room; recomputing a room makes counters, servers and local users true; two faulty scans.
  \<^item> \<open>AccountData\<close>: \<^verbatim>\<open>key_value/account_data.rs\<close>, a round trip.
  \<^item> \<open>Edus\<close>: read receipts, presence and typing (\<^verbatim>\<open>rooms/edus\<close> of the storage layer and of the
    services). Shown: a receipt replaces exactly the user's earlier one, listing is complete after a
    position, maintenance drops exactly the users whose timeout passed.
  \<^item> \<open>Delivery\<close>: one outgoing request, \<open>handle_events\<close> of \<^verbatim>\<open>service/sending/mod.rs\<close> with the notices of
    \<^verbatim>\<open>service/pusher/mod.rs\<close>. What the other side answers is a parameter, and each transmission is recorded
    with its answer; a request reads one snapshot of the tables. Shown: a successful request has
    transmitted its events, except where the code leaves them out; the answers of push gateways are ignored.
  \<^item> \<open>Sending\<close>: the outgoing queue (\<^verbatim>\<open>key_value/sending.rs\<close>) and the sender task
    (\<^verbatim>\<open>service/sending/mod.rs\<close>) as a step relation over queueing, receiving, success, failure, panics and
    restart, with a request ending as \<open>Delivery\<close> says for some answers. Shown: no event accepted for a
    server or an application service is lost, one request per destination, the back-off between
    retries, request keys round-trip.
  \<^item> \<open>Text\<close>: characters, splitting, trimming and \<open>HtmlEscape\<close> (\<^verbatim>\<open>utils/mod.rs\<close>). Shown: escaped text is
    free of markup characters.
  \<^item> \<open>Search\<close>: \<open>common_elements\<close> (\<^verbatim>\<open>utils/mod.rs\<close>) and its clients, the message index
    (\<^verbatim>\<open>rooms/search.rs\<close>) and shared rooms (\<^verbatim>\<open>rooms/user.rs\<close>). The locale \<open>total_check\<close> is what the
    single pass needs of a comparison; both orders the code uses provide it. Shown: it computes the
    intersection, a search is exact, shared rooms are those all users joined.
  \<^item> \<open>RoomMeta\<close>: aliases, directory, lazy loading, notification counts, relations and threads
    (\<^verbatim>\<open>rooms/alias.rs\<close>, \<^verbatim>\<open>directory.rs\<close>, \<^verbatim>\<open>metadata.rs\<close>, \<^verbatim>\<open>lazy_load.rs\<close>, \<^verbatim>\<open>user.rs\<close>, \<^verbatim>\<open>pdu_metadata.rs\<close>,
    \<^verbatim>\<open>threads.rs\<close>). Shown: the unread counters are exact, the tables stay typed, aliases resolve, the admin room is protected,
    relations are listed completely, lazy loading marks are exact; removing one alias forgets the
    list of all.
  \<^item> \<open>RoomRoutes\<close>: the handlers of \<^verbatim>\<open>read_marker.rs\<close>, \<^verbatim>\<open>typing.rs\<close>, \<^verbatim>\<open>presence.rs\<close>, \<^verbatim>\<open>tag.rs\<close>,
    \<^verbatim>\<open>config.rs\<close>, \<^verbatim>\<open>filter.rs\<close> and \<^verbatim>\<open>openid.rs\<close> in \<^verbatim>\<open>api/client_server\<close>. Shown: both endpoints for read markers
    agree, a private receipt has its effect or a stated error, editing tags is exact, presence is never
    found; an OpenID token is issued for any user asked for.
  \<^item> \<open>Uiaa\<close>: interactive authentication (\<^verbatim>\<open>key_value/uiaa.rs\<close>, \<^verbatim>\<open>service/uiaa/mod.rs\<close>) and the device,
    password and deactivation handlers behind it. Shown: a session completes only after the stages of
    a flow, a refusal changes nothing, a password change logs the other devices out; the password
    stage is not bound to the account.
  \<^item> \<open>AppService\<close>: registrations of application services (\<^verbatim>\<open>key_value/appservice.rs\<close>,
    \<^verbatim>\<open>service/appservice/mod.rs\<close>), transaction ids and pushers, on the record \<open>services_db\<close>. Shown: start-up
    rebuilds the memory of the running server; a transaction id finds its stored answer.
  \<^item> \<open>KeyBackups\<close>: \<^verbatim>\<open>key_value/key_backups.rs\<close>, on the record \<open>backups_db\<close> that extends
    \<open>globals_db\<close>. Shown: adding and deleting are exact per backup; deleting one session deletes those
    whose id continues its own, and the latest version is the greatest as text, not as a number.
  \<^item> \<open>BackupRoutes\<close>: the handlers of \<^verbatim>\<open>api/client_server/backup.rs\<close>. Shown: once a version is greater as
    text, keys for the newest version are refused.
  \<^item> \<open>Media\<close>, \<open>MediaPurge\<close>, \<open>MediaRetention\<close>: the media tables (\<^verbatim>\<open>key_value/media.rs\<close>), on the record
    \<open>media_db\<close>, which stands alone, and the retention policies (\<^verbatim>\<open>config/mod.rs\<close>). The invariant \<open>media_ok\<close>
    says that each media table and its index by digest agree. Shown: files and thumbnails read back;
    a block covers exactly the content; a forced purge deletes exactly a digest and lifts no block; a
    purge of one id spares shared files but leaks thumbnails; unblocking lifts the blocks on stored
    content but not on unknown media; the space limit holds after room was made; which policy each
    scope has, where the policy without scope is not the default it is documented to be.
  \<^item> \<open>MediaService\<close>: \<^verbatim>\<open>service/media/mod.rs\<close> over the tables and the file-system backend, a list of
    directories and files by path (\<open>media_state\<close>). Shown: an upload is served back, paths of digests are
    distinct, thumbnails fit their box, and a digest deleted twice is reported as an error.
  \<^item> \<open>SolanaAuth\<close>: \<^verbatim>\<open>api/client_server/solana_auth.rs\<close> as a step relation over the two endpoints.
    Shown: no nonce is accepted more often than issued, or after five minutes; logins are sound.
  \<^item> \<open>Session\<close>: \<^verbatim>\<open>api/client_server/session.rs\<close>. Shown: the issued token authenticates as the user
    and device of the response; wallet accounts are marked as deactivated.
  \<^item> \<open>Registry\<close>: the on-chain program. Shown: only the signer changes its delegation.

  \<^bold>\<open>Not modelled.\<close> Event authorisation, state resolution, signatures and federation
  (\<^verbatim>\<open>rooms/event_handler\<close>, \<^verbatim>\<open>api/server_server.rs\<close>), which are asynchronous and mostly calls into ruma;
  the S3 backend of media, the HTTP requests themselves, admin commands, most of the configuration and
  start-up, which are input and output; the evaluation of push rules, which is ruma's; the batching of
  auth chains over several events; registration and the other request handlers. Concurrency is modelled where the
  code serialises it by a lock (the nonce store); elsewhere operations are taken one at a time.
\<close>

end
